(* ===== verification/Prelude.thy ===== *)
theory Prelude
  imports Main "HOL-Library.Word"
begin

unbundle bit_operations_syntax

text \<open>
  Shared vocabulary of the development.

  The program is C++ compiled for a 64-bit little-endian machine: \<open>uint8_t\<close> to
  \<open>uint64_t\<close>, \<open>size_t\<close> and pointers are words of their width, so that every
  addition, subtraction and narrowing conversion wraps or truncates as it does in the
  source.  Memory is a total function from addresses to bytes.

  The theory also holds the generic facts on bytes, memory regions and word arithmetic
  that the component theories use.
\<close>

section \<open>Machine types\<close>

type_synonym u8 = "8 word"
type_synonym u16 = "16 word"
type_synonym u32 = "32 word"
type_synonym u64 = "64 word"
type_synonym addr = "64 word"
type_synonym mem = "addr \<Rightarrow> u8"

text \<open>
  A run of the program can end in a fault.  An integer division by zero traps,
  \<open>abort ()\<close> is called, an \<open>assert\<close> fails (the build does not define
  \<open>NDEBUG\<close>, so assertions are active), a null pointer is dereferenced, a deleted object is used,
  or an exception escapes.  A fallible operation returns
  \<open>Inl fault\<close> or \<open>Inr result\<close>.
\<close>

datatype fault = DivByZero | Abort | AssertFailed | NullDeref | UseAfterFree | Throw

type_synonym 'a outcome = "fault + 'a"

text \<open>Sequential composition: a fault ends the run.\<close>

definition obind :: "'a outcome \<Rightarrow> ('a \<Rightarrow> 'b outcome) \<Rightarrow> 'b outcome" where
  "obind r f = (case r of Inl e \<Rightarrow> Inl e | Inr x \<Rightarrow> f x)"

lemma obind_simps [simp]: "obind (Inl e) f = Inl e" "obind (Inr x) f = f x"
  by (simp_all add: obind_def)

lemma obind_eq_Inr: "obind r f = Inr y \<longleftrightarrow> (\<exists>x. r = Inr x \<and> f x = Inr y)"
  by (cases r) auto

text \<open>The public \<open>Buffer\<close> struct: an address and a length.\<close>

record buffer =
  buf_addr :: addr
  buf_length :: u64

section \<open>Named collections\<close>

named_theorems mem_simps \<open>reading and writing byte memory\<close>
named_theorems sn_simps \<open>24-bit sequence numbers\<close>

section \<open>Words as natural numbers\<close>

lemma unat_less_length: "unat (w :: 'a::len word) < 2 ^ LENGTH('a)"
  by (rule unsigned_less)

lemma unat_u16_less: "unat (x :: u16) < 65536"
  using unat_less_length[of x] by simp

lemma unat_u32_less: "unat (x :: u32) < 2 ^ 32"
  using unat_less_length[of x] by simp

lemma unat_u64_less: "unat (x :: u64) < 2 ^ 64"
  using unat_less_length[of x] by simp

lemma unat_ucast_up:
  assumes "LENGTH('a) \<le> LENGTH('b)"
  shows "unat (ucast (x :: 'a::len word) :: 'b::len word) = unat x"
proof -
  have "unat x < 2 ^ LENGTH('b)"
    using unat_less_length[of x] assms by (meson less_le_trans one_le_numeral power_increasing)
  then show ?thesis by (simp add: unsigned_ucast_eq take_bit_nat_eq_self_iff)
qed

lemma unat_ucast_32_64 [simp]: "unat (ucast (x :: u32) :: u64) = unat x"
  by (rule unat_ucast_up) simp

lemma unat_ucast_16_64 [simp]: "unat (ucast (x :: u16) :: u64) = unat x"
  by (rule unat_ucast_up) simp

lemma unat_ucast_16_32 [simp]: "unat (ucast (x :: u16) :: u32) = unat x"
  by (rule unat_ucast_up) simp

lemma unat_sub_gt: "\<not> x \<le> y \<Longrightarrow> unat (x - y :: 'a::len word) = unat x - unat y \<and> unat y < unat x"
  by (simp add: unat_sub not_le word_less_nat_alt[symmetric])

lemma ucast_ucast_u32: "unat (x :: u64) < 2 ^ 32 \<Longrightarrow> (ucast (ucast x :: u32) :: u64) = x"
  by (simp add: word_unat_eq_iff unsigned_ucast_eq unsigned_take_bit_eq take_bit_nat_eq_self_iff)

section \<open>Lists\<close>

lemma distinct_filter_nth:
  "distinct (filter P xs) \<Longrightarrow> i < length xs \<Longrightarrow> j < length xs \<Longrightarrow> P (xs ! i) \<Longrightarrow> xs ! i = xs ! j \<Longrightarrow> i = j"
proof (induction xs arbitrary: i j)
  case (Cons x xs)
  then show ?case by (cases i; cases j) (auto split: if_splits)
qed simp

section \<open>Bytes of a word, least significant first\<close>

primrec bytes_of :: "nat \<Rightarrow> 'a::len word \<Rightarrow> u8 list" where
  "bytes_of 0 w = []"
| "bytes_of (Suc n) w = ucast w # bytes_of n (drop_bit 8 w)"

primrec of_bytes :: "u8 list \<Rightarrow> 'a::len word" where
  "of_bytes [] = 0"
| "of_bytes (b # bs) = ucast b OR push_bit 8 (of_bytes bs)"

lemma length_bytes_of [simp]: "length (bytes_of n w) = n"
  by (induction n arbitrary: w) auto

lemma bytes_of_numeral:
  "bytes_of 2 w = [ucast w, ucast (drop_bit 8 w)]"
  "bytes_of 4 w = [ucast w, ucast (drop_bit 8 w), ucast (drop_bit 16 w), ucast (drop_bit 24 w)]"
proof -
  have "bytes_of (Suc (Suc 0)) w = [ucast w, ucast (drop_bit 8 w)]" by simp
  then show "bytes_of 2 w = [ucast w, ucast (drop_bit 8 w)]" by (simp only: numeral_2_eq_2)
  have "bytes_of (Suc (Suc (Suc (Suc 0)))) w =
      [ucast w, ucast (drop_bit 8 w), ucast (drop_bit 16 w), ucast (drop_bit 24 w)]" by simp
  moreover have "4 = Suc (Suc (Suc (Suc 0)))" by simp
  ultimately show "bytes_of 4 w =
      [ucast w, ucast (drop_bit 8 w), ucast (drop_bit 16 w), ucast (drop_bit 24 w)]" by metis
qed

lemma of_bytes_bytes_of: "of_bytes (bytes_of n w) = take_bit (8 * n) w"
proof (induction n arbitrary: w)
  case (Suc n)
  show ?case
    by (rule bit_eqI) (auto simp: Suc.IH bit_simps algebra_simps)
qed simp

lemma take_bit_full_word: "LENGTH('a) \<le> n \<Longrightarrow> take_bit n (w :: 'a::len word) = w"
  by (rule bit_eqI) (auto simp: bit_take_bit_iff dest: bit_imp_le_length)

lemma of_bytes_bytes_of_full [simp]:
  "LENGTH('a) \<le> 8 * n \<Longrightarrow> of_bytes (bytes_of n (w :: 'a::len word)) = w"
  by (simp add: of_bytes_bytes_of take_bit_full_word)

section \<open>Byte memory\<close>

primrec mem_write :: "mem \<Rightarrow> addr \<Rightarrow> u8 list \<Rightarrow> mem" where
  "mem_write m a [] = m"
| "mem_write m a (b # bs) = mem_write (m(a := b)) (a + 1) bs"

primrec mem_read :: "mem \<Rightarrow> addr \<Rightarrow> nat \<Rightarrow> u8 list" where
  "mem_read m a 0 = []"
| "mem_read m a (Suc n) = m a # mem_read m (a + 1) n"

definition region :: "addr \<Rightarrow> nat \<Rightarrow> addr set" where
  "region a n = {x. unat (x - a) < n}"

text \<open>\<open>memmove (dst, src, n)\<close>: the bytes are read before any is written.\<close>

definition memmove :: "mem \<Rightarrow> addr \<Rightarrow> addr \<Rightarrow> nat \<Rightarrow> mem" where
  "memmove m dst src n = mem_write m dst (mem_read m src n)"

definition load16 :: "mem \<Rightarrow> addr \<Rightarrow> u16" where
  "load16 m a = of_bytes (mem_read m a 2)"

definition load32 :: "mem \<Rightarrow> addr \<Rightarrow> u32" where
  "load32 m a = of_bytes (mem_read m a 4)"

definition load64 :: "mem \<Rightarrow> addr \<Rightarrow> u64" where
  "load64 m a = of_bytes (mem_read m a 8)"

definition store16 :: "mem \<Rightarrow> addr \<Rightarrow> u16 \<Rightarrow> mem" where
  "store16 m a w = mem_write m a (bytes_of 2 w)"

definition store32 :: "mem \<Rightarrow> addr \<Rightarrow> u32 \<Rightarrow> mem" where
  "store32 m a w = mem_write m a (bytes_of 4 w)"

definition store64 :: "mem \<Rightarrow> addr \<Rightarrow> u64 \<Rightarrow> mem" where
  "store64 m a w = mem_write m a (bytes_of 8 w)"

lemma length_mem_read [simp]: "length (mem_read m a n) = n"
  by (induction n arbitrary: a) auto

lemma mem_read_numeral: "mem_read m a (numeral k) = m a # mem_read m (a + 1) (pred_numeral k)"
  by (simp add: numeral_eq_Suc)

lemma region_0 [simp]: "region a 0 = {}"
  by (simp add: region_def)

lemma unat_minus_Suc:
  fixes x a :: "64 word"
  assumes "x \<noteq> a"
  shows "Suc (unat (x - (a + 1))) = unat (x - a)"
proof -
  have nz: "x - a \<noteq> 0" using assms by simp
  have "unat ((x - a) - 1) = unat (x - a) - 1" by (rule unat_minus_one [OF nz])
  moreover have "0 < unat (x - a)" using nz by (simp only: unat_gt_0 not_False_eq_True)
  moreover have eq: "x - (a + 1) = (x - a) - 1" by simp
  ultimately show ?thesis unfolding eq by linarith
qed

lemma region_SucD: "x \<in> region a (Suc n) \<Longrightarrow> x = a \<or> x \<in> region (a + 1) n"
  using unat_minus_Suc[of x a] unfolding region_def mem_Collect_eq by (cases "x = a") linarith+

lemma region_Suc: "n < 2 ^ 64 \<Longrightarrow> region a (Suc n) = insert a (region (a + 1) n)"
proof (rule set_eqI)
  fix x assume n: "n < 2 ^ 64"
  show "(x \<in> region a (Suc n)) = (x \<in> insert a (region (a + 1) n))"
    using unat_minus_Suc[of x a] n unfolding region_def insert_iff mem_Collect_eq
    by (cases "x = a") (simp, linarith)
qed

lemma region_head: "0 < n \<Longrightarrow> a \<in> region a n"
  by (simp add: region_def)

lemma region_next: "n < 2 ^ 64 \<Longrightarrow> a \<notin> region (a + 1) n"
proof -
  assume "n < 2 ^ 64"
  moreover have "unat (a - (a + 1)) = 2 ^ 64 - 1"
    by (simp add: unsigned_minus_1_eq_mask mask_eq_exp_minus_1)
  ultimately show ?thesis by (simp add: region_def)
qed

lemma region_next_subset: "region (a + 1) n \<subseteq> region a (Suc n)"
proof
  fix x assume "x \<in> region (a + 1) n"
  then show "x \<in> region a (Suc n)"
    using unat_minus_Suc[of x a] unfolding region_def mem_Collect_eq
    by (cases "x = a") (simp, linarith)
qed

lemma mem_write_outside [mem_simps]:
  "x \<notin> region a (length bs) \<Longrightarrow> mem_write m a bs x = m x"
proof (induction bs arbitrary: m a)
  case (Cons b bs)
  then have "x \<noteq> a" by (auto simp: region_head)
  moreover have "x \<notin> region (a + 1) (length bs)"
    using Cons.prems region_next_subset by fastforce
  ultimately show ?case using Cons.IH by simp
qed simp

lemma mem_read_cong:
  "(\<And>x. x \<in> region a n \<Longrightarrow> m x = m' x) \<Longrightarrow> mem_read m a n = mem_read m' a n"
proof (induction n arbitrary: a)
  case (Suc n)
  have "m a = m' a" using Suc.prems by (simp add: region_head)
  moreover have "mem_read m (a + 1) n = mem_read m' (a + 1) n"
    using region_next_subset by (intro Suc.IH Suc.prems) blast
  ultimately show ?case by simp
qed simp

lemma mem_read_write_same [mem_simps]:
  "length bs \<le> 2 ^ 64 \<Longrightarrow> mem_read (mem_write m a bs) a (length bs) = bs"
proof (induction bs arbitrary: m a)
  case (Cons b bs)
  then have "a \<notin> region (a + 1) (length bs)" by (intro region_next) simp
  with Cons show ?case by (simp add: mem_write_outside)
qed simp

lemma mem_read_write_disjoint [mem_simps]:
  "region a n \<inter> region b (length bs) = {} \<Longrightarrow> mem_read (mem_write m b bs) a n = mem_read m a n"
  by (rule mem_read_cong) (auto intro: mem_write_outside)

lemma mem_read_append: "mem_read m a (n + k) = mem_read m a n @ mem_read m (a + of_nat n) k"
  by (induction n arbitrary: a) (auto simp: add.assoc)

lemma mem_write_append: "mem_write m a (bs @ cs) = mem_write (mem_write m a bs) (a + of_nat (length bs)) cs"
  by (induction bs arbitrary: m a) (auto simp: add.assoc)

lemma load_store64_same [simp]: "load64 (store64 m a w) a = w"
  using mem_read_write_same[of "bytes_of 8 w" m a]
  by (simp add: load64_def store64_def)

lemma load_store64_disjoint [mem_simps]:
  "region a 8 \<inter> region b 8 = {} \<Longrightarrow> load64 (store64 m b w) a = load64 m a"
  using mem_read_write_disjoint[of a 8 b "bytes_of 8 w" m]
  by (simp add: load64_def store64_def)

lemma load64_write_disjoint [mem_simps]:
  "region a 8 \<inter> region b (length bs) = {} \<Longrightarrow> load64 (mem_write m b bs) a = load64 m a"
  by (simp add: load64_def mem_read_write_disjoint)

end
