(* ===== verification/SeqRing.thy ===== *)
theory SeqRing
  imports Prelude
begin

text \<open>
  Sequence numbers and ring indices of
  \<open>src/src/protocols/rdma_unreliable/packet_manager.{h,cpp}\<close>.

  Queues count packets with 64-bit indices; the wire carries the low 24 bits
  (\<open>SHORT_SN\<close>).  This theory holds the cyclic arithmetic on these numbers that the
  send queue, the multicast send queue and the receive queue share: what a 24-bit
  acknowledgement number means (\<open>ack_advance\<close>), which 24-bit numbers lie in the
  receive window (\<open>in_window\<close>), and when the slot index \<open>% queue_capacity_\<close> of a
  packet can be computed from its 24-bit number.
\<close>

section \<open>Short sequence numbers\<close>

definition SHORT_SN :: "u64 \<Rightarrow> u32" where
  "SHORT_SN x = (ucast x :: u32) AND 0xffffff"

lemma unat_SHORT_SN: "unat (SHORT_SN x) = unat x mod 2 ^ 24"
proof -
  have "SHORT_SN x = take_bit 24 (ucast x :: u32)"
    by (simp add: SHORT_SN_def take_bit_eq_mask mask_numeral)
  also have "unat \<dots> = take_bit 24 (unat (ucast x :: u32))"
    by (simp add: unsigned_take_bit_eq)
  also have "\<dots> = unat x mod 2 ^ 24"
    by (simp add: unsigned_ucast_eq take_bit_eq_mod mod_mod_cancel)
  finally show ?thesis .
qed

lemma unat_SHORT_SN_less: "unat (SHORT_SN x) < 2 ^ 24"
  by (simp add: unat_SHORT_SN)

lemma unat_SHORT_SN_less' [simp]: "unat (SHORT_SN x) < 16777216"
  using unat_SHORT_SN_less[of x] by simp

lemma unat_add_of_nat: "unat (x + of_nat k :: u64) = (unat x + k) mod 2 ^ 64"
  by (simp add: unat_word_ariths unat_of_nat mod_simps)

lemma unat_SHORT_SN_add: "unat (SHORT_SN (x + of_nat k)) = (unat (SHORT_SN x) + k) mod 2 ^ 24"
  by (simp add: unat_SHORT_SN unat_add_of_nat mod_mod_cancel mod_add_left_eq)

lemma add_mod_cases:
  fixes t k N :: nat
  assumes "t < N" "k < N"
  shows "(t + k) mod N = (if t + k < N then t + k else t + k - N)"
  using assms by (simp add: mod_if)

lemma SHORT_SN_inj:
  assumes "SHORT_SN (x + of_nat i) = SHORT_SN (x + of_nat j)" "i < 2 ^ 24" "j < 2 ^ 24"
  shows "i = j"
proof -
  let ?t = "unat (SHORT_SN x)"
  have t: "?t < 2 ^ 24" by (rule unat_SHORT_SN_less)
  have "(?t + i) mod 2 ^ 24 = (?t + j) mod 2 ^ 24"
    using arg_cong[OF assms(1), of unat] by (simp only: unat_SHORT_SN_add)
  then show ?thesis
    using t assms(2,3) unfolding add_mod_cases[OF t assms(2)] add_mod_cases[OF t assms(3)]
    by (auto split: if_splits)
qed

lemma SHORT_SN_eq_iff:
  "unat sn < 2 ^ 24 \<Longrightarrow> SHORT_SN (x + of_nat k) = sn \<longleftrightarrow> (unat (SHORT_SN x) + k) mod 2 ^ 24 = unat sn"
  by (metis unat_SHORT_SN_add word_unat_eq_iff)

lemma index_diff: "(x :: u64) = y + of_nat (unat (x - y))"
  by simp

section \<open>Cumulative acknowledgements\<close>

text \<open>
  The tail update of \<open>SendQueue::markCompleted\<close> and
  \<open>McastSendQueue::markCompleted\<close>, statement by statement.
\<close>

definition ack_advance :: "u64 \<Rightarrow> u64 \<Rightarrow> u32 \<Rightarrow> u64" where
  "ack_advance tail64 head64 ack_sn =
     (let tail = SHORT_SN tail64; head = SHORT_SN head64 in
      if tail \<le> head \<and> tail \<le> ack_sn \<and> ack_sn \<le> head
      then tail64 + ucast (ack_sn - tail)
      else if tail > head \<and> ack_sn \<le> head
      then head64 - ucast (head - ack_sn)
      else if tail > head \<and> ack_sn \<ge> tail
      then tail64 + ucast (ack_sn - tail)
      else tail64)"

text \<open>The reference meaning: the index in \<open>[tail, head]\<close> whose short number is \<open>ack\<close>.\<close>

definition acked_index :: "u64 \<Rightarrow> u64 \<Rightarrow> u32 \<Rightarrow> nat option" where
  "acked_index tail head ack = List.find (\<lambda>k. SHORT_SN (tail + of_nat k) = ack) [0..<Suc (unat (head - tail))]"

lemma acked_index_Some:
  assumes "SHORT_SN (tail + of_nat k) = ack" "k \<le> unat (head - tail)" "unat (head - tail) < 2 ^ 24"
  shows "acked_index tail head ack = Some k"
proof -
  have "\<forall>j<k. SHORT_SN (tail + of_nat j) \<noteq> ack"
    using SHORT_SN_inj[of tail _ k] assms by fastforce
  with assms(1,2) show ?thesis
    unfolding acked_index_def find_Some_iff
    by (intro exI[of _ k]) (auto simp del: upt_Suc)
qed

lemma acked_index_None:
  "acked_index tail head ack = None \<longleftrightarrow> (\<forall>k\<le>unat (head - tail). SHORT_SN (tail + of_nat k) \<noteq> ack)"
  by (auto simp: acked_index_def find_None_iff less_Suc_eq_le simp del: upt_Suc)

lemma acked_index_le: "acked_index tail head ack = Some k \<Longrightarrow> k \<le> unat (head - tail)"
  by (auto simp: acked_index_def find_Some_iff simp del: upt_Suc)

lemma unat_diff_u32: "y \<le> x \<Longrightarrow> unat (x - y :: u32) = unat x - unat y"
  by (simp add: unat_sub)

lemma ucast_diff_u32: "y \<le> x \<Longrightarrow> (ucast (x - y :: u32) :: u64) = of_nat (unat x - unat y)"
proof -
  assume "y \<le> x"
  then have "unat (ucast (x - y) :: u64) = unat x - unat y" by (simp add: unat_diff_u32)
  then have "of_nat (unat (ucast (x - y) :: u64)) = (of_nat (unat x - unat y) :: u64)" by (rule arg_cong)
  then show ?thesis by (simp only: of_nat_unat ucast_id)
qed

text \<open>
  With \<open>t\<close> the short number of the tail and \<open>n\<close> packets outstanding, the short number
  of the head is \<open>t + n\<close>, wrapped at most once.
\<close>

lemma SHORT_SN_cases:
  assumes "k < 2 ^ 24"
  shows "unat (SHORT_SN (x + of_nat k)) =
    (if unat (SHORT_SN x) + k < 2 ^ 24 then unat (SHORT_SN x) + k else unat (SHORT_SN x) + k - 2 ^ 24)"
  unfolding unat_SHORT_SN_add by (rule add_mod_cases) (use assms in simp_all)

lemma ack_advance_unat:
  "ack_advance tail head ack =
     (let t = unat (SHORT_SN tail); h = unat (SHORT_SN head); a = unat ack in
      if t \<le> h \<and> t \<le> a \<and> a \<le> h then tail + of_nat (a - t)
      else if h < t \<and> a \<le> h then head - of_nat (h - a)
      else if h < t \<and> t \<le> a then tail + of_nat (a - t)
      else tail)"
  by (simp add: ack_advance_def Let_def word_le_nat_alt word_less_nat_alt ucast_diff_u32)

lemma ack_advance_hit:
  assumes k: "k \<le> n" and n: "n < 2 ^ 24"
  shows "ack_advance tail (tail + of_nat n) (SHORT_SN (tail + of_nat k)) = tail + of_nat k"
proof -
  define t where "t = unat (SHORT_SN tail)"
  have t: "t < 2 ^ 24" by (simp add: t_def)
  have k': "k < 2 ^ 24" using k n by simp
  have h: "unat (SHORT_SN (tail + of_nat n)) = (if t + n < 2 ^ 24 then t + n else t + n - 2 ^ 24)"
    using SHORT_SN_cases[OF n] by (simp add: t_def)
  have a: "unat (SHORT_SN (tail + of_nat k)) = (if t + k < 2 ^ 24 then t + k else t + k - 2 ^ 24)"
    using SHORT_SN_cases[OF k'] by (simp add: t_def)
  have "of_nat n - of_nat (n - k) = (of_nat k :: u64)" using k by simp
  then have bk: "tail + of_nat n - of_nat (n - k) = tail + of_nat k" by (simp add: add_diff_eq [symmetric] del: of_nat_diff)
  show ?thesis
    using t k n bk unfolding ack_advance_unat Let_def h a t_def[symmetric]
    by (auto split: if_splits)
qed

lemma ack_advance_miss:
  assumes miss: "\<forall>k\<le>n. SHORT_SN (tail + of_nat k) \<noteq> ack" and n: "n < 2 ^ 24" and a: "unat ack < 2 ^ 24"
  shows "ack_advance tail (tail + of_nat n) ack = tail"
proof -
  define t where "t = unat (SHORT_SN tail)"
  have t: "t < 2 ^ 24" by (simp add: t_def)
  have h: "unat (SHORT_SN (tail + of_nat n)) = (if t + n < 2 ^ 24 then t + n else t + n - 2 ^ 24)"
    using SHORT_SN_cases[OF n] by (simp add: t_def)
  have no: "unat ack \<noteq> (if t + k < 2 ^ 24 then t + k else t + k - 2 ^ 24)" if "k \<le> n" for k
  proof
    assume "unat ack = (if t + k < 2 ^ 24 then t + k else t + k - 2 ^ 24)"
    then have "unat (SHORT_SN (tail + of_nat k)) = unat ack"
      using SHORT_SN_cases[of k tail] that n by (simp add: t_def)
    then have "SHORT_SN (tail + of_nat k) = ack" by (simp only: word_unat_eq_iff)
    with miss that show False by blast
  qed
  have "\<not> (t \<le> unat ack \<and> unat ack \<le> t + n)"
    using no[of "unat ack - t"] a by (auto simp: le_diff_conv)
  moreover have "\<not> unat ack \<le> t + n - 2 ^ 24" if "\<not> t + n < 2 ^ 24"
  proof
    assume "unat ack \<le> t + n - 2 ^ 24"
    then have "unat ack + 2 ^ 24 - t \<le> n" using that by linarith
    from no[OF this] show False using t by simp
  qed
  ultimately show ?thesis
    using t n a unfolding ack_advance_unat Let_def h t_def[symmetric]
    by (auto split: if_splits)
qed

lemma ack_advance_eq:
  assumes n: "unat (head - tail) < 2 ^ 24" and a: "unat ack < 2 ^ 24"
  shows "ack_advance tail head ack =
           (case acked_index tail head ack of Some k \<Rightarrow> tail + of_nat k | None \<Rightarrow> tail)"
proof (cases "\<exists>k\<le>unat (head - tail). SHORT_SN (tail + of_nat k) = ack")
  case True
  then obtain k where k: "k \<le> unat (head - tail)" "SHORT_SN (tail + of_nat k) = ack" by blast
  with ack_advance_hit[OF k(1) n, of tail] acked_index_Some[OF k(2,1) n] show ?thesis by simp
next
  case False
  with ack_advance_miss[of "unat (head - tail)" tail ack] n a acked_index_None[of tail head ack]
  show ?thesis by auto
qed

section \<open>The receive window\<close>

text \<open>
  The window test of \<open>ReceiveQueue::markCompleted\<close>: \<open>wnd_start = SHORT_SN (tail_)\<close>,
  \<open>wnd_end = SHORT_SN (tail_ + wnd_size_)\<close>, and the two early returns.
\<close>

definition in_window :: "u64 \<Rightarrow> u16 \<Rightarrow> u32 \<Rightarrow> bool" where
  "in_window tail wnd sn =
     (let wnd_start = SHORT_SN tail; wnd_end = SHORT_SN (tail + ucast wnd) in
      if wnd_start \<le> wnd_end then \<not> (sn < wnd_start \<or> sn \<ge> wnd_end)
      else \<not> (sn < wnd_start \<and> sn \<ge> wnd_end))"

lemma ucast_u16_u64: "(ucast (w :: u16) :: u64) = of_nat (unat w)"
  by (simp add: of_nat_unat)

lemma in_window_iff:
  assumes sn: "unat sn < 2 ^ 24"
  shows "in_window tail wnd sn \<longleftrightarrow> (\<exists>k<unat wnd. sn = SHORT_SN (tail + of_nat k))"
proof -
  define t where "t = unat (SHORT_SN tail)"
  define w where "w = unat wnd"
  have t: "t < 2 ^ 24" and w: "w < 2 ^ 24"
    using unat_u16_less[of wnd] by (simp_all add: t_def w_def)
  have e: "unat (SHORT_SN (tail + ucast wnd)) = (if t + w < 2 ^ 24 then t + w else t + w - 2 ^ 24)"
    using SHORT_SN_cases[OF w] by (simp add: t_def w_def ucast_u16_u64 del: of_nat_unat)
  have eq: "sn = SHORT_SN (tail + of_nat k) \<longleftrightarrow>
      unat sn = (if t + k < 2 ^ 24 then t + k else t + k - 2 ^ 24)" if "k < w" for k
    using SHORT_SN_cases[of k tail] that w by (simp add: word_unat_eq_iff t_def)
  have "(\<exists>k<w. sn = SHORT_SN (tail + of_nat k)) \<longleftrightarrow>
      (\<exists>k<w. unat sn = (if t + k < 2 ^ 24 then t + k else t + k - 2 ^ 24))"
    using eq by blast
  also have "\<dots> \<longleftrightarrow> (if t + w < 2 ^ 24 then t \<le> unat sn \<and> unat sn < t + w
      else t \<le> unat sn \<or> unat sn < t + w - 2 ^ 24)" (is "?L \<longleftrightarrow> ?R")
  proof
    show "?L \<Longrightarrow> ?R" using t w by (auto split: if_splits)
    assume ?R
    then show ?L
    proof (cases "t \<le> unat sn")
      case True
      with \<open>?R\<close> t w sn show ?thesis
        by (intro exI[of _ "unat sn - t"]) (auto split: if_splits)
    next
      case False
      with \<open>?R\<close> t w sn show ?thesis
        by (intro exI[of _ "unat sn + 2 ^ 24 - t"]) (auto split: if_splits)
    qed
  qed
  finally show ?thesis
    using t w sn unfolding in_window_def Let_def word_le_nat_alt word_less_nat_alt e
      t_def[symmetric] w_def[symmetric] by (auto split: if_splits)
qed

section \<open>Ring indices\<close>

text \<open>
  A queue stores packet \<open>i\<close> at slot \<open>i % queue_capacity_\<close>.  The receive queue finds
  that slot from the 24-bit number of an arriving packet, which agrees with the slot of the
  64-bit index when the capacity divides \<open>2 ^ 24\<close>.  The locale states this requirement on
  a capacity; the default capacity 4096 meets it.
\<close>

locale ring =
  fixes cap :: u64
  assumes cap_dvd: "unat cap dvd 2 ^ 24"
begin

lemma cap_pos: "0 < unat cap"
  using cap_dvd by (cases "unat cap = 0") auto

lemma cap_nonzero: "cap \<noteq> 0"
  using cap_pos by auto

lemma cap_le: "unat cap \<le> 2 ^ 24"
  using cap_dvd by (rule dvd_imp_le) simp

lemma cap_dvd64: "unat cap dvd 2 ^ 64"
  using cap_dvd by (rule dvd_trans) (simp add: le_imp_power_dvd)

lemma slot_add: "unat ((x + of_nat k) mod cap) = (unat x + k) mod unat cap"
  unfolding unat_mod unat_add_of_nat by (rule mod_mod_cancel[OF cap_dvd64])

lemma slot_less: "unat (x mod cap) < unat cap"
  using cap_pos by (simp add: unat_mod)

lemma slot_inj:
  assumes "unat ((x + of_nat i) mod cap) = unat ((x + of_nat j) mod cap)" "i < unat cap" "j < unat cap"
  shows "i = j"
proof -
  let ?c = "unat cap" and ?t = "unat x mod unat cap"
  have t: "?t < ?c" using cap_pos by simp
  have "(?t + i) mod ?c = (?t + j) mod ?c"
    using assms(1) by (simp add: slot_add mod_add_left_eq)
  then show ?thesis
    using t assms(2,3) unfolding add_mod_cases[OF t assms(2)] add_mod_cases[OF t assms(3)]
    by (auto split: if_splits)
qed

lemma slot_short: "unat (ucast (SHORT_SN x) mod cap) = unat (x mod cap)"
  unfolding unat_mod unat_ucast_32_64 unat_SHORT_SN by (rule mod_mod_cancel[OF cap_dvd])

end

interpretation default_ring: ring "4096 :: u64"
proof unfold_locales
  have "(2 ^ 24 :: nat) = unat (4096 :: u64) * 4096" by simp
  then show "unat (4096 :: u64) dvd 2 ^ 24" by (rule dvdI)
qed

end
