(* ===== verification/Packet.thy ===== *)
theory Packet
  imports SeqRing
begin

text \<open>
  Packet handles: \<open>PktHdrImm\<close>, \<open>PktHdr\<close> and \<open>PacketHandle\<close> of
  \<open>src/src/protocols/rdma_unreliable/packet_manager.{h,cpp}\<close>.

  A handle describes one packet buffer.  \<open>encode\<close> writes the 8-byte header into memory
  and the 4-byte immediate value into the handle, \<open>serialize\<close> lists the memory slices to
  transmit, \<open>deserialize\<close> and \<open>decode\<close> read a received buffer back.  The lemmas show
  that what the receiver decodes is what the sender encoded, field by field at the width
  the wire gives it.
\<close>

section \<open>The immediate header\<close>

text \<open>
  \<open>union PktHdrImm\<close>: a 32-bit value overlaid with bit fields.  The fields are allocated
  from the least significant bit of the first byte, as GCC does on little-endian machines.
\<close>

record pkt_hdr_imm =
  imm_session :: "6 word"
  imm_cmd :: "1 word"
  imm_compacted :: "1 word"
  imm_sn0 :: u8
  imm_sn1 :: u8
  imm_sn2 :: u8

definition imm_raw :: "pkt_hdr_imm \<Rightarrow> u32" where
  "imm_raw p =
     ucast (imm_session p) OR push_bit 6 (ucast (imm_cmd p)) OR push_bit 7 (ucast (imm_compacted p))
     OR push_bit 8 (ucast (imm_sn0 p)) OR push_bit 16 (ucast (imm_sn1 p)) OR push_bit 24 (ucast (imm_sn2 p))"

definition imm_of_raw :: "u32 \<Rightarrow> pkt_hdr_imm" where
  "imm_of_raw r =
     \<lparr>imm_session = ucast r, imm_cmd = ucast (drop_bit 6 r), imm_compacted = ucast (drop_bit 7 r),
      imm_sn0 = ucast (drop_bit 8 r), imm_sn1 = ucast (drop_bit 16 r), imm_sn2 = ucast (drop_bit 24 r)\<rparr>"

lemma imm_of_raw_raw [simp]: "imm_of_raw (imm_raw p) = p"
proof -
  have less6: "\<not> bit (x :: 6 word) n" if "6 \<le> n" for x n using that bit_imp_le_length[of x n] by auto
  have less1: "\<not> bit (x :: 1 word) n" if "1 \<le> n" for x n using that bit_imp_le_length[of x n] by auto
  have less8: "\<not> bit (x :: u8) n" if "8 \<le> n" for x n using that bit_imp_le_length[of x n] by auto
  have "ucast (imm_raw p) = imm_session p" "ucast (drop_bit 6 (imm_raw p)) = imm_cmd p"
    "ucast (drop_bit 7 (imm_raw p)) = imm_compacted p" "ucast (drop_bit 8 (imm_raw p)) = imm_sn0 p"
    "ucast (drop_bit 16 (imm_raw p)) = imm_sn1 p" "ucast (drop_bit 24 (imm_raw p)) = imm_sn2 p"
    by (rule bit_eqI; auto simp: imm_raw_def bit_simps less6 less1 less8)+
  then show ?thesis by (simp add: imm_of_raw_def)
qed

definition sizeof_PktHdr :: nat where
  "sizeof_PktHdr = 8"

definition kGRHSize :: nat where
  "kGRHSize = 40"

definition PKT_CMD_DATA :: u8 where
  "PKT_CMD_DATA = 0"

definition PKT_CMD_ACK :: u8 where
  "PKT_CMD_ACK = 1"

section \<open>Packet handles\<close>

record packet_handle =
  ph_session :: u8
  ph_cmd :: u8
  ph_wnd :: u16
  ph_sn :: u32
  ph_ts :: u64
  ph_compacted :: bool
  ph_inflight :: bool
  ph_pkt_hdr_imm :: u32
  ph_with_grh :: bool
  ph_packet_buf :: addr
  ph_data_len :: u32
  ph_data_buf :: addr

text \<open>
  The constructor sets only \<open>packet_buf\<close>; the other members keep whatever the memory
  held, which is the argument \<open>g\<close>.
\<close>

definition PacketHandle_new :: "packet_handle \<Rightarrow> packet_handle" where
  "PacketHandle_new g = g\<lparr>ph_packet_buf := 0\<rparr>"

definition setRawPacket :: "addr \<Rightarrow> bool \<Rightarrow> packet_handle \<Rightarrow> packet_handle" where
  "setRawPacket buf grh h =
     h\<lparr>ph_packet_buf := buf, ph_session := 0, ph_cmd := 0, ph_wnd := 0, ph_sn := 0, ph_ts := 0,
       ph_compacted := False, ph_inflight := False, ph_data_buf := 0, ph_data_len := 0,
       ph_pkt_hdr_imm := 0, ph_with_grh := grh\<rparr>"

definition payload_start :: "packet_handle \<Rightarrow> addr" where
  "payload_start h =
     ph_packet_buf h + of_nat sizeof_PktHdr + (if ph_with_grh h then of_nat kGRHSize else 0)"

definition setPayload :: "mem \<Rightarrow> addr \<Rightarrow> u64 \<Rightarrow> bool \<Rightarrow> packet_handle \<Rightarrow> int \<times> packet_handle \<times> mem" where
  "setPayload m data len do_copy h =
     (if ph_packet_buf h = 0 then (-1, h, m)
      else if data = 0 \<and> len \<noteq> 0 then (-1, h, m)
      else if do_copy
      then (0, h\<lparr>ph_data_buf := 0, ph_data_len := ucast len\<rparr>, memmove m (payload_start h) data (unat len))
      else (0, h\<lparr>ph_data_buf := data, ph_data_len := ucast len\<rparr>, m))"

definition getPayload :: "packet_handle \<Rightarrow> addr" where
  "getPayload h =
     (if ph_packet_buf h = 0 \<or> ph_data_len h = 0 then 0
      else if ph_data_buf h \<noteq> 0 then ph_data_buf h
      else payload_start h)"

definition encode :: "mem \<Rightarrow> packet_handle \<Rightarrow> int \<times> packet_handle \<times> mem" where
  "encode m h =
     (if ph_packet_buf h = 0 then (-1, h, m)
      else
        let p = \<lparr>imm_session = ucast (ph_session h AND 63), imm_cmd = ucast (ph_cmd h AND 1),
                 imm_compacted = (if ph_compacted h then 1 else 0),
                 imm_sn0 = ucast (ph_sn h AND 0xff), imm_sn1 = ucast (drop_bit 8 (ph_sn h) AND 0xff),
                 imm_sn2 = ucast (drop_bit 16 (ph_sn h) AND 0xff)\<rparr>;
            h' = h\<lparr>ph_pkt_hdr_imm := imm_raw p\<rparr>;
            b = ph_packet_buf h
        in if imm_compacted p = 0
           then (0, h', store32 (store16 (store16 m b (ph_wnd h))
                          (b + 2) (ucast (ph_ts h AND 0xffff)))
                          (b + 4) (ucast (drop_bit 16 (ph_ts h) AND 0xffffffff)))
           else (0, h', m))"

definition decode :: "mem \<Rightarrow> packet_handle \<Rightarrow> int \<times> packet_handle" where
  "decode m h =
     (if ph_packet_buf h = 0 then (-1, h)
      else
        let p = imm_of_raw (ph_pkt_hdr_imm h);
            hdr = ph_packet_buf h + (if ph_with_grh h then of_nat kGRHSize else 0);
            h1 = (if imm_compacted p = 0
                  then h\<lparr>ph_wnd := load16 m hdr,
                         ph_ts := push_bit 16 (ucast (load32 m (hdr + 4))) OR ucast (load16 m (hdr + 2))\<rparr>
                  else h)
        in (0, h1\<lparr>ph_session := ucast (imm_session p), ph_cmd := ucast (imm_cmd p),
                  ph_compacted := (imm_compacted p \<noteq> 0),
                  ph_sn := ucast (imm_sn0 p) OR push_bit 8 (ucast (imm_sn1 p)) OR push_bit 16 (ucast (imm_sn2 p)),
                  ph_data_buf := 0\<rparr>))"

definition deserialize :: "mem \<Rightarrow> u32 \<Rightarrow> u32 \<Rightarrow> packet_handle \<Rightarrow> int \<times> packet_handle" where
  "deserialize m imm_data packet_length h =
     (if ph_with_grh h then
        if unat packet_length < sizeof_PktHdr + kGRHSize then (-1, h)
        else decode m (h\<lparr>ph_pkt_hdr_imm := imm_data,
                         ph_data_len := packet_length - of_nat sizeof_PktHdr - of_nat kGRHSize\<rparr>)
      else
        if unat packet_length < sizeof_PktHdr then (-1, h)
        else decode m (h\<lparr>ph_pkt_hdr_imm := imm_data,
                         ph_data_len := packet_length - of_nat sizeof_PktHdr\<rparr>))"

text \<open>
  \<open>serialize\<close> fills the two-element slice array and the immediate value; on an error
  neither output is written (\<open>None\<close>).
\<close>

definition serialize :: "mem \<Rightarrow> packet_handle \<Rightarrow> int \<times> packet_handle \<times> mem \<times> (buffer \<times> buffer \<times> u32) option" where
  "serialize m h =
     (if ph_packet_buf h = 0 then (-1, h, m, None)
      else if ph_with_grh h then (-1, h, m, None)
      else case encode m h of (rc, h', m') \<Rightarrow>
        if rc \<noteq> 0 then (-1, h', m', None)
        else if ph_data_buf h' = 0 then
          (0, h', m', Some (\<lparr>buf_addr = ph_packet_buf h', buf_length = of_nat sizeof_PktHdr + ucast (ph_data_len h')\<rparr>,
                            \<lparr>buf_addr = 0, buf_length = 0\<rparr>, ph_pkt_hdr_imm h'))
        else
          (0, h', m', Some (\<lparr>buf_addr = ph_packet_buf h', buf_length = of_nat sizeof_PktHdr\<rparr>,
                            \<lparr>buf_addr = ph_data_buf h', buf_length = ucast (ph_data_len h')\<rparr>, ph_pkt_hdr_imm h')))"

text \<open>The overload that fills a vector instead of a two-element array.\<close>

definition serialize_vector :: "mem \<Rightarrow> packet_handle \<Rightarrow> int \<times> packet_handle \<times> mem \<times> (buffer list \<times> u32) option" where
  "serialize_vector m h =
     (if ph_packet_buf h = 0 then (-1, h, m, None)
      else if ph_with_grh h then (-1, h, m, None)
      else case encode m h of (rc, h', m') \<Rightarrow>
        if rc \<noteq> 0 then (-1, h', m', None)
        else if ph_data_buf h' = 0 then
          (0, h', m', Some ([\<lparr>buf_addr = ph_packet_buf h', buf_length = of_nat sizeof_PktHdr + ucast (ph_data_len h')\<rparr>],
                            ph_pkt_hdr_imm h'))
        else
          (0, h', m', Some ([\<lparr>buf_addr = ph_packet_buf h', buf_length = of_nat sizeof_PktHdr\<rparr>,
                             \<lparr>buf_addr = ph_data_buf h', buf_length = ucast (ph_data_len h')\<rparr>],
                            ph_pkt_hdr_imm h')))"

section \<open>The header bytes\<close>

definition header_bytes :: "packet_handle \<Rightarrow> u8 list" where
  "header_bytes h = bytes_of 2 (ph_wnd h) @ bytes_of 2 (ucast (ph_ts h AND 0xffff) :: u16)
                    @ bytes_of 4 (ucast (drop_bit 16 (ph_ts h) AND 0xffffffff) :: u32)"

lemma length_header_bytes [simp]: "length (header_bytes h) = 8"
  by (simp add: header_bytes_def)

lemma encode_mem:
  "ph_packet_buf h \<noteq> 0 \<Longrightarrow> snd (snd (encode m h)) =
     (if ph_compacted h then m else mem_write m (ph_packet_buf h) (header_bytes h))"
  by (simp add: encode_def Let_def header_bytes_def mem_write_append store16_def store32_def
      add.commute)

lemma encode_handle:
  "ph_packet_buf h \<noteq> 0 \<Longrightarrow> fst (encode m h) = 0 \<and>
     (\<exists>imm. fst (snd (encode m h)) = h\<lparr>ph_pkt_hdr_imm := imm\<rparr>)"
  by (auto simp: encode_def Let_def)

lemma masks_u32: "(0xff :: u32) = mask 8" "(0xffffff :: u32) = mask 24"
  and masks_u64: "(0xffff :: u64) = mask 16" "(0xffffffff :: u64) = mask 32"
  and masks_u8: "(63 :: u8) = mask 6" "(1 :: u8) = mask 1"
  by (simp_all add: mask_numeral)

lemma sn_bytes:
  "ucast (ucast (s AND 0xff) :: u8) OR push_bit 8 (ucast (ucast (drop_bit 8 s AND 0xff) :: u8))
   OR push_bit 16 (ucast (ucast (drop_bit 16 s AND 0xff) :: u8)) = (s :: u32) AND 0xffffff"
  (is "?l = ?r")
proof (rule bit_eqI)
  fix n
  show "bit ?l n = bit ?r n"
    unfolding masks_u32 by (cases "n < 16") (auto simp: bit_simps)
qed

lemma ts_parts:
  "push_bit 16 (ucast (ucast (drop_bit 16 t AND 0xffffffff) :: u32)) OR ucast (ucast (t AND 0xffff) :: u16)
   = take_bit 48 (t :: u64)"
  unfolding masks_u64 by (rule bit_eqI) (auto simp: bit_simps)

lemma session_bits: "(ucast (ucast ((s :: u8) AND 63) :: 6 word) :: u8) = s AND 63"
  and cmd_bits: "(ucast (ucast ((s :: u8) AND 1) :: 1 word) :: u8) = s AND 1"
  unfolding masks_u8 by (rule bit_eqI; auto simp: bit_simps)+

section \<open>Round trip\<close>

text \<open>
  The bytes a sender transmits for a handle: the header, then the payload, wherever it lies.
\<close>

definition payload_bytes :: "mem \<Rightarrow> packet_handle \<Rightarrow> u8 list" where
  "payload_bytes m h =
     mem_read m (if ph_data_buf h = 0 then ph_packet_buf h + 8 else ph_data_buf h) (unat (ph_data_len h))"

definition wire_bytes :: "mem \<Rightarrow> buffer \<Rightarrow> buffer \<Rightarrow> u8 list" where
  "wire_bytes m s0 s1 =
     mem_read m (buf_addr s0) (unat (buf_length s0)) @ mem_read m (buf_addr s1) (unat (buf_length s1))"

lemma serialize_ok:
  assumes "ph_packet_buf h \<noteq> 0" "\<not> ph_with_grh h"
  shows "\<exists>s0 s1. serialize m h =
    (0, fst (snd (encode m h)), snd (snd (encode m h)), Some (s0, s1, ph_pkt_hdr_imm (fst (snd (encode m h)))))
    \<and> wire_bytes m' s0 s1 = mem_read m' (ph_packet_buf h) 8 @ payload_bytes m' h"
proof -
  obtain imm where e: "encode m h = (0, h\<lparr>ph_pkt_hdr_imm := imm\<rparr>, snd (snd (encode m h)))"
    using encode_handle[OF assms(1), of m] by (metis prod.collapse)
  have "unat (8 + ucast (ph_data_len h) :: u64) = 8 + unat (ph_data_len h)"
    using unat_u32_less[of "ph_data_len h"] by (simp add: unat_word_ariths)
  then show ?thesis
    unfolding serialize_def using assms
    by (subst e, subst e, subst e, subst e)
       (auto simp: wire_bytes_def payload_bytes_def sizeof_PktHdr_def mem_read_append)
qed

lemma header_loads:
  assumes "mem_read m a 8 = header_bytes h"
  shows "load16 m a = ph_wnd h"
    and "push_bit 16 (ucast (load32 m (a + 4))) OR ucast (load16 m (a + 2)) = take_bit 48 (ph_ts h)"
proof -
  have "mem_read m a 8 = mem_read m a 2 @ mem_read m (a + 2) 2 @ mem_read m (a + 4) 4"
    using mem_read_append[of m a 2 6] mem_read_append[of m "a + 2" 2 4] by (simp add: add.assoc)
  then have "mem_read m a 2 = bytes_of 2 (ph_wnd h)"
    "mem_read m (a + 2) 2 = bytes_of 2 (ucast (ph_ts h AND 0xffff) :: u16)"
    "mem_read m (a + 4) 4 = bytes_of 4 (ucast (drop_bit 16 (ph_ts h) AND 0xffffffff) :: u32)"
    using assms by (simp_all add: header_bytes_def)
  then show "load16 m a = ph_wnd h"
    and "push_bit 16 (ucast (load32 m (a + 4))) OR ucast (load16 m (a + 2)) = take_bit 48 (ph_ts h)"
    using ts_parts[of "ph_ts h"] by (simp_all add: load16_def load32_def)
qed

lemma encode_imm_fields:
  assumes "ph_packet_buf h \<noteq> 0" and "p = imm_of_raw (ph_pkt_hdr_imm (fst (snd (encode m h))))"
  shows "ucast (imm_session p) = ph_session h AND 63" "ucast (imm_cmd p) = ph_cmd h AND 1"
    "imm_compacted p = (if ph_compacted h then 1 else 0)"
    "ucast (imm_sn0 p) OR push_bit 8 (ucast (imm_sn1 p)) OR push_bit 16 (ucast (imm_sn2 p)) = ph_sn h AND 0xffffff"
  using assms by (simp_all add: encode_def Let_def session_bits cmd_bits sn_bytes)

lemma serialize_success:
  assumes "serialize m h = (0, h', m', Some (s0, s1, imm))"
  shows "ph_packet_buf h \<noteq> 0" "\<not> ph_with_grh h"
    "m' = snd (snd (encode m h))" "imm = ph_pkt_hdr_imm (fst (snd (encode m h)))"
    "wire_bytes m' s0 s1 = mem_read m' (ph_packet_buf h) 8 @ payload_bytes m' h"
proof -
  show *: "ph_packet_buf h \<noteq> 0" "\<not> ph_with_grh h"
    using assms by (auto simp: serialize_def split: if_splits)
  from serialize_ok[OF this, of m m'] assms
  show "m' = snd (snd (encode m h))" "imm = ph_pkt_hdr_imm (fst (snd (encode m h)))"
    "wire_bytes m' s0 s1 = mem_read m' (ph_packet_buf h) 8 @ payload_bytes m' h"
    by auto
qed

lemma length_payload_bytes [simp]: "length (payload_bytes m h) = unat (ph_data_len h)"
  by (simp add: payload_bytes_def)

lemma deserialize_ok:
  assumes "rb \<noteq> 0" "unat len + 48 < 2 ^ 32"
  shows "\<exists>r. deserialize mr imm (of_nat (48 + unat len)) (setRawPacket rb True g) = (0, r)
     \<and> (let p = imm_of_raw imm in
        ph_session r = ucast (imm_session p) \<and> ph_cmd r = ucast (imm_cmd p)
        \<and> ph_compacted r = (imm_compacted p \<noteq> 0)
        \<and> ph_sn r = ucast (imm_sn0 p) OR push_bit 8 (ucast (imm_sn1 p)) OR push_bit 16 (ucast (imm_sn2 p))
        \<and> (imm_compacted p = 0 \<longrightarrow> ph_wnd r = load16 mr (rb + 40)
             \<and> ph_ts r = push_bit 16 (ucast (load32 mr (rb + 44))) OR ucast (load16 mr (rb + 42))))
     \<and> ph_data_len r = len \<and> (len \<noteq> 0 \<longrightarrow> getPayload r = rb + 48)"
proof -
  have u: "unat (of_nat (48 + unat len) :: u32) = 48 + unat len"
    using assms(2) by (subst unat_of_nat) simp
  moreover have "of_nat (48 + unat len) - 8 - 40 = (len :: u32)"
    by (simp add: of_nat_unat)
  ultimately show ?thesis using assms(1)
    by (simp add: deserialize_def setRawPacket_def sizeof_PktHdr_def kGRHSize_def decode_def Let_def
        getPayload_def payload_start_def add.commute add.assoc)
qed

text \<open>
  C9. What a sender serializes, a receiver deserializes.  If \<open>serialize\<close> succeeds and the
  transmitted bytes arrive behind the 40-byte routing header of the receiver's buffer, then
  \<open>deserialize\<close> succeeds and yields the session number modulo 64, the command bit, the
  24-bit sequence number, the compaction flag, the window and the 48-bit timestamp (for
  packets that are not compacted), the payload length and the payload bytes of the sender.
\<close>

theorem packet_roundtrip:
  assumes ser: "serialize m h = (0, h', m', Some (s0, s1, imm))"
    and len: "unat (ph_data_len h) + 48 < 2 ^ 32"
    and disj: "region (ph_packet_buf h) 8
                 \<inter> region (if ph_data_buf h = 0 then ph_packet_buf h + 8 else ph_data_buf h) (unat (ph_data_len h)) = {}"
    and rb: "rb \<noteq> 0"
    and rx: "mem_read mr (rb + 40) (length (wire_bytes m' s0 s1)) = wire_bytes m' s0 s1"
  shows "\<exists>r. deserialize mr imm (of_nat (40 + length (wire_bytes m' s0 s1))) (setRawPacket rb True g) = (0, r)
     \<and> ph_session r = ph_session h AND 63 \<and> ph_cmd r = ph_cmd h AND 1
     \<and> ph_sn r = ph_sn h AND 0xffffff \<and> ph_compacted r = ph_compacted h
     \<and> (\<not> ph_compacted h \<longrightarrow> ph_wnd r = ph_wnd h \<and> ph_ts r = take_bit 48 (ph_ts h))
     \<and> ph_data_len r = ph_data_len h
     \<and> mem_read mr (getPayload r) (unat (ph_data_len r)) = payload_bytes m h"
proof -
  note S = serialize_success[OF ser]
  let ?n = "unat (ph_data_len h)" and ?a = "if ph_data_buf h = 0 then ph_packet_buf h + 8 else ph_data_buf h"
  have m': "m' = (if ph_compacted h then m else mem_write m (ph_packet_buf h) (header_bytes h))"
    using encode_mem[OF S(1)] S(3) by simp
  have pay: "payload_bytes m' h = payload_bytes m h"
    using mem_read_write_disjoint[of ?a ?n "ph_packet_buf h" "header_bytes h" m] disj
    unfolding payload_bytes_def m' length_header_bytes Int_commute[of "region (ph_packet_buf h) 8"]
    by (cases "ph_compacted h") (simp_all only: if_True if_False not_False_eq_True)
  have "mem_read mr (rb + 40) (8 + ?n) = mem_read m' (ph_packet_buf h) 8 @ payload_bytes m h"
    using rx S(5) pay by simp
  then have hdr: "mem_read mr (rb + 40) 8 = mem_read m' (ph_packet_buf h) 8"
    and data: "mem_read mr (rb + 48) ?n = payload_bytes m h"
    by (simp_all add: mem_read_append add.assoc)
  have wl: "40 + length (wire_bytes m' s0 s1) = 48 + ?n" using S(5) by simp
  obtain r where r: "deserialize mr imm (of_nat (48 + ?n)) (setRawPacket rb True g) = (0, r)"
    and f: "let p = imm_of_raw imm in
        ph_session r = ucast (imm_session p) \<and> ph_cmd r = ucast (imm_cmd p)
        \<and> ph_compacted r = (imm_compacted p \<noteq> 0)
        \<and> ph_sn r = ucast (imm_sn0 p) OR push_bit 8 (ucast (imm_sn1 p)) OR push_bit 16 (ucast (imm_sn2 p))
        \<and> (imm_compacted p = 0 \<longrightarrow> ph_wnd r = load16 mr (rb + 40)
             \<and> ph_ts r = push_bit 16 (ucast (load32 mr (rb + 44))) OR ucast (load16 mr (rb + 42)))"
    and d: "ph_data_len r = ph_data_len h" "ph_data_len h \<noteq> 0 \<longrightarrow> getPayload r = rb + 48"
    using deserialize_ok[OF rb len, of mr imm g] by blast
  have hd: "load16 mr (rb + 40) = ph_wnd h
      \<and> push_bit 16 (ucast (load32 mr (rb + 44))) OR ucast (load16 mr (rb + 42)) = take_bit 48 (ph_ts h)"
    if "\<not> ph_compacted h"
  proof -
    have "mem_read mr (rb + 40) 8 = header_bytes h"
      using hdr that m' mem_read_write_same[of "header_bytes h"] by simp
    from header_loads[OF this] show ?thesis by (simp add: add.assoc)
  qed
  show ?thesis
    unfolding wl using r f hd d data encode_imm_fields[OF S(1), of "imm_of_raw imm" m] S(4)
    by (cases "ph_data_len h = 0") (auto simp: Let_def payload_bytes_def)
qed

definition test_handle :: packet_handle where
  "test_handle = \<lparr>ph_session = 3, ph_cmd = 1, ph_wnd = 4096, ph_sn = 0x5f1234, ph_ts = 77, ph_compacted = False,
     ph_inflight = False, ph_pkt_hdr_imm = 0, ph_with_grh = False, ph_packet_buf = 8192, ph_data_len = 2,
     ph_data_buf = 0\<rparr>"

definition test_mem :: mem where
  "test_mem = (\<lambda>_. 0)(8200 := 72, 8201 := 105)"

definition test_wire :: "u8 list" where
  "test_wire = [0, 16, 77, 0, 0, 0, 0, 0, 72, 105]"

lemma test_serialize:
  "\<exists>h' m' s0 s1. serialize test_mem test_handle = (0, h', m', Some (s0, s1, 0x5f123443))
     \<and> wire_bytes m' s0 s1 = test_wire"
proof -
  have buf: "ph_packet_buf test_handle \<noteq> 0" "\<not> ph_with_grh test_handle" by (simp_all add: test_handle_def)
  have m': "snd (snd (encode test_mem test_handle)) = mem_write test_mem 8192 (header_bytes test_handle)"
    using encode_mem[OF buf(1), of test_mem] by (simp add: test_handle_def)
  have imm: "ph_pkt_hdr_imm (fst (snd (encode test_mem test_handle))) = 0x5f123443"
    by (simp add: encode_def test_handle_def imm_raw_def Let_def)
  have "mem_read (mem_write test_mem 8192 (header_bytes test_handle)) 8192 8
      @ payload_bytes (mem_write test_mem 8192 (header_bytes test_handle)) test_handle = test_wire"
    by (simp add: payload_bytes_def header_bytes_def test_handle_def test_wire_def test_mem_def
        bytes_of_numeral mem_read_numeral)
  with serialize_ok[OF buf, of test_mem "mem_write test_mem 8192 (header_bytes test_handle)"] m' imm
  show ?thesis by (auto simp: test_handle_def)
qed

theorem packet_roundtrip_witness:
  "\<exists>r. deserialize (mem_write (\<lambda>_. 0) 4136 test_wire) 0x5f123443 50 (setRawPacket 4096 True test_handle) = (0, r)
     \<and> ph_session r = 3 \<and> ph_cmd r = 1 \<and> ph_sn r = 0x5f1234 \<and> ph_wnd r = 4096 \<and> ph_ts r = 77
     \<and> mem_read (mem_write (\<lambda>_. 0) 4136 test_wire) (getPayload r) 2 = [72, 105]"
proof -
  obtain h' m' s0 s1 where ser: "serialize test_mem test_handle = (0, h', m', Some (s0, s1, 0x5f123443))"
    and w: "wire_bytes m' s0 s1 = test_wire"
    using test_serialize by blast
  have "region 8192 8 \<inter> region 8200 2 = {}"
    by (auto simp: region_def unat_arith_simps) 
  then have disj: "region (ph_packet_buf test_handle) 8 \<inter> region (if ph_data_buf test_handle = 0
      then ph_packet_buf test_handle + 8 else ph_data_buf test_handle) (unat (ph_data_len test_handle)) = {}"
    by (simp add: test_handle_def)
  have len: "unat (ph_data_len test_handle) + 48 < 2 ^ 32" by (simp add: test_handle_def)
  have l: "length test_wire = 10" by (simp add: test_wire_def)
  have rx: "mem_read (mem_write (\<lambda>_. 0) 4136 test_wire) (4096 + 40) (length (wire_bytes m' s0 s1)) = wire_bytes m' s0 s1"
    using mem_read_write_same[of test_wire "\<lambda>_. 0" 4136] by (simp add: w l)
  have "payload_bytes test_mem test_handle = [72, 105]"
    by (simp add: payload_bytes_def test_handle_def test_mem_def mem_read_numeral)
  with packet_roundtrip[OF ser len disj _ rx, of test_handle] show ?thesis
    by (auto simp: w l test_handle_def)
qed

section \<open>Error paths and the two overloads\<close>

text \<open>
  \<open>serialize\<close> fails exactly for a handle without a buffer or with a routing-header
  area, and then writes nothing; \<open>deserialize\<close> fails exactly for a packet shorter than
  its headers or a handle without a buffer.
\<close>

lemma packet_errors:
  "(fst (serialize m h) = 0 \<longleftrightarrow> ph_packet_buf h \<noteq> 0 \<and> \<not> ph_with_grh h)
   \<and> (fst (serialize m h) \<noteq> 0 \<longleftrightarrow> serialize m h = (-1, h, m, None))
   \<and> (fst (deserialize m imm len h) = 0 \<longleftrightarrow>
        ph_packet_buf h \<noteq> 0 \<and> (if ph_with_grh h then 48 else 8) \<le> unat len)
   \<and> (fst (deserialize m imm len h) \<noteq> 0 \<longleftrightarrow> fst (deserialize m imm len h) = -1)"
  by (auto simp: serialize_def deserialize_def decode_def encode_def Let_def sizeof_PktHdr_def kGRHSize_def)

text \<open>
  The array overload and the vector overload of \<open>serialize\<close> agree: same return code,
  same handle and memory, same immediate value, and the vector holds the slices of the array
  without the null slice.
\<close>

lemma serialize_overloads_agree:
  "serialize_vector m h =
     (case serialize m h of (rc, h', m', out) \<Rightarrow>
        (rc, h', m', map_option (\<lambda>(s0, s1, imm). (filter (\<lambda>s. buf_addr s \<noteq> 0) [s0, s1], imm)) out))"
  by (auto simp: serialize_def serialize_vector_def encode_def Let_def split: prod.splits)

end
