(* ===== verification/BufferPool.thy ===== *)
theory BufferPool
  imports Packet "HOL-Library.Multiset"
begin

text \<open>
  \<open>PacketBufferPool\<close> of \<open>src/src/protocols/rdma_unreliable/packet_manager.{h,cpp}\<close>: an
  arena of \<open>max_packets\<close> slots of \<open>mtu_size\<close> bytes, with the free slots linked through
  their first eight bytes.  The operations are modelled on byte memory, so the free list is
  the chain of pointers stored in the arena itself.

  The lemmas relate the chain in memory to a list of slots (\<open>free_chain\<close>), show that
  construction links every slot, that allocation and release pop and push that list, and
  that writes of packet data into allocated slots leave it alone.
\<close>

section \<open>Model\<close>

record packet_buffer_pool =
  pool_mtu_size :: u64
  pool_max_packets :: u64
  pool_arena :: addr
  pool_global_free_buffer :: addr

definition PacketBufferPool_new :: "u64 \<Rightarrow> u64 \<Rightarrow> packet_buffer_pool" where
  "PacketBufferPool_new mtu_size max_packets =
     \<lparr>pool_mtu_size = mtu_size, pool_max_packets = max_packets, pool_arena = 0, pool_global_free_buffer = 0\<rparr>"

definition getCapacity :: "packet_buffer_pool \<Rightarrow> u64" where
  "getCapacity p = pool_mtu_size p * pool_max_packets p"

text \<open>One round of the loop of \<open>construct\<close>: link slot \<open>index\<close> in front of the list.\<close>

definition construct_link :: "nat \<Rightarrow> packet_buffer_pool \<times> mem \<Rightarrow> packet_buffer_pool \<times> mem" where
  "construct_link index = (\<lambda>(p, m).
     let ptr = pool_arena p + pool_mtu_size p * of_nat index in
     (p\<lparr>pool_global_free_buffer := ptr\<rparr>, store64 m ptr (pool_global_free_buffer p)))"

text \<open>
  \<open>construct\<close>.  The NUMA node of the device and \<open>numa_alloc_onnode\<close> are outside the
  program: \<open>arena\<close> is the address the allocator returns.
\<close>

definition pool_construct :: "addr \<Rightarrow> packet_buffer_pool \<Rightarrow> mem \<Rightarrow> int \<times> packet_buffer_pool \<times> mem" where
  "pool_construct arena p m =
     (0, fold construct_link [0..<unat (pool_max_packets p)] (p\<lparr>pool_arena := arena\<rparr>, m))"

definition pool_deconstruct :: "packet_buffer_pool \<Rightarrow> int \<times> packet_buffer_pool" where
  "pool_deconstruct p = (if pool_arena p \<noteq> 0 then (0, p\<lparr>pool_arena := 0\<rparr>) else (0, p))"

definition allocatePacket :: "mem \<Rightarrow> packet_buffer_pool \<Rightarrow> packet_handle \<Rightarrow> bool \<Rightarrow> int \<times> packet_buffer_pool \<times> packet_handle" where
  "allocatePacket m p h with_grh =
     (let packet_buf = pool_global_free_buffer p in
      if packet_buf = 0 then (-1, p, h)
      else (0, p\<lparr>pool_global_free_buffer := load64 m packet_buf\<rparr>, setRawPacket packet_buf with_grh h))"

definition freePacket :: "mem \<Rightarrow> packet_buffer_pool \<Rightarrow> packet_handle \<Rightarrow> int \<times> packet_buffer_pool \<times> mem" where
  "freePacket m p h =
     (let packet_buf = ph_packet_buf h in
      if packet_buf = 0 then (-1, p, m)
      else (0, p\<lparr>pool_global_free_buffer := packet_buf\<rparr>, store64 m packet_buf (pool_global_free_buffer p)))"

section \<open>The free list as a list of slots\<close>

fun free_chain :: "mem \<Rightarrow> addr \<Rightarrow> addr list \<Rightarrow> bool" where
  "free_chain m p [] = (p = 0)"
| "free_chain m p (x # xs) = (p = x \<and> x \<noteq> 0 \<and> free_chain m (load64 m x) xs)"

definition slot_addr :: "packet_buffer_pool \<Rightarrow> nat \<Rightarrow> addr" where
  "slot_addr p i = pool_arena p + pool_mtu_size p * of_nat i"

text \<open>
  A usable pool: slots hold at least the link pointer, and the arena is a non-null block that
  does not wrap around the address space.
\<close>

definition arena_ok :: "packet_buffer_pool \<Rightarrow> bool" where
  "arena_ok p \<longleftrightarrow> 8 \<le> unat (pool_mtu_size p) \<and> pool_arena p \<noteq> 0
     \<and> unat (pool_arena p) + unat (pool_mtu_size p) * unat (pool_max_packets p) \<le> 2 ^ 64"

definition slots :: "packet_buffer_pool \<Rightarrow> addr set" where
  "slots p = slot_addr p ` {..<unat (pool_max_packets p)}"

text \<open>The pool with free slots \<open>fs\<close>: the chain in memory lists them, each once.\<close>

definition pool_free :: "packet_buffer_pool \<Rightarrow> mem \<Rightarrow> addr list \<Rightarrow> bool" where
  "pool_free p m fs \<longleftrightarrow> arena_ok p \<and> free_chain m (pool_global_free_buffer p) fs
     \<and> distinct fs \<and> set fs \<subseteq> slots p"

text \<open>
  The pool in use: \<open>pool_run p m held\<close> are the states reached from a constructed pool by
  allocations, by releases of held buffers and by writes into held buffers, with \<open>held\<close>
  the buffers handed out and not yet released.
\<close>

inductive pool_run :: "packet_buffer_pool \<Rightarrow> mem \<Rightarrow> addr list \<Rightarrow> bool" where
  pool_start: "pool_construct arena (PacketBufferPool_new mtu n) m = (0, p, m') \<Longrightarrow> arena_ok p \<Longrightarrow> pool_run p m' []"
| pool_allocate: "pool_run p m held \<Longrightarrow> allocatePacket m p h grh = (0, p', h')
    \<Longrightarrow> pool_run p' m (ph_packet_buf h' # held)"
| pool_release: "pool_run p m held \<Longrightarrow> ph_packet_buf h \<in> set held \<Longrightarrow> freePacket m p h = (0, p', m')
    \<Longrightarrow> pool_run p' m' (remove1 (ph_packet_buf h) held)"
| pool_write: "pool_run p m held \<Longrightarrow> x \<in> set held \<Longrightarrow> region a (length bs) \<subseteq> region x (unat (pool_mtu_size p))
    \<Longrightarrow> pool_run p (mem_write m a bs) held"

section \<open>Slots do not overlap\<close>

lemma region_linear:
  assumes "unat a + n \<le> 2 ^ 64"
  shows "x \<in> region a n \<longleftrightarrow> unat a \<le> unat x \<and> unat x < unat a + n"
proof (cases "a \<le> x")
  case True
  then show ?thesis by (auto simp: region_def unat_sub word_le_nat_alt)
next
  case False
  then have lt: "unat x < unat a" by (simp add: word_le_nat_alt)
  have "unat (x - a) = unat x + 2 ^ 64 - unat a"
    using lt unat_u64_less[of a] by (simp add: unat_sub_if_size word_size)
  with lt assms show ?thesis by (auto simp: region_def)
qed

lemma unat_slot:
  assumes "arena_ok p" "i < unat (pool_max_packets p)"
  shows "unat (slot_addr p i) = unat (pool_arena p) + unat (pool_mtu_size p) * i"
    and "unat (slot_addr p i) + unat (pool_mtu_size p) \<le> 2 ^ 64"
proof -
  have "unat (pool_mtu_size p) * Suc i \<le> unat (pool_mtu_size p) * unat (pool_max_packets p)"
    using assms(2) by (intro mult_le_mono2) simp
  then have b: "unat (pool_arena p) + unat (pool_mtu_size p) * i + unat (pool_mtu_size p) \<le> 2 ^ 64"
    using assms(1) by (simp add: arena_ok_def)
  moreover have "0 < unat (pool_mtu_size p)" using assms(1) by (simp add: arena_ok_def)
  moreover have "unat (slot_addr p i) = (unat (pool_arena p) + unat (pool_mtu_size p) * i) mod 2 ^ 64"
    by (simp add: slot_addr_def unat_word_ariths unat_of_nat mod_simps)
  ultimately show "unat (slot_addr p i) = unat (pool_arena p) + unat (pool_mtu_size p) * i" by simp
  with b show "unat (slot_addr p i) + unat (pool_mtu_size p) \<le> 2 ^ 64" by simp
qed

lemma slot_nonzero: "arena_ok p \<Longrightarrow> x \<in> slots p \<Longrightarrow> x \<noteq> 0"
proof -
  assume ok: "arena_ok p" and "x \<in> slots p"
  then obtain i where i: "i < unat (pool_max_packets p)" "x = slot_addr p i" by (auto simp: slots_def)
  have "0 < unat (pool_arena p)" using ok by (simp add: arena_ok_def unat_gt_0)
  then have "0 < unat x" using unat_slot(1)[OF ok i(1)] i(2) by simp
  then show "x \<noteq> 0" by auto
qed

lemma slots_disjoint:
  assumes "arena_ok p" "x \<in> slots p" "y \<in> slots p" "x \<noteq> y"
  shows "region x (unat (pool_mtu_size p)) \<inter> region y (unat (pool_mtu_size p)) = {}"
proof -
  let ?s = "unat (pool_mtu_size p)"
  obtain i j where ij: "i < unat (pool_max_packets p)" "j < unat (pool_max_packets p)"
    "x = slot_addr p i" "y = slot_addr p j" using assms(2,3) by (auto simp: slots_def)
  with assms(4) have "i \<noteq> j" by auto
  then have "?s * i + ?s \<le> ?s * j \<or> ?s * j + ?s \<le> ?s * i"
    by (metis add.commute less_or_eq_imp_le linorder_neqE_nat mult_Suc_right mult_le_mono2 Suc_leI)
  then show ?thesis
    using unat_slot[OF assms(1) ij(1)] unat_slot[OF assms(1) ij(2)]
    unfolding ij(3,4) by (auto simp: region_linear)
qed

lemma region_mono: "n \<le> k \<Longrightarrow> region a n \<subseteq> region a k"
  by (auto simp: region_def)

lemma slot_links_disjoint:
  assumes "arena_ok p" "x \<in> slots p" "y \<in> slots p" "x \<noteq> y"
  shows "region x 8 \<inter> region y 8 = {}"
proof -
  have "8 \<le> unat (pool_mtu_size p)" using assms(1) by (simp add: arena_ok_def)
  then show ?thesis using slots_disjoint[OF assms] region_mono by blast
qed

section \<open>The chain in memory\<close>

lemma free_chain_cong:
  "(\<And>x. x \<in> set xs \<Longrightarrow> load64 m' x = load64 m x) \<Longrightarrow> free_chain m' p xs = free_chain m p xs"
  by (induction xs arbitrary: p) auto

lemma construct_link_eq:
  "construct_link n (p\<lparr>pool_global_free_buffer := f\<rparr>, m)
     = (p\<lparr>pool_global_free_buffer := slot_addr p n\<rparr>, store64 m (slot_addr p n) f)"
  by (simp add: construct_link_def Let_def slot_addr_def)

lemma construct_links:
  assumes "arena_ok p" "pool_global_free_buffer p = 0" "n \<le> unat (pool_max_packets p)"
  shows "case fold construct_link [0..<n] (p, m) of (p', m') \<Rightarrow>
    (\<exists>f. p' = p\<lparr>pool_global_free_buffer := f\<rparr> \<and> free_chain m' f (rev (map (slot_addr p) [0..<n])))"
  using assms(3)
proof (induction n)
  case 0
  then show ?case using assms(2) by (auto intro: exI[of _ 0])
next
  case (Suc n)
  then obtain f m1 where IH: "fold construct_link [0..<n] (p, m) = (p\<lparr>pool_global_free_buffer := f\<rparr>, m1)"
    "free_chain m1 f (rev (map (slot_addr p) [0..<n]))"
    by (auto split: prod.splits)
  let ?x = "slot_addr p n"
  have x: "?x \<in> slots p" "?x \<noteq> 0"
    using Suc.prems slot_nonzero[OF assms(1)] by (auto simp: slots_def)
  have "load64 (store64 m1 ?x f) y = load64 m1 y" if mem: "y \<in> set (rev (map (slot_addr p) [0..<n]))" for y
  proof (rule load_store64_disjoint)
    obtain i where i: "i < n" "y = slot_addr p i"
      using mem by auto
    then have y: "y \<in> slots p" using Suc.prems by (auto simp: slots_def)
    have "unat y \<noteq> unat ?x"
      using i unat_slot(1)[OF assms(1), of i] unat_slot(1)[OF assms(1), of n] Suc.prems assms(1)
      by (simp add: arena_ok_def)
    then show "region y 8 \<inter> region ?x 8 = {}"
      using slot_links_disjoint[OF assms(1) y x(1)] by auto
  qed
  then have "free_chain (store64 m1 ?x f) f (rev (map (slot_addr p) [0..<n]))"
    using IH(2) free_chain_cong by blast
  moreover have "fold construct_link [0..<Suc n] (p, m) = (p\<lparr>pool_global_free_buffer := ?x\<rparr>, store64 m1 ?x f)"
    by (simp add: IH(1) construct_link_eq)
  ultimately show ?case using x(2) by simp
qed

lemma distinct_slots: "arena_ok p \<Longrightarrow> distinct (map (slot_addr p) [0..<unat (pool_max_packets p)])"
  unfolding distinct_map
proof (intro conjI inj_onI)
  fix i j assume *: "arena_ok p" "i \<in> set [0..<unat (pool_max_packets p)]"
    "j \<in> set [0..<unat (pool_max_packets p)]" "slot_addr p i = slot_addr p j"
  then have "i < unat (pool_max_packets p)" "j < unat (pool_max_packets p)" by simp_all
  from unat_slot(1)[OF *(1) this(1)] unat_slot(1)[OF *(1) this(2)] *(4)
  have "unat (pool_mtu_size p) * i = unat (pool_mtu_size p) * j" by auto
  with *(1) show "i = j" unfolding arena_ok_def by (metis mult_cancel1 not_numeral_le_zero)
qed simp

section \<open>The pool operations on the list of free slots\<close>

lemma pool_free_update [simp]:
  "arena_ok (p\<lparr>pool_global_free_buffer := f\<rparr>) = arena_ok p"
  "slots (p\<lparr>pool_global_free_buffer := f\<rparr>) = slots p"
  by (simp_all add: arena_ok_def slots_def slot_addr_def)

lemma allocatePacket_Nil:
  "pool_free p m [] \<Longrightarrow> allocatePacket m p h grh = (-1, p, h)"
  by (simp add: pool_free_def allocatePacket_def)

lemma allocatePacket_Cons:
  assumes "pool_free p m (x # fs)"
  shows "\<exists>p'. allocatePacket m p h grh = (0, p', setRawPacket x grh h) \<and> pool_free p' m fs
    \<and> slots p' = slots p \<and> x \<in> slots p \<and> x \<notin> set fs \<and> x \<noteq> 0"
  using assms by (auto simp: pool_free_def allocatePacket_def)

lemma freePacket_push:
  assumes "pool_free p m fs" "ph_packet_buf h \<in> slots p" "ph_packet_buf h \<notin> set fs"
  shows "\<exists>p' m'. freePacket m p h = (0, p', m') \<and> pool_free p' m' (ph_packet_buf h # fs) \<and> slots p' = slots p"
proof -
  let ?x = "ph_packet_buf h"
  have nz: "?x \<noteq> 0" using assms(1,2) slot_nonzero by (auto simp: pool_free_def)
  have "load64 (store64 m ?x (pool_global_free_buffer p)) y = load64 m y" if "y \<in> set fs" for y
    using assms that slot_links_disjoint[of p y ?x]
    by (intro load_store64_disjoint) (auto simp: pool_free_def)
  then have "free_chain (store64 m ?x (pool_global_free_buffer p)) (pool_global_free_buffer p) fs"
    using free_chain_cong assms(1) unfolding pool_free_def by blast
  with assms nz show ?thesis by (simp add: freePacket_def pool_free_def Let_def)
qed

text \<open>Packet data written inside an allocated slot does not disturb the free list.\<close>

lemma pool_free_write:
  assumes "pool_free p m fs" "x \<in> slots p" "x \<notin> set fs" "region a (length bs) \<subseteq> region x (unat (pool_mtu_size p))"
  shows "pool_free p (mem_write m a bs) fs"
proof -
  have ok: "arena_ok p" "8 \<le> unat (pool_mtu_size p)" using assms(1) by (auto simp: pool_free_def arena_ok_def)
  have "load64 (mem_write m a bs) y = load64 m y" if "y \<in> set fs" for y
  proof (rule load64_write_disjoint)
    have "region y (unat (pool_mtu_size p)) \<inter> region x (unat (pool_mtu_size p)) = {}"
      using slots_disjoint[OF ok(1), of y x] assms that by (auto simp: pool_free_def)
    then show "region y 8 \<inter> region a (length bs) = {}"
      using assms(4) region_mono[OF ok(2), of y] by blast
  qed
  then have "free_chain (mem_write m a bs) (pool_global_free_buffer p) fs"
    using free_chain_cong assms(1) unfolding pool_free_def by blast
  with assms(1) show ?thesis by (simp add: pool_free_def)
qed

section \<open>The interface of the pool\<close>

text \<open>
  What the send queues and contexts rely on: allocation pops a free buffer or fails on an
  empty pool, release pushes a buffer that is not free.
\<close>

locale packet_store =
  fixes free :: "'p \<Rightarrow> mem \<Rightarrow> addr list \<Rightarrow> bool"
    and universe :: "'p \<Rightarrow> addr set"
    and alloc :: "mem \<Rightarrow> 'p \<Rightarrow> packet_handle \<Rightarrow> bool \<Rightarrow> int \<times> 'p \<times> packet_handle"
    and release :: "mem \<Rightarrow> 'p \<Rightarrow> packet_handle \<Rightarrow> int \<times> 'p \<times> mem"
  assumes alloc_empty: "free p m [] \<Longrightarrow> alloc m p h grh = (-1, p, h)"
    and alloc_pop: "free p m (x # fs) \<Longrightarrow> \<exists>p'. alloc m p h grh = (0, p', setRawPacket x grh h) \<and> free p' m fs
      \<and> universe p' = universe p \<and> x \<in> universe p \<and> x \<notin> set fs \<and> x \<noteq> 0"
    and release_push: "free p m fs \<Longrightarrow> ph_packet_buf h \<in> universe p \<Longrightarrow> ph_packet_buf h \<notin> set fs \<Longrightarrow>
      \<exists>p' m'. release m p h = (0, p', m') \<and> free p' m' (ph_packet_buf h # fs) \<and> universe p' = universe p"
begin

lemma alloc_cases:
  assumes "free p m fs"
  obtains (exhausted) "fs = []" "alloc m p h grh = (-1, p, h)"
  | (popped) x fs' p' where "fs = x # fs'" "alloc m p h grh = (0, p', setRawPacket x grh h)" "free p' m fs'"
      "universe p' = universe p" "x \<in> universe p" "x \<notin> set fs'" "x \<noteq> 0"
  using assms alloc_empty[of p m h grh] alloc_pop[of p m _ _ h grh] by (cases fs) blast+

lemma alloc_release:
  assumes "free p m (x # fs)"
  shows "\<exists>p1 h1 p2 m2. alloc m p h grh = (0, p1, h1) \<and> release m p1 h1 = (0, p2, m2) \<and> free p2 m2 (x # fs)"
proof -
  obtain p1 where p1: "alloc m p h grh = (0, p1, setRawPacket x grh h)" "free p1 m fs" "universe p1 = universe p"
    "x \<in> universe p" "x \<notin> set fs" using alloc_pop[OF assms, of h grh] by blast
  then show ?thesis
    using release_push[of p1 m fs "setRawPacket x grh h"] by (auto simp: setRawPacket_def)
qed

end

interpretation pool: packet_store pool_free slots allocatePacket freePacket
  by unfold_locales (fact allocatePacket_Nil allocatePacket_Cons freePacket_push)+

lemma construct_links_fields: "\<exists>g. fst (fold construct_link xs (q, k)) = q\<lparr>pool_global_free_buffer := g\<rparr>"
proof (induction xs arbitrary: q k)
  case Nil
  show ?case by (simp add: exI[of _ "pool_global_free_buffer q"])
next
  case (Cons i xs)
  obtain g k' where "construct_link i (q, k) = (q\<lparr>pool_global_free_buffer := g\<rparr>, k')"
    by (simp add: construct_link_def Let_def)
  moreover obtain g' where "fst (fold construct_link xs (q\<lparr>pool_global_free_buffer := g\<rparr>, k'))
    = q\<lparr>pool_global_free_buffer := g\<rparr>\<lparr>pool_global_free_buffer := g'\<rparr>"
    using Cons.IH by blast
  ultimately show ?case by auto
qed

section \<open>No buffer is handed out twice\<close>

definition pool_inv :: "packet_buffer_pool \<Rightarrow> mem \<Rightarrow> addr list \<Rightarrow> bool" where
  "pool_inv p m held \<longleftrightarrow> (\<exists>fs. pool_free p m fs \<and> distinct (held @ fs) \<and> set held \<union> set fs = slots p)"

lemma pool_construct_inv:
  assumes c: "pool_construct arena (PacketBufferPool_new mtu n) m = (0, p, m')" and ok: "arena_ok p"
  shows "pool_inv p m' []"
proof -
  let ?p = "(PacketBufferPool_new mtu n)\<lparr>pool_arena := arena\<rparr>"
  have f: "fold construct_link [0..<unat n] (?p, m) = (p, m')"
    using c by (simp add: pool_construct_def PacketBufferPool_new_def)
  then obtain g where p: "p = ?p\<lparr>pool_global_free_buffer := g\<rparr>"
    using construct_links_fields[of "[0..<unat n]" ?p m] by auto
  have ok': "arena_ok ?p" and n: "pool_max_packets p = n" and sa: "slot_addr ?p = slot_addr p"
    using ok unfolding p by (simp_all only: pool_free_update) (simp_all add: PacketBufferPool_new_def slot_addr_def fun_eq_iff)
  have "free_chain m' (pool_global_free_buffer p) (rev (map (slot_addr p) [0..<unat n]))"
    using construct_links[OF ok', of "unat n" m] unfolding f sa
    by (auto simp: PacketBufferPool_new_def)
  then have "pool_free p m' (rev (map (slot_addr p) [0..<unat n]))"
    using ok distinct_slots[OF ok] by (auto simp: pool_free_def slots_def n)
  then show ?thesis
    using distinct_slots[OF ok] unfolding pool_inv_def
    by (intro exI[of _ "rev (map (slot_addr p) [0..<unat n])"]) (auto simp: slots_def n)
qed

lemma pool_inv_mset: "mset held = mset held' \<Longrightarrow> pool_inv p m held = pool_inv p m held'"
proof -
  assume e: "mset held = mset held'"
  then have "set held = set held'" by (rule mset_eq_setD)
  moreover have "distinct (held @ fs) = distinct (held' @ fs)" for fs
    using e by (intro mset_eq_imp_distinct_iff) simp
  ultimately show ?thesis by (simp add: pool_inv_def)
qed

lemma pool_inv_arena: "pool_inv p m held \<Longrightarrow> arena_ok p \<and> set held \<subseteq> slots p \<and> distinct held"
  by (auto simp: pool_inv_def pool_free_def)

lemma pool_inv_allocate:
  assumes "pool_inv p m held"
  obtains (exhausted) "allocatePacket m p h grh = (-1, p, h)" "set held = slots p"
  | (popped) x p' where "allocatePacket m p h grh = (0, p', setRawPacket x grh h)" "pool_inv p' m (x # held)"
      "x \<noteq> 0" "x \<notin> set held" "x \<in> slots p"
proof -
  obtain fs where fs: "pool_free p m fs" "distinct (held @ fs)" "set held \<union> set fs = slots p"
    using assms by (auto simp: pool_inv_def)
  from fs(1) show thesis
  proof (cases rule: pool.alloc_cases[where h = h and grh = grh])
    case (popped x fs' q)
    moreover have "pool_inv q m (x # held)"
      using popped fs(2,3) unfolding pool_inv_def by (intro exI[of _ fs']) auto
    ultimately show thesis using fs(2) that(2) by auto
  qed (use fs(3) that(1) in simp)
qed

lemma pool_inv_release:
  assumes "pool_inv p m (ph_packet_buf h # held)"
  obtains p' m' where "freePacket m p h = (0, p', m')" "pool_inv p' m' held"
proof -
  obtain fs where fs: "pool_free p m fs" "distinct (ph_packet_buf h # held @ fs)"
    "set (ph_packet_buf h # held) \<union> set fs = slots p" using assms by (auto simp: pool_inv_def)
  then have "ph_packet_buf h \<in> slots p" "ph_packet_buf h \<notin> set fs" by auto
  from pool.release_push[OF fs(1) this] obtain p' m'
    where r: "freePacket m p h = (0, p', m')" "pool_free p' m' (ph_packet_buf h # fs)" "slots p' = slots p" by blast
  moreover have "pool_inv p' m' held"
    using r(2,3) fs(2,3) unfolding pool_inv_def by (intro exI[of _ "ph_packet_buf h # fs"]) auto
  ultimately show thesis using that by blast
qed

lemma pool_inv_write:
  assumes "pool_inv p m held" "x \<in> set held" "region a (length bs) \<subseteq> region x (unat (pool_mtu_size p))"
  shows "pool_inv p (mem_write m a bs) held"
proof -
  obtain fs where fs: "pool_free p m fs" "distinct (held @ fs)" "set held \<union> set fs = slots p"
    using assms(1) by (auto simp: pool_inv_def)
  then have "pool_free p (mem_write m a bs) fs"
    using assms(2,3) by (intro pool_free_write[of p m fs x]) auto
  with fs show ?thesis by (auto simp: pool_inv_def)
qed

lemma pool_run_inv: "pool_run p m held \<Longrightarrow> pool_inv p m held"
proof (induction rule: pool_run.induct)
  case (pool_start arena mtu n m p m')
  then show ?case by (rule pool_construct_inv)
next
  case (pool_allocate p m held h grh p' h')
  from pool_allocate(3) show ?case
    by (cases rule: pool_inv_allocate[where h = h and grh = grh]) (use pool_allocate(2) in \<open>auto simp: setRawPacket_def\<close>)
next
  case (pool_release p m held h p' m')
  have "mset held = mset (ph_packet_buf h # remove1 (ph_packet_buf h) held)" using pool_release(2) by simp
  with pool_release(4) have "pool_inv p m (ph_packet_buf h # remove1 (ph_packet_buf h) held)"
    using pool_inv_mset by blast
  then show ?case by (rule pool_inv_release) (use pool_release(3) in auto)
qed (rule pool_inv_write)

text \<open>
  C10. Buffer accounting.  In every state that allocations, releases of held buffers and packet
  writes reach from a constructed pool, the held buffers are distinct non-null slots of the
  arena whose \<open>mtu_size\<close>-byte regions do not overlap; an allocation hands out a slot that
  is not held; and it fails only when every slot is held.
\<close>

theorem pool_no_double_allocation:
  assumes "pool_run p m held"
  shows "distinct held \<and> set held \<subseteq> slots p \<and> 0 \<notin> set held
    \<and> (\<forall>x\<in>set held. \<forall>y\<in>set held. x \<noteq> y \<longrightarrow>
          region x (unat (pool_mtu_size p)) \<inter> region y (unat (pool_mtu_size p)) = {})
    \<and> (case allocatePacket m p h grh of (rc, p', h') \<Rightarrow>
          if rc = 0 then ph_packet_buf h' \<in> slots p - set held
          else rc = -1 \<and> p' = p \<and> h' = h \<and> set held = slots p)"
proof -
  have inv: "pool_inv p m held" using assms by (rule pool_run_inv)
  have ok: "arena_ok p" "set held \<subseteq> slots p" "distinct held" using pool_inv_arena[OF inv] by auto
  moreover have "0 \<notin> set held" using ok(2) slot_nonzero[OF ok(1), of 0] by blast
  moreover have "case allocatePacket m p h grh of (rc, p', h') \<Rightarrow>
          if rc = 0 then ph_packet_buf h' \<in> slots p - set held
          else rc = -1 \<and> p' = p \<and> h' = h \<and> set held = slots p"
    using inv by (cases rule: pool_inv_allocate[where h = h and grh = grh]) (auto simp: setRawPacket_def)
  ultimately show ?thesis by (intro conjI ballI impI slots_disjoint[OF ok(1)]) auto
qed

definition test_pool :: "packet_buffer_pool \<times> mem" where
  "test_pool = snd (pool_construct 4096 (PacketBufferPool_new 64 2) (\<lambda>_. 0))"

lemma test_pool_eq:
  "fst test_pool = \<lparr>pool_mtu_size = 64, pool_max_packets = 2, pool_arena = 4096, pool_global_free_buffer = 4160\<rparr>"
  by (simp add: test_pool_def pool_construct_def PacketBufferPool_new_def construct_link_def upt_rec)

lemma test_pool_run: "pool_run (fst test_pool) (snd test_pool) []"
proof (rule pool_start)
  show "pool_construct 4096 (PacketBufferPool_new 64 2) (\<lambda>_. 0) = (0, fst test_pool, snd test_pool)"
    by (simp add: test_pool_def pool_construct_def)
  show "arena_ok (fst test_pool)" by (simp add: test_pool_eq arena_ok_def)
qed

theorem pool_no_double_allocation_witness:
  "\<exists>p' h'. allocatePacket (snd test_pool) (fst test_pool) test_handle False = (0, p', h')
    \<and> ph_packet_buf h' \<in> slots (fst test_pool)"
proof -
  have "fst (allocatePacket (snd test_pool) (fst test_pool) test_handle False) = 0"
    by (simp add: allocatePacket_def test_pool_eq)
  with pool_no_double_allocation[OF test_pool_run, of test_handle False] show ?thesis
    by (cases "allocatePacket (snd test_pool) (fst test_pool) test_handle False") auto
qed

end
