(* ===== verification/SecondaryQueue.thy ===== *)
theory SecondaryQueue
  imports Prelude
begin

text \<open>
  \<open>SecondaryQueue\<close> of \<open>src/src/protocols/rdma_unreliable/packet_manager.h\<close>: the
  unbounded list of user buffers behind a window, cut on demand into fragments of at most
  \<open>fragment_size_\<close> bytes.

  The specification is the list of fragments still to be popped (\<open>sec_fragments\<close>); the
  lemmas show that \<open>push\<close> appends to it, \<open>popFragment\<close> removes its head, that the
  fragments tile the user buffers exactly, and that \<open>fragment_id_\<close> counts them.
\<close>

section \<open>Model\<close>

record secondary_queue =
  sec_slice_list :: "buffer list"
  sec_offset :: u64
  sec_fragment_id :: u64
  sec_fragment_size :: u64

definition SecondaryQueue_new :: "u64 \<Rightarrow> secondary_queue" where
  "SecondaryQueue_new fragment_size =
     \<lparr>sec_slice_list = [], sec_offset = 0, sec_fragment_id = 0, sec_fragment_size = fragment_size\<rparr>"

definition hasRemainingFragment :: "secondary_queue \<Rightarrow> bool" where
  "hasRemainingFragment q \<longleftrightarrow> sec_slice_list q \<noteq> []"

definition popFragment :: "secondary_queue \<Rightarrow> buffer \<times> secondary_queue" where
  "popFragment q =
     (case sec_slice_list q of
        [] \<Rightarrow> (\<lparr>buf_addr = 0, buf_length = 0\<rparr>, q)
      | entry # rest \<Rightarrow>
          let addr = buf_addr entry + sec_offset q;
              len = min (sec_fragment_size q) (buf_length entry - sec_offset q)
          in (\<lparr>buf_addr = addr, buf_length = len\<rparr>,
              if sec_offset q + len = buf_length entry
              then q\<lparr>sec_slice_list := rest, sec_offset := 0\<rparr>
              else q\<lparr>sec_offset := sec_offset q + len\<rparr>))"

text \<open>
  The loop of \<open>push\<close>.  The number of fragments of an entry is a division by
  \<open>fragment_size_\<close>, which traps when that is 0.
\<close>

fun push_slices :: "buffer list \<Rightarrow> secondary_queue \<Rightarrow> secondary_queue outcome" where
  "push_slices [] q = Inr q"
| "push_slices (entry # es) q =
     (if sec_fragment_size q = 0 then Inl DivByZero
      else push_slices es
        (q\<lparr>sec_slice_list := sec_slice_list q @ [entry],
           sec_fragment_id := sec_fragment_id q
             + (buf_length entry + sec_fragment_size q - 1) div sec_fragment_size q\<rparr>))"

definition secondary_push :: "buffer list \<Rightarrow> secondary_queue \<Rightarrow> ((u64 \<times> u64) \<times> secondary_queue) outcome" where
  "secondary_push slice_list q =
     (case push_slices slice_list q of
        Inl f \<Rightarrow> Inl f
      | Inr q' \<Rightarrow> Inr ((sec_fragment_id q, sec_fragment_id q'), q'))"

section \<open>Specification: the fragments of a buffer\<close>

function chunks :: "u64 \<Rightarrow> addr \<Rightarrow> u64 \<Rightarrow> buffer list" where
  "chunks fs a len =
     (if fs = 0 \<or> len \<le> fs then [\<lparr>buf_addr = a, buf_length = len\<rparr>]
      else \<lparr>buf_addr = a, buf_length = fs\<rparr> # chunks fs (a + fs) (len - fs))"
  by pat_completeness auto

termination
proof (relation "measure (\<lambda>(fs, a, len). unat len)")
  fix fs a len :: "64 word" assume "\<not> (fs = 0 \<or> len \<le> fs)"
  then have "unat (len - fs) = unat len - unat fs" "0 < unat fs" "unat fs < unat len"
    using unat_sub_gt[of len fs] by (simp_all add: unat_gt_0)
  then show "((fs, a + fs, len - fs), fs, a, len) \<in> measure (\<lambda>(fs, a, len). unat len)" by simp
qed simp

declare chunks.simps [simp del]

definition user_chunks :: "u64 \<Rightarrow> buffer list \<Rightarrow> buffer list" where
  "user_chunks fs es = concat (map (\<lambda>b. chunks fs (buf_addr b) (buf_length b)) es)"

definition sec_fragments :: "secondary_queue \<Rightarrow> buffer list" where
  "sec_fragments q =
     (case sec_slice_list q of
        [] \<Rightarrow> []
      | s # ss \<Rightarrow> chunks (sec_fragment_size q) (buf_addr s + sec_offset q) (buf_length s - sec_offset q)
          @ user_chunks (sec_fragment_size q) ss)"

definition sec_inv :: "secondary_queue \<Rightarrow> bool" where
  "sec_inv q \<longleftrightarrow> sec_fragment_size q \<noteq> 0 \<and>
     (case sec_slice_list q of [] \<Rightarrow> sec_offset q = 0
      | s # ss \<Rightarrow> sec_offset q = 0 \<or> sec_offset q < buf_length s)"

text \<open>A buffer whose fragments \<open>push\<close> counts without wrap-around.\<close>

definition slice_ok :: "u64 \<Rightarrow> buffer \<Rightarrow> bool" where
  "slice_ok fs b \<longleftrightarrow> 0 < buf_length b \<and> unat (buf_length b) + unat fs \<le> 2 ^ 64"

text \<open>Popping \<open>n\<close> fragments one after the other.\<close>

primrec drain :: "nat \<Rightarrow> secondary_queue \<Rightarrow> buffer list \<times> secondary_queue" where
  "drain 0 q = ([], q)"
| "drain (Suc n) q = (let (b, q1) = popFragment q; (bs, q2) = drain n q1 in (b # bs, q2))"

definition buffer_bytes :: "mem \<Rightarrow> buffer \<Rightarrow> u8 list" where
  "buffer_bytes m b = mem_read m (buf_addr b) (unat (buf_length b))"

section \<open>Chunks\<close>

lemma chunks_nonempty [simp]: "chunks fs a len \<noteq> []"
  by (subst chunks.simps) simp

lemma chunks_bytes: "concat (map (buffer_bytes m) (chunks fs a len)) = mem_read m a (unat len)"
proof (induction fs a len rule: chunks.induct)
  case (1 fs a len)
  show ?case
  proof (cases "fs = 0 \<or> len \<le> fs")
    case False
    then have "unat len = unat fs + unat (len - fs)"
      using unat_sub_gt[of len fs] by simp
    then have "mem_read m a (unat len) = mem_read m a (unat fs) @ mem_read m (a + fs) (unat (len - fs))"
      by (simp add: mem_read_append of_nat_unat)
    moreover have "buffer_bytes m \<lparr>buf_addr = a, buf_length = fs\<rparr> = mem_read m a (unat fs)"
      by (simp add: buffer_bytes_def)
    ultimately show ?thesis using False 1 by (subst chunks.simps) simp
  qed (subst chunks.simps, simp add: buffer_bytes_def)
qed

lemma chunks_length_le: "fs \<noteq> 0 \<Longrightarrow> b \<in> set (chunks fs a len) \<Longrightarrow> buf_length b \<le> fs"
proof (induction fs a len rule: chunks.induct)
  case (1 fs a len)
  then show ?case by (subst (asm) (2) chunks.simps) (auto split: if_splits)
qed

lemma chunks_positive: "0 < len \<Longrightarrow> b \<in> set (chunks fs a len) \<Longrightarrow> 0 < buf_length b"
proof (induction fs a len rule: chunks.induct)
  case (1 fs a len)
  then show ?case
    by (subst (asm) (2) chunks.simps) (auto split: if_splits simp: word_greater_zero_iff)
qed

lemma unat_div_ceil:
  assumes "0 < unat fs" "unat len + unat fs \<le> 2 ^ 64"
  shows "unat ((len + fs - 1) div fs :: u64) = (unat len + unat fs - 1) div unat fs"
proof -
  have "unat (len + fs - 1) = unat len + unat fs - 1"
  proof -
    have "len + fs - 1 = len + (fs - 1)" by simp
    moreover have "unat (fs - 1) = unat fs - 1" using assms(1) by (subst unat_minus_one) auto
    moreover have "unat (len + (fs - 1)) = (unat len + unat (fs - 1)) mod 2 ^ 64"
      by (simp add: unat_word_ariths)
    ultimately show ?thesis using assms by (simp add: add_diff_eq)
  qed
  then show ?thesis by (simp add: unat_div)
qed

lemma chunks_count:
  "fs \<noteq> 0 \<Longrightarrow> 0 < len \<Longrightarrow> length (chunks fs a len) = (unat len + unat fs - 1) div unat fs"
proof (induction fs a len rule: chunks.induct)
  case (1 fs a len)
  have f: "0 < unat fs" using 1(2) by (simp add: unat_gt_0)
  have l: "0 < unat len" using 1(3) by (simp add: unat_gt_0 word_greater_zero_iff)
  show ?case
  proof (cases "len \<le> fs")
    case True
    then have "unat len \<le> unat fs" by (simp add: word_le_nat_alt)
    then have "(unat len + unat fs - 1) div unat fs = 1"
      using f l by (intro div_nat_eqI) auto
    with True show ?thesis by (subst chunks.simps) simp
  next
    case False
    then have d: "unat (len - fs) = unat len - unat fs" "unat fs < unat len"
      using unat_sub_gt[of len fs] by simp_all
    have "(unat len + unat fs - 1) div unat fs = Suc ((unat len - 1) div unat fs)"
      using f d(2) by (metis Nat.add_diff_assoc2 One_nat_def Suc_leI add.commute div_add_self1 l nat_neq_iff plus_1_eq_Suc)
    moreover have "length (chunks fs (a + fs) (len - fs)) = (unat len - 1) div unat fs"
      using 1(1,2) False d by (simp add: word_greater_zero_iff)
    ultimately show ?thesis using False 1(2) by (subst chunks.simps) simp
  qed
qed

lemma user_chunks_simps [simp]:
  "user_chunks fs [] = []"
  "user_chunks fs (b # es) = chunks fs (buf_addr b) (buf_length b) @ user_chunks fs es"
  "user_chunks fs (es @ es') = user_chunks fs es @ user_chunks fs es'"
  by (simp_all add: user_chunks_def)

lemma user_chunks_bytes:
  "concat (map (buffer_bytes m) (user_chunks fs es)) = concat (map (buffer_bytes m) es)"
  by (induction es) (simp_all add: chunks_bytes, simp add: buffer_bytes_def)

lemma user_chunks_length: "fs \<noteq> 0 \<Longrightarrow> b \<in> set (user_chunks fs es) \<Longrightarrow> buf_length b \<le> fs"
  by (induction es) (auto dest: chunks_length_le)

lemma user_chunks_positive:
  "\<forall>e\<in>set es. 0 < buf_length e \<Longrightarrow> b \<in> set (user_chunks fs es) \<Longrightarrow> 0 < buf_length b"
  by (induction es) (auto dest: chunks_positive)

lemma chunks_addr:
  "b \<in> set (chunks fs a len) \<Longrightarrow> \<exists>k. buf_addr b = a + of_nat k \<and> (k = 0 \<or> k < unat len)"
proof (induction fs a len rule: chunks.induct)
  case (1 fs a len)
  show ?case
  proof (cases "fs = 0 \<or> len \<le> fs")
    case True
    with 1(2) show ?thesis by (subst (asm) chunks.simps) (auto intro: exI[of _ 0])
  next
    case False
    then have d: "unat (len - fs) = unat len - unat fs" "unat fs < unat len"
      using unat_sub_gt[of len fs] by simp_all
    from 1(2) False consider "buf_addr b = a" | "b \<in> set (chunks fs (a + fs) (len - fs))"
      by (subst (asm) chunks.simps) auto
    then show ?thesis
    proof cases
      case 2
      then obtain k where "buf_addr b = a + fs + of_nat k" "k = 0 \<or> k < unat (len - fs)"
        using 1(1) False by blast
      with d show ?thesis by (intro exI[of _ "unat fs + k"]) (auto simp: of_nat_unat)
    qed (auto intro: exI[of _ 0])
  qed
qed

text \<open>A user buffer: not empty, not null, inside the address space.\<close>

definition user_ok :: "u64 \<Rightarrow> buffer \<Rightarrow> bool" where
  "user_ok fs b \<longleftrightarrow> slice_ok fs b \<and> buf_addr b \<noteq> 0 \<and> unat (buf_addr b) + unat (buf_length b) \<le> 2 ^ 64"

lemma user_chunks_addr:
  assumes "\<forall>e\<in>set es. user_ok fs e" "b \<in> set (user_chunks fs es)"
  shows "buf_addr b \<noteq> 0"
proof -
  obtain e where e: "e \<in> set es" "b \<in> set (chunks fs (buf_addr e) (buf_length e))"
    using assms(2) by (auto simp: user_chunks_def)
  then have ok: "user_ok fs e" using assms(1) by blast
  obtain k where k: "buf_addr b = buf_addr e + of_nat k" "k = 0 \<or> k < unat (buf_length e)"
    using chunks_addr[OF e(2)] by blast
  have "0 < unat (buf_addr e)" using ok by (simp add: user_ok_def unat_gt_0)
  moreover have "unat (buf_addr e) + k < 2 ^ 64"
    using ok k(2) unat_u64_less[of "buf_addr e"] by (auto simp: user_ok_def)
  ultimately have "unat (buf_addr b) \<noteq> 0"
    unfolding k(1) by (simp add: unat_word_ariths unat_of_nat mod_simps)
  then show ?thesis by auto
qed

section \<open>The queue as a list of fragments\<close>

lemma hasRemainingFragment_iff: "hasRemainingFragment q \<longleftrightarrow> sec_fragments q \<noteq> []"
  by (simp add: hasRemainingFragment_def sec_fragments_def split: list.splits)

lemma popFragment_fragments:
  assumes inv: "sec_inv q" and ne: "sec_fragments q \<noteq> []" and pop: "popFragment q = (b, q')"
  shows "sec_fragments q = b # sec_fragments q'" "sec_inv q'"
    "sec_fragment_id q' = sec_fragment_id q" "sec_fragment_size q' = sec_fragment_size q"
proof -
  let ?fs = "sec_fragment_size q" and ?o = "sec_offset q"
  obtain s ss where s: "sec_slice_list q = s # ss"
    using ne by (cases "sec_slice_list q") (auto simp: sec_fragments_def)
  have fs: "?fs \<noteq> 0" using inv by (simp add: sec_inv_def)
  have "sec_fragments q = b # sec_fragments q' \<and> sec_inv q'
    \<and> sec_fragment_id q' = sec_fragment_id q \<and> sec_fragment_size q' = ?fs"
  proof (cases "buf_length s - ?o \<le> ?fs")
    case True
    then have min: "min ?fs (buf_length s - ?o) = buf_length s - ?o" by (simp add: min_absorb2)
    have "b = \<lparr>buf_addr = buf_addr s + ?o, buf_length = buf_length s - ?o\<rparr>"
      "q' = q\<lparr>sec_slice_list := ss, sec_offset := 0\<rparr>"
      using pop by (auto simp: popFragment_def s Let_def min)
    with True fs show ?thesis
      by (auto simp: sec_fragments_def s sec_inv_def chunks.simps[of ?fs "buf_addr s + ?o"] split: list.splits)
  next
    case False
    have "?o \<le> buf_length s" using inv s by (auto simp: sec_inv_def)
    then have d: "unat (buf_length s - ?o) = unat (buf_length s) - unat ?o" by (simp add: unat_sub)
    have g: "unat ?fs < unat (buf_length s - ?o)" using unat_sub_gt[OF False] by simp
    then have lt: "unat (?o + ?fs) = unat ?o + unat ?fs" "unat ?o + unat ?fs < unat (buf_length s)"
      using d unat_u64_less[of "buf_length s"] by (simp_all add: unat_word_ariths)
    then have "?o + ?fs < buf_length s" by (simp add: word_less_nat_alt)
    moreover have min: "min ?fs (buf_length s - ?o) = ?fs"
      using False linear[of ?fs "buf_length s - ?o"] by (simp add: min_def)
    moreover have "b = \<lparr>buf_addr = buf_addr s + ?o, buf_length = ?fs\<rparr>" "q' = q\<lparr>sec_offset := ?o + ?fs\<rparr>"
      using pop calculation by (auto simp: popFragment_def s Let_def)
    ultimately show ?thesis
      using False fs by (auto simp: sec_fragments_def s sec_inv_def chunks.simps[of ?fs "buf_addr s + ?o"]
          add.assoc diff_diff_eq)
  qed
  then show "sec_fragments q = b # sec_fragments q'" "sec_inv q'"
    "sec_fragment_id q' = sec_fragment_id q" "sec_fragment_size q' = sec_fragment_size q" by simp_all
qed

lemma sec_append:
  assumes "sec_inv q"
  shows "sec_fragments (q\<lparr>sec_slice_list := sec_slice_list q @ [e], sec_fragment_id := i\<rparr>)
      = sec_fragments q @ chunks (sec_fragment_size q) (buf_addr e) (buf_length e)"
    and "sec_inv (q\<lparr>sec_slice_list := sec_slice_list q @ [e], sec_fragment_id := i\<rparr>)"
  using assms by (auto simp: sec_fragments_def sec_inv_def split: list.splits)

lemma chunks_count_word:
  assumes "fs \<noteq> 0" "slice_ok fs b"
  shows "(buf_length b + fs - 1) div fs = of_nat (length (chunks fs (buf_addr b) (buf_length b)))"
proof -
  have "unat ((buf_length b + fs - 1) div fs) = length (chunks fs (buf_addr b) (buf_length b))"
    using assms unat_div_ceil[of fs "buf_length b"] chunks_count[of fs "buf_length b" "buf_addr b"]
    by (simp add: slice_ok_def unat_gt_0)
  then have "of_nat (unat ((buf_length b + fs - 1) div fs)) = (of_nat (length (chunks fs (buf_addr b) (buf_length b))) :: u64)"
    by (rule arg_cong)
  then show ?thesis by (simp only: of_nat_unat ucast_id)
qed

lemma push_slices_ok:
  assumes "sec_inv q"
  shows "\<exists>q'. push_slices es q = Inr q' \<and> sec_inv q' \<and> sec_fragment_size q' = sec_fragment_size q
    \<and> sec_fragments q' = sec_fragments q @ user_chunks (sec_fragment_size q) es
    \<and> ((\<forall>e\<in>set es. slice_ok (sec_fragment_size q) e) \<longrightarrow>
         sec_fragment_id q' = sec_fragment_id q + of_nat (length (user_chunks (sec_fragment_size q) es)))"
  using assms
proof (induction es arbitrary: q)
  case (Cons e es)
  let ?q = "q\<lparr>sec_slice_list := sec_slice_list q @ [e], sec_fragment_id := sec_fragment_id q
             + (buf_length e + sec_fragment_size q - 1) div sec_fragment_size q\<rparr>"
  have fs: "sec_fragment_size q \<noteq> 0" using Cons.prems by (simp add: sec_inv_def)
  note A = sec_append[OF Cons.prems, where e = e and i = "sec_fragment_id ?q", simplified]
  from Cons.IH[OF A(2)] obtain q' where "push_slices es ?q = Inr q'" "sec_inv q'"
    "sec_fragment_size q' = sec_fragment_size q"
    "sec_fragments q' = sec_fragments ?q @ user_chunks (sec_fragment_size q) es"
    "(\<forall>x\<in>set es. slice_ok (sec_fragment_size q) x) \<longrightarrow>
       sec_fragment_id q' = sec_fragment_id ?q + of_nat (length (user_chunks (sec_fragment_size q) es))"
    by auto
  with fs A(1) show ?case by (auto simp: chunks_count_word)
qed simp

lemma drain_fragments:
  "sec_inv q \<Longrightarrow> n \<le> length (sec_fragments q) \<Longrightarrow>
     \<exists>q'. drain n q = (take n (sec_fragments q), q') \<and> sec_fragments q' = drop n (sec_fragments q) \<and> sec_inv q'"
proof (induction n arbitrary: q)
  case (Suc n)
  obtain b q1 where pop: "popFragment q = (b, q1)" by fastforce
  have ne: "sec_fragments q \<noteq> []" using Suc.prems by auto
  note P = popFragment_fragments[OF Suc.prems(1) ne pop]
  from Suc.IH[OF P(2)] Suc.prems P(1) show ?case by (auto simp: pop)
qed simp



text \<open>
  A zero-length buffer breaks the count: \<open>push\<close> adds no fragment to \<open>fragment_id_\<close>
  for it, yet \<open>popFragment\<close> returns one (empty) fragment, so the number handed out as
  \<open>last_sn\<close> lags one packet behind the packets actually sent.
\<close>

lemma zero_length_buffer_miscounted:
  "\<exists>q'. secondary_push [\<lparr>buf_addr = a, buf_length = 0\<rparr>] (SecondaryQueue_new 4048) = Inr ((0, 0), q')
     \<and> hasRemainingFragment q' \<and> fst (popFragment q') = \<lparr>buf_addr = a, buf_length = 0\<rparr>
     \<and> \<not> hasRemainingFragment (snd (popFragment q'))"
  by (simp add: secondary_push_def SecondaryQueue_new_def hasRemainingFragment_def popFragment_def
      word_div_def)

end
