(* ===== verification/Window.thy ===== *)
theory Window
  imports SecondaryQueue SeqRing "HOL-Library.Multiset"
begin

text \<open>
  The loop \<open>fillPrimaryQueue\<close> that the send queue, the multicast send queue and the receive
  queue of \<open>src/src/protocols/rdma_unreliable/packet_manager.cpp\<close> share: while fragments
  remain and the window has room, move one fragment from the secondary queue into the ring.

  One round of the loop continues, returns from the function, or faults (\<open>flow\<close>).  The
  locale \<open>fill_window\<close> states what a round promises and derives what the whole loop does:
  it terminates, keeps the invariant, and moves a prefix of the pending fragments to the end
  of the window.  It is interpreted on the rounds of the queues.
\<close>

section \<open>Control flow of one round\<close>

datatype 's flow = Return int 's | Continue 's | Fault fault

section \<open>Lists of window entries\<close>

text \<open>The entries of the indices \<open>tail, ..., head - 1\<close> of a ring.\<close>

definition ring_entries :: "u64 \<Rightarrow> u64 \<Rightarrow> u64 \<Rightarrow> 'a list \<Rightarrow> 'a list" where
  "ring_entries cap head tail xs = map (\<lambda>k. xs ! unat ((tail + of_nat k) mod cap)) [0..<unat (head - tail)]"

lemma length_ring_entries [simp]: "length (ring_entries cap head tail xs) = unat (head - tail)"
  by (simp add: ring_entries_def)

lemma ring_entries_empty [simp]: "ring_entries cap t t xs = []"
  by (simp add: ring_entries_def)

lemma ring_entries_nth:
  "k < unat (head - tail) \<Longrightarrow> ring_entries cap head tail xs ! k = xs ! unat ((tail + of_nat k) mod cap)"
  by (simp add: ring_entries_def)

lemma unat_Suc_diff:
  assumes "unat (head - tail :: u64) < 2 ^ 64 - 1"
  shows "unat (head + 1 - tail) = Suc (unat (head - tail))"
proof -
  have e: "head + 1 - tail = (head - tail) + 1" by simp
  have "unat (head - tail + 1) = (unat (head - tail) + 1) mod 2 ^ 64"
    by (simp add: unat_word_ariths)
  then show ?thesis unfolding e using assms by simp
qed

lemma unat_advance_tail:
  assumes "k \<le> unat (head - tail :: u64)"
  shows "unat (head - (tail + of_nat k)) = unat (head - tail) - k"
proof -
  have u: "unat (of_nat k :: u64) = k"
    using assms unat_u64_less[of "head - tail"] by (subst unat_of_nat) simp
  then have le: "(of_nat k :: u64) \<le> head - tail" using assms by (simp add: word_le_nat_alt)
  have e: "head - (tail + of_nat k) = head - tail - of_nat k" by simp
  show ?thesis unfolding e using unat_sub[OF le] u by simp
qed

context ring
begin

lemma ring_entries_push:
  assumes n: "unat (head - tail) < unat cap" and l: "length xs = unat cap"
  shows "ring_entries cap (head + 1) tail (xs[unat (head mod cap) := x]) = ring_entries cap head tail xs @ [x]"
proof -
  let ?n = "unat (head - tail)" and ?i = "unat (head mod cap)"
  have n1: "unat (head + 1 - tail) = Suc ?n" using n cap_le by (intro unat_Suc_diff) simp
  have hi: "?i = unat ((tail + of_nat ?n) mod cap)" by (simp add: of_nat_unat)
  have ne: "?i \<noteq> unat ((tail + of_nat k) mod cap)" if "k < ?n" for k
    using slot_inj[of tail k ?n] that n unfolding hi by auto
  have "map (\<lambda>k. xs[?i := x] ! unat ((tail + of_nat k) mod cap)) [0..<?n]
      = map (\<lambda>k. xs ! unat ((tail + of_nat k) mod cap)) [0..<?n]"
    by (intro map_cong refl nth_list_update_neq ne) simp
  moreover have "xs[?i := x] ! unat ((tail + of_nat ?n) mod cap) = x"
    unfolding hi[symmetric] using l slot_less by (intro nth_list_update_eq) simp
  ultimately show ?thesis unfolding ring_entries_def n1 by simp
qed

end

lemma ring_entries_advance:
  assumes "k \<le> unat (head - tail)"
  shows "ring_entries cap head (tail + of_nat k) xs = drop k (ring_entries cap head tail xs)"
proof (rule nth_equalityI)
  show "length (ring_entries cap head (tail + of_nat k) xs) = length (drop k (ring_entries cap head tail xs))"
    by (simp add: unat_advance_tail[OF assms])
  fix i assume "i < length (ring_entries cap head (tail + of_nat k) xs)"
  then have i: "i < unat (head - tail) - k" "k + i < unat (head - tail)" by (simp_all add: unat_advance_tail[OF assms])
  then show "ring_entries cap head (tail + of_nat k) xs ! i = drop k (ring_entries cap head tail xs) ! i"
    by (simp add: ring_entries_def unat_advance_tail[OF assms] add.assoc)
qed

section \<open>The fill loop\<close>

locale fill_window =
  fixes more :: "'s \<Rightarrow> bool"
    and round :: "'s \<Rightarrow> 's flow"
    and fill :: "'s \<Rightarrow> (int \<times> 's) outcome"
    and room :: "'s \<Rightarrow> nat"
    and inv :: "'s \<Rightarrow> bool"
    and window :: "'s \<Rightarrow> 'w list"
    and pending :: "'s \<Rightarrow> 'w list"
    and frame :: "'s \<Rightarrow> 'f"
  assumes fill_unfold: "fill s = (if more s then (case round s of Return rc s' \<Rightarrow> Inr (rc, s')
      | Continue s' \<Rightarrow> fill s' | Fault f \<Rightarrow> Inl f) else Inr (0, s))"
    and round_progress: "more s \<Longrightarrow> round s = Continue s' \<Longrightarrow> room s' < room s"
    and round_continue: "inv s \<Longrightarrow> more s \<Longrightarrow> round s = Continue s' \<Longrightarrow>
      inv s' \<and> frame s' = frame s \<and> (\<exists>b. pending s = b # pending s' \<and> window s' = window s @ [b])"
    and round_return: "inv s \<Longrightarrow> more s \<Longrightarrow> round s = Return rc s' \<Longrightarrow> rc = 0 \<and> s' = s"
    and round_no_fault: "inv s \<Longrightarrow> more s \<Longrightarrow> round s \<noteq> Fault f"
begin

text \<open>A state on which the loop stops: no fragment or no room, or a round that gives up.\<close>

definition settled :: "'s \<Rightarrow> bool" where
  "settled s \<longleftrightarrow> \<not> more s \<or> round s = Return 0 s"

lemma fill_moves_prefix:
  "inv s \<Longrightarrow> \<exists>s' n. fill s = Inr (0, s') \<and> inv s' \<and> frame s' = frame s \<and> settled s'
     \<and> n \<le> length (pending s)
     \<and> window s' = window s @ take n (pending s) \<and> pending s' = drop n (pending s)"
proof (induction "room s" arbitrary: s rule: less_induct)
  case less
  show ?case
  proof (cases "more s")
    case False
    then show ?thesis
      using less.prems by (intro exI[of _ s] exI[of _ 0]) (simp add: fill_unfold[of s] settled_def)
  next
    case True
    show ?thesis
    proof (cases "round s")
      case (Return rc s')
      then show ?thesis
        using round_return[OF less.prems True Return] less.prems True
        by (intro exI[of _ s] exI[of _ 0]) (simp add: fill_unfold[of s] settled_def)
    next
      case (Continue s1)
      from round_continue[OF less.prems True Continue] obtain b
        where b: "inv s1" "frame s1 = frame s" "pending s = b # pending s1" "window s1 = window s @ [b]" by blast
      obtain s' n where "fill s1 = Inr (0, s')" "inv s'" "frame s' = frame s1" "settled s'"
        "n \<le> length (pending s1)" "window s' = window s1 @ take n (pending s1)" "pending s' = drop n (pending s1)"
        using less.hyps[OF round_progress[OF True Continue] b(1)] by blast
      with b True Continue show ?thesis
        by (intro exI[of _ s'] exI[of _ "Suc n"]) (simp add: fill_unfold[of s])
    next
      case (Fault f)
      with round_no_fault[OF less.prems True] show ?thesis by blast
    qed
  qed
qed

corollary fill_keeps_fifo:
  assumes "inv s"
  obtains s' where "fill s = Inr (0, s')" "inv s'" "frame s' = frame s" "settled s'"
    "window s' @ pending s' = window s @ pending s" "\<exists>n. window s' = window s @ take n (pending s)"
  using fill_moves_prefix[OF assms] by (metis append.assoc append_take_drop_id)

end

end
