(* ===== verification/SendQueue.thy ===== *)
theory SendQueue
  imports BufferPool Window
begin

text \<open>
  \<open>SendQueue\<close> of \<open>src/src/protocols/rdma_unreliable/packet_manager.{h,cpp}\<close>: a ring of
  packet handles with a sliding window \<open>[tail_, head_)\<close>, refilled from a
  \<open>SecondaryQueue\<close> and backed by buffers of the shared pool.  The pool is a reference in
  the source and a component of the state here.

  The specification is a FIFO of fragments (\<open>send_contents\<close>: the window, then the
  secondary queue).  The lemmas show that \<open>push\<close> appends the fragments of the user
  buffers, a cumulative acknowledgement drops the acknowledged prefix, refilling changes
  nothing, and every packet in the window carries its own sequence number and buffer.
\<close>

section \<open>Model\<close>

record send_queue =
  sq_mtu_size :: u64
  sq_queue_capacity :: u64
  sq_session :: u8
  sq_head :: u64
  sq_tail :: u64
  sq_wnd_size :: u16
  sq_handle :: "packet_handle list"
  sq_secondary_queue :: secondary_queue

type_synonym send_state = "packet_buffer_pool \<times> send_queue"

text \<open>
  The constructor; \<open>g\<close> is what the memory of the handles held before.  The window size is
  narrowed from \<open>size_t\<close> to 16 bits after the assertion compared it.
\<close>

definition SendQueue_new :: "(nat \<Rightarrow> packet_handle) \<Rightarrow> u64 \<Rightarrow> u64 \<Rightarrow> u64 \<Rightarrow> u8 \<Rightarrow> send_queue outcome" where
  "SendQueue_new g mtu_size queue_capacity wnd_size session =
     (if \<not> wnd_size \<le> queue_capacity then Inl AssertFailed
      else Inr \<lparr>sq_mtu_size = mtu_size, sq_queue_capacity = queue_capacity, sq_session = session,
                sq_head = 0, sq_tail = 0, sq_wnd_size = ucast wnd_size,
                sq_handle = map (\<lambda>i. PacketHandle_new (g i)) [0..<unat queue_capacity],
                sq_secondary_queue = SecondaryQueue_new (mtu_size - of_nat sizeof_PktHdr - of_nat kGRHSize)\<rparr>)"

text \<open>The destructor returns the buffers of the handles that have a payload.\<close>

definition SendQueue_delete :: "mem \<Rightarrow> packet_buffer_pool \<Rightarrow> send_queue \<Rightarrow> packet_buffer_pool \<times> mem" where
  "SendQueue_delete m p q =
     fold (\<lambda>entry (p, m). if getPayload entry \<noteq> 0 then snd (freePacket m p entry) else (p, m)) (sq_handle q) (p, m)"

definition send_more :: "send_queue \<Rightarrow> bool" where
  "send_more q \<longleftrightarrow> hasRemainingFragment (sq_secondary_queue q) \<and> sq_head q - sq_tail q \<le> ucast (sq_wnd_size q)"

text \<open>
  The body of the loop of \<open>fillPrimaryQueue\<close>.  \<open>setPayload\<close> without copying leaves
  memory alone, so memory is only read.
\<close>

definition send_fill_round :: "mem \<Rightarrow> send_state \<Rightarrow> send_state flow" where
  "send_fill_round m = (\<lambda>(p, q).
     if sq_queue_capacity q = 0 then Fault DivByZero
     else
       let i = unat (sq_head q mod sq_queue_capacity q);
           handle = sq_handle q ! i;
           (failed, p1, h1) = (if ph_packet_buf handle \<noteq> 0 then (0, p, handle) else allocatePacket m p handle False)
       in if failed \<noteq> 0 then Return 0 (p1, q\<lparr>sq_handle := (sq_handle q)[i := h1]\<rparr>)
          else
            let (fragment, sec) = popFragment (sq_secondary_queue q);
                h2 = h1\<lparr>ph_session := sq_session q, ph_cmd := PKT_CMD_DATA, ph_wnd := sq_wnd_size q,
                        ph_sn := SHORT_SN (sq_head q), ph_ts := 0\<rparr>;
                (rc, h3, m') = setPayload m (buf_addr fragment) (buf_length fragment) False h2
            in if rc \<noteq> 0
               then Return (-1) (p1, q\<lparr>sq_handle := (sq_handle q)[i := h3], sq_secondary_queue := sec\<rparr>)
               else Continue (p1, q\<lparr>sq_handle := (sq_handle q)[i := h3\<lparr>ph_inflight := True\<rparr>],
                                   sq_secondary_queue := sec, sq_head := sq_head q + 1\<rparr>))"

definition send_room :: "send_queue \<Rightarrow> nat" where
  "send_room q = Suc (unat (sq_wnd_size q)) - unat (sq_head q - sq_tail q)"

lemma send_round_fields:
  assumes "send_fill_round m s = Continue s'"
  shows "sq_head (snd s') = sq_head (snd s) + 1" "sq_tail (snd s') = sq_tail (snd s)"
    "sq_wnd_size (snd s') = sq_wnd_size (snd s)"
  using assms by (auto simp: send_fill_round_def Let_def split: prod.splits if_splits)

lemma send_round_progress:
  assumes "send_more (snd s)" "send_fill_round m s = Continue s'"
  shows "send_room (snd s') < send_room (snd s)"
proof -
  let ?q = "snd s"
  have le: "unat (sq_head ?q - sq_tail ?q) \<le> unat (sq_wnd_size ?q)"
    using assms(1) by (simp add: send_more_def word_le_nat_alt)
  then have "unat (sq_head ?q + 1 - sq_tail ?q) = Suc (unat (sq_head ?q - sq_tail ?q))"
    using unat_u16_less[of "sq_wnd_size ?q"] by (intro unat_Suc_diff) simp
  then show ?thesis using le by (simp add: send_room_def send_round_fields[OF assms(2)])
qed

function send_fillPrimaryQueue :: "mem \<Rightarrow> send_state \<Rightarrow> (int \<times> send_state) outcome" where
  "send_fillPrimaryQueue m s =
     (if send_more (snd s) then
        (case send_fill_round m s of
           Return rc s' \<Rightarrow> Inr (rc, s')
         | Continue s' \<Rightarrow> send_fillPrimaryQueue m s'
         | Fault f \<Rightarrow> Inl f)
      else Inr (0, s))"
  by pat_completeness auto

termination
  by (relation "measure (\<lambda>(m, s). send_room (snd s))") (auto dest: send_round_progress[rotated])

declare send_fillPrimaryQueue.simps [simp del]

text \<open>\<open>push\<close> also returns \<open>last_sn\<close>.\<close>

definition send_push :: "mem \<Rightarrow> buffer list \<Rightarrow> send_state \<Rightarrow> (u32 \<times> int \<times> send_state) outcome" where
  "send_push m slice_list = (\<lambda>(p, q).
     case secondary_push slice_list (sq_secondary_queue q) of
       Inl f \<Rightarrow> Inl f
     | Inr ((start_id, end_id), sec) \<Rightarrow>
         (case send_fillPrimaryQueue m (p, q\<lparr>sq_secondary_queue := sec\<rparr>) of
            Inl f \<Rightarrow> Inl f
          | Inr (rc, s') \<Rightarrow> Inr (SHORT_SN end_id, rc, s')))"

definition send_markCompleted :: "mem \<Rightarrow> u32 \<Rightarrow> send_state \<Rightarrow> (int \<times> send_state) outcome" where
  "send_markCompleted m ack_sn = (\<lambda>(p, q).
     send_fillPrimaryQueue m (p, q\<lparr>sq_tail := ack_advance (sq_tail q) (sq_head q) ack_sn\<rparr>))"

definition send_getNextSN :: "send_queue \<Rightarrow> u32" where
  "send_getNextSN q = SHORT_SN (sq_head q)"

definition send_getAckSN :: "send_queue \<Rightarrow> u32" where
  "send_getAckSN q = SHORT_SN (sq_tail q)"

definition send_getIndexRange :: "send_queue \<Rightarrow> int \<times> u64 \<times> u64" where
  "send_getIndexRange q = (0, sq_head q, sq_tail q)"

definition send_getMutableEntry :: "send_queue \<Rightarrow> u64 \<Rightarrow> packet_handle" where
  "send_getMutableEntry q index = sq_handle q ! unat (index mod sq_queue_capacity q)"

definition send_updateEntry :: "u64 \<Rightarrow> (packet_handle \<Rightarrow> packet_handle) \<Rightarrow> send_queue \<Rightarrow> send_queue" where
  "send_updateEntry index func q =
     (let i = unat (index mod sq_queue_capacity q) in
      q\<lparr>sq_handle := (sq_handle q)[i := func (sq_handle q ! i)]\<rparr>)"

text \<open>
  The loop of \<open>forEach\<close> runs \<open>curr\<close> from \<open>tail_\<close> until it equals \<open>head_\<close>, which
  takes \<open>head_ - tail_\<close> rounds; the return value of the callback is ignored.
\<close>

definition send_forEach :: "(packet_handle \<Rightarrow> packet_handle) \<Rightarrow> send_queue \<Rightarrow> send_queue" where
  "send_forEach func q =
     fold (\<lambda>k. send_updateEntry (sq_tail q + of_nat k) func) [0..<unat (sq_head q - sq_tail q)] q"

definition send_setWndSize :: "u16 \<Rightarrow> send_queue \<Rightarrow> send_queue" where
  "send_setWndSize wnd_size q = q\<lparr>sq_wnd_size := min wnd_size (ucast (sq_queue_capacity q))\<rparr>"

definition send_getWndSize :: "send_queue \<Rightarrow> u16" where
  "send_getWndSize q = sq_wnd_size q"

section \<open>Specification\<close>

definition handle_fragment :: "packet_handle \<Rightarrow> buffer" where
  "handle_fragment h = \<lparr>buf_addr = ph_data_buf h, buf_length = ucast (ph_data_len h)\<rparr>"

definition send_entries :: "send_queue \<Rightarrow> packet_handle list" where
  "send_entries q = ring_entries (sq_queue_capacity q) (sq_head q) (sq_tail q) (sq_handle q)"

definition send_window :: "send_queue \<Rightarrow> buffer list" where
  "send_window q = map handle_fragment (send_entries q)"

definition send_contents :: "send_queue \<Rightarrow> buffer list" where
  "send_contents q = send_window q @ sec_fragments (sq_secondary_queue q)"

text \<open>A packet in the window: its buffer, header fields and sequence number.\<close>

definition entry_ok :: "send_queue \<Rightarrow> nat \<Rightarrow> packet_handle \<Rightarrow> bool" where
  "entry_ok q k h \<longleftrightarrow> ph_packet_buf h \<noteq> 0 \<and> ph_session h = sq_session q \<and> ph_cmd h = PKT_CMD_DATA
     \<and> ph_sn h = SHORT_SN (sq_tail q + of_nat k)"

text \<open>
  Well-formed queues.  The window must be smaller than the ring (see \<open>send_window_too_large\<close>
  for what happens otherwise), the capacity a divisor of \<open>2 ^ 24\<close>, fragments fit in 32 bits
  and are not null, and \<open>fragment_id_\<close> counts the fragments ever queued.
\<close>

definition send_wf :: "send_queue \<Rightarrow> bool" where
  "send_wf q \<longleftrightarrow>
     unat (sq_queue_capacity q) dvd 2 ^ 24 \<and> length (sq_handle q) = unat (sq_queue_capacity q)
     \<and> unat (sq_wnd_size q) < unat (sq_queue_capacity q)
     \<and> unat (sq_head q - sq_tail q) \<le> min (unat (sq_queue_capacity q)) (2 ^ 16)
     \<and> sec_inv (sq_secondary_queue q) \<and> unat (sec_fragment_size (sq_secondary_queue q)) < 2 ^ 32
     \<and> (\<forall>b\<in>set (sec_fragments (sq_secondary_queue q)).
          buf_addr b \<noteq> 0 \<and> buf_length b \<le> sec_fragment_size (sq_secondary_queue q))
     \<and> sec_fragment_id (sq_secondary_queue q) = sq_head q + of_nat (length (sec_fragments (sq_secondary_queue q)))
     \<and> (\<forall>k<unat (sq_head q - sq_tail q). entry_ok q k (send_entries q ! k))"

text \<open>The buffers a queue holds, and the invariant with the buffers \<open>others\<close> held elsewhere.\<close>

definition queue_bufs :: "packet_handle list \<Rightarrow> addr list" where
  "queue_bufs hs = filter (\<lambda>a. a \<noteq> 0) (map ph_packet_buf hs)"

definition send_inv :: "mem \<Rightarrow> addr list \<Rightarrow> send_state \<Rightarrow> bool" where
  "send_inv m others s \<longleftrightarrow> send_wf (snd s) \<and> pool_inv (fst s) m (queue_bufs (sq_handle (snd s)) @ others)"

section \<open>Buffers of a queue\<close>

lemma queue_bufs_update_same:
  assumes "i < length hs" "ph_packet_buf h = ph_packet_buf (hs ! i)"
  shows "queue_bufs (hs[i := h]) = queue_bufs hs"
proof -
  have "(map ph_packet_buf hs)[i := ph_packet_buf (hs ! i)] = map ph_packet_buf hs"
    using assms(1) by (simp add: list_update_same_conv)
  with assms(2) show ?thesis by (simp add: queue_bufs_def map_update)
qed

lemma queue_bufs_update_new:
  assumes "i < length hs" "ph_packet_buf (hs ! i) = 0" "ph_packet_buf h \<noteq> 0"
  shows "mset (queue_bufs (hs[i := h])) = add_mset (ph_packet_buf h) (mset (queue_bufs hs))"
  using assms by (simp add: queue_bufs_def map_update mset_update)

section \<open>One round of the fill loop\<close>

definition filled_handle :: "send_queue \<Rightarrow> buffer \<Rightarrow> packet_handle \<Rightarrow> packet_handle" where
  "filled_handle q b h =
     h\<lparr>ph_session := sq_session q, ph_cmd := PKT_CMD_DATA, ph_wnd := sq_wnd_size q, ph_sn := SHORT_SN (sq_head q),
       ph_ts := 0, ph_data_buf := buf_addr b, ph_data_len := ucast (buf_length b), ph_inflight := True\<rparr>"

lemma send_inv_slot:
  assumes "send_wf q"
  shows "sq_queue_capacity q \<noteq> 0" "unat (sq_head q mod sq_queue_capacity q) < length (sq_handle q)"
proof -
  have r: "ring (sq_queue_capacity q)" using assms by (simp add: send_wf_def ring_def)
  show "sq_queue_capacity q \<noteq> 0" using ring.cap_nonzero[OF r] .
  show "unat (sq_head q mod sq_queue_capacity q) < length (sq_handle q)"
    using assms ring.slot_less[OF r] by (simp add: send_wf_def)
qed

text \<open>A round gives up without any change when the pool is exhausted, and otherwise fills one slot.\<close>

lemma send_round_cases:
  assumes inv: "send_inv m others (p, q)" and more: "send_more q"
  obtains (exhausted) "send_fill_round m (p, q) = Return 0 (p, q)"
      "set (queue_bufs (sq_handle q) @ others) = slots p"
  | (filled) p' h b sec where "send_fill_round m (p, q) =
      Continue (p', q\<lparr>sq_handle := (sq_handle q)[unat (sq_head q mod sq_queue_capacity q) := filled_handle q b h],
                       sq_secondary_queue := sec, sq_head := sq_head q + 1\<rparr>)"
      "popFragment (sq_secondary_queue q) = (b, sec)" "ph_packet_buf h \<noteq> 0"
      "pool_inv p' m (queue_bufs ((sq_handle q)[unat (sq_head q mod sq_queue_capacity q) := filled_handle q b h]) @ others)"
proof -
  let ?i = "unat (sq_head q mod sq_queue_capacity q)"
  have wf: "send_wf q" and pool: "pool_inv p m (queue_bufs (sq_handle q) @ others)"
    using inv by (auto simp: send_inv_def)
  note slot = send_inv_slot[OF wf]
  obtain b sec where pop: "popFragment (sq_secondary_queue q) = (b, sec)" by fastforce
  have "b \<in> set (sec_fragments (sq_secondary_queue q))"
    using popFragment_fragments(1)[OF _ _ pop] wf more
    by (simp add: send_wf_def send_more_def hasRemainingFragment_iff)
  then have b: "buf_addr b \<noteq> 0" using wf by (simp add: send_wf_def)
  show thesis
  proof (cases "ph_packet_buf (sq_handle q ! ?i) = 0")
    case False
    have round: "send_fill_round m (p, q) =
      Continue (p, q\<lparr>sq_handle := (sq_handle q)[?i := filled_handle q b (sq_handle q ! ?i)],
                       sq_secondary_queue := sec, sq_head := sq_head q + 1\<rparr>)"
      using False slot(1) b by (simp add: send_fill_round_def Let_def pop setPayload_def filled_handle_def)
    have "queue_bufs ((sq_handle q)[?i := filled_handle q b (sq_handle q ! ?i)]) = queue_bufs (sq_handle q)"
      by (rule queue_bufs_update_same[OF slot(2)]) (simp add: filled_handle_def)
    with pool show thesis using that(2)[OF round pop False] by (simp only:)
  next
    case True
    from pool show thesis
    proof (cases rule: pool_inv_allocate[where h = "sq_handle q ! ?i" and grh = False])
      case exhausted
      then have "send_fill_round m (p, q) = Return 0 (p, q)"
        using True slot(1) by (simp add: send_fill_round_def Let_def)
      with exhausted(2) that(1) show thesis by blast
    next
      case (popped x p')
      let ?h = "setRawPacket x False (sq_handle q ! ?i)"
      have hb: "ph_packet_buf ?h = x" by (simp add: setRawPacket_def)
      have "send_fill_round m (p, q) =
        Continue (p', q\<lparr>sq_handle := (sq_handle q)[?i := filled_handle q b ?h],
                         sq_secondary_queue := sec, sq_head := sq_head q + 1\<rparr>)"
        using True slot(1) b popped(1,3) hb
        by (simp add: send_fill_round_def Let_def pop setPayload_def filled_handle_def)
      moreover have "mset (queue_bufs ((sq_handle q)[?i := filled_handle q b ?h]) @ others)
          = mset (x # queue_bufs (sq_handle q) @ others)"
        using queue_bufs_update_new[OF slot(2) True, of "filled_handle q b ?h"] popped(3) hb
        by (simp add: filled_handle_def)
      ultimately show thesis using that(2) pop popped(2,3) pool_inv_mset hb by metis
    qed
  qed
qed


lemma send_round_contents:
  assumes wf: "send_wf q" and more: "send_more q" and pop: "popFragment (sq_secondary_queue q) = (b, sec)"
    and h: "ph_packet_buf h \<noteq> 0"
    and q': "q' = q\<lparr>sq_handle := (sq_handle q)[unat (sq_head q mod sq_queue_capacity q) := filled_handle q b h],
                   sq_secondary_queue := sec, sq_head := sq_head q + 1\<rparr>"
  shows "send_wf q'" "sec_fragments (sq_secondary_queue q) = b # sec_fragments sec"
    "send_window q' = send_window q @ [b]"
proof -
  let ?n = "unat (sq_head q - sq_tail q)" and ?cap = "sq_queue_capacity q"
  have r: "ring ?cap" using wf by (simp add: send_wf_def ring_def)
  have n: "?n < unat ?cap" "?n \<le> unat (sq_wnd_size q)"
    using wf more by (simp_all add: send_wf_def send_more_def word_le_nat_alt)
  have n': "unat (sq_head q + 1 - sq_tail q) = Suc ?n"
    using n(2) unat_u16_less[of "sq_wnd_size q"] by (intro unat_Suc_diff) simp
  have sec: "sec_inv (sq_secondary_queue q)" "sec_fragments (sq_secondary_queue q) \<noteq> []"
    using wf more by (simp_all add: send_wf_def send_more_def hasRemainingFragment_iff)
  note P = popFragment_fragments[OF sec pop]
  show "sec_fragments (sq_secondary_queue q) = b # sec_fragments sec" by (rule P(1))
  have E: "send_entries q' = send_entries q @ [filled_handle q b h]"
    using ring.ring_entries_push[OF r n(1), of "sq_handle q"] wf by (simp add: send_entries_def q' send_wf_def)
  have "b \<in> set (sec_fragments (sq_secondary_queue q))" using P(1) by simp
  then have "buf_length b \<le> sec_fragment_size (sq_secondary_queue q)"
    "unat (sec_fragment_size (sq_secondary_queue q)) < 2 ^ 32"
    using wf by (simp_all add: send_wf_def)
  then have "unat (buf_length b) < 2 ^ 32" by (simp add: word_le_nat_alt)
  then show "send_window q' = send_window q @ [b]"
    unfolding send_window_def E by (simp add: handle_fragment_def filled_handle_def ucast_ucast_u32)
  have "entry_ok q' k (send_entries q' ! k)" if "k < Suc ?n" for k
  proof (cases "k < ?n")
    case True
    then have "entry_ok q k (send_entries q ! k)" using wf by (simp add: send_wf_def)
    with True show ?thesis unfolding E by (simp add: nth_append send_entries_def entry_ok_def q')
  next
    case False
    with that have "k = ?n" by simp
    with h show ?thesis
      unfolding E by (simp add: nth_append send_entries_def entry_ok_def q' filled_handle_def of_nat_unat)
  qed
  with wf n n' P unat_u16_less[of "sq_wnd_size q"] show "send_wf q'" by (auto simp: send_wf_def q')
qed

section \<open>The fill loop and the FIFO\<close>

definition send_frame :: "send_state \<Rightarrow> u64 \<times> u64 \<times> u8 \<times> u64 \<times> u16 \<times> u64 \<times> u64" where
  "send_frame s = (let q = snd s in (sq_mtu_size q, sq_queue_capacity q, sq_session q, sq_tail q, sq_wnd_size q,
     sec_fragment_size (sq_secondary_queue q), sec_fragment_id (sq_secondary_queue q)))"

interpretation send_fill: fill_window "\<lambda>s. send_more (snd s)" "send_fill_round m" "send_fillPrimaryQueue m"
  "\<lambda>s. send_room (snd s)" "send_inv m others" "\<lambda>s. send_window (snd s)"
  "\<lambda>s. sec_fragments (sq_secondary_queue (snd s))" send_frame for m others
proof unfold_locales
  fix s show "send_fillPrimaryQueue m s = (if send_more (snd s) then (case send_fill_round m s of Return rc s' \<Rightarrow> Inr (rc, s')
      | Continue s' \<Rightarrow> send_fillPrimaryQueue m s' | Fault f \<Rightarrow> Inl f) else Inr (0, s))"
    by (rule send_fillPrimaryQueue.simps)
next
  fix s s' assume "send_more (snd s)" "send_fill_round m s = Continue s'"
  then show "send_room (snd s') < send_room (snd s)" by (rule send_round_progress)
next
  fix s s' assume *: "send_inv m others s" "send_more (snd s)" "send_fill_round m s = Continue s'"
  obtain p q where s: "s = (p, q)" by fastforce
  from * have inv: "send_inv m others (p, q)" and more: "send_more q" by (simp_all add: s)
  then have wf: "send_wf q" by (simp add: send_inv_def)
  from inv more show "send_inv m others s' \<and> send_frame s' = send_frame s
      \<and> (\<exists>b. sec_fragments (sq_secondary_queue (snd s)) = b # sec_fragments (sq_secondary_queue (snd s'))
           \<and> send_window (snd s') = send_window (snd s) @ [b])"
  proof (cases rule: send_round_cases)
    case (filled p' h b sec)
    have sec: "sec_inv (sq_secondary_queue q)" "sec_fragments (sq_secondary_queue q) \<noteq> []"
      using wf more by (simp_all add: send_wf_def send_more_def hasRemainingFragment_iff)
    show ?thesis
      using *(3) filled send_round_contents[OF wf more filled(2,3) refl] popFragment_fragments(3,4)[OF sec filled(2)]
      by (auto simp: s send_inv_def send_frame_def Let_def)
  qed (use * s in simp)
next
  fix s s' rc assume "send_inv m others s" "send_more (snd s)" "send_fill_round m s = Return rc s'"
  then show "rc = 0 \<and> s' = s"
    by (cases s) (auto elim!: send_round_cases)
next
  fix s f assume "send_inv m others s" "send_more (snd s)"
  then show "send_fill_round m s \<noteq> Fault f"
    by (cases s) (auto elim!: send_round_cases)
qed

text \<open>What stops the loop: no fragment left, a full window, or an exhausted pool.\<close>

definition send_stopped :: "addr list \<Rightarrow> send_state \<Rightarrow> bool" where
  "send_stopped others s \<longleftrightarrow> sec_fragments (sq_secondary_queue (snd s)) = []
     \<or> unat (sq_wnd_size (snd s)) < unat (sq_head (snd s) - sq_tail (snd s))
     \<or> set (queue_bufs (sq_handle (snd s)) @ others) = slots (fst s)"

lemma send_settled:
  assumes "send_inv m others s" "send_fill.settled m s"
  shows "send_stopped others s"
proof (cases "send_more (snd s)")
  case True
  obtain p q where s: "s = (p, q)" by fastforce
  have inv: "send_inv m others (p, q)" and more: "send_more q" using assms(1) True by (simp_all add: s)
  have r: "send_fill_round m (p, q) = Return 0 (p, q)" using assms(2) True by (simp add: send_fill.settled_def s)
  from inv more show ?thesis
    by (cases rule: send_round_cases) (use r in \<open>simp_all add: send_stopped_def s\<close>)
next
  case False
  then show ?thesis by (auto simp: send_more_def send_stopped_def hasRemainingFragment_iff word_le_nat_alt)
qed

lemma send_fill_ok:
  assumes "send_inv m others (p, q)"
  obtains p' q' where "send_fillPrimaryQueue m (p, q) = Inr (0, p', q')" "send_inv m others (p', q')"
    "send_frame (p', q') = send_frame (p, q)" "send_stopped others (p', q')" "send_contents q' = send_contents q"
    "unat (sq_head q - sq_tail q) \<le> unat (sq_head q' - sq_tail q')"
proof -
  from assms obtain s' where s': "send_fillPrimaryQueue m (p, q) = Inr (0, s')" "send_inv m others s'"
    "send_frame s' = send_frame (p, q)" "send_fill.settled m s'"
    "send_window (snd s') @ sec_fragments (sq_secondary_queue (snd s'))
       = send_window q @ sec_fragments (sq_secondary_queue q)"
    "\<exists>n. send_window (snd s') = send_window q @ take n (sec_fragments (sq_secondary_queue q))"
    by (rule send_fill.fill_keeps_fifo) auto
  from s'(6) have "length (send_window q) \<le> length (send_window (snd s'))" by auto
  then have "unat (sq_head q - sq_tail q) \<le> unat (sq_head (snd s') - sq_tail (snd s'))"
    by (simp add: send_window_def send_entries_def)
  with s' send_settled[OF s'(2,4)] show thesis
    by (intro that[of "fst s'" "snd s'"]) (simp_all add: send_contents_def)
qed

section \<open>The operations on the FIFO\<close>

lemma send_inv_push:
  assumes inv: "send_inv m others (p, q)" and ok: "\<forall>e\<in>set es. user_ok (sec_fragment_size (sq_secondary_queue q)) e"
  obtains sec where "secondary_push es (sq_secondary_queue q) = Inr ((sec_fragment_id (sq_secondary_queue q), sec_fragment_id sec), sec)"
    "send_inv m others (p, q\<lparr>sq_secondary_queue := sec\<rparr>)"
    "send_contents (q\<lparr>sq_secondary_queue := sec\<rparr>) = send_contents q @ user_chunks (sec_fragment_size (sq_secondary_queue q)) es"
    "sec_fragment_size sec = sec_fragment_size (sq_secondary_queue q)"
proof -
  let ?s = "sq_secondary_queue q" and ?fs = "sec_fragment_size (sq_secondary_queue q)"
  have wf: "send_wf q" using inv by (simp add: send_inv_def)
  then have si: "sec_inv ?s" by (simp add: send_wf_def)
  then have fs: "?fs \<noteq> 0" by (simp add: sec_inv_def)
  have "\<forall>e\<in>set es. slice_ok ?fs e" using ok by (simp add: user_ok_def)
  with push_slices_ok[OF si, of es] obtain sec where sec: "push_slices es ?s = Inr sec" "sec_inv sec"
    "sec_fragment_size sec = ?fs" "sec_fragments sec = sec_fragments ?s @ user_chunks ?fs es"
    "sec_fragment_id sec = sec_fragment_id ?s + of_nat (length (user_chunks ?fs es))" by blast
  have "send_wf (q\<lparr>sq_secondary_queue := sec\<rparr>)"
    using wf sec user_chunks_addr[OF ok] user_chunks_length[OF fs]
    by (auto simp: send_wf_def entry_ok_def send_entries_def)
  then have "send_inv m others (p, q\<lparr>sq_secondary_queue := sec\<rparr>)" using inv by (simp add: send_inv_def)
  with sec show thesis
    by (intro that[of sec]) (simp_all add: secondary_push_def send_contents_def send_window_def send_entries_def)
qed

lemma send_push_ok:
  assumes inv: "send_inv m others (p, q)" and ok: "\<forall>e\<in>set es. user_ok (sec_fragment_size (sq_secondary_queue q)) e"
  shows "\<exists>p' q'. send_push m es (p, q) = Inr (SHORT_SN (sq_tail q + of_nat (length (send_contents q'))), 0, p', q')
    \<and> send_inv m others (p', q') \<and> send_stopped others (p', q') \<and> sq_tail q' = sq_tail q
    \<and> send_contents q' = send_contents q @ user_chunks (sec_fragment_size (sq_secondary_queue q)) es
    \<and> unat (sq_head q - sq_tail q) \<le> unat (sq_head q' - sq_tail q')
    \<and> sec_fragment_size (sq_secondary_queue q') = sec_fragment_size (sq_secondary_queue q)"
proof -
  obtain sec where sec: "secondary_push es (sq_secondary_queue q) = Inr ((sec_fragment_id (sq_secondary_queue q), sec_fragment_id sec), sec)"
    "send_inv m others (p, q\<lparr>sq_secondary_queue := sec\<rparr>)"
    "send_contents (q\<lparr>sq_secondary_queue := sec\<rparr>) = send_contents q @ user_chunks (sec_fragment_size (sq_secondary_queue q)) es"
    "sec_fragment_size sec = sec_fragment_size (sq_secondary_queue q)"
    using send_inv_push[OF inv ok] by blast
  obtain p' q' where f: "send_fillPrimaryQueue m (p, q\<lparr>sq_secondary_queue := sec\<rparr>) = Inr (0, p', q')"
    "send_inv m others (p', q')" "send_frame (p', q') = send_frame (p, q\<lparr>sq_secondary_queue := sec\<rparr>)"
    "send_stopped others (p', q')" "send_contents q' = send_contents (q\<lparr>sq_secondary_queue := sec\<rparr>)"
    "unat (sq_head q - sq_tail q) \<le> unat (sq_head q' - sq_tail q')"
    using send_fill_ok[OF sec(2)] by auto
  have t: "sq_tail q' = sq_tail q" "sec_fragment_id (sq_secondary_queue q') = sec_fragment_id sec"
    "sec_fragment_size (sq_secondary_queue q') = sec_fragment_size sec"
    using f(3) by (simp_all add: send_frame_def Let_def)
  have "sec_fragment_id (sq_secondary_queue q') = sq_tail q' + of_nat (length (send_contents q'))"
    using f(2) by (simp add: send_inv_def send_wf_def send_contents_def send_window_def send_entries_def of_nat_unat)
  then show ?thesis using sec f t by (simp add: send_push_def)
qed

text \<open>
  C5. \<open>SendQueue::push\<close> is enqueue.  On a well-formed queue whose pool accounts for every
  buffer, pushing non-empty user buffers never faults and returns 0; the queue then holds what
  it held before followed by the fragments of the buffers; the returned \<open>last_sn\<close> is the
  acknowledgement number at which all of it has been delivered; the invariant is kept; and
  the window is filled as far as fragments, window size and pool allow.
\<close>

theorem send_push_enqueues:
  assumes inv: "send_inv m others (p, q)" and ok: "\<forall>e\<in>set es. user_ok (sec_fragment_size (sq_secondary_queue q)) e"
  shows "\<exists>p' q'. send_push m es (p, q) = Inr (SHORT_SN (sq_tail q + of_nat (length (send_contents q'))), 0, p', q')
    \<and> send_inv m others (p', q') \<and> send_stopped others (p', q') \<and> sq_tail q' = sq_tail q
    \<and> send_contents q' = send_contents q @ user_chunks (sec_fragment_size (sq_secondary_queue q)) es"
  using send_push_ok[OF assms] by blast

lemma send_advance_tail:
  assumes inv: "send_inv m others (p, q)" and k: "k \<le> unat (sq_head q - sq_tail q)"
  shows "send_inv m others (p, q\<lparr>sq_tail := sq_tail q + of_nat k\<rparr>)"
    "send_contents (q\<lparr>sq_tail := sq_tail q + of_nat k\<rparr>) = drop k (send_contents q)"
proof -
  let ?n = "unat (sq_head q - sq_tail q)" and ?q = "q\<lparr>sq_tail := sq_tail q + of_nat k\<rparr>"
  have wf: "send_wf q" using inv by (simp add: send_inv_def)
  have E: "send_entries ?q = drop k (send_entries q)"
    using ring_entries_advance[OF k, of "sq_queue_capacity q" "sq_handle q"] by (simp add: send_entries_def)
  have n': "unat (sq_head q - (sq_tail q + of_nat k)) = ?n - k" by (rule unat_advance_tail[OF k])
  have "entry_ok ?q i (send_entries ?q ! i)" if "i < ?n - k" for i
  proof -
    have "entry_ok q (k + i) (send_entries q ! (k + i))" using wf that by (simp add: send_wf_def)
    with that k show ?thesis unfolding E by (simp add: entry_ok_def send_entries_def add.assoc)
  qed
  then have "send_wf ?q" using wf n' by (auto simp: send_wf_def intro: le_trans[OF diff_le_self])
  then show "send_inv m others (p, ?q)" using inv by (simp add: send_inv_def)
  show "send_contents ?q = drop k (send_contents q)"
    using k by (simp add: send_contents_def send_window_def E drop_map) (simp add: send_entries_def)
qed

lemma send_markCompleted_ok:
  assumes inv: "send_inv m others (p, q)" and a: "unat ack < 2 ^ 24"
  shows "\<exists>p' q' k. send_markCompleted m ack (p, q) = Inr (0, p', q')
    \<and> k = (case acked_index (sq_tail q) (sq_head q) ack of Some j \<Rightarrow> j | None \<Rightarrow> 0)
    \<and> sq_tail q' = sq_tail q + of_nat k \<and> send_contents q' = drop k (send_contents q)
    \<and> send_inv m others (p', q') \<and> send_stopped others (p', q') \<and> k \<le> unat (sq_head q - sq_tail q)
    \<and> unat (sq_head q - sq_tail q) \<le> k + unat (sq_head q' - sq_tail q')
    \<and> sec_fragment_size (sq_secondary_queue q') = sec_fragment_size (sq_secondary_queue q)"
proof -
  let ?n = "unat (sq_head q - sq_tail q)"
  define k where "k = (case acked_index (sq_tail q) (sq_head q) ack of Some j \<Rightarrow> j | None \<Rightarrow> 0)"
  let ?q = "q\<lparr>sq_tail := sq_tail q + of_nat k\<rparr>"
  have k: "k \<le> ?n" by (simp add: k_def acked_index_le split: option.splits)
  have "?n < 2 ^ 24" using inv by (simp add: send_inv_def send_wf_def)
  then have adv: "ack_advance (sq_tail q) (sq_head q) ack = sq_tail q + of_nat k"
    using ack_advance_eq[OF _ a] by (simp add: k_def split: option.splits)
  note A = send_advance_tail[OF inv k]
  obtain p' q' where "send_fillPrimaryQueue m (p, ?q) = Inr (0, p', q')" "send_inv m others (p', q')"
    "send_frame (p', q') = send_frame (p, ?q)" "send_stopped others (p', q')" "send_contents q' = send_contents ?q"
    "unat (sq_head q - (sq_tail q + of_nat k)) \<le> unat (sq_head q' - sq_tail q')"
    using send_fill_ok[OF A(1)] by auto
  then show ?thesis
    using adv A(2) k unat_advance_tail[OF k] by (auto simp: send_markCompleted_def k_def[symmetric] send_frame_def Let_def)
qed

text \<open>
  C6. \<open>SendQueue::markCompleted\<close> is a cumulative dequeue.  An acknowledgement whose
  24-bit number is the number of an index in \<open>[tail_, head_]\<close> removes exactly the packets
  before that index, also across the wrap of the 24-bit numbers; any other number removes
  nothing; the call returns 0, keeps the invariant and refills the window.
\<close>

theorem send_markCompleted_dequeues:
  assumes inv: "send_inv m others (p, q)" and a: "unat ack < 2 ^ 24"
  shows "\<exists>p' q' k. send_markCompleted m ack (p, q) = Inr (0, p', q')
    \<and> k = (case acked_index (sq_tail q) (sq_head q) ack of Some j \<Rightarrow> j | None \<Rightarrow> 0)
    \<and> sq_tail q' = sq_tail q + of_nat k \<and> send_contents q' = drop k (send_contents q)
    \<and> send_inv m others (p', q') \<and> send_stopped others (p', q')"
  using send_markCompleted_ok[OF assms] by blast

text \<open>
  Packets in flight are separate.  On a well-formed queue any two packets of the window
  have different sequence numbers and packet buffers that do not overlap, and neither overlaps
  a buffer held elsewhere.
\<close>

lemma send_window_separate:
  assumes inv: "send_inv m others (p, q)" and ij: "i < j" "j < length (send_entries q)"
  shows "ph_sn (send_entries q ! i) \<noteq> ph_sn (send_entries q ! j)
    \<and> region (ph_packet_buf (send_entries q ! i)) (unat (pool_mtu_size p))
        \<inter> region (ph_packet_buf (send_entries q ! j)) (unat (pool_mtu_size p)) = {}
    \<and> (\<forall>x\<in>set others. region (ph_packet_buf (send_entries q ! i)) (unat (pool_mtu_size p))
        \<inter> region x (unat (pool_mtu_size p)) = {})"
proof -
  let ?t = "sq_tail q" and ?c = "sq_queue_capacity q" and ?n = "unat (sq_head q - sq_tail q)"
  let ?slot = "\<lambda>k. unat ((sq_tail q + of_nat k) mod sq_queue_capacity q)"
  have wf: "send_wf q" and pool: "pool_inv p m (queue_bufs (sq_handle q) @ others)"
    using inv by (auto simp: send_inv_def)
  have n: "?n \<le> unat ?c" "?n \<le> 2 ^ 16" and r: "ring ?c" and len: "length (sq_handle q) = unat ?c"
    using wf by (simp_all add: send_wf_def ring_def)
  have j: "j < ?n" "i < ?n" using ij by (simp_all add: send_entries_def)
  have e: "entry_ok q i (send_entries q ! i)" "entry_ok q j (send_entries q ! j)"
    using wf j by (simp_all add: send_wf_def)
  have at: "send_entries q ! i = sq_handle q ! ?slot i" "send_entries q ! j = sq_handle q ! ?slot j"
    using j by (simp_all add: send_entries_def ring_entries_nth)
  have lt: "?slot i < length (sq_handle q)" "?slot j < length (sq_handle q)"
    using ring.slot_less[OF r] len by simp_all
  have "?slot i \<noteq> ?slot j" using ring.slot_inj[OF r, of ?t i j] j n ij(1) by auto
  then have "ph_packet_buf (send_entries q ! i) \<noteq> ph_packet_buf (send_entries q ! j)"
    using distinct_filter_nth[of "\<lambda>a. a \<noteq> 0" "map ph_packet_buf (sq_handle q)" "?slot i" "?slot j"]
      pool_inv_arena[OF pool] lt e at by (auto simp: queue_bufs_def entry_ok_def)
  moreover have held: "set (queue_bufs (sq_handle q)) \<union> set others \<subseteq> slots p"
    "set (queue_bufs (sq_handle q)) \<inter> set others = {}" "arena_ok p"
    using pool_inv_arena[OF pool] by auto
  moreover have b: "ph_packet_buf (send_entries q ! i) \<in> set (queue_bufs (sq_handle q))"
    "ph_packet_buf (send_entries q ! j) \<in> set (queue_bufs (sq_handle q))"
    using e lt at by (auto simp: queue_bufs_def entry_ok_def)
  ultimately have "region (ph_packet_buf (send_entries q ! i)) (unat (pool_mtu_size p))
        \<inter> region (ph_packet_buf (send_entries q ! j)) (unat (pool_mtu_size p)) = {}"
    by (intro slots_disjoint) auto
  moreover have "region (ph_packet_buf (send_entries q ! i)) (unat (pool_mtu_size p))
        \<inter> region x (unat (pool_mtu_size p)) = {}" if "x \<in> set others" for x
    using held b(1) that by (intro slots_disjoint) auto
  moreover have "ph_sn (send_entries q ! i) \<noteq> ph_sn (send_entries q ! j)"
    using e SHORT_SN_inj[of ?t i j] j n ij(1) by (auto simp: entry_ok_def)
  ultimately show ?thesis by blast
qed

section \<open>Initial queues and concrete runs\<close>

lemma SendQueue_new_inv:
  assumes "pool_inv p m others" "unat cap dvd 2 ^ 24" "unat wnd < unat cap" "unat wnd < 2 ^ 16"
    "48 < unat mtu" "unat mtu < 2 ^ 32"
  obtains q where "SendQueue_new g mtu cap wnd session = Inr q" "send_inv m others (p, q)" "send_contents q = []"
proof -
  obtain q where q: "SendQueue_new g mtu cap wnd session = Inr q" "q = \<lparr>sq_mtu_size = mtu, sq_queue_capacity = cap,
      sq_session = session, sq_head = 0, sq_tail = 0, sq_wnd_size = ucast wnd,
      sq_handle = map (\<lambda>i. PacketHandle_new (g i)) [0..<unat cap],
      sq_secondary_queue = SecondaryQueue_new (mtu - 8 - 40)\<rparr>"
    using assms(3) by (simp add: SendQueue_new_def sizeof_PktHdr_def kGRHSize_def word_le_nat_alt)
  have f: "unat (mtu - 48) = unat mtu - 48" using assms(5) by (subst unat_sub) (auto simp: word_le_nat_alt)
  then have "unat (mtu - 8 - 40) = unat mtu - 48" by (simp add: diff_diff_eq)
  then have "mtu - 8 - 40 \<noteq> 0" "unat (mtu - 8 - 40) < 2 ^ 32" using assms(5,6) by (auto simp: word_unat_eq_iff)
  moreover have "unat (ucast wnd :: u16) = unat wnd"
    using assms(4) by (simp add: unsigned_ucast_eq take_bit_nat_eq_self_iff)
  ultimately have "send_wf q"
    using assms by (simp add: q(2) send_wf_def sec_inv_def SecondaryQueue_new_def sec_fragments_def)
  moreover have "queue_bufs (sq_handle q) = []" by (simp add: q(2) queue_bufs_def PacketHandle_new_def)
  ultimately show thesis
    using q assms(1) by (intro that[of q])
      (simp_all add: send_inv_def send_contents_def send_window_def send_entries_def sec_fragments_def SecondaryQueue_new_def)
qed

text \<open>A pool of two buffers, both in the window of a queue with room for four.\<close>

definition test_full_pool :: packet_buffer_pool where
  "test_full_pool = \<lparr>pool_mtu_size = 64, pool_max_packets = 2, pool_arena = 4096, pool_global_free_buffer = 0\<rparr>"

definition test_packet :: "addr \<Rightarrow> addr \<Rightarrow> u32 \<Rightarrow> packet_handle" where
  "test_packet buf data sn = \<lparr>ph_session = 3, ph_cmd = 0, ph_wnd = 2, ph_sn = sn, ph_ts = 0, ph_compacted = False,
     ph_inflight = True, ph_pkt_hdr_imm = 0, ph_with_grh = False, ph_packet_buf = buf, ph_data_len = 16,
     ph_data_buf = data\<rparr>"

definition test_send_queue :: send_queue where
  "test_send_queue = \<lparr>sq_mtu_size = 64, sq_queue_capacity = 4, sq_session = 3, sq_head = 2, sq_tail = 0,
     sq_wnd_size = 2, sq_handle = [test_packet 4096 8192 0, test_packet 4160 8208 1, test_packet 0 0 0, test_packet 0 0 0],
     sq_secondary_queue = \<lparr>sec_slice_list = [], sec_offset = 0, sec_fragment_id = 2, sec_fragment_size = 16\<rparr>\<rparr>"

lemma test_full_pool_inv: "pool_inv test_full_pool m [4096, 4160]"
proof -
  have "{..<2 :: nat} = {0, 1}" by auto
  then have "slots test_full_pool = {4096, 4160}"
    by (simp add: slots_def test_full_pool_def slot_addr_def)
  then show ?thesis
    unfolding pool_inv_def
    by (intro exI[of _ "[]"]) (simp add: pool_free_def arena_ok_def test_full_pool_def)
qed

lemma test_entries: "send_entries test_send_queue = [test_packet 4096 8192 0, test_packet 4160 8208 1]"
  by (simp add: send_entries_def test_send_queue_def ring_entries_def upt_rec)

lemma test_send_inv: "send_inv m [] (test_full_pool, test_send_queue)"
proof -
  have "(2 ^ 24 :: nat) = unat (4 :: u64) * 4194304" by simp
  then have d: "unat (4 :: u64) dvd 2 ^ 24" by (rule dvdI)
  have "\<forall>k<2. entry_ok test_send_queue k (send_entries test_send_queue ! k)"
    unfolding test_entries by (auto simp: entry_ok_def test_send_queue_def test_packet_def PKT_CMD_DATA_def
        less_2_cases_iff SHORT_SN_def)
  then have "send_wf test_send_queue"
    using d by (simp add: send_wf_def test_send_queue_def sec_inv_def sec_fragments_def)
  moreover have "queue_bufs (sq_handle test_send_queue) = [4096, 4160]"
    by (simp add: queue_bufs_def test_send_queue_def test_packet_def)
  ultimately show ?thesis using test_full_pool_inv by (simp add: send_inv_def)
qed

lemma test_contents:
  "send_contents test_send_queue = [\<lparr>buf_addr = 8192, buf_length = 16\<rparr>, \<lparr>buf_addr = 8208, buf_length = 16\<rparr>]"
  by (simp add: send_contents_def send_window_def test_entries handle_fragment_def test_packet_def)
     (simp add: test_send_queue_def sec_fragments_def)

theorem send_push_enqueues_witness:
  "\<exists>p' q'. send_push (\<lambda>_. 0) [\<lparr>buf_addr = 8224, buf_length = 8\<rparr>] (test_full_pool, test_send_queue) = Inr (3, 0, p', q')
     \<and> send_contents q' = [\<lparr>buf_addr = 8192, buf_length = 16\<rparr>, \<lparr>buf_addr = 8208, buf_length = 16\<rparr>,
                            \<lparr>buf_addr = 8224, buf_length = 8\<rparr>]"
proof -
  have f: "sec_fragment_size (sq_secondary_queue test_send_queue) = 16" "sq_tail test_send_queue = 0"
    by (simp_all add: test_send_queue_def)
  have c: "user_chunks 16 [\<lparr>buf_addr = 8224, buf_length = 8\<rparr>] = [\<lparr>buf_addr = 8224, buf_length = 8\<rparr>]"
    by (simp add: chunks.simps)
  show ?thesis
    using send_push_enqueues[OF test_send_inv[of "\<lambda>_. 0"], of "[\<lparr>buf_addr = 8224, buf_length = 8\<rparr>]"]
    unfolding f c test_contents by (auto simp: user_ok_def slice_ok_def SHORT_SN_def)
qed

theorem send_markCompleted_dequeues_witness:
  "\<exists>p' q'. send_markCompleted (\<lambda>_. 0) 1 (test_full_pool, test_send_queue) = Inr (0, p', q')
     \<and> send_contents q' = [\<lparr>buf_addr = 8208, buf_length = 16\<rparr>]"
proof -
  have a: "acked_index (sq_tail test_send_queue) (sq_head test_send_queue) 1 = Some 1"
    by (simp add: acked_index_def test_send_queue_def upt_rec SHORT_SN_def)
  show ?thesis
    using send_markCompleted_dequeues[OF test_send_inv[of "\<lambda>_. 0"], of 1] unfolding a test_contents by auto
qed

lemma send_window_separate_witness:
  "ph_sn (send_entries test_send_queue ! 0) \<noteq> ph_sn (send_entries test_send_queue ! 1)
   \<and> region 4096 64 \<inter> region 4160 64 = {}"
  using send_window_separate[OF test_send_inv, of 0 1]
  by (simp add: test_entries) (simp add: test_packet_def test_full_pool_def)

lemma test_pool_links: "load64 (snd test_pool) 4160 = 4096" "load64 (snd test_pool) 4096 = 0"
proof -
  have m: "snd test_pool = store64 (store64 (\<lambda>_. 0) 4096 0) 4160 4096"
    by (simp add: test_pool_def pool_construct_def PacketBufferPool_new_def construct_link_def upt_rec)
  have "region 4096 8 \<inter> region 4160 8 = {}" by (auto simp: region_def unat_arith_simps)
  then show "load64 (snd test_pool) 4160 = 4096" "load64 (snd test_pool) 4096 = 0"
    unfolding m by (simp_all add: load_store64_disjoint)
qed

text \<open>
  A window as large as the ring loses packets.  The constructor's assertion (and
  \<open>setWndSize\<close>) admit \<open>wnd_size = queue_capacity\<close>, but the fill loop runs while
  \<open>head_ - tail_ \<le> wnd_size_\<close> and so keeps one packet more than the window in flight: on a
  ring of two slots, pushing three fragments reuses the slot of packet 0, which is not
  acknowledged; afterwards no handle carries sequence number 0, so it cannot be retransmitted.
\<close>

lemma send_window_too_large:
  "\<exists>q p' q'. SendQueue_new g 64 2 2 3 = Inr q
     \<and> send_push (snd test_pool) [\<lparr>buf_addr = 8192, buf_length = 48\<rparr>] (fst test_pool, q) = Inr (3, 0, p', q')
     \<and> sq_tail q' = 0 \<and> sq_head q' = 3 \<and> ph_sn (send_getMutableEntry q' 0) = 2
     \<and> 0 \<notin> set (map ph_sn (sq_handle q'))"
proof -
  let ?h = "\<lambda>i. PacketHandle_new (g i)"
  let ?sec = "\<lambda>ss off. \<lparr>sec_slice_list = ss, sec_offset = off, sec_fragment_id = 3, sec_fragment_size = 16\<rparr>"
  let ?b = "\<lparr>buf_addr = 8192, buf_length = 48\<rparr> :: buffer"
  let ?p = "\<lambda>f. \<lparr>pool_mtu_size = 64, pool_max_packets = 2, pool_arena = 4096, pool_global_free_buffer = f\<rparr>"
  let ?q = "\<lambda>hs hd sec. \<lparr>sq_mtu_size = 64, sq_queue_capacity = 2, sq_session = 3, sq_head = hd, sq_tail = 0,
      sq_wnd_size = 2, sq_handle = hs, sq_secondary_queue = sec\<rparr>"
  define e where "e sn buf data h = (setRawPacket buf False h)\<lparr>ph_session := 3, ph_cmd := PKT_CMD_DATA, ph_wnd := 2,
      ph_sn := sn, ph_data_buf := data, ph_data_len := 16, ph_inflight := True\<rparr>" for sn buf data h
  note defs = send_fill_round_def send_more_def hasRemainingFragment_def popFragment_def allocatePacket_def
    setPayload_def Let_def test_pool_links SHORT_SN_def
  have new: "SendQueue_new g 64 2 2 3 = Inr (?q [?h 0, ?h (Suc 0)] 0 ((?sec [] 0)\<lparr>sec_fragment_id := 0\<rparr>))"
    by (simp add: SendQueue_new_def SecondaryQueue_new_def sizeof_PktHdr_def kGRHSize_def upt_rec)
  have h: "ph_packet_buf (?h i) = 0" for i by (simp add: PacketHandle_new_def)
  have 1: "send_fill_round (snd test_pool) (?p 4160, ?q [?h 0, ?h (Suc 0)] 0 (?sec [?b] 0))
    = Continue (?p 4096, ?q [e 0 4160 8192 (?h 0), ?h (Suc 0)] 1 (?sec [?b] 16))"
    by (simp add: defs h e_def setRawPacket_def)
  have 2: "send_fill_round (snd test_pool) (?p 4096, ?q [e 0 4160 8192 (?h 0), ?h (Suc 0)] 1 (?sec [?b] 16))
    = Continue (?p 0, ?q [e 0 4160 8192 (?h 0), e 1 4096 8208 (?h (Suc 0))] 2 (?sec [?b] 32))"
    by (simp add: defs h e_def setRawPacket_def)
  have 3: "send_fill_round (snd test_pool) (?p 0, ?q [e 0 4160 8192 (?h 0), e 1 4096 8208 (?h (Suc 0))] 2 (?sec [?b] 32))
    = Continue (?p 0, ?q [e 2 4160 8224 (?h 0), e 1 4096 8208 (?h (Suc 0))] 3 (?sec [] 0))"
    by (simp add: defs e_def setRawPacket_def)
  have "send_fillPrimaryQueue (snd test_pool) (?p 4160, ?q [?h 0, ?h (Suc 0)] 0 (?sec [?b] 0))
      = Inr (0, ?p 0, ?q [e 2 4160 8224 (?h 0), e 1 4096 8208 (?h (Suc 0))] 3 (?sec [] 0))"
    by (subst send_fillPrimaryQueue.simps, simp add: 1 send_more_def hasRemainingFragment_def,
        subst send_fillPrimaryQueue.simps, simp add: 2 send_more_def hasRemainingFragment_def,
        subst send_fillPrimaryQueue.simps, simp add: 3 send_more_def hasRemainingFragment_def,
        subst send_fillPrimaryQueue.simps, simp add: send_more_def hasRemainingFragment_def)
  then show ?thesis
    by (simp add: new send_push_def secondary_push_def test_pool_eq SHORT_SN_def send_getMutableEntry_def
        e_def setRawPacket_def)
qed

end
