(* ===== verification/McastSendQueue.thy ===== *)
theory McastSendQueue
  imports SendQueue
begin

text \<open>
  \<open>McastSendQueue\<close> of \<open>src/src/protocols/rdma_unreliable/packet_manager.{h,cpp}\<close>: the
  send queue of a multicast group, with one tail per replica.  The window starts at the
  smallest tail, so a packet stays until every replica has acknowledged it.

  The queue is a refinement of the unicast send queue whose tail is the smallest tail
  (\<open>mcast_core\<close>); the lemmas transfer its FIFO behaviour.
\<close>

section \<open>Model\<close>

record mcast_send_queue =
  mq_mtu_size :: u64
  mq_queue_capacity :: u64
  mq_session :: u8
  mq_replica_num :: u64
  mq_head :: u64
  mq_tail_list :: "u64 list"
  mq_wnd_size :: u16
  mq_handle :: "packet_handle list"
  mq_secondary_queue :: secondary_queue

type_synonym mcast_state = "packet_buffer_pool \<times> mcast_send_queue"

definition McastSendQueue_new :: "(nat \<Rightarrow> packet_handle) \<Rightarrow> u64 \<Rightarrow> u64 \<Rightarrow> u64 \<Rightarrow> u8 \<Rightarrow> u64 \<Rightarrow> mcast_send_queue outcome" where
  "McastSendQueue_new g mtu_size queue_capacity wnd_size session replica_num =
     (if \<not> wnd_size \<le> queue_capacity then Inl AssertFailed
      else Inr \<lparr>mq_mtu_size = mtu_size, mq_queue_capacity = queue_capacity, mq_session = session,
                mq_replica_num = replica_num, mq_head = 0, mq_tail_list = replicate (unat replica_num) 0,
                mq_wnd_size = ucast wnd_size,
                mq_handle = map (\<lambda>i. PacketHandle_new (g i)) [0..<unat queue_capacity],
                mq_secondary_queue = SecondaryQueue_new (mtu_size - of_nat sizeof_PktHdr - of_nat kGRHSize)\<rparr>)"

definition McastSendQueue_delete :: "mem \<Rightarrow> packet_buffer_pool \<Rightarrow> mcast_send_queue \<Rightarrow> packet_buffer_pool \<times> mem" where
  "McastSendQueue_delete m p q =
     fold (\<lambda>entry (p, m). if getPayload entry \<noteq> 0 then snd (freePacket m p entry) else (p, m)) (mq_handle q) (p, m)"

text \<open>\<open>min_tail\<close> starts at \<open>UINT64_MAX\<close>.\<close>

definition getMinTailIndex :: "mcast_send_queue \<Rightarrow> u64" where
  "getMinTailIndex q = foldl min (- 1) (mq_tail_list q)"

definition mcast_more :: "mcast_send_queue \<Rightarrow> bool" where
  "mcast_more q \<longleftrightarrow> hasRemainingFragment (mq_secondary_queue q) \<and> mq_head q - getMinTailIndex q \<le> ucast (mq_wnd_size q)"

definition mcast_fill_round :: "mem \<Rightarrow> mcast_state \<Rightarrow> mcast_state flow" where
  "mcast_fill_round m = (\<lambda>(p, q).
     if mq_queue_capacity q = 0 then Fault DivByZero
     else
       let i = unat (mq_head q mod mq_queue_capacity q);
           handle = mq_handle q ! i;
           (failed, p1, h1) = (if ph_packet_buf handle \<noteq> 0 then (0, p, handle) else allocatePacket m p handle False)
       in if failed \<noteq> 0 then Return 0 (p1, q\<lparr>mq_handle := (mq_handle q)[i := h1]\<rparr>)
          else
            let (fragment, sec) = popFragment (mq_secondary_queue q);
                h2 = h1\<lparr>ph_session := mq_session q, ph_cmd := PKT_CMD_DATA, ph_wnd := mq_wnd_size q,
                        ph_sn := SHORT_SN (mq_head q), ph_ts := 0\<rparr>;
                (rc, h3, m') = setPayload m (buf_addr fragment) (buf_length fragment) False h2
            in if rc \<noteq> 0
               then Return (-1) (p1, q\<lparr>mq_handle := (mq_handle q)[i := h3], mq_secondary_queue := sec\<rparr>)
               else Continue (p1, q\<lparr>mq_handle := (mq_handle q)[i := h3\<lparr>ph_inflight := True\<rparr>],
                                   mq_secondary_queue := sec, mq_head := mq_head q + 1\<rparr>))"

definition mcast_room :: "mcast_send_queue \<Rightarrow> nat" where
  "mcast_room q = Suc (unat (mq_wnd_size q)) - unat (mq_head q - getMinTailIndex q)"

lemma mcast_round_progress:
  assumes "mcast_more (snd s)" "mcast_fill_round m s = Continue s'"
  shows "mcast_room (snd s') < mcast_room (snd s)"
proof -
  let ?q = "snd s"
  have le: "unat (mq_head ?q - getMinTailIndex ?q) \<le> unat (mq_wnd_size ?q)"
    using assms(1) by (simp add: mcast_more_def word_le_nat_alt)
  then have "unat (mq_head ?q + 1 - getMinTailIndex ?q) = Suc (unat (mq_head ?q - getMinTailIndex ?q))"
    using unat_u16_less[of "mq_wnd_size ?q"] by (intro unat_Suc_diff) simp
  moreover have "mq_head (snd s') = mq_head ?q + 1" "mq_tail_list (snd s') = mq_tail_list ?q"
    "mq_wnd_size (snd s') = mq_wnd_size ?q"
    using assms(2) by (auto simp: mcast_fill_round_def Let_def split: prod.splits if_splits)
  ultimately show ?thesis using le by (simp add: mcast_room_def getMinTailIndex_def)
qed

function mcast_fillPrimaryQueue :: "mem \<Rightarrow> mcast_state \<Rightarrow> (int \<times> mcast_state) outcome" where
  "mcast_fillPrimaryQueue m s =
     (if mcast_more (snd s) then
        (case mcast_fill_round m s of
           Return rc s' \<Rightarrow> Inr (rc, s')
         | Continue s' \<Rightarrow> mcast_fillPrimaryQueue m s'
         | Fault f \<Rightarrow> Inl f)
      else Inr (0, s))"
  by pat_completeness auto

termination
  by (relation "measure (\<lambda>(m, s). mcast_room (snd s))") (auto dest: mcast_round_progress[rotated])

declare mcast_fillPrimaryQueue.simps [simp del]

definition mcast_push :: "mem \<Rightarrow> buffer list \<Rightarrow> mcast_state \<Rightarrow> (u32 \<times> int \<times> mcast_state) outcome" where
  "mcast_push m slice_list = (\<lambda>(p, q).
     case secondary_push slice_list (mq_secondary_queue q) of
       Inl f \<Rightarrow> Inl f
     | Inr ((start_id, end_id), sec) \<Rightarrow>
         (case mcast_fillPrimaryQueue m (p, q\<lparr>mq_secondary_queue := sec\<rparr>) of
            Inl f \<Rightarrow> Inl f
          | Inr (rc, s') \<Rightarrow> Inr (SHORT_SN end_id, rc, s')))"

text \<open>\<open>index\<close> is a C++ \<open>int\<close>; the number of tails is small enough to be one too.\<close>

definition mcast_markCompleted :: "mem \<Rightarrow> int \<Rightarrow> u32 \<Rightarrow> mcast_state \<Rightarrow> (int \<times> mcast_state) outcome" where
  "mcast_markCompleted m index ack_sn = (\<lambda>(p, q).
     if index < 0 \<or> index \<ge> int (length (mq_tail_list q)) then Inr (-1, p, q)
     else
       let i = nat index
       in mcast_fillPrimaryQueue m
            (p, q\<lparr>mq_tail_list := (mq_tail_list q)[i := ack_advance (mq_tail_list q ! i) (mq_head q) ack_sn]\<rparr>))"

definition mcast_getNextSN :: "mcast_send_queue \<Rightarrow> u32" where
  "mcast_getNextSN q = SHORT_SN (mq_head q)"

definition mcast_getAckSN :: "mcast_send_queue \<Rightarrow> int \<Rightarrow> u32" where
  "mcast_getAckSN q index =
     (if index < 0 \<or> index \<ge> int (length (mq_tail_list q)) then SHORT_SN (getMinTailIndex q)
      else SHORT_SN (mq_tail_list q ! nat index))"

definition mcast_getIndexRange :: "mcast_send_queue \<Rightarrow> int \<times> u64 \<times> u64" where
  "mcast_getIndexRange q = (0, mq_head q, getMinTailIndex q)"

definition mcast_getMutableEntry :: "mcast_send_queue \<Rightarrow> u64 \<Rightarrow> packet_handle" where
  "mcast_getMutableEntry q index = mq_handle q ! unat (index mod mq_queue_capacity q)"

definition mcast_updateEntry :: "u64 \<Rightarrow> (packet_handle \<Rightarrow> packet_handle) \<Rightarrow> mcast_send_queue \<Rightarrow> mcast_send_queue" where
  "mcast_updateEntry index func q =
     (let i = unat (index mod mq_queue_capacity q) in
      q\<lparr>mq_handle := (mq_handle q)[i := func (mq_handle q ! i)]\<rparr>)"

definition mcast_forEach :: "(packet_handle \<Rightarrow> packet_handle) \<Rightarrow> mcast_send_queue \<Rightarrow> mcast_send_queue" where
  "mcast_forEach func q =
     fold (\<lambda>k. mcast_updateEntry (getMinTailIndex q + of_nat k) func) [0..<unat (mq_head q - getMinTailIndex q)] q"

definition mcast_setWndSize :: "u16 \<Rightarrow> mcast_send_queue \<Rightarrow> mcast_send_queue" where
  "mcast_setWndSize wnd_size q = q\<lparr>mq_wnd_size := min wnd_size (ucast (mq_queue_capacity q))\<rparr>"

definition mcast_getWndSize :: "mcast_send_queue \<Rightarrow> u16" where
  "mcast_getWndSize q = mq_wnd_size q"

section \<open>The unicast queue inside\<close>

definition mcast_core :: "mcast_send_queue \<Rightarrow> send_queue" where
  "mcast_core q = \<lparr>sq_mtu_size = mq_mtu_size q, sq_queue_capacity = mq_queue_capacity q, sq_session = mq_session q,
     sq_head = mq_head q, sq_tail = getMinTailIndex q, sq_wnd_size = mq_wnd_size q, sq_handle = mq_handle q,
     sq_secondary_queue = mq_secondary_queue q\<rparr>"

definition mcast_put :: "mcast_send_queue \<Rightarrow> send_queue \<Rightarrow> mcast_send_queue" where
  "mcast_put q c = q\<lparr>mq_head := sq_head c, mq_handle := sq_handle c, mq_secondary_queue := sq_secondary_queue c\<rparr>"

definition mcast_contents :: "mcast_send_queue \<Rightarrow> buffer list" where
  "mcast_contents q = send_contents (mcast_core q)"

lemma mcast_core_simps [simp]:
  "sq_head (mcast_core q) = mq_head q" "sq_tail (mcast_core q) = getMinTailIndex q"
  "sq_wnd_size (mcast_core q) = mq_wnd_size q" "sq_handle (mcast_core q) = mq_handle q"
  "sq_secondary_queue (mcast_core q) = mq_secondary_queue q" "sq_queue_capacity (mcast_core q) = mq_queue_capacity q"
  "sq_session (mcast_core q) = mq_session q"
  by (simp_all add: mcast_core_def)

lemma mcast_put_core [simp]: "mcast_put q (mcast_core q) = q"
  by (simp add: mcast_put_def)

lemma mcast_round_core:
  "mcast_fill_round m (p, q) = map_flow (\<lambda>(p', c). (p', mcast_put q c)) (send_fill_round m (p, mcast_core q))"
  by (simp add: mcast_fill_round_def send_fill_round_def Let_def mcast_put_def split: prod.splits)

lemma mcast_core_put:
  assumes "send_fill_round m (p, mcast_core q) = Continue (p', c)"
  shows "mcast_core (mcast_put q c) = c"
proof -
  have "c = (mcast_core q)\<lparr>sq_handle := sq_handle c, sq_secondary_queue := sq_secondary_queue c, sq_head := sq_head c\<rparr>"
    using assms by (auto simp: send_fill_round_def Let_def split: prod.splits if_splits)
  then show ?thesis
    by (cases c) (simp add: mcast_core_def mcast_put_def getMinTailIndex_def)
qed

lemma mcast_fill_core:
  "mcast_fillPrimaryQueue m (p, q) =
     (case send_fillPrimaryQueue m (p, mcast_core q) of
        Inl f \<Rightarrow> Inl f
      | Inr (rc, p', c) \<Rightarrow> Inr (rc, p', mcast_put q c))"
proof (induction "send_room (mcast_core q)" arbitrary: p q rule: less_induct)
  case less
  have more: "mcast_more q = send_more (mcast_core q)" by (simp add: mcast_more_def send_more_def)
  show ?case
  proof (cases "send_more (mcast_core q)")
    case False
    then show ?thesis by (simp add: mcast_fillPrimaryQueue.simps[of m "(p, q)"] send_fillPrimaryQueue.simps[of m "(p, mcast_core q)"] more)
  next
    case True
    show ?thesis
    proof (cases "send_fill_round m (p, mcast_core q)")
      case (Continue s')
      obtain p' c where s': "s' = (p', c)" by fastforce
      have c: "mcast_core (mcast_put q c) = c" using mcast_core_put Continue s' by blast
      have "send_room c < send_room (mcast_core q)"
        using send_round_progress[of "(p, mcast_core q)" m s'] True Continue s' by simp
      with less[of "mcast_put q c" p'] have "mcast_fillPrimaryQueue m (p', mcast_put q c) =
         (case send_fillPrimaryQueue m (p', c) of Inl f \<Rightarrow> Inl f
          | Inr (rc, p'', c') \<Rightarrow> Inr (rc, p'', mcast_put (mcast_put q c) c'))" by (simp add: c)
      moreover have "mcast_put (mcast_put q c) c' = mcast_put q c'" for c' by (simp add: mcast_put_def)
      ultimately show ?thesis
        using True Continue s'
        by (simp add: mcast_fillPrimaryQueue.simps[of m "(p, q)"] send_fillPrimaryQueue.simps[of m "(p, mcast_core q)"]
            more mcast_round_core split: sum.splits prod.splits)
    qed (use True in \<open>auto simp: mcast_fillPrimaryQueue.simps[of m "(p, q)"]
          send_fillPrimaryQueue.simps[of m "(p, mcast_core q)"] more mcast_round_core\<close>)
  qed
qed

text \<open>
  C14. The multicast queue refines the unicast queue.  Pushing buffers onto a multicast queue
  is pushing them onto the unicast send queue whose tail is the smallest tail of the replicas:
  same \<open>last_sn\<close>, result code or fault, same pool, head, handles and secondary queue, and
  the tails of the replicas are untouched.
\<close>

theorem mcast_push_refines_send_push:
  "mcast_push m es (p, q) =
     (case send_push m es (p, mcast_core q) of
        Inl f \<Rightarrow> Inl f
      | Inr (last_sn, rc, p', c) \<Rightarrow> Inr (last_sn, rc, p', mcast_put q c))"
proof -
  have core: "mcast_core (q\<lparr>mq_secondary_queue := sec\<rparr>) = (mcast_core q)\<lparr>sq_secondary_queue := sec\<rparr>" for sec
    by (simp add: mcast_core_def getMinTailIndex_def)
  have put: "mcast_put (q\<lparr>mq_secondary_queue := sec\<rparr>) c = mcast_put q c" for sec c
    by (simp add: mcast_put_def)
  show ?thesis
    by (simp add: mcast_push_def send_push_def mcast_fill_core core put split: sum.splits prod.splits)
qed

section \<open>Acknowledgements of the replicas\<close>

lemma foldl_min: "foldl min a xs \<in> insert a (set xs) \<and> (\<forall>x\<in>insert a (set xs). foldl min a xs \<le> (x :: u64))"
proof (induction xs arbitrary: a)
  case (Cons x xs)
  from Cons[of "min a x"] show ?case by (auto simp: min_def split: if_splits)
qed simp

lemma getMinTailIndex_le: "t \<in> set (mq_tail_list q) \<Longrightarrow> getMinTailIndex q \<le> t"
  using foldl_min[of "- 1" "mq_tail_list q"] by (auto simp: getMinTailIndex_def)

lemma getMinTailIndex_in:
  assumes "mq_tail_list q \<noteq> []"
  shows "getMinTailIndex q \<in> set (mq_tail_list q)"
proof (cases "getMinTailIndex q = - 1")
  case True
  obtain t where t: "t \<in> set (mq_tail_list q)" using assms by (cases "mq_tail_list q") auto
  then have "- 1 \<le> t" using getMinTailIndex_le[OF t] True by simp
  then have "t = - 1" by (simp add: word_order.extremum_unique)
  with t True show ?thesis by simp
next
  case False
  with foldl_min[of "- 1" "mq_tail_list q"] show ?thesis by (auto simp: getMinTailIndex_def)
qed

text \<open>
  The invariant: the unicast queue inside is well-formed, there is a replica, no tail is ahead
  of the head, and the 64-bit indices of what is queued do not wrap.
\<close>

definition mcast_inv :: "mem \<Rightarrow> addr list \<Rightarrow> mcast_state \<Rightarrow> bool" where
  "mcast_inv m others s \<longleftrightarrow> send_inv m others (fst s, mcast_core (snd s)) \<and> mq_tail_list (snd s) \<noteq> []
     \<and> (\<forall>t\<in>set (mq_tail_list (snd s)). t \<le> mq_head (snd s))
     \<and> unat (mq_head (snd s)) + length (sec_fragments (mq_secondary_queue (snd s))) < 2 ^ 64"

lemma mcast_inv_dist:
  assumes "mcast_inv m others (p, q)" "t \<in> set (mq_tail_list q)"
  shows "unat (mq_head q - t) \<le> unat (mq_head q - getMinTailIndex q)" "unat (mq_head q - t) \<le> 2 ^ 16"
proof -
  have le: "getMinTailIndex q \<le> t" "t \<le> mq_head q"
    using assms getMinTailIndex_le by (auto simp: mcast_inv_def)
  then have "getMinTailIndex q \<le> mq_head q" by simp
  then show d: "unat (mq_head q - t) \<le> unat (mq_head q - getMinTailIndex q)"
    using le by (simp add: unat_sub word_le_nat_alt diff_le_mono2)
  have "unat (mq_head q - getMinTailIndex q) \<le> 2 ^ 16"
    using assms(1) by (simp add: mcast_inv_def send_inv_def send_wf_def)
  with d show "unat (mq_head q - t) \<le> 2 ^ 16" by simp
qed

lemma mcast_fill_ok:
  assumes inv: "mcast_inv m others (p, q)"
  obtains p' q' where "mcast_fillPrimaryQueue m (p, q) = Inr (0, p', q')" "mcast_inv m others (p', q')"
    "mq_tail_list q' = mq_tail_list q" "mcast_contents q' = mcast_contents q"
    "send_stopped others (p', mcast_core q')"
proof -
  let ?t = "getMinTailIndex q"
  have si: "send_inv m others (p, mcast_core q)" using inv by (simp add: mcast_inv_def)
  obtain p' c where c: "send_fillPrimaryQueue m (p, mcast_core q) = Inr (0, p', c)" "send_inv m others (p', c)"
    "send_frame (p', c) = send_frame (p, mcast_core q)" "send_stopped others (p', c)"
    "send_contents c = send_contents (mcast_core q)"
    "unat (sq_head (mcast_core q) - sq_tail (mcast_core q)) \<le> unat (sq_head c - sq_tail c)"
    using send_fill_ok[OF si] by blast
  let ?q = "mcast_put q c"
  have tl: "mq_tail_list ?q = mq_tail_list q" "sq_tail c = ?t" "mq_head ?q = sq_head c"
    "mq_secondary_queue ?q = sq_secondary_queue c"
    using c(3) by (simp_all add: mcast_put_def send_frame_def)
  have core: "mcast_core ?q = c"
    using c(3) by (cases c) (simp add: mcast_core_def mcast_put_def getMinTailIndex_def send_frame_def Let_def)
  have t: "?t \<in> set (mq_tail_list q)" using inv getMinTailIndex_in by (simp add: mcast_inv_def)
  have th: "?t \<le> mq_head q" using inv t by (auto simp: mcast_inv_def)
  let ?n = "unat (mq_head q - ?t)" and ?n' = "unat (sq_head c - ?t)"
  let ?l = "length (sec_fragments (mq_secondary_queue q))" and ?l' = "length (sec_fragments (sq_secondary_queue c))"
  have len: "?n' + ?l' = ?n + ?l"
    using arg_cong[OF c(5), of length] tl by (simp add: send_contents_def send_window_def send_entries_def)
  have n: "?n = unat (mq_head q) - unat ?t" using th by (simp add: unat_sub)
  have b: "unat (mq_head q) + ?l < 2 ^ 64" using inv by (simp add: mcast_inv_def)
  have hle: "unat ?t \<le> unat (mq_head q)" using th by (simp add: word_le_nat_alt)
  have sum: "unat ?t + ?n' + ?l' = unat (mq_head q) + ?l" using len n hle by linarith
  have "sq_head c = ?t + of_nat ?n'" by (simp add: of_nat_unat)
  then have "unat (sq_head c) = (unat ?t + ?n') mod 2 ^ 64"
    using unat_add_of_nat[of ?t ?n'] by (simp only:)
  then have h': "unat (sq_head c) = unat ?t + ?n'" using sum b by simp
  have "mq_head q \<le> sq_head c" using h' c(6) tl(2) n hle by (simp add: word_le_nat_alt)
  moreover have "unat (sq_head c) + ?l' < 2 ^ 64" using h' sum b by simp
  ultimately have "mcast_inv m others (p', ?q)"
    using inv c(2) by (auto simp: mcast_inv_def core tl)
  then show thesis
    using c tl by (intro that[of p' ?q]) (simp_all add: mcast_fill_core core mcast_contents_def)
qed

lemma advance_le:
  assumes "t \<le> (h :: u64)" "k \<le> unat (h - t)"
  shows "t \<le> t + of_nat k" "t + of_nat k \<le> h"
proof -
  have k: "k \<le> unat h - unat t" "unat t \<le> unat h" using assms by (simp_all add: unat_sub word_le_nat_alt)
  then have "unat (t + of_nat k) = unat t + k"
    using unat_u64_less[of h] by (simp add: unat_add_of_nat)
  with k show "t \<le> t + of_nat k" "t + of_nat k \<le> h" by (simp_all add: word_le_nat_alt)
qed

lemma mcast_tail_update:
  assumes inv: "mcast_inv m others (p, q)" and i: "i < length (mq_tail_list q)"
    and t': "mq_tail_list q ! i \<le> t'" "t' \<le> mq_head q"
    and q': "q' = q\<lparr>mq_tail_list := (mq_tail_list q)[i := t']\<rparr>"
  shows "mcast_inv m others (p, q')"
    "mcast_contents q' = drop (unat (getMinTailIndex q') - unat (getMinTailIndex q)) (mcast_contents q)"
proof -
  let ?t = "getMinTailIndex q" and ?t' = "getMinTailIndex q'"
  have ne: "mq_tail_list q \<noteq> []" "mq_tail_list q' \<noteq> []" using i by (auto simp: q')
  have all: "\<forall>t\<in>set (mq_tail_list q'). t \<le> mq_head q"
    using inv t' set_update_subset_insert[of "mq_tail_list q" i t'] by (auto simp: mcast_inv_def q')
  have "?t \<le> t'" using order_trans[OF getMinTailIndex_le[OF nth_mem[OF i]] t'(1)] .
  then have "?t \<le> x" if "x \<in> set (mq_tail_list q')" for x
    using that set_update_subset_insert[of "mq_tail_list q" i t'] getMinTailIndex_le[of _ q] by (auto simp: q')
  then have lo: "?t \<le> ?t'" "?t' \<le> mq_head q" using getMinTailIndex_in[OF ne(2)] all by auto
  define k where "k = unat ?t' - unat ?t"
  have eq: "?t' = ?t + of_nat k"
  proof -
    have "of_nat (unat (?t' - ?t)) = ?t' - ?t" by (simp only: of_nat_unat ucast_id)
    then show ?thesis using lo(1) by (simp add: k_def unat_sub)
  qed
  have k: "k \<le> unat (mq_head q - ?t)" using lo by (simp add: k_def unat_sub word_le_nat_alt diff_le_mono)
  have core: "mcast_core q' = (mcast_core q)\<lparr>sq_tail := sq_tail (mcast_core q) + of_nat k\<rparr>"
    using eq by (simp add: mcast_core_def q')
  have si: "send_inv m others (p, mcast_core q)" using inv by (simp add: mcast_inv_def)
  have k': "k \<le> unat (sq_head (mcast_core q) - sq_tail (mcast_core q))" using k by simp
  note A = send_advance_tail[OF si k']
  show "mcast_contents q' = drop (unat ?t' - unat ?t) (mcast_contents q)"
    using A(2) by (simp add: mcast_contents_def core k_def[symmetric])
  show "mcast_inv m others (p, q')"
    using A(1) inv all ne by (simp add: mcast_inv_def core) (simp add: q')
qed

text \<open>
  C15. A multicast packet is released when every replica has acknowledged it.  An acknowledgement
  of replica \<open>index\<close> moves only that replica's tail, to the index its 24-bit number
  designates; the packets dropped from the queue are exactly those before the new smallest
  tail; the invariant is kept and the call returns 0.  An index that names no replica is
  rejected with -1 and changes nothing.
\<close>

theorem mcast_markCompleted_releases:
  assumes inv: "mcast_inv m others (p, q)" and a: "unat ack < 2 ^ 24"
  shows "if 0 \<le> index \<and> index < int (length (mq_tail_list q)) then
      \<exists>p' q'. mcast_markCompleted m index ack (p, q) = Inr (0, p', q')
        \<and> mq_tail_list q' = (mq_tail_list q)[nat index :=
            (case acked_index (mq_tail_list q ! nat index) (mq_head q) ack of
               Some k \<Rightarrow> mq_tail_list q ! nat index + of_nat k | None \<Rightarrow> mq_tail_list q ! nat index)]
        \<and> mcast_contents q' = drop (unat (getMinTailIndex q') - unat (getMinTailIndex q)) (mcast_contents q)
        \<and> mcast_inv m others (p', q')
    else mcast_markCompleted m index ack (p, q) = Inr (-1, p, q)"
proof (cases "0 \<le> index \<and> index < int (length (mq_tail_list q))")
  case True
  let ?i = "nat index" and ?t = "mq_tail_list q ! nat index"
  define t' where "t' = ack_advance ?t (mq_head q) ack"
  let ?q = "q\<lparr>mq_tail_list := (mq_tail_list q)[?i := t']\<rparr>"
  have t: "?t \<in> set (mq_tail_list q)" "?t \<le> mq_head q" using True inv by (auto simp: mcast_inv_def)
  have t': "t' = (case acked_index ?t (mq_head q) ack of Some k \<Rightarrow> ?t + of_nat k | None \<Rightarrow> ?t)"
    using ack_advance_eq[OF _ a, of "mq_head q" ?t] mcast_inv_dist(2)[OF inv t(1)] by (simp add: t'_def)
  have adv: "?t \<le> t'" "t' \<le> mq_head q"
    using t(2) t' advance_le[OF t(2)] acked_index_le by (auto split: option.splits)
  have il: "?i < length (mq_tail_list q)" using True by (simp add: nat_less_iff)
  have inv': "mcast_inv m others (p, ?q)"
    and drop: "mcast_contents ?q = drop (unat (getMinTailIndex ?q) - unat (getMinTailIndex q)) (mcast_contents q)"
    using mcast_tail_update[OF inv il adv refl] .
  obtain p' q' where "mcast_fillPrimaryQueue m (p, ?q) = Inr (0, p', q')" "mcast_inv m others (p', q')"
    "mq_tail_list q' = mq_tail_list ?q" "mcast_contents q' = mcast_contents ?q"
    using mcast_fill_ok[OF inv'] by blast
  moreover from this(3) have "getMinTailIndex q' = getMinTailIndex ?q" by (simp add: getMinTailIndex_def)
  ultimately show ?thesis
    using True drop t' by (auto simp: mcast_markCompleted_def t'_def[symmetric])
qed (auto simp: mcast_markCompleted_def)

definition test_mcast_queue :: mcast_send_queue where
  "test_mcast_queue = \<lparr>mq_mtu_size = 64, mq_queue_capacity = 4, mq_session = 3, mq_replica_num = 2, mq_head = 2,
     mq_tail_list = [0, 1], mq_wnd_size = 2, mq_handle = sq_handle test_send_queue,
     mq_secondary_queue = sq_secondary_queue test_send_queue\<rparr>"

lemma test_mcast_core: "mcast_core test_mcast_queue = test_send_queue"
  by (simp add: mcast_core_def test_mcast_queue_def getMinTailIndex_def) (simp add: test_send_queue_def)

lemma test_mcast_inv: "mcast_inv m [] (test_full_pool, test_mcast_queue)"
  using test_send_inv[of m]
  by (simp add: mcast_inv_def test_mcast_core) (simp add: test_mcast_queue_def test_send_queue_def sec_fragments_def)

theorem mcast_markCompleted_releases_witness:
  "\<exists>p' q'. mcast_markCompleted (\<lambda>_. 0) 0 1 (test_full_pool, test_mcast_queue) = Inr (0, p', q')
     \<and> mq_tail_list q' = [1, 1] \<and> mcast_contents q' = [\<lparr>buf_addr = 8208, buf_length = 16\<rparr>]"
proof -
  have c: "mcast_contents test_mcast_queue
      = [\<lparr>buf_addr = 8192, buf_length = 16\<rparr>, \<lparr>buf_addr = 8208, buf_length = 16\<rparr>]"
    by (simp add: mcast_contents_def test_mcast_core test_contents)
  have t: "mq_tail_list test_mcast_queue = [0, 1]" "mq_head test_mcast_queue = 2" by (simp_all add: test_mcast_queue_def)
  have a: "acked_index 0 2 1 = Some 1" by (simp add: acked_index_def upt_rec SHORT_SN_def)
  show ?thesis
    using mcast_markCompleted_releases[OF test_mcast_inv[of "\<lambda>_. 0"], of 1 0] c t a
    by (auto simp: getMinTailIndex_def)
qed

end
