(* ===== verification/ReceiveQueue.thy ===== *)
theory ReceiveQueue
  imports Packet Window
begin

text \<open>
  \<open>ReceiveQueue\<close> of \<open>src/src/protocols/rdma_unreliable/packet_manager.{h,cpp}\<close>: a ring
  of receive requests, one per expected packet.  An arriving packet is copied into the request
  its 24-bit sequence number designates, packets may arrive in any order and more than once,
  and \<open>tail_\<close> advances over the completed prefix.

  The specification is the list of requests from \<open>tail_\<close> on (\<open>recv_contents\<close>), each
  marked pending or completed.  The lemmas show that \<open>push\<close> appends pending requests and
  that \<open>markCompleted\<close> completes the one designated request and drops the completed prefix.
\<close>

section \<open>Model\<close>

record request =
  rqst_addr :: addr
  rqst_length :: u64
  rqst_inflight :: bool

record receive_queue =
  rq_mtu_size :: u64
  rq_queue_capacity :: u64
  rq_session :: u8
  rq_head :: u64
  rq_tail :: u64
  rq_wnd_size :: u16
  rq_requests :: "request list"
  rq_secondary_queue :: secondary_queue
  rq_last_packet_ts :: u64

text \<open>\<open>Request\<close> has no constructor, so \<open>resize\<close> zeroes the new requests.\<close>

definition ReceiveQueue_new :: "u64 \<Rightarrow> u64 \<Rightarrow> u64 \<Rightarrow> u8 \<Rightarrow> receive_queue outcome" where
  "ReceiveQueue_new mtu_size queue_capacity wnd_size session =
     (if \<not> wnd_size \<le> queue_capacity then Inl AssertFailed
      else Inr \<lparr>rq_mtu_size = mtu_size, rq_queue_capacity = queue_capacity, rq_session = session,
                rq_head = 0, rq_tail = 0, rq_wnd_size = ucast wnd_size,
                rq_requests = replicate (unat queue_capacity) \<lparr>rqst_addr = 0, rqst_length = 0, rqst_inflight = False\<rparr>,
                rq_secondary_queue = SecondaryQueue_new (mtu_size - of_nat sizeof_PktHdr - of_nat kGRHSize),
                rq_last_packet_ts = 0\<rparr>)"

definition recv_more :: "receive_queue \<Rightarrow> bool" where
  "recv_more q \<longleftrightarrow> hasRemainingFragment (rq_secondary_queue q) \<and> rq_head q - rq_tail q \<le> ucast (rq_wnd_size q)"

definition recv_fill_round :: "receive_queue \<Rightarrow> receive_queue flow" where
  "recv_fill_round q =
     (let (fragment, sec) = popFragment (rq_secondary_queue q) in
      if rq_queue_capacity q = 0 then Fault DivByZero
      else
        let i = unat (rq_head q mod rq_queue_capacity q) in
        Continue (q\<lparr>rq_secondary_queue := sec,
                    rq_requests := (rq_requests q)[i := \<lparr>rqst_addr = buf_addr fragment,
                      rqst_length = buf_length fragment, rqst_inflight = True\<rparr>],
                    rq_head := rq_head q + 1\<rparr>))"

definition recv_room :: "receive_queue \<Rightarrow> nat" where
  "recv_room q = Suc (unat (rq_wnd_size q)) - unat (rq_head q - rq_tail q)"

lemma recv_round_progress:
  assumes "recv_more q" "recv_fill_round q = Continue q'"
  shows "recv_room q' < recv_room q"
proof -
  have le: "unat (rq_head q - rq_tail q) \<le> unat (rq_wnd_size q)"
    using assms(1) by (simp add: recv_more_def word_le_nat_alt)
  then have "unat (rq_head q + 1 - rq_tail q) = Suc (unat (rq_head q - rq_tail q))"
    using unat_u16_less[of "rq_wnd_size q"] by (intro unat_Suc_diff) simp
  moreover have "rq_head q' = rq_head q + 1" "rq_tail q' = rq_tail q" "rq_wnd_size q' = rq_wnd_size q"
    using assms(2) by (auto simp: recv_fill_round_def Let_def split: prod.splits if_splits)
  ultimately show ?thesis using le by (simp add: recv_room_def)
qed

function recv_fillPrimaryQueue :: "receive_queue \<Rightarrow> (int \<times> receive_queue) outcome" where
  "recv_fillPrimaryQueue q =
     (if recv_more q then
        (case recv_fill_round q of
           Return rc q' \<Rightarrow> Inr (rc, q')
         | Continue q' \<Rightarrow> recv_fillPrimaryQueue q'
         | Fault f \<Rightarrow> Inl f)
      else Inr (0, q))"
  by pat_completeness auto

termination
  by (relation "measure recv_room") (auto dest: recv_round_progress[rotated])

declare recv_fillPrimaryQueue.simps [simp del]

definition recv_push :: "buffer list \<Rightarrow> receive_queue \<Rightarrow> (u32 \<times> int \<times> receive_queue) outcome" where
  "recv_push slice_list q =
     (case secondary_push slice_list (rq_secondary_queue q) of
        Inl f \<Rightarrow> Inl f
      | Inr ((start_id, end_id), sec) \<Rightarrow>
          (case recv_fillPrimaryQueue (q\<lparr>rq_secondary_queue := sec\<rparr>) of
             Inl f \<Rightarrow> Inl f
           | Inr (rc, q') \<Rightarrow> Inr (SHORT_SN end_id, rc, q')))"

text \<open>The loop of \<open>markCompleted\<close> that moves \<open>tail_\<close> over the completed requests.\<close>

function recv_advance :: "receive_queue \<Rightarrow> receive_queue" where
  "recv_advance q =
     (if rq_tail q \<noteq> rq_head q then
        if rqst_inflight (rq_requests q ! unat (rq_tail q mod rq_queue_capacity q)) then q
        else recv_advance (q\<lparr>rq_tail := rq_tail q + 1\<rparr>)
      else q)"
  by pat_completeness auto

termination
proof (relation "measure (\<lambda>q. unat (rq_head q - rq_tail q))")
  fix q :: receive_queue assume "rq_tail q \<noteq> rq_head q"
  then have "Suc (unat (rq_head q - (rq_tail q + 1))) = unat (rq_head q - rq_tail q)"
    by (intro unat_minus_Suc) simp
  then show "(q\<lparr>rq_tail := rq_tail q + 1\<rparr>, q) \<in> measure (\<lambda>q. unat (rq_head q - rq_tail q))" by simp
qed simp

declare recv_advance.simps [simp del]

definition recv_markCompleted :: "mem \<Rightarrow> packet_handle \<Rightarrow> receive_queue \<Rightarrow> (int \<times> mem \<times> receive_queue) outcome" where
  "recv_markCompleted m handle q =
     (if \<not> in_window (rq_tail q) (rq_wnd_size q) (ph_sn handle) then Inr (0, m, q)
      else if rq_queue_capacity q = 0 then Inl DivByZero
      else
        let i = unat (ucast (ph_sn handle) mod rq_queue_capacity q);
            request = rq_requests q ! i
        in if rqst_inflight request \<and> ucast (ph_data_len handle) \<noteq> rqst_length request then Inl Abort
           else
             let m' = (if rqst_inflight request
                       then memmove m (rqst_addr request) (getPayload handle) (unat (rqst_length request)) else m);
                 q' = (if rqst_inflight request
                       then q\<lparr>rq_last_packet_ts := max (rq_last_packet_ts q) (ph_ts handle),
                              rq_requests := (rq_requests q)[i := request\<lparr>rqst_inflight := False\<rparr>]\<rparr>
                       else q)
             in (case recv_fillPrimaryQueue (recv_advance q') of
                   Inl f \<Rightarrow> Inl f
                 | Inr (rc, q'') \<Rightarrow> Inr (rc, m', q'')))"

definition recv_getNextSN :: "receive_queue \<Rightarrow> u32" where
  "recv_getNextSN q = SHORT_SN (rq_head q)"

definition recv_getAckSN :: "receive_queue \<Rightarrow> u32" where
  "recv_getAckSN q = SHORT_SN (rq_tail q)"

definition recv_getLastTS :: "receive_queue \<Rightarrow> u64" where
  "recv_getLastTS q = rq_last_packet_ts q"

definition recv_getIndexRange :: "receive_queue \<Rightarrow> int \<times> u64 \<times> u64" where
  "recv_getIndexRange q = (0, rq_head q, rq_tail q)"

definition recv_setWndSize :: "u16 \<Rightarrow> receive_queue \<Rightarrow> receive_queue" where
  "recv_setWndSize wnd_size q = q\<lparr>rq_wnd_size := min wnd_size (ucast (rq_queue_capacity q))\<rparr>"

definition recv_getWndSize :: "receive_queue \<Rightarrow> u16" where
  "recv_getWndSize q = rq_wnd_size q"

definition recv_getAvailableWndSize :: "receive_queue \<Rightarrow> u16" where
  "recv_getAvailableWndSize q = ucast (ucast (rq_wnd_size q) - (rq_head q - rq_tail q) :: u64)"

section \<open>Specification\<close>

definition fresh_request :: "buffer \<Rightarrow> request" where
  "fresh_request b = \<lparr>rqst_addr = buf_addr b, rqst_length = buf_length b, rqst_inflight = True\<rparr>"

definition recv_window :: "receive_queue \<Rightarrow> request list" where
  "recv_window q = ring_entries (rq_queue_capacity q) (rq_head q) (rq_tail q) (rq_requests q)"

definition recv_pending :: "receive_queue \<Rightarrow> request list" where
  "recv_pending q = map fresh_request (sec_fragments (rq_secondary_queue q))"

definition recv_contents :: "receive_queue \<Rightarrow> request list" where
  "recv_contents q = recv_window q @ recv_pending q"

text \<open>
  Well-formed queues: as for the send queue, and no slot outside the window is in flight.
\<close>

definition recv_wf :: "receive_queue \<Rightarrow> bool" where
  "recv_wf q \<longleftrightarrow>
     unat (rq_queue_capacity q) dvd 2 ^ 24 \<and> length (rq_requests q) = unat (rq_queue_capacity q)
     \<and> unat (rq_wnd_size q) < unat (rq_queue_capacity q)
     \<and> unat (rq_head q - rq_tail q) \<le> Suc (unat (rq_wnd_size q))
     \<and> sec_inv (rq_secondary_queue q)
     \<and> sec_fragment_id (rq_secondary_queue q) = rq_head q + of_nat (length (sec_fragments (rq_secondary_queue q)))
     \<and> (\<forall>k. unat (rq_head q - rq_tail q) \<le> k \<and> k < unat (rq_queue_capacity q) \<longrightarrow>
          \<not> rqst_inflight (rq_requests q ! unat ((rq_tail q + of_nat k) mod rq_queue_capacity q)))"

lemma recv_wf_ring: "recv_wf q \<Longrightarrow> ring (rq_queue_capacity q)"
  by (simp add: recv_wf_def ring_def)

lemma length_recv_window [simp]: "length (recv_window q) = unat (rq_head q - rq_tail q)"
  by (simp add: recv_window_def)

section \<open>The fill loop and the list of requests\<close>

lemma recv_round:
  assumes wf: "recv_wf q" and more: "recv_more q"
  obtains b q' where "recv_fill_round q = Continue q'" "recv_wf q'" "recv_window q' = recv_window q @ [fresh_request b]"
    "recv_pending q = fresh_request b # recv_pending q'" "rq_head q' = rq_head q + 1" "rq_tail q' = rq_tail q"
    "rq_wnd_size q' = rq_wnd_size q" "rq_queue_capacity q' = rq_queue_capacity q"
    "rq_last_packet_ts q' = rq_last_packet_ts q"
    "sec_fragment_size (rq_secondary_queue q') = sec_fragment_size (rq_secondary_queue q)"
    "sec_fragment_id (rq_secondary_queue q') = sec_fragment_id (rq_secondary_queue q)"
proof -
  let ?n = "unat (rq_head q - rq_tail q)" and ?cap = "rq_queue_capacity q" and ?i = "unat (rq_head q mod rq_queue_capacity q)"
  note r = recv_wf_ring[OF wf]
  have n: "?n < unat ?cap" "?n \<le> unat (rq_wnd_size q)"
    using wf more by (simp_all add: recv_wf_def recv_more_def word_le_nat_alt)
  have n': "unat (rq_head q + 1 - rq_tail q) = Suc ?n"
    using n(2) unat_u16_less[of "rq_wnd_size q"] by (intro unat_Suc_diff) simp
  obtain b sec where pop: "popFragment (rq_secondary_queue q) = (b, sec)" by fastforce
  have sec: "sec_inv (rq_secondary_queue q)" "sec_fragments (rq_secondary_queue q) \<noteq> []"
    using wf more by (simp_all add: recv_wf_def recv_more_def hasRemainingFragment_iff)
  note P = popFragment_fragments[OF sec pop]
  let ?q = "q\<lparr>rq_secondary_queue := sec, rq_requests := (rq_requests q)[?i := fresh_request b], rq_head := rq_head q + 1\<rparr>"
  have round: "recv_fill_round q = Continue ?q"
    using ring.cap_nonzero[OF r] by (simp add: recv_fill_round_def pop fresh_request_def Let_def)
  have w: "recv_window ?q = recv_window q @ [fresh_request b]"
    using ring.ring_entries_push[OF r n(1), of "rq_requests q"] wf by (simp add: recv_window_def recv_wf_def)
  have hi: "?i = unat ((rq_tail q + of_nat ?n) mod ?cap)" by (simp add: of_nat_unat)
  have "\<not> rqst_inflight (rq_requests ?q ! unat ((rq_tail q + of_nat k) mod ?cap))"
    if k: "Suc ?n \<le> k" "k < unat ?cap" for k
  proof -
    have "?i \<noteq> unat ((rq_tail q + of_nat k) mod ?cap)"
      using ring.slot_inj[OF r, of "rq_tail q" ?n k] n(1) k unfolding hi by auto
    with wf k show ?thesis by (simp add: recv_wf_def)
  qed
  then have "recv_wf ?q"
    using wf n n' P unat_u16_less[of "rq_wnd_size q"] by (auto simp: recv_wf_def)
  with round w P show thesis by (intro that[of ?q b]) (simp_all add: recv_pending_def)
qed

definition recv_frame :: "receive_queue \<Rightarrow> u64 \<times> u64 \<times> u16 \<times> u64 \<times> u64 \<times> u64" where
  "recv_frame q = (rq_queue_capacity q, rq_tail q, rq_wnd_size q, rq_last_packet_ts q,
     sec_fragment_size (rq_secondary_queue q), sec_fragment_id (rq_secondary_queue q))"

interpretation recv_fill: fill_window recv_more recv_fill_round recv_fillPrimaryQueue recv_room recv_wf
  recv_window recv_pending recv_frame
proof unfold_locales
  fix s show "recv_fillPrimaryQueue s = (if recv_more s then (case recv_fill_round s of Return rc s' \<Rightarrow> Inr (rc, s')
      | Continue s' \<Rightarrow> recv_fillPrimaryQueue s' | Fault f \<Rightarrow> Inl f) else Inr (0, s))"
    by (rule recv_fillPrimaryQueue.simps)
next
  fix s s' assume "recv_more s" "recv_fill_round s = Continue s'"
  then show "recv_room s' < recv_room s" by (rule recv_round_progress)
next
  fix s s' assume "recv_wf s" "recv_more s" "recv_fill_round s = Continue s'"
  then show "recv_wf s' \<and> recv_frame s' = recv_frame s
      \<and> (\<exists>b. recv_pending s = b # recv_pending s' \<and> recv_window s' = recv_window s @ [b])"
    by - (erule (1) recv_round, auto simp: recv_frame_def)
next
  fix s s' rc assume "recv_wf s" "recv_more s" "recv_fill_round s = Return rc s'"
  then show "rc = 0 \<and> s' = s" by - (erule (1) recv_round, simp)
next
  fix s f assume "recv_wf s" "recv_more s"
  then show "recv_fill_round s \<noteq> Fault f" by - (erule (1) recv_round, simp)
qed

definition recv_stopped :: "receive_queue \<Rightarrow> bool" where
  "recv_stopped q \<longleftrightarrow> recv_pending q = [] \<or> unat (rq_wnd_size q) < unat (rq_head q - rq_tail q)"

lemma recv_settled: "recv_wf q \<Longrightarrow> recv_fill.settled q \<Longrightarrow> recv_stopped q"
proof (cases "recv_more q")
  case True
  assume "recv_wf q" "recv_fill.settled q"
  with True show ?thesis by - (erule (1) recv_round, auto simp: recv_fill.settled_def)
next
  case False
  then show ?thesis
    by (auto simp: recv_more_def recv_stopped_def hasRemainingFragment_iff recv_pending_def word_le_nat_alt)
qed

lemma recv_fill_ok:
  assumes "recv_wf q"
  obtains q' where "recv_fillPrimaryQueue q = Inr (0, q')" "recv_wf q'" "recv_frame q' = recv_frame q"
    "recv_stopped q'" "recv_contents q' = recv_contents q" "\<exists>n. recv_window q' = recv_window q @ take n (recv_pending q)"
  using assms
proof (rule recv_fill.fill_keeps_fifo)
  fix q' assume *: "recv_fillPrimaryQueue q = Inr (0, q')" "recv_wf q'" "recv_frame q' = recv_frame q"
    "recv_fill.settled q'" "recv_window q' @ recv_pending q' = recv_window q @ recv_pending q"
    "\<exists>n. recv_window q' = recv_window q @ take n (recv_pending q)"
  with recv_settled[OF *(2,4)] show thesis by (intro that[of q']) (simp_all add: recv_contents_def)
qed

section \<open>Advancing the tail\<close>

lemma recv_window_Cons:
  assumes "rq_tail q \<noteq> rq_head q"
  shows "recv_window q = rq_requests q ! unat (rq_tail q mod rq_queue_capacity q)
           # recv_window (q\<lparr>rq_tail := rq_tail q + 1\<rparr>)"
proof -
  have n: "0 < unat (rq_head q - rq_tail q)" using assms by (simp add: unat_gt_0)
  have "recv_window (q\<lparr>rq_tail := rq_tail q + 1\<rparr>) = drop 1 (recv_window q)"
    using ring_entries_advance[of 1 "rq_head q" "rq_tail q" "rq_queue_capacity q" "rq_requests q"] n
    by (simp add: recv_window_def)
  moreover have "recv_window q ! 0 = rq_requests q ! unat (rq_tail q mod rq_queue_capacity q)"
    using n by (simp add: recv_window_def ring_entries_nth)
  moreover have "recv_window q \<noteq> []" using n by (metis length_recv_window less_numeral_extra(3) list.size(3))
  ultimately show ?thesis by (metis One_nat_def drop0 drop_Suc hd_conv_nth list.collapse)
qed

abbreviation completed :: "request \<Rightarrow> bool" where
  "completed r \<equiv> \<not> rqst_inflight r"

lemma recv_advance_eq:
  "recv_advance q = q\<lparr>rq_tail := rq_tail q + of_nat (length (takeWhile completed (recv_window q)))\<rparr>"
proof (induction q rule: recv_advance.induct)
  case (1 q)
  show ?case
  proof (cases "rq_tail q \<noteq> rq_head q")
    case True
    show ?thesis
    proof (cases "rqst_inflight (rq_requests q ! unat (rq_tail q mod rq_queue_capacity q))")
      case True
      with \<open>rq_tail q \<noteq> rq_head q\<close> show ?thesis
        by (subst recv_advance.simps) (simp add: recv_window_Cons)
    next
      case False
      with \<open>rq_tail q \<noteq> rq_head q\<close> show ?thesis
        by (subst recv_advance.simps) (simp add: 1 recv_window_Cons[of q] add.assoc)
    qed
  next
    case False
    then have "recv_window q = []" by (simp add: recv_window_def)
    with False show ?thesis by (subst recv_advance.simps) simp
  qed
qed

lemma recv_advance_wf:
  assumes wf: "recv_wf q"
  shows "recv_wf (recv_advance q)" "recv_window (recv_advance q) = dropWhile completed (recv_window q)"
    "recv_pending (recv_advance q) = recv_pending q"
proof -
  let ?n = "unat (rq_head q - rq_tail q)" and ?c = "rq_queue_capacity q"
  define k where "k = length (takeWhile completed (recv_window q))"
  have k: "k \<le> ?n" using length_takeWhile_le[of completed "recv_window q"] by (simp add: k_def)
  have a: "recv_advance q = q\<lparr>rq_tail := rq_tail q + of_nat k\<rparr>" by (simp add: recv_advance_eq k_def)
  show "recv_pending (recv_advance q) = recv_pending q" by (simp add: a recv_pending_def)
  show "recv_window (recv_advance q) = dropWhile completed (recv_window q)"
    using ring_entries_advance[OF k, of ?c "rq_requests q"]
    by (simp add: a recv_window_def dropWhile_eq_drop k_def)
  have n': "unat (rq_head q - (rq_tail q + of_nat k)) = ?n - k" by (rule unat_advance_tail[OF k])
  note r = recv_wf_ring[OF wf]
  have "\<not> rqst_inflight (rq_requests q ! unat ((rq_tail q + of_nat k + of_nat j) mod ?c))"
    if j: "?n - k \<le> j" "j < unat ?c" for j
  proof (cases "k + j < unat ?c")
    case True
    with wf j k show ?thesis by (simp add: recv_wf_def add.assoc flip: of_nat_add)
  next
    case False
    let ?j = "k + j - unat ?c"
    have "k \<le> unat ?c" using k wf by (simp add: recv_wf_def)
    then have jk: "?j < k" using j(2) False by linarith
    have "(unat (rq_tail q) + (k + j)) mod unat ?c = (unat (rq_tail q) + ?j + unat ?c) mod unat ?c"
      using False by (simp add: add.assoc)
    then have "unat ((rq_tail q + of_nat (k + j)) mod ?c) = unat ((rq_tail q + of_nat ?j) mod ?c)"
      unfolding ring.slot_add[OF r] by simp
    moreover have "completed (recv_window q ! ?j)"
      using jk by (metis k_def nth_mem set_takeWhileD takeWhile_nth)
    moreover have "recv_window q ! ?j = rq_requests q ! unat ((rq_tail q + of_nat ?j) mod ?c)"
      using jk k by (simp add: recv_window_def ring_entries_nth)
    ultimately show ?thesis by (simp add: add.assoc)
  qed
  with wf n' k show "recv_wf (recv_advance q)"
    by (auto simp: recv_wf_def a intro: le_trans[OF diff_le_self])
qed

section \<open>The operations on the list of requests\<close>

text \<open>Between operations the oldest request of the window is pending.\<close>

definition recv_inv :: "receive_queue \<Rightarrow> bool" where
  "recv_inv q \<longleftrightarrow> recv_wf q \<and> dropWhile completed (recv_contents q) = recv_contents q"

text \<open>The position in the window a 24-bit number designates.\<close>

definition recv_offset :: "receive_queue \<Rightarrow> u32 \<Rightarrow> nat option" where
  "recv_offset q sn = List.find (\<lambda>k. SHORT_SN (rq_tail q + of_nat k) = sn) [0..<unat (rq_wnd_size q)]"

lemma recv_offset_None: "unat sn < 2 ^ 24 \<Longrightarrow> recv_offset q sn = None \<longleftrightarrow> \<not> in_window (rq_tail q) (rq_wnd_size q) sn"
  by (auto simp: recv_offset_def find_None_iff in_window_iff)

lemma recv_offset_Some:
  "recv_offset q sn = Some k \<Longrightarrow> k < unat (rq_wnd_size q) \<and> SHORT_SN (rq_tail q + of_nat k) = sn"
  by (auto simp: recv_offset_def find_Some_iff)

lemma dropWhile_completed_pending:
  "dropWhile completed (w @ recv_pending q) = dropWhile completed w @ recv_pending q"
proof -
  have "dropWhile completed (recv_pending q) = recv_pending q"
    by (cases "recv_pending q") (auto simp: recv_pending_def fresh_request_def)
  then show ?thesis by (induction w) auto
qed

lemma recv_slot:
  assumes wf: "recv_wf q" and k: "recv_offset q sn = Some k"
  shows "unat (ucast sn mod rq_queue_capacity q) = unat ((rq_tail q + of_nat k) mod rq_queue_capacity q)"
    and "k < unat (rq_queue_capacity q)"
    and "rqst_inflight (rq_requests q ! unat (ucast sn mod rq_queue_capacity q)) \<longleftrightarrow>
      k < length (recv_window q) \<and> rqst_inflight (recv_window q ! k)"
    and "k < length (recv_window q) \<Longrightarrow> rq_requests q ! unat (ucast sn mod rq_queue_capacity q) = recv_window q ! k"
proof -
  note r = recv_wf_ring[OF wf]
  show 1: "unat (ucast sn mod rq_queue_capacity q) = unat ((rq_tail q + of_nat k) mod rq_queue_capacity q)"
    using recv_offset_Some[OF k] ring.slot_short[OF r, of "rq_tail q + of_nat k"] by simp
  show kc: "k < unat (rq_queue_capacity q)" using recv_offset_Some[OF k] wf by (simp add: recv_wf_def)
  show 2: "rq_requests q ! unat (ucast sn mod rq_queue_capacity q) = recv_window q ! k" if "k < length (recv_window q)"
    using that unfolding 1 by (simp add: recv_window_def ring_entries_nth)
  show "rqst_inflight (rq_requests q ! unat (ucast sn mod rq_queue_capacity q)) \<longleftrightarrow>
      k < length (recv_window q) \<and> rqst_inflight (recv_window q ! k)"
  proof (cases "k < length (recv_window q)")
    case False
    with wf kc show ?thesis unfolding 1 by (simp add: recv_wf_def)
  qed (use 2 in simp)
qed

lemma recv_complete_slot:
  assumes wf: "recv_wf q" and k: "k < length (recv_window q)" "k < unat (rq_queue_capacity q)"
    and i: "i = unat ((rq_tail q + of_nat k) mod rq_queue_capacity q)"
    and q': "q' = q\<lparr>rq_last_packet_ts := ts, rq_requests := (rq_requests q)[i := r\<lparr>rqst_inflight := False\<rparr>]\<rparr>"
  shows "recv_wf q'" "recv_window q' = (recv_window q)[k := r\<lparr>rqst_inflight := False\<rparr>]"
    "recv_pending q' = recv_pending q"
proof -
  note r = recv_wf_ring[OF wf]
  have il: "i < length (rq_requests q)" using ring.slot_less[OF r] wf by (simp add: i recv_wf_def)
  have n: "unat (rq_head q - rq_tail q) \<le> unat (rq_queue_capacity q)" using wf by (simp add: recv_wf_def)
  have other: "i \<noteq> unat ((rq_tail q + of_nat j) mod rq_queue_capacity q)" if "j \<noteq> k" "j < unat (rq_queue_capacity q)" for j
    using ring.slot_inj[OF r, of "rq_tail q" j k] that k(2) by (auto simp: i)
  show "recv_window q' = (recv_window q)[k := r\<lparr>rqst_inflight := False\<rparr>]"
  proof (rule nth_equalityI)
    fix j assume "j < length (recv_window q')"
    then have j: "j < unat (rq_head q - rq_tail q)" by (simp add: q')
    show "recv_window q' ! j = (recv_window q)[k := r\<lparr>rqst_inflight := False\<rparr>] ! j"
      using other[of j] j n il k by (cases "j = k") (auto simp: q' recv_window_def ring_entries_nth i[symmetric])
  qed (simp add: q')
  show "recv_pending q' = recv_pending q" by (simp add: q' recv_pending_def)
  show "recv_wf q'" using wf other k(1) by (auto simp: recv_wf_def q')
qed

lemma recv_advance_fill:
  assumes wf: "recv_wf q"
  obtains q' where "recv_fillPrimaryQueue (recv_advance q) = Inr (0, q')" "recv_inv q'" "recv_stopped q'"
    "recv_contents q' = dropWhile completed (recv_contents q)" "rq_last_packet_ts q' = rq_last_packet_ts q"
    "rq_tail q' = rq_tail q + of_nat (length (recv_contents q) - length (recv_contents q'))"
    "rq_wnd_size q' = rq_wnd_size q" "rq_queue_capacity q' = rq_queue_capacity q"
    "sec_fragment_size (rq_secondary_queue q') = sec_fragment_size (rq_secondary_queue q)"
proof -
  note A = recv_advance_wf[OF wf]
  obtain q' where q': "recv_fillPrimaryQueue (recv_advance q) = Inr (0, q')" "recv_wf q'"
    "recv_frame q' = recv_frame (recv_advance q)" "recv_stopped q'" "recv_contents q' = recv_contents (recv_advance q)"
    using recv_fill_ok[OF A(1)] by blast
  have c: "recv_contents q' = dropWhile completed (recv_contents q)"
    using q'(5) A(2,3) by (simp add: recv_contents_def dropWhile_completed_pending)
  have len: "length (takeWhile completed (recv_window q)) = length (recv_contents q) - length (recv_contents q')"
    unfolding c unfolding recv_contents_def dropWhile_completed_pending
    using arg_cong[OF takeWhile_dropWhile_id[of completed "recv_window q"], of length]
    by (simp del: takeWhile_dropWhile_id)
  have f: "rq_tail q' = rq_tail q + of_nat (length (takeWhile completed (recv_window q)))"
    "rq_last_packet_ts q' = rq_last_packet_ts q" "rq_wnd_size q' = rq_wnd_size q" "rq_queue_capacity q' = rq_queue_capacity q"
    "sec_fragment_size (rq_secondary_queue q') = sec_fragment_size (rq_secondary_queue q)"
    using q'(3) by (simp_all add: recv_frame_def recv_advance_eq)
  have "recv_inv q'" using q'(2) by (simp add: recv_inv_def c)
  then show thesis using that q'(1,4) c f(2-5) f(1)[unfolded len] by blast
qed

lemma recv_push_contents:
  assumes inv: "recv_inv q" and ok: "\<forall>e\<in>set es. slice_ok (sec_fragment_size (rq_secondary_queue q)) e"
  obtains q' where "recv_push es q = Inr (SHORT_SN (sec_fragment_id (rq_secondary_queue q')), 0, q')"
    "recv_inv q'" "recv_stopped q'" "rq_tail q' = rq_tail q" "rq_wnd_size q' = rq_wnd_size q"
    "recv_contents q' = recv_contents q @ map fresh_request (user_chunks (sec_fragment_size (rq_secondary_queue q)) es)"
    "sec_fragment_size (rq_secondary_queue q') = sec_fragment_size (rq_secondary_queue q)"
proof -
  let ?s = "rq_secondary_queue q" and ?fs = "sec_fragment_size (rq_secondary_queue q)"
  have wf: "recv_wf q" using inv by (simp add: recv_inv_def)
  then have si: "sec_inv ?s" by (simp add: recv_wf_def)
  with push_slices_ok[OF si, of es] ok obtain sec where sec: "push_slices es ?s = Inr sec" "sec_inv sec"
    "sec_fragment_size sec = ?fs" "sec_fragments sec = sec_fragments ?s @ user_chunks ?fs es"
    "sec_fragment_id sec = sec_fragment_id ?s + of_nat (length (user_chunks ?fs es))" by blast
  let ?q = "q\<lparr>rq_secondary_queue := sec\<rparr>"
  have wf': "recv_wf ?q" using wf sec by (auto simp: recv_wf_def)
  obtain q' where q': "recv_fillPrimaryQueue ?q = Inr (0, q')" "recv_wf q'" "recv_frame q' = recv_frame ?q"
    "recv_stopped q'" "recv_contents q' = recv_contents ?q"
    using recv_fill_ok[OF wf'] by blast
  have c: "recv_contents ?q = recv_contents q @ map fresh_request (user_chunks ?fs es)"
    using sec(4) by (simp add: recv_contents_def recv_window_def recv_pending_def)
  have "dropWhile completed (recv_contents q') = recv_contents q'"
    using inv unfolding q'(5) c recv_inv_def dropWhile_eq_self_iff
    by (cases "recv_contents q"; cases "user_chunks ?fs es") (auto simp: fresh_request_def)
  then have "recv_inv q'" using q'(2) by (simp add: recv_inv_def)
  then show thesis
    using that[of q'] q' c sec by (simp add: recv_push_def secondary_push_def recv_frame_def)
qed

text \<open>
  C8. \<open>ReceiveQueue::push\<close> posts requests.  On a well-formed queue, pushing user buffers
  never faults and returns 0; the requests are those there were, followed by one pending
  request per fragment of the buffers; \<open>last_sn\<close> is the acknowledgement number at which
  all of them are received; the window is filled as far as the window size allows.
\<close>

theorem recv_push_posts:
  assumes inv: "recv_inv q" and ok: "\<forall>e\<in>set es. slice_ok (sec_fragment_size (rq_secondary_queue q)) e"
  shows "\<exists>q'. recv_push es q = Inr (SHORT_SN (rq_tail q + of_nat (length (recv_contents q'))), 0, q')
    \<and> recv_inv q' \<and> recv_stopped q' \<and> rq_tail q' = rq_tail q
    \<and> recv_contents q' = recv_contents q @ map fresh_request (user_chunks (sec_fragment_size (rq_secondary_queue q)) es)"
proof (rule recv_push_contents[OF inv ok])
  fix q' assume q': "recv_push es q = Inr (SHORT_SN (sec_fragment_id (rq_secondary_queue q')), 0, q')"
    "recv_inv q'" "recv_stopped q'" "rq_tail q' = rq_tail q" "rq_wnd_size q' = rq_wnd_size q"
    "recv_contents q' = recv_contents q @ map fresh_request (user_chunks (sec_fragment_size (rq_secondary_queue q)) es)"
  have "sec_fragment_id (rq_secondary_queue q') = rq_tail q + of_nat (length (recv_contents q'))"
    using q'(2,4) by (simp add: recv_inv_def recv_wf_def recv_contents_def recv_pending_def of_nat_unat)
  with q' show ?thesis by auto
qed

text \<open>The cases of \<open>markCompleted\<close>.\<close>

lemma recv_mark_ignored:
  assumes "recv_offset q (ph_sn h) = None" "unat (ph_sn h) < 2 ^ 24"
  shows "recv_markCompleted m h q = Inr (0, m, q)"
  using assms(1) recv_offset_None[OF assms(2), of q] by (simp add: recv_markCompleted_def)

lemma recv_mark_stale:
  assumes inv: "recv_inv q" and sn: "unat (ph_sn h) < 2 ^ 24" and k: "recv_offset q (ph_sn h) = Some k"
    and done_k: "\<not> (k < length (recv_window q) \<and> rqst_inflight (recv_window q ! k))"
  obtains q' where "recv_markCompleted m h q = Inr (0, m, q')" "recv_inv q'" "recv_contents q' = recv_contents q"
    "rq_tail q' = rq_tail q" "rq_last_packet_ts q' = rq_last_packet_ts q" "rq_wnd_size q' = rq_wnd_size q"
    "sec_fragment_size (rq_secondary_queue q') = sec_fragment_size (rq_secondary_queue q)" "recv_stopped q'"
proof -
  have wf: "recv_wf q" using inv by (simp add: recv_inv_def)
  have iw: "in_window (rq_tail q) (rq_wnd_size q) (ph_sn h)" using recv_offset_None[OF sn, of q] k by simp
  have cap: "rq_queue_capacity q \<noteq> 0" using ring.cap_nonzero[OF recv_wf_ring[OF wf]] .
  obtain q' where q': "recv_fillPrimaryQueue (recv_advance q) = Inr (0, q')" "recv_inv q'"
    "recv_contents q' = dropWhile completed (recv_contents q)" "rq_last_packet_ts q' = rq_last_packet_ts q"
    "rq_tail q' = rq_tail q + of_nat (length (recv_contents q) - length (recv_contents q'))"
    "rq_wnd_size q' = rq_wnd_size q"
    "sec_fragment_size (rq_secondary_queue q') = sec_fragment_size (rq_secondary_queue q)" "recv_stopped q'"
    using recv_advance_fill[OF wf] by blast
  have c: "recv_contents q' = recv_contents q" using q'(3) inv by (simp only: recv_inv_def)
  have "completed (rq_requests q ! unat (ucast (ph_sn h) mod rq_queue_capacity q))"
    using done_k recv_slot(3)[OF wf k] by blast
  then have "recv_markCompleted m h q = Inr (0, m, q')"
    using q'(1) iw cap by (simp add: recv_markCompleted_def Let_def)
  with q' c show thesis by (intro that[of q']) simp_all
qed

lemma recv_mark_pending:
  assumes inv: "recv_inv q" and sn: "unat (ph_sn h) < 2 ^ 24" and k: "recv_offset q (ph_sn h) = Some k"
    and pending: "k < length (recv_window q)" "rqst_inflight (recv_window q ! k)"
  shows "ucast (ph_data_len h) \<noteq> rqst_length (recv_window q ! k) \<Longrightarrow> recv_markCompleted m h q = Inl Abort"
    and "ucast (ph_data_len h) = rqst_length (recv_window q ! k) \<Longrightarrow>
      \<exists>q'. recv_markCompleted m h q = Inr (0, memmove m (rqst_addr (recv_window q ! k)) (getPayload h) (unat (rqst_length (recv_window q ! k))), q')
        \<and> recv_inv q' \<and> recv_stopped q'
        \<and> recv_contents q' = dropWhile completed ((recv_contents q)[k := (recv_window q ! k)\<lparr>rqst_inflight := False\<rparr>])
        \<and> rq_tail q' = rq_tail q + of_nat (length (recv_contents q) - length (recv_contents q'))
        \<and> rq_last_packet_ts q' = max (rq_last_packet_ts q) (ph_ts h) \<and> rq_wnd_size q' = rq_wnd_size q
        \<and> sec_fragment_size (rq_secondary_queue q') = sec_fragment_size (rq_secondary_queue q)"
proof -
  let ?i = "unat (ucast (ph_sn h) mod rq_queue_capacity q)" and ?r = "recv_window q ! k"
  let ?q = "q\<lparr>rq_last_packet_ts := max (rq_last_packet_ts q) (ph_ts h),
               rq_requests := (rq_requests q)[?i := ?r\<lparr>rqst_inflight := False\<rparr>]\<rparr>"
  have wf: "recv_wf q" using inv by (simp add: recv_inv_def)
  have iw: "in_window (rq_tail q) (rq_wnd_size q) (ph_sn h)" using recv_offset_None[OF sn, of q] k by simp
  have cap: "rq_queue_capacity q \<noteq> 0" using ring.cap_nonzero[OF recv_wf_ring[OF wf]] .
  note S = recv_slot[OF wf k]
  note C = recv_complete_slot[OF wf pending(1) S(2) S(1) refl, where ts = "max (rq_last_packet_ts q) (ph_ts h)" and r = ?r]
  have r: "rq_requests q ! ?i = ?r" using S(4) pending(1) by blast
  show "recv_markCompleted m h q = Inl Abort" if "ucast (ph_data_len h) \<noteq> rqst_length ?r"
    using that r pending(2) iw cap by (simp add: recv_markCompleted_def)
  obtain q' where q': "recv_fillPrimaryQueue (recv_advance ?q) = Inr (0, q')" "recv_inv q'" "recv_stopped q'"
    "recv_contents q' = dropWhile completed (recv_contents ?q)" "rq_last_packet_ts q' = rq_last_packet_ts ?q"
    "rq_tail q' = rq_tail ?q + of_nat (length (recv_contents ?q) - length (recv_contents q'))"
    "rq_wnd_size q' = rq_wnd_size ?q"
    "sec_fragment_size (rq_secondary_queue q') = sec_fragment_size (rq_secondary_queue ?q)"
    using recv_advance_fill[OF C(1)] by blast
  have c: "recv_contents ?q = (recv_contents q)[k := ?r\<lparr>rqst_inflight := False\<rparr>]"
    using C(2,3) pending(1) by (simp add: recv_contents_def list_update_append)
  show "\<exists>q'. recv_markCompleted m h q = Inr (0, memmove m (rqst_addr ?r) (getPayload h) (unat (rqst_length ?r)), q')
        \<and> recv_inv q' \<and> recv_stopped q' \<and> recv_contents q' = dropWhile completed ((recv_contents q)[k := ?r\<lparr>rqst_inflight := False\<rparr>])
        \<and> rq_tail q' = rq_tail q + of_nat (length (recv_contents q) - length (recv_contents q'))
        \<and> rq_last_packet_ts q' = max (rq_last_packet_ts q) (ph_ts h) \<and> rq_wnd_size q' = rq_wnd_size q
        \<and> sec_fragment_size (rq_secondary_queue q') = sec_fragment_size (rq_secondary_queue q)"
    if len: "ucast (ph_data_len h) = rqst_length ?r"
  proof (intro exI[of _ q'] conjI)
    show "recv_markCompleted m h q = Inr (0, memmove m (rqst_addr ?r) (getPayload h) (unat (rqst_length ?r)), q')"
      using len r pending(2) iw cap q'(1) by (simp add: recv_markCompleted_def Let_def)
  qed (use q'[unfolded c] in simp_all)
qed


text \<open>
  A full window is reported as the largest one.  As soon as more fragments are posted
  than the window size, the fill loop leaves \<open>wnd_size_ + 1\<close> requests in the window and
  the subtraction in \<open>getAvailableWndSize\<close> wraps around to 65535.
\<close>

lemma recv_available_window_underflow:
  assumes inv: "recv_inv q" and ok: "\<forall>e\<in>set es. slice_ok (sec_fragment_size (rq_secondary_queue q)) e"
    and push: "recv_push es q = Inr (last_sn, rc, q')" and many: "unat (rq_wnd_size q') < length (recv_contents q')"
  shows "recv_getAvailableWndSize q' = 65535"
proof -
  have q': "recv_inv q'" "recv_stopped q'"
    using push by (auto intro: recv_push_contents[OF inv ok])
  have "unat (rq_head q' - rq_tail q') = Suc (unat (rq_wnd_size q'))"
    using q' many by (auto simp: recv_inv_def recv_wf_def recv_stopped_def recv_contents_def)
  then have "of_nat (unat (rq_head q' - rq_tail q')) = (of_nat (Suc (unat (rq_wnd_size q'))) :: u64)" by simp
  then have "rq_head q' - rq_tail q' = 1 + ucast (rq_wnd_size q')" by (simp only: of_nat_unat ucast_id of_nat_Suc)
  moreover have "(ucast (- 1 :: u64) :: u16) = 65535" by code_simp
  ultimately show ?thesis by (simp add: recv_getAvailableWndSize_def)
qed

section \<open>Initial queues and concrete runs\<close>

lemma ReceiveQueue_new_inv:
  assumes "unat cap dvd 2 ^ 24" "unat wnd < unat cap" "unat wnd < 2 ^ 16" "48 < unat mtu"
  obtains q where "ReceiveQueue_new mtu cap wnd session = Inr q" "recv_inv q" "recv_contents q = []"
    "sec_fragment_size (rq_secondary_queue q) = mtu - 48" "rq_tail q = 0" "rq_wnd_size q = ucast wnd"
proof -
  obtain q where q: "ReceiveQueue_new mtu cap wnd session = Inr q" "q = \<lparr>rq_mtu_size = mtu, rq_queue_capacity = cap,
      rq_session = session, rq_head = 0, rq_tail = 0, rq_wnd_size = ucast wnd,
      rq_requests = replicate (unat cap) \<lparr>rqst_addr = 0, rqst_length = 0, rqst_inflight = False\<rparr>,
      rq_secondary_queue = SecondaryQueue_new (mtu - 8 - 40), rq_last_packet_ts = 0\<rparr>"
    using assms(2) by (simp add: ReceiveQueue_new_def sizeof_PktHdr_def kGRHSize_def word_le_nat_alt)
  have r: "ring cap" using assms(1) by (simp add: ring_def)
  have f: "unat (mtu - 48) = unat mtu - 48" using assms(4) by (subst unat_sub) (auto simp: word_le_nat_alt)
  then have "unat (mtu - 8 - 40) = unat mtu - 48" by (simp add: diff_diff_eq)
  then have "mtu - 8 - 40 \<noteq> 0" using assms(4) by (auto simp: word_unat_eq_iff)
  moreover have "unat (ucast wnd :: u16) = unat wnd"
    using assms(3) by (simp add: unsigned_ucast_eq take_bit_nat_eq_self_iff)
  ultimately have "recv_wf q"
    using assms ring.slot_less[OF r] by (simp add: q(2) recv_wf_def sec_inv_def SecondaryQueue_new_def sec_fragments_def)
  then show thesis
    using q by (intro that[of q])
      (simp_all add: recv_inv_def recv_contents_def recv_window_def recv_pending_def sec_fragments_def SecondaryQueue_new_def
        diff_diff_eq)
qed

definition test_recv_queue :: receive_queue where
  "test_recv_queue = \<lparr>rq_mtu_size = 64, rq_queue_capacity = 4, rq_session = 3, rq_head = 2, rq_tail = 0, rq_wnd_size = 2,
     rq_requests = [\<lparr>rqst_addr = 8192, rqst_length = 16, rqst_inflight = True\<rparr>,
       \<lparr>rqst_addr = 8208, rqst_length = 2, rqst_inflight = True\<rparr>,
       \<lparr>rqst_addr = 0, rqst_length = 0, rqst_inflight = False\<rparr>, \<lparr>rqst_addr = 0, rqst_length = 0, rqst_inflight = False\<rparr>],
     rq_secondary_queue = \<lparr>sec_slice_list = [], sec_offset = 0, sec_fragment_id = 2, sec_fragment_size = 16\<rparr>,
     rq_last_packet_ts = 5\<rparr>"

lemma test_recv_window: "recv_window test_recv_queue = [\<lparr>rqst_addr = 8192, rqst_length = 16, rqst_inflight = True\<rparr>,
       \<lparr>rqst_addr = 8208, rqst_length = 2, rqst_inflight = True\<rparr>]"
  "recv_pending test_recv_queue = []"
  by (simp_all add: recv_window_def recv_pending_def sec_fragments_def test_recv_queue_def ring_entries_def upt_rec)

lemma test_recv_inv: "recv_inv test_recv_queue"
proof -
  have "(2 ^ 24 :: nat) = unat (4 :: u64) * 4194304" by simp
  then have d: "unat (4 :: u64) dvd 2 ^ 24" by (rule dvdI)
  have "\<not> rqst_inflight (rq_requests test_recv_queue ! unat (of_nat k mod 4 :: u64))" if "2 \<le> k" "k < 4" for k
  proof -
    have "k = 2 \<or> k = 3" using that by auto
    then show ?thesis by (auto simp: test_recv_queue_def)
  qed
  with d have "recv_wf test_recv_queue"
    by (simp add: recv_wf_def) (simp add: test_recv_queue_def sec_inv_def sec_fragments_def)
  then show ?thesis by (simp add: recv_inv_def recv_contents_def test_recv_window)
qed

theorem recv_push_posts_witness:
  "\<exists>q'. recv_push [\<lparr>buf_addr = 8256, buf_length = 9\<rparr>] test_recv_queue = Inr (3, 0, q')
     \<and> recv_contents q' = recv_contents test_recv_queue @ [\<lparr>rqst_addr = 8256, rqst_length = 9, rqst_inflight = True\<rparr>]"
proof -
  have f: "sec_fragment_size (rq_secondary_queue test_recv_queue) = 16" "rq_tail test_recv_queue = 0"
    by (simp_all add: test_recv_queue_def)
  have c: "user_chunks 16 [\<lparr>buf_addr = 8256, buf_length = 9\<rparr>] = [\<lparr>buf_addr = 8256, buf_length = 9\<rparr>]"
    by (simp add: chunks.simps)
  show ?thesis
    using recv_push_posts[OF test_recv_inv, of "[\<lparr>buf_addr = 8256, buf_length = 9\<rparr>]"]
    unfolding f c recv_contents_def[of test_recv_queue] test_recv_window
    by (auto simp: slice_ok_def SHORT_SN_def fresh_request_def)
qed


lemma recv_available_window_underflow_witness:
  "\<exists>sn q'. recv_push [\<lparr>buf_addr = 8256, buf_length = 9\<rparr>] test_recv_queue = Inr (sn, 0, q') \<and> recv_getAvailableWndSize q' = 65535"
proof -
  have f: "sec_fragment_size (rq_secondary_queue test_recv_queue) = 16" "rq_wnd_size test_recv_queue = 2"
    "recv_contents test_recv_queue = recv_window test_recv_queue"
    by (simp_all add: test_recv_queue_def recv_contents_def recv_pending_def sec_fragments_def)
  have ok: "\<forall>e\<in>set [\<lparr>buf_addr = 8256, buf_length = 9\<rparr>]. slice_ok (sec_fragment_size (rq_secondary_queue test_recv_queue)) e"
    by (simp add: slice_ok_def f)
  obtain q' where q': "recv_push [\<lparr>buf_addr = 8256, buf_length = 9\<rparr>] test_recv_queue
      = Inr (SHORT_SN (sec_fragment_id (rq_secondary_queue q')), 0, q')" "rq_wnd_size q' = 2"
    "recv_contents q' = recv_window test_recv_queue @ map fresh_request (user_chunks 16 [\<lparr>buf_addr = 8256, buf_length = 9\<rparr>])"
    using recv_push_contents[OF test_recv_inv ok] unfolding f by metis
  have "recv_getAvailableWndSize q' = 65535"
    using recv_available_window_underflow[OF test_recv_inv ok q'(1)] q'(2,3)
    by (simp add: test_recv_window chunks.simps del: length_recv_window)
  with q'(1) show ?thesis by blast
qed

end
