(* ===== verification/PacketManager.thy ===== *)
theory PacketManager
  imports McastSendQueue ReceiveQueue "HOL-Library.Signed_Division"
begin

text \<open>
  \<open>PacketManager\<close> of \<open>src/src/protocols/rdma_unreliable/packet_manager.{h,cpp}\<close>: the
  packet pool and, per session, a send queue, a receive queue and a multicast send queue,
  created on first use.

  A queue reference of the source is the session id under which the queue is stored.  The
  accessors take the read lock, look the session up, and otherwise create the queue under the
  write lock; run by one thread this is a lookup followed by an insertion.
\<close>

section \<open>Model\<close>

record packet_manager =
  pm_mtu_size :: u64
  pm_max_packets :: u64
  pm_queue_capacity :: u64
  pm_wnd_size :: u64
  pm_pool :: packet_buffer_pool
  pm_send_queue :: "int \<rightharpoonup> send_queue"
  pm_receive_queue :: "int \<rightharpoonup> receive_queue"
  pm_mcast_send_queue :: "int \<rightharpoonup> mcast_send_queue"
  pm_mcast_replica_num :: "int \<rightharpoonup> int"

definition kWndSize :: u64 where
  "kWndSize = 64"

definition PacketManager_new :: "u64 \<Rightarrow> u64 \<Rightarrow> u64 \<Rightarrow> u64 \<Rightarrow> packet_manager" where
  "PacketManager_new mtu_size max_packets queue_capacity wnd_size =
     \<lparr>pm_mtu_size = mtu_size, pm_max_packets = max_packets, pm_queue_capacity = queue_capacity, pm_wnd_size = wnd_size,
      pm_pool = PacketBufferPool_new mtu_size max_packets, pm_send_queue = Map.empty, pm_receive_queue = Map.empty,
      pm_mcast_send_queue = Map.empty, pm_mcast_replica_num = Map.empty\<rparr>"

definition manager_construct :: "addr \<Rightarrow> packet_manager \<Rightarrow> mem \<Rightarrow> int \<times> packet_manager \<times> mem" where
  "manager_construct arena pm m =
     (case pool_construct arena (pm_pool pm) m of (rc, p, m') \<Rightarrow> (rc, pm\<lparr>pm_pool := p\<rparr>, m'))"

text \<open>
  \<open>deconstruct\<close> deletes the send and receive queues and the pool; \<open>order\<close> is the
  iteration order of the hash map of send queues.  The multicast queues are not deleted.
\<close>

definition manager_deconstruct :: "int list \<Rightarrow> packet_manager \<Rightarrow> mem \<Rightarrow> int \<times> packet_manager \<times> mem" where
  "manager_deconstruct order pm m =
     (let (p, m') = fold (\<lambda>sid (p, m). case pm_send_queue pm sid of
                            Some q \<Rightarrow> SendQueue_delete m p q | None \<Rightarrow> (p, m)) order (pm_pool pm, m);
          (rc, p') = pool_deconstruct p
      in (rc, pm\<lparr>pm_pool := p', pm_send_queue := Map.empty, pm_receive_queue := Map.empty\<rparr>, m'))"

text \<open>\<open>sid % 256\<close> is converted to an 8-bit session number.\<close>

definition getSendQueue :: "(nat \<Rightarrow> packet_handle) \<Rightarrow> packet_manager \<Rightarrow> int \<Rightarrow> packet_manager outcome" where
  "getSendQueue g pm sid =
     (if pm_send_queue pm sid \<noteq> None then Inr pm
      else case SendQueue_new g (pm_mtu_size pm) (pm_queue_capacity pm) (pm_wnd_size pm) (of_int (sid smod 256)) of
             Inl f \<Rightarrow> Inl f
           | Inr q \<Rightarrow> Inr (pm\<lparr>pm_send_queue := (pm_send_queue pm)(sid \<mapsto> q)\<rparr>))"

definition getReceiveQueue :: "packet_manager \<Rightarrow> int \<Rightarrow> packet_manager outcome" where
  "getReceiveQueue pm sid =
     (if pm_receive_queue pm sid \<noteq> None then Inr pm
      else case ReceiveQueue_new (pm_mtu_size pm) (pm_queue_capacity pm) (pm_wnd_size pm) (of_int (sid smod 256)) of
             Inl f \<Rightarrow> Inl f
           | Inr q \<Rightarrow> Inr (pm\<lparr>pm_receive_queue := (pm_receive_queue pm)(sid \<mapsto> q)\<rparr>))"

text \<open>
  The number of replicas is read with \<open>mcast_replica_num_[sid / 256]\<close>, which inserts 0 for
  a group that has none.
\<close>

definition getMcastSendQueue :: "(nat \<Rightarrow> packet_handle) \<Rightarrow> packet_manager \<Rightarrow> int \<Rightarrow> packet_manager outcome" where
  "getMcastSendQueue g pm sid =
     (if pm_mcast_send_queue pm sid \<noteq> None then Inr pm
      else
        let group_id = sid sdiv 256;
            n = (case pm_mcast_replica_num pm group_id of Some n \<Rightarrow> n | None \<Rightarrow> 0);
            pm' = pm\<lparr>pm_mcast_replica_num := (pm_mcast_replica_num pm)(group_id \<mapsto> n)\<rparr>
        in case McastSendQueue_new g (pm_mtu_size pm) (pm_queue_capacity pm) (pm_wnd_size pm)
                  (of_int (sid smod 256)) (of_int n) of
             Inl f \<Rightarrow> Inl f
           | Inr q \<Rightarrow> Inr (pm'\<lparr>pm_mcast_send_queue := (pm_mcast_send_queue pm')(sid \<mapsto> q)\<rparr>))"

definition setMulticastReplicaNum :: "packet_manager \<Rightarrow> int \<Rightarrow> u64 \<Rightarrow> int \<times> packet_manager" where
  "setMulticastReplicaNum pm group_id replica_num =
     (if pm_mcast_replica_num pm group_id \<noteq> None then (-1, pm)
      else (0, pm\<lparr>pm_mcast_replica_num := (pm_mcast_replica_num pm)(group_id \<mapsto> sint (ucast replica_num :: 32 word))\<rparr>))"

section \<open>Get-or-create registries\<close>

text \<open>
  The contract the contexts rely on when they keep references to queues: once an id has a
  queue, asking for it again changes nothing, and asking for other ids keeps it.
\<close>

locale registry =
  fixes entry :: "'r \<Rightarrow> int \<Rightarrow> 'q option"
    and get :: "'r \<Rightarrow> int \<Rightarrow> 'r outcome"
  assumes get_present: "entry r sid = Some q \<Longrightarrow> get r sid = Inr r"
    and get_creates: "get r sid = Inr r' \<Longrightarrow> entry r' sid \<noteq> None"
    and get_frame: "get r sid = Inr r' \<Longrightarrow> sid' \<noteq> sid \<Longrightarrow> entry r' sid' = entry r sid'"
begin

lemma get_idempotent: "get r sid = Inr r' \<Longrightarrow> get r' sid = Inr r'"
  using get_creates get_present by blast

lemma get_keeps: "get r sid = Inr r' \<Longrightarrow> entry r sid' = Some q \<Longrightarrow> entry r' sid' = Some q"
  by (cases "sid' = sid") (auto simp: get_present get_frame)

primrec get_all :: "int list \<Rightarrow> 'r \<Rightarrow> 'r outcome" where
  "get_all [] r = Inr r"
| "get_all (sid # sids) r = (case get r sid of Inl f \<Rightarrow> Inl f | Inr r' \<Rightarrow> get_all sids r')"

lemma get_all_keeps:
  "get_all sids r = Inr r' \<Longrightarrow> entry r sid = Some q \<Longrightarrow> entry r' sid = Some q"
  by (induction sids arbitrary: r) (auto split: sum.splits dest: get_keeps)

lemma get_all_creates: "get_all sids r = Inr r' \<Longrightarrow> sid \<in> set sids \<Longrightarrow> entry r' sid \<noteq> None"
proof (induction sids arbitrary: r)
  case (Cons s sids)
  then obtain r1 where r1: "get r s = Inr r1" "get_all sids r1 = Inr r'" by (auto split: sum.splits)
  then show ?case
    using Cons get_creates[OF r1(1)] get_all_keeps[OF r1(2), of sid] by (cases "sid = s") auto
qed simp

end

interpretation send_registry: registry pm_send_queue "getSendQueue g" for g
  by unfold_locales (auto simp: getSendQueue_def split: if_splits sum.splits)

interpretation receive_registry: registry pm_receive_queue getReceiveQueue
  by unfold_locales (auto simp: getReceiveQueue_def split: if_splits sum.splits)

interpretation mcast_registry: registry pm_mcast_send_queue "getMcastSendQueue g" for g
  by unfold_locales (auto simp: getMcastSendQueue_def Let_def split: if_splits sum.splits)

text \<open>
  Queues of a fresh session are usable.  With a capacity that divides \<open>2 ^ 24\<close>, a
  smaller window and an MTU larger than the headers (the defaults are 4096, 64 and 4096),
  asking the manager for the send and the receive queue of a session without queues succeeds
  and stores empty queues that satisfy the queue invariants; other sessions keep their queues
  and asking again changes nothing.
\<close>

lemma manager_fresh_queues:
  assumes pool: "pool_inv (pm_pool pm) m others"
    and cap: "unat (pm_queue_capacity pm) dvd 2 ^ 24" "unat (pm_wnd_size pm) < unat (pm_queue_capacity pm)"
      "unat (pm_wnd_size pm) < 2 ^ 16"
    and mtu: "48 < unat (pm_mtu_size pm)" "unat (pm_mtu_size pm) < 2 ^ 32"
    and none: "pm_send_queue pm sid = None" "pm_receive_queue pm sid = None"
  shows "\<exists>pm1 pm2 sq rq. getSendQueue g pm sid = Inr pm1 \<and> getReceiveQueue pm1 sid = Inr pm2
    \<and> pm_send_queue pm2 = (pm_send_queue pm)(sid \<mapsto> sq) \<and> pm_receive_queue pm2 = (pm_receive_queue pm)(sid \<mapsto> rq)
    \<and> send_inv m others (pm_pool pm2, sq) \<and> send_contents sq = [] \<and> recv_inv rq \<and> recv_contents rq = []
    \<and> getSendQueue g pm2 sid = Inr pm2 \<and> getReceiveQueue pm2 sid = Inr pm2"
proof -
  obtain sq where sq: "SendQueue_new g (pm_mtu_size pm) (pm_queue_capacity pm) (pm_wnd_size pm) (of_int (sid smod 256)) = Inr sq"
    "send_inv m others (pm_pool pm, sq)" "send_contents sq = []"
    using SendQueue_new_inv[OF pool cap mtu] by blast
  obtain rq where rq: "ReceiveQueue_new (pm_mtu_size pm) (pm_queue_capacity pm) (pm_wnd_size pm) (of_int (sid smod 256)) = Inr rq"
    "recv_inv rq" "recv_contents rq = []"
    using ReceiveQueue_new_inv[OF cap mtu(1)] by metis
  let ?pm1 = "pm\<lparr>pm_send_queue := (pm_send_queue pm)(sid \<mapsto> sq)\<rparr>"
  let ?pm2 = "?pm1\<lparr>pm_receive_queue := (pm_receive_queue pm)(sid \<mapsto> rq)\<rparr>"
  have "getSendQueue g pm sid = Inr ?pm1" "getReceiveQueue ?pm1 sid = Inr ?pm2"
    using none sq(1) rq(1) by (simp_all add: getSendQueue_def getReceiveQueue_def)
  moreover have "getSendQueue g ?pm2 sid = Inr ?pm2" by (rule send_registry.get_present) simp
  moreover have "getReceiveQueue ?pm2 sid = Inr ?pm2" by (rule receive_registry.get_present) simp
  ultimately show ?thesis
    using sq rq by (intro exI[of _ ?pm1] exI[of _ ?pm2] exI[of _ sq] exI[of _ rq]) simp
qed

lemma manager_fresh_queues_witness:
  "\<exists>pm1 pm2 sq rq. getSendQueue (\<lambda>_. test_handle) ((PacketManager_new 64 2 4 2)\<lparr>pm_pool := test_full_pool\<rparr>) 256 = Inr pm1
     \<and> getReceiveQueue pm1 256 = Inr pm2 \<and> pm_send_queue pm2 256 = Some sq \<and> pm_receive_queue pm2 256 = Some rq
     \<and> send_contents sq = [] \<and> recv_inv rq"
proof -
  let ?pm = "(PacketManager_new 64 2 4 2)\<lparr>pm_pool := test_full_pool\<rparr>"
  have "(2 ^ 24 :: nat) = unat (4 :: u64) * 4194304" by simp
  then have d: "unat (4 :: u64) dvd 2 ^ 24" by (rule dvdI)
  have "pool_inv (pm_pool ?pm) (\<lambda>_. 0) [4096, 4160]" using test_full_pool_inv by simp
  from manager_fresh_queues[OF this, of 256 "\<lambda>_. test_handle"] d show ?thesis
    by (auto simp: PacketManager_new_def)
qed

text \<open>
  The replica count of a group is frozen by the first use of its queue.  If the multicast
  queue of a session is requested before \<open>setMulticastReplicaNum\<close>, the lookup records 0
  replicas: the queue has no tails, every acknowledgement is rejected, the smallest tail is
  \<open>UINT64_MAX\<close>, and setting the number afterwards fails.
\<close>

lemma mcast_queue_before_replicas:
  assumes "pm_mcast_send_queue pm sid = None" "pm_mcast_replica_num pm (sid sdiv 256) = None"
    "getMcastSendQueue g pm sid = Inr pm'"
  shows "\<exists>q. pm_mcast_send_queue pm' sid = Some q \<and> mq_tail_list q = [] \<and> getMinTailIndex q = - 1
    \<and> (\<forall>m index ack p. mcast_markCompleted m index ack (p, q) = Inr (-1, p, q))
    \<and> (\<forall>n. setMulticastReplicaNum pm' (sid sdiv 256) n = (-1, pm'))"
proof -
  obtain q where q: "McastSendQueue_new g (pm_mtu_size pm) (pm_queue_capacity pm) (pm_wnd_size pm)
      (of_int (sid smod 256)) 0 = Inr q"
    and pm': "pm_mcast_send_queue pm' sid = Some q" "pm_mcast_replica_num pm' (sid sdiv 256) = Some 0"
    using assms by (auto simp: getMcastSendQueue_def Let_def split: sum.splits)
  have t: "mq_tail_list q = []" using q by (auto simp: McastSendQueue_new_def split: if_splits)
  have "mcast_markCompleted m index ack (p, q) = Inr (-1, p, q)" for m index ack p
    using t by (cases "index < 0") (simp_all add: mcast_markCompleted_def)
  then show ?thesis
    using pm' t by (intro exI[of _ q]) (simp add: getMinTailIndex_def setMulticastReplicaNum_def)
qed

lemma mcast_queue_before_replicas_witness:
  "\<exists>pm' q. getMcastSendQueue (\<lambda>_. test_handle) (PacketManager_new 64 2 4 2) 256 = Inr pm' \<and> pm_mcast_send_queue pm' 256 = Some q
     \<and> mq_tail_list q = [] \<and> setMulticastReplicaNum pm' 1 3 = (-1, pm')"
proof -
  let ?pm = "PacketManager_new 64 2 4 2"
  have s: "(256 :: int) sdiv 256 = 1" by (simp add: signed_divide_int_def)
  have n: "pm_mcast_send_queue ?pm 256 = None" "pm_mcast_replica_num ?pm (256 sdiv 256) = None"
    by (simp_all add: PacketManager_new_def)
  obtain pm' where g: "getMcastSendQueue (\<lambda>_. test_handle) ?pm 256 = Inr pm'"
    by (simp add: getMcastSendQueue_def PacketManager_new_def McastSendQueue_new_def Let_def)
  from mcast_queue_before_replicas[OF n g] g show ?thesis unfolding s by blast
qed

end
