(* ===== verification/MemoryRegions.thy ===== *)
theory MemoryRegions
  imports Prelude
begin

text \<open>
  The memory regions registered with a device: \<open>registerMemoryRegion\<close>,
  \<open>unregisterMemoryRegion\<close> and \<open>key\<close> of \<open>RdmaContext\<close>
  (\<open>src/src/protocols/common/rdma_context.cpp\<close>) and of \<open>RdmaMulticastContext\<close>
  (\<open>src/src/protocols/common/rdma_multicast.cpp\<close>), which keeps one list per connection.

  \<open>ibv_reg_mr\<close> and \<open>ibv_dereg_mr\<close> are parameters.  The lemmas show that the overlap
  test is exactly the intersection of address ranges, that the registered regions stay
  disjoint, and that \<open>key\<close> finds the one region of an address.
\<close>

section \<open>Model\<close>

record ibv_mr =
  mr_addr :: addr
  mr_length :: u64
  mr_lkey :: u32
  mr_rkey :: u32

type_synonym reg_mr = "addr \<Rightarrow> u64 \<Rightarrow> int \<Rightarrow> ibv_mr option"
type_synonym dereg_mr = "ibv_mr \<Rightarrow> int"

definition mr_overlapped :: "ibv_mr \<Rightarrow> addr \<Rightarrow> u64 \<Rightarrow> bool" where
  "mr_overlapped entry addr len =
     (let start_overlapped = mr_addr entry \<le> addr \<and> addr < mr_addr entry + mr_length entry;
          end_overlapped = mr_addr entry < addr + len \<and> addr + len \<le> mr_addr entry + mr_length entry;
          covered = addr \<le> mr_addr entry \<and> mr_addr entry + mr_length entry \<le> addr + len
      in start_overlapped \<or> end_overlapped \<or> covered)"

definition mr_contains :: "ibv_mr \<Rightarrow> addr \<Rightarrow> bool" where
  "mr_contains entry addr \<longleftrightarrow> mr_addr entry \<le> addr \<and> addr < mr_addr entry + mr_length entry"

definition registerMemoryRegion :: "reg_mr \<Rightarrow> ibv_mr list \<Rightarrow> addr \<Rightarrow> u64 \<Rightarrow> int \<Rightarrow> int \<times> ibv_mr list" where
  "registerMemoryRegion reg regions addr len access =
     (if \<exists>entry\<in>set regions. mr_overlapped entry addr len then (-1, regions)
      else case reg addr len access of
             None \<Rightarrow> (-1, regions)
           | Some mr \<Rightarrow> (0, regions @ [mr]))"

text \<open>
  The loop of \<open>unregisterMemoryRegion\<close>: remove the first region that contains the address,
  start over, and stop when a pass removes nothing or the driver refuses.
\<close>

fun remove_first :: "('a \<Rightarrow> bool) \<Rightarrow> 'a list \<Rightarrow> ('a \<times> 'a list) option" where
  "remove_first P [] = None"
| "remove_first P (x # xs) =
     (if P x then Some (x, xs) else map_option (\<lambda>(y, ys). (y, x # ys)) (remove_first P xs))"

lemma remove_first_length: "remove_first P xs = Some (y, ys) \<Longrightarrow> length ys < length xs"
  by (induction xs arbitrary: ys) (auto split: if_splits)

function unregisterMemoryRegion :: "dereg_mr \<Rightarrow> ibv_mr list \<Rightarrow> addr \<Rightarrow> int \<times> ibv_mr list" where
  "unregisterMemoryRegion dereg regions addr =
     (case remove_first (\<lambda>entry. mr_contains entry addr) regions of
        None \<Rightarrow> (0, regions)
      | Some (entry, rest) \<Rightarrow>
          if dereg entry \<noteq> 0 then (-1, regions) else unregisterMemoryRegion dereg rest addr)"
  by pat_completeness auto

termination
  by (relation "measure (\<lambda>(dereg, regions, addr). length regions)") (auto dest: remove_first_length)

declare unregisterMemoryRegion.simps [simp del]

definition mr_key :: "ibv_mr list \<Rightarrow> addr \<Rightarrow> u32 \<times> u32" where
  "mr_key regions addr =
     (case List.find (\<lambda>entry. mr_contains entry addr) regions of
        Some entry \<Rightarrow> (mr_lkey entry, mr_rkey entry)
      | None \<Rightarrow> (0, 0))"

text \<open>The multicast context: the same on the list of every connection, in order.\<close>

fun mcast_registerMemoryRegion :: "(nat \<Rightarrow> reg_mr) \<Rightarrow> nat \<Rightarrow> ibv_mr list list \<Rightarrow> addr \<Rightarrow> u64 \<Rightarrow> int \<Rightarrow> int \<times> ibv_mr list list" where
  "mcast_registerMemoryRegion reg i [] addr len access = (0, [])"
| "mcast_registerMemoryRegion reg i (regions # rest) addr len access =
     (case registerMemoryRegion (reg i) regions addr len access of
        (rc, regions') \<Rightarrow>
          if rc \<noteq> 0 then (rc, regions' # rest)
          else case mcast_registerMemoryRegion reg (Suc i) rest addr len access of
                 (rc', rest') \<Rightarrow> (rc', regions' # rest'))"

fun mcast_unregisterMemoryRegion :: "dereg_mr \<Rightarrow> ibv_mr list list \<Rightarrow> addr \<Rightarrow> int \<times> ibv_mr list list" where
  "mcast_unregisterMemoryRegion dereg [] addr = (0, [])"
| "mcast_unregisterMemoryRegion dereg (regions # rest) addr =
     (case unregisterMemoryRegion dereg regions addr of
        (rc, regions') \<Rightarrow>
          if rc \<noteq> 0 then (rc, regions' # rest)
          else case mcast_unregisterMemoryRegion dereg rest addr of
                 (rc', rest') \<Rightarrow> (rc', regions' # rest'))"

definition mcast_key :: "ibv_mr list list \<Rightarrow> addr \<Rightarrow> int \<Rightarrow> u32 \<times> u32" where
  "mcast_key connections addr conn_index =
     (if conn_index < 0 \<or> conn_index \<ge> int (length connections) then (0, 0)
      else mr_key (connections ! nat conn_index) addr)"

section \<open>Address ranges\<close>

text \<open>A non-empty range that does not wrap around the address space or end at its top.\<close>

definition range_ok :: "addr \<Rightarrow> u64 \<Rightarrow> bool" where
  "range_ok a len \<longleftrightarrow> 0 < unat len \<and> unat a + unat len < 2 ^ 64"

definition mr_range :: "addr \<Rightarrow> u64 \<Rightarrow> nat set" where
  "mr_range a len = {unat a ..< unat a + unat len}"

lemma unat_range_end: "range_ok a len \<Longrightarrow> unat (a + len) = unat a + unat len"
  by (simp add: range_ok_def unat_word_ariths)

lemma mr_contains_iff:
  "range_ok (mr_addr e) (mr_length e) \<Longrightarrow> mr_contains e a \<longleftrightarrow> unat a \<in> mr_range (mr_addr e) (mr_length e)"
  by (simp add: mr_contains_def mr_range_def word_le_nat_alt word_less_nat_alt unat_range_end)

lemma mr_overlapped_iff:
  assumes "range_ok (mr_addr e) (mr_length e)" "range_ok a len"
  shows "mr_overlapped e a len \<longleftrightarrow> mr_range (mr_addr e) (mr_length e) \<inter> mr_range a len \<noteq> {}"
proof -
  have pos: "0 < unat len" "0 < unat (mr_length e)" using assms by (simp_all add: range_ok_def)
  have "mr_range (mr_addr e) (mr_length e) \<inter> mr_range a len \<noteq> {} \<longleftrightarrow>
      unat (mr_addr e) < unat a + unat len \<and> unat a < unat (mr_addr e) + unat (mr_length e)"
    using pos by (auto simp: mr_range_def)
  then show ?thesis
    using pos unfolding mr_overlapped_def Let_def word_le_nat_alt word_less_nat_alt
      unat_range_end[OF assms(1)] unat_range_end[OF assms(2)] by linarith
qed

section \<open>Disjoint regions\<close>

abbreviation mr_span :: "ibv_mr \<Rightarrow> nat set" where
  "mr_span e \<equiv> mr_range (mr_addr e) (mr_length e)"

fun mr_disjoint :: "ibv_mr list \<Rightarrow> bool" where
  "mr_disjoint [] = True"
| "mr_disjoint (e # es) = ((\<forall>f\<in>set es. mr_span e \<inter> mr_span f = {}) \<and> mr_disjoint es)"

definition regions_ok :: "ibv_mr list \<Rightarrow> bool" where
  "regions_ok rs \<longleftrightarrow> (\<forall>e\<in>set rs. range_ok (mr_addr e) (mr_length e)) \<and> mr_disjoint rs"

text \<open>What the verbs library documents: the region object carries the registered range.\<close>

definition reg_mr_ok :: "reg_mr \<Rightarrow> bool" where
  "reg_mr_ok reg \<longleftrightarrow> (\<forall>a len acc mr. reg a len acc = Some mr \<longrightarrow> mr_addr mr = a \<and> mr_length mr = len)"

lemma mr_disjoint_append:
  "mr_disjoint (rs @ [e]) \<longleftrightarrow> mr_disjoint rs \<and> (\<forall>f\<in>set rs. mr_span f \<inter> mr_span e = {})"
  by (induction rs) auto

lemma find_append: "List.find P (xs @ ys) = (case List.find P xs of Some x \<Rightarrow> Some x | None \<Rightarrow> List.find P ys)"
  by (induction xs) auto

lemma regions_ok_contains:
  "regions_ok rs \<Longrightarrow> e \<in> set rs \<Longrightarrow> mr_contains e a \<longleftrightarrow> unat a \<in> mr_span e"
  by (simp add: regions_ok_def mr_contains_iff)

lemma find_contains_None:
  "regions_ok rs \<Longrightarrow> (\<forall>e\<in>set rs. unat a \<notin> mr_span e) \<longleftrightarrow> List.find (\<lambda>e. mr_contains e a) rs = None"
  by (auto simp: find_None_iff regions_ok_contains)

text \<open>
  C27. Registration keeps the regions disjoint.  For a non-empty range that does not wrap, the
  three-way overlap test of \<open>registerMemoryRegion\<close> holds exactly when the range intersects
  a registered one.  Registration succeeds exactly when no registered region intersects the
  range and the driver accepts it; then \<open>key\<close> returns the keys of the new region for
  every address inside it and is unchanged elsewhere; on failure nothing changes.
\<close>

theorem register_disjoint:
  assumes inv: "regions_ok rs" and rng: "range_ok a len" and reg: "reg_mr_ok reg"
  shows "case registerMemoryRegion reg rs a len acc of (rc, rs') \<Rightarrow>
      regions_ok rs'
      \<and> (rc = 0 \<longleftrightarrow> (\<forall>e\<in>set rs. mr_span e \<inter> mr_range a len = {}) \<and> reg a len acc \<noteq> None)
      \<and> (if rc = 0 then \<exists>mr. reg a len acc = Some mr
           \<and> (\<forall>x. mr_key rs' x = (if unat x \<in> mr_range a len then (mr_lkey mr, mr_rkey mr) else mr_key rs x))
         else rc = -1 \<and> rs' = rs)"
proof -
  have ov: "(\<exists>e\<in>set rs. mr_overlapped e a len) \<longleftrightarrow> \<not> (\<forall>e\<in>set rs. mr_span e \<inter> mr_range a len = {})"
    using inv rng by (auto simp: regions_ok_def mr_overlapped_iff)
  show ?thesis
  proof (cases "\<exists>e\<in>set rs. mr_overlapped e a len")
    case True
    with ov inv show ?thesis by (simp add: registerMemoryRegion_def)
  next
    case False
    show ?thesis
    proof (cases "reg a len acc")
      case None
      with False inv show ?thesis by (simp add: registerMemoryRegion_def)
    next
      case (Some mr)
      with reg have mr: "mr_addr mr = a" "mr_length mr = len" by (auto simp: reg_mr_ok_def)
      have dis: "\<forall>e\<in>set rs. mr_span e \<inter> mr_range a len = {}" using False ov by blast
      have ok: "regions_ok (rs @ [mr])"
        using inv rng dis by (auto simp: regions_ok_def mr_disjoint_append mr)
      have key: "mr_key (rs @ [mr]) x = (if unat x \<in> mr_range a len then (mr_lkey mr, mr_rkey mr) else mr_key rs x)" for x
      proof -
        have c: "mr_contains mr x \<longleftrightarrow> unat x \<in> mr_range a len" using mr_contains_iff[of mr x] rng by (simp add: mr)
        have "unat x \<in> mr_range a len \<Longrightarrow> List.find (\<lambda>e. mr_contains e x) rs = None"
          using dis find_contains_None[OF inv, of x] by blast
        then show ?thesis by (auto simp: mr_key_def find_append c split: option.splits)
      qed
      have "registerMemoryRegion reg rs a len acc = (0, rs @ [mr])"
        using False Some by (simp add: registerMemoryRegion_def)
      with Some dis ok key show ?thesis by simp
    qed
  qed
qed

definition test_reg :: reg_mr where
  "test_reg a len acc = Some \<lparr>mr_addr = a, mr_length = len, mr_lkey = 7, mr_rkey = 8\<rparr>"

definition test_regions :: "ibv_mr list" where
  "test_regions = [\<lparr>mr_addr = 4096, mr_length = 64, mr_lkey = 1, mr_rkey = 2\<rparr>]"

lemma test_regions_ok: "regions_ok test_regions" "reg_mr_ok test_reg"
  by (simp_all add: regions_ok_def test_regions_def range_ok_def reg_mr_ok_def test_reg_def)

theorem register_disjoint_witness:
  "fst (registerMemoryRegion test_reg test_regions 4160 32 1) = 0
   \<and> mr_key (snd (registerMemoryRegion test_reg test_regions 4160 32 1)) 4170 = (7, 8)
   \<and> fst (registerMemoryRegion test_reg test_regions 4159 32 1) = -1"
proof -
  have r: "range_ok 4160 32" "range_ok 4159 32" by (simp_all add: range_ok_def)
  have i: "\<forall>e\<in>set test_regions. mr_span e \<inter> mr_range 4160 32 = {}"
    "\<not> (\<forall>e\<in>set test_regions. mr_span e \<inter> mr_range 4159 32 = {})"
    by (auto simp: test_regions_def mr_range_def)
  have x: "unat (4170 :: addr) \<in> mr_range 4160 32" by (simp add: mr_range_def)
  show ?thesis
    using register_disjoint[OF test_regions_ok(1) r(1) test_regions_ok(2), of 1]
      register_disjoint[OF test_regions_ok(1) r(2) test_regions_ok(2), of 1] i x
    by (auto simp: test_reg_def split: prod.splits if_splits)
qed

section \<open>Removing regions\<close>

lemma remove_first_Some:
  "remove_first P xs = Some (y, ys) \<Longrightarrow> y \<in> set xs \<and> P y \<and> set ys \<subseteq> set xs \<and> (\<exists>us vs. xs = us @ y # vs \<and> ys = us @ vs)"
proof (induction xs arbitrary: ys)
  case (Cons x xs)
  show ?case
  proof (cases "P x")
    case True
    with Cons.prems show ?thesis by (auto intro: exI[of _ "[]"])
  next
    case False
    with Cons.prems obtain zs where z: "remove_first P xs = Some (y, zs)" "ys = x # zs" by auto
    from Cons.IH[OF z(1)] obtain us vs where "xs = us @ y # vs" "zs = us @ vs" "P y" "y \<in> set xs" by blast
    with z(2) show ?thesis by (auto intro: exI[of _ "x # us"])
  qed
qed simp

lemma remove_first_None: "remove_first P xs = None \<longleftrightarrow> (\<forall>x\<in>set xs. \<not> P x)"
  by (induction xs) auto

lemma mr_disjoint_remove: "mr_disjoint (us @ y # vs) \<Longrightarrow> mr_disjoint (us @ vs) \<and> (\<forall>f\<in>set (us @ vs). mr_span y \<inter> mr_span f = {})"
  by (induction us) (auto simp: Int_commute)

lemma unregister_eq:
  assumes inv: "regions_ok rs"
  shows "unregisterMemoryRegion dereg rs a =
      (if \<exists>e\<in>set rs. mr_contains e a \<and> dereg e \<noteq> 0 then (-1, rs) else (0, filter (\<lambda>e. \<not> mr_contains e a) rs))"
proof (cases "remove_first (\<lambda>e. mr_contains e a) rs")
  case None
  then have "\<forall>e\<in>set rs. \<not> mr_contains e a" by (simp add: remove_first_None)
  with None show ?thesis by (simp add: unregisterMemoryRegion.simps[of dereg rs])
next
  case (Some x)
  obtain e rest where x: "x = (e, rest)" by fastforce
  obtain us vs where uv: "rs = us @ e # vs" "rest = us @ vs" "mr_contains e a"
    using remove_first_Some[OF Some[unfolded x]] by blast
  have e: "unat a \<in> mr_span e" using regions_ok_contains[OF inv, of e a] uv by simp
  have "\<forall>f\<in>set (us @ vs). mr_span e \<inter> mr_span f = {}"
    using mr_disjoint_remove inv unfolding regions_ok_def uv(1) by blast
  with e have others: "\<forall>f\<in>set (us @ vs). \<not> mr_contains f a"
    using regions_ok_contains[OF inv, of _ a] uv(1) by auto
  then have "remove_first (\<lambda>e. mr_contains e a) (us @ vs) = None" by (simp add: remove_first_None)
  then have "unregisterMemoryRegion dereg (us @ vs) a = (0, us @ vs)"
    by (simp add: unregisterMemoryRegion.simps[of dereg "us @ vs"])
  moreover have "filter (\<lambda>e. \<not> mr_contains e a) rs = us @ vs" using others uv by auto
  moreover have "(\<exists>f\<in>set rs. mr_contains f a \<and> dereg f \<noteq> 0) \<longleftrightarrow> dereg e \<noteq> 0" using others uv by auto
  ultimately show ?thesis
    using Some x uv(2) by (simp add: unregisterMemoryRegion.simps[of dereg rs])
qed

lemma regions_ok_filter: "regions_ok rs \<Longrightarrow> regions_ok (filter P rs)"
  by (induction rs) (auto simp: regions_ok_def)

text \<open>
  Unregistration.  On disjoint regions, \<open>unregisterMemoryRegion\<close> terminates; if the
  driver accepts, exactly the region that contains the address is removed, so \<open>key\<close> finds
  nothing there afterwards, and if it refuses, -1 is returned and the list is unchanged.  It
  undoes a successful registration.
\<close>

lemma unregister_removes:
  assumes inv: "regions_ok rs"
  shows "unregisterMemoryRegion dereg rs a =
      (if \<exists>e\<in>set rs. mr_contains e a \<and> dereg e \<noteq> 0 then (-1, rs) else (0, filter (\<lambda>e. \<not> mr_contains e a) rs))
    \<and> (fst (unregisterMemoryRegion dereg rs a) = 0 \<longrightarrow>
         mr_key (snd (unregisterMemoryRegion dereg rs a)) a = (0, 0) \<and> regions_ok (snd (unregisterMemoryRegion dereg rs a)))
    \<and> (reg_mr_ok reg \<and> range_ok a len \<and> registerMemoryRegion reg rs a len acc = (0, rs @ [mr]) \<and> dereg mr = 0 \<longrightarrow>
         unregisterMemoryRegion dereg (rs @ [mr]) a = (0, rs))"
proof (intro conjI impI)
  show eq: "unregisterMemoryRegion dereg rs a =
      (if \<exists>e\<in>set rs. mr_contains e a \<and> dereg e \<noteq> 0 then (-1, rs) else (0, filter (\<lambda>e. \<not> mr_contains e a) rs))"
    by (rule unregister_eq[OF inv])
  assume "fst (unregisterMemoryRegion dereg rs a) = 0"
  then have "\<not> (\<exists>e\<in>set rs. mr_contains e a \<and> dereg e \<noteq> 0)" unfolding eq by (auto split: if_splits)
  then have r: "snd (unregisterMemoryRegion dereg rs a) = filter (\<lambda>e. \<not> mr_contains e a) rs"
    unfolding eq by (simp only: if_False snd_conv)
  have "List.find (\<lambda>e. mr_contains e a) (filter (\<lambda>e. \<not> mr_contains e a) rs) = None"
    by (simp add: find_None_iff)
  then show "mr_key (snd (unregisterMemoryRegion dereg rs a)) a = (0, 0)" by (simp add: r mr_key_def)
  show "regions_ok (snd (unregisterMemoryRegion dereg rs a))" unfolding r by (rule regions_ok_filter[OF inv])
next
  assume *: "reg_mr_ok reg \<and> range_ok a len \<and> registerMemoryRegion reg rs a len acc = (0, rs @ [mr]) \<and> dereg mr = 0"
  then have mr: "mr_addr mr = a" "mr_length mr = len" "\<forall>e\<in>set rs. \<not> mr_overlapped e a len"
    by (auto simp: registerMemoryRegion_def reg_mr_ok_def split: if_splits option.splits)
  then have dis: "\<forall>e\<in>set rs. mr_span e \<inter> mr_span mr = {}"
    using inv * by (auto simp: regions_ok_def mr_overlapped_iff)
  then have ok: "regions_ok (rs @ [mr])"
    using inv * by (auto simp: regions_ok_def mr_disjoint_append mr)
  have a: "unat a \<in> mr_span mr" using * by (simp add: mr mr_range_def range_ok_def)
  then have "\<forall>e\<in>set rs. \<not> mr_contains e a" using dis regions_ok_contains[OF inv] by blast
  moreover have "mr_contains mr a" using a * mr_contains_iff[of mr a] by (simp add: mr)
  ultimately show "unregisterMemoryRegion dereg (rs @ [mr]) a = (0, rs)"
    unfolding unregister_eq[OF ok] using * by auto
qed

lemma unregister_removes_witness:
  "unregisterMemoryRegion (\<lambda>_. 0) test_regions 4100 = (0, []) \<and> mr_key [] 4100 = (0, 0)"
  using unregister_removes[OF test_regions_ok(1), of "\<lambda>_. 0" 4100 test_reg 1 1 "hd test_regions"]
  by (auto simp: test_regions_def mr_contains_def mr_key_def)

end
