(* ===== verification/Endpoint.thy ===== *)
theory Endpoint
  imports Window
begin

text \<open>
  Work requests and their queues: \<open>Request\<close> and \<open>RequestCache\<close> of
  \<open>src/src/protocols/common/rdma_endpoint.h\<close>, and posting of work requests by
  \<open>RdmaUDEndPointStore\<close> (\<open>rdma_ud_endpoint_store.cpp\<close>), \<open>RdmaRCEndPoint\<close>
  (\<open>rdma_rc_endpoint.cpp\<close>) and \<open>RdmaMulticastContext\<close> (\<open>rdma_multicast.cpp\<close>).

  A \<open>Request *\<close> is a natural number and the requests live in a heap.  The verbs calls
  \<open>ibv_post_send\<close> and \<open>ibv_post_recv\<close> are a parameter: given the list of work requests
  it returns the error code and the position of \<open>bad_wr\<close>, the first request that was
  not accepted.
\<close>

section \<open>Requests\<close>

datatype status = UNKNOWN | PENDING | SUCCESS | FAILED

datatype depth_ref = SendDepth nat | RecvDepth nat

record rdma_request =
  rr_addr0 :: addr
  rr_addr1 :: addr
  rr_length0 :: u64
  rr_length1 :: u64
  rr_lkey0 :: u32
  rr_lkey1 :: u32
  rr_imm_data :: u32
  rr_qp_depth :: "depth_ref option"
  rr_status :: status
  rr_context :: "int option"

type_synonym req = nat
type_synonym req_heap = "req \<Rightarrow> rdma_request"

definition Request_new :: rdma_request where
  "Request_new = \<lparr>rr_addr0 = 0, rr_addr1 = 0, rr_length0 = 0, rr_length1 = 0, rr_lkey0 = 0, rr_lkey1 = 0, rr_imm_data = 0,
     rr_qp_depth = None, rr_status = UNKNOWN, rr_context = None\<rparr>"

section \<open>The request cache\<close>

record request_cache =
  rc_lazy_delete_requests :: "req list"
  rc_head :: u64
  rc_tail :: u64
  rc_allocated :: u64
  rc_freed :: u64

definition kLazyDeleteRequestCapacity :: u64 where
  "kLazyDeleteRequestCapacity = 4096"

definition RequestCache_new :: request_cache where
  "RequestCache_new = \<lparr>rc_lazy_delete_requests = replicate (unat kLazyDeleteRequestCapacity) 0, rc_head = 0, rc_tail = 0,
     rc_allocated = 0, rc_freed = 0\<rparr>"

text \<open>\<open>fresh\<close> is the address operator \<open>new\<close> returns when the cache is empty.\<close>

definition cache_allocate :: "req \<Rightarrow> request_cache \<Rightarrow> req_heap \<Rightarrow> req \<times> request_cache \<times> req_heap" where
  "cache_allocate fresh c heap =
     (if rc_head c - rc_tail c = 0
      then (fresh, c\<lparr>rc_allocated := rc_allocated c + 1\<rparr>, heap(fresh := Request_new))
      else
        let request = rc_lazy_delete_requests c ! unat (rc_tail c mod kLazyDeleteRequestCapacity)
        in (request, c\<lparr>rc_tail := rc_tail c + 1\<rparr>, heap(request := Request_new)))"

definition cache_deallocate :: "req \<Rightarrow> request_cache \<Rightarrow> request_cache" where
  "cache_deallocate request c =
     (if rc_head c - rc_tail c = kLazyDeleteRequestCapacity then c\<lparr>rc_freed := rc_freed c + 1\<rparr>
      else c\<lparr>rc_lazy_delete_requests :=
               (rc_lazy_delete_requests c)[unat (rc_head c mod kLazyDeleteRequestCapacity) := request],
             rc_head := rc_head c + 1\<rparr>)"

definition cached :: "request_cache \<Rightarrow> req list" where
  "cached c = ring_entries kLazyDeleteRequestCapacity (rc_head c) (rc_tail c) (rc_lazy_delete_requests c)"

definition cache_wf :: "request_cache \<Rightarrow> bool" where
  "cache_wf c \<longleftrightarrow> length (rc_lazy_delete_requests c) = 4096 \<and> unat (rc_head c - rc_tail c) \<le> 4096"

lemma kLazy_ring: "ring kLazyDeleteRequestCapacity"
  unfolding kLazyDeleteRequestCapacity_def by (rule default_ring.ring_axioms)

lemma kLazy_unat [simp]: "unat kLazyDeleteRequestCapacity = 4096"
  by (simp add: kLazyDeleteRequestCapacity_def)

lemma cached_allocate:
  assumes "cache_wf c" "cache_allocate fresh c heap = (r, c', heap')"
  shows "cache_wf c'" "cached c = [] \<Longrightarrow> r = fresh \<and> cached c' = [] \<and> rc_allocated c' = rc_allocated c + 1"
    "cached c \<noteq> [] \<Longrightarrow> cached c = r # cached c' \<and> rc_allocated c' = rc_allocated c"
    "rc_freed c' = rc_freed c" "heap' r = Request_new"
proof -
  let ?n = "unat (rc_head c - rc_tail c)"
  have e: "cached c = [] \<longleftrightarrow> rc_head c - rc_tail c = 0"
    by (metis cached_def length_0_conv length_ring_entries unat_eq_zero)
  show "rc_freed c' = rc_freed c" "heap' r = Request_new"
    using assms(2) by (auto simp: cache_allocate_def Let_def split: if_splits)
  show "cached c = [] \<Longrightarrow> r = fresh \<and> cached c' = [] \<and> rc_allocated c' = rc_allocated c + 1"
    using assms(2) e by (auto simp: cache_allocate_def cached_def)
  have adv: "unat (rc_head c - (rc_tail c + 1)) = ?n - 1 \<and> ring_entries kLazyDeleteRequestCapacity (rc_head c) (rc_tail c + 1)
      (rc_lazy_delete_requests c) = drop 1 (cached c)" if "rc_head c - rc_tail c \<noteq> 0"
  proof -
    have "1 \<le> ?n" using that by (simp add: Suc_le_eq unat_gt_0)
    then show ?thesis
      using unat_advance_tail[of 1] ring_entries_advance[of 1 "rc_head c" "rc_tail c" kLazyDeleteRequestCapacity "rc_lazy_delete_requests c"]
      by (simp add: cached_def)
  qed
  show "cache_wf c'" using assms adv by (auto simp: cache_allocate_def cache_wf_def Let_def split: if_splits)
  show "cached c = r # cached c' \<and> rc_allocated c' = rc_allocated c" if ne: "cached c \<noteq> []"
  proof -
    have n: "rc_head c - rc_tail c \<noteq> 0" using ne e by simp
    have "r = cached c ! 0"
      using assms(2) n by (auto simp: cache_allocate_def cached_def ring_entries_nth unat_gt_0 Let_def)
    moreover have "cached c' = drop 1 (cached c)" "rc_allocated c' = rc_allocated c"
      using assms(2) n adv by (auto simp: cache_allocate_def cached_def Let_def)
    ultimately show ?thesis using ne by (cases "cached c") auto
  qed
qed

lemma cached_deallocate:
  assumes "cache_wf c"
  shows "cache_wf (cache_deallocate r c)" "rc_allocated (cache_deallocate r c) = rc_allocated c"
    "length (cached c) = 4096 \<Longrightarrow> cached (cache_deallocate r c) = cached c \<and> rc_freed (cache_deallocate r c) = rc_freed c + 1"
    "length (cached c) \<noteq> 4096 \<Longrightarrow> cached (cache_deallocate r c) = cached c @ [r] \<and> rc_freed (cache_deallocate r c) = rc_freed c"
proof -
  have e: "length (cached c) = 4096 \<longleftrightarrow> rc_head c - rc_tail c = kLazyDeleteRequestCapacity"
    by (simp add: cached_def kLazyDeleteRequestCapacity_def word_unat_eq_iff)
  have n: "unat (rc_head c - rc_tail c) < 4096 \<Longrightarrow> unat (rc_head c + 1 - rc_tail c) = Suc (unat (rc_head c - rc_tail c))"
    by (rule unat_Suc_diff) simp
  have lt: "length (cached c) \<noteq> 4096 \<Longrightarrow> unat (rc_head c - rc_tail c) < 4096"
    using assms by (simp add: cached_def cache_wf_def)
  show "cache_wf (cache_deallocate r c)"
    using assms n lt e by (cases "length (cached c) = 4096") (auto simp: cache_deallocate_def cache_wf_def)
  show "rc_allocated (cache_deallocate r c) = rc_allocated c" by (simp add: cache_deallocate_def)
  show "length (cached c) = 4096 \<Longrightarrow> cached (cache_deallocate r c) = cached c \<and> rc_freed (cache_deallocate r c) = rc_freed c + 1"
    using e by (simp add: cache_deallocate_def cached_def)
  show "length (cached c) \<noteq> 4096 \<Longrightarrow> cached (cache_deallocate r c) = cached c @ [r] \<and> rc_freed (cache_deallocate r c) = rc_freed c"
    using e lt assms ring.ring_entries_push[OF kLazy_ring, of "rc_head c" "rc_tail c" "rc_lazy_delete_requests c" r]
    by (simp add: cache_deallocate_def cached_def cache_wf_def)
qed

text \<open>
  Runs of the cache: \<open>cache_run c live\<close> with \<open>live\<close> the requests allocated and not yet
  deallocated.  Operator \<open>new\<close> returns storage that is neither live nor cached.
\<close>

inductive cache_run :: "request_cache \<Rightarrow> req list \<Rightarrow> bool" where
  cache_start: "cache_run RequestCache_new []"
| cache_alloc: "cache_run c live \<Longrightarrow> fresh \<notin> set live \<union> set (cached c) \<Longrightarrow> cache_allocate fresh c heap = (r, c', heap')
    \<Longrightarrow> cache_run c' (r # live)"
| cache_free: "cache_run c live \<Longrightarrow> r \<in> set live \<Longrightarrow> cache_run (cache_deallocate r c) (remove1 r live)"

lemma cache_run_inv:
  "cache_run c live \<Longrightarrow> cache_wf c \<and> distinct (live @ cached c)
     \<and> rc_allocated c = rc_freed c + of_nat (length live + length (cached c))"
proof (induction rule: cache_run.induct)
  case cache_start
  show ?case by (simp add: cache_wf_def RequestCache_new_def cached_def)
next
  case (cache_alloc c live fresh heap r c' heap')
  then have wf: "cache_wf c" by simp
  note A = cached_allocate[OF wf cache_alloc(3)]
  show ?case using A cache_alloc by (cases "cached c = []") (auto simp: algebra_simps)
next
  case (cache_free c live r)
  then have wf: "cache_wf c" by simp
  note D = cached_deallocate[OF wf, of r]
  have l: "length live = Suc (length (remove1 r live))"
    using cache_free(2) by (simp add: length_remove1) (metis Suc_pred length_pos_if_in_set)
  show ?case
    using D cache_free l by (cases "length (cached c) = 4096") (auto simp: algebra_simps dest: notin_set_remove1)
qed

text \<open>
  Requests are not aliased.  In every run of the cache, the outstanding requests are
  distinct and none of them is waiting for reuse; an allocation returns a request that is not
  outstanding, reset to its initial value; and \<open>allocated_ - freed_\<close> counts the outstanding
  and the cached requests, also after the 64-bit ring indices wrap.
\<close>

lemma request_cache_no_alias:
  assumes run: "cache_run c live" and fresh: "fresh \<notin> set live \<union> set (cached c)"
  shows "distinct live \<and> set live \<inter> set (cached c) = {}
    \<and> rc_allocated c - rc_freed c = of_nat (length live + length (cached c))
    \<and> (case cache_allocate fresh c heap of (r, c', heap') \<Rightarrow> r \<notin> set live \<and> heap' r = Request_new)"
proof -
  note I = cache_run_inv[OF run]
  obtain r c' heap' where a: "cache_allocate fresh c heap = (r, c', heap')" by (metis prod_cases3)
  note A = cached_allocate[OF I[THEN conjunct1] a]
  have "r \<notin> set live" using A(2,3) I fresh by (cases "cached c = []") auto
  with A(5) I a show ?thesis by auto
qed

lemma request_cache_no_alias_witness:
  "\<exists>c. cache_run c [] \<and> cached c = [5] \<and> (case cache_allocate 9 c (\<lambda>_. Request_new) of (r, c', heap') \<Rightarrow> r \<notin> {} \<and> heap' r = Request_new)"
proof -
  obtain r c1 h1 where a: "cache_allocate 5 RequestCache_new (\<lambda>_. Request_new) = (r, c1, h1)" by (metis prod_cases3)
  have wf: "cache_wf RequestCache_new" by (simp add: cache_wf_def RequestCache_new_def)
  have e: "cached RequestCache_new = []" by (simp add: cached_def RequestCache_new_def)
  have c1: "cache_run c1 [r]" using cache_alloc[OF cache_start _ a] e by simp
  have r: "r = 5" "cached c1 = []" "cache_wf c1" using cached_allocate[OF wf a] e by auto
  have c2: "cache_run (cache_deallocate 5 c1) []" using cache_free[OF c1, of 5] r by simp
  have cd: "cached (cache_deallocate 5 c1) = [5]" using cached_deallocate(4)[OF r(3), of 5] r(2) by simp
  from request_cache_no_alias[OF c2, of 9 "\<lambda>_. Request_new"] c2 cd show ?thesis by auto
qed

end
