(* ===== verification/PostRequest.thy ===== *)
theory PostRequest
  imports Endpoint
begin

text \<open>
  Posting of work requests: \<open>postSendRequest\<close> and \<open>postReceiveRequest\<close> of
  \<open>RdmaUDEndPointStore\<close>, \<open>RdmaRCEndPoint\<close> and \<open>RdmaMulticastContext\<close> under
  \<open>src/src/protocols/common/\<close>, and the accounting of outstanding requests per queue
  pair (\<open>send_wr_depth\<close>, \<open>recv_wr_depth\<close>) that limits them.

  The locale \<open>wr_queue\<close> is the contract of a post operation: it accepts a prefix of the
  requests that fits below the limit and adds its length to the depth.
\<close>

section \<open>Work requests\<close>

record ibv_sge =
  sge_addr :: u64
  sge_length :: u32
  sge_lkey :: u32

record ibv_wr =
  wr_id :: req
  wr_sg_list :: "ibv_sge list"
  wr_imm :: "u32 option"
  wr_inline :: bool
  wr_ah :: "nat option"
  wr_remote_qkey :: u32
  wr_remote_qpn :: u32

text \<open>The verbs call: error code and position of \<open>bad_wr\<close>.\<close>

type_synonym ibv_post = "ibv_wr list \<Rightarrow> int \<times> nat option"

text \<open>The inner loop over the scatter/gather entries stops at the first null address.\<close>

definition make_sge_list :: "rdma_request \<Rightarrow> ibv_sge list" where
  "make_sge_list r =
     (if rr_addr0 r = 0 then []
      else \<lparr>sge_addr = rr_addr0 r, sge_length = ucast (rr_length0 r), sge_lkey = rr_lkey0 r\<rparr> #
           (if rr_addr1 r = 0 then []
            else [\<lparr>sge_addr = rr_addr1 r, sge_length = ucast (rr_length1 r), sge_lkey = rr_lkey1 r\<rparr>]))"

definition imm_of_request :: "rdma_request \<Rightarrow> u32 option" where
  "imm_of_request r = (if rr_imm_data r \<noteq> 0 then Some (rr_imm_data r) else None)"

text \<open>What the receiver reads: 0 when the packet carries no immediate value.\<close>

definition imm_of_completion :: "u32 option \<Rightarrow> u32" where
  "imm_of_completion imm = (case imm of Some i \<Rightarrow> i | None \<Rightarrow> 0)"

definition set_depth_ref :: "depth_ref \<Rightarrow> req list \<Rightarrow> req_heap \<Rightarrow> req_heap" where
  "set_depth_ref d rs heap = (\<lambda>r. if r \<in> set rs then (heap r)\<lparr>rr_qp_depth := Some d\<rparr> else heap r)"

definition set_failed :: "req list \<Rightarrow> req_heap \<Rightarrow> req_heap" where
  "set_failed rs heap = (\<lambda>r. if r \<in> set rs then (heap r)\<lparr>rr_status := FAILED\<rparr> else heap r)"

text \<open>The requests of the chain that starts at \<open>bad_wr\<close>.\<close>

definition bad_chain :: "int \<times> nat option \<Rightarrow> req list \<Rightarrow> req list" where
  "bad_chain res rs =
     (if fst res \<noteq> 0 then (case snd res of Some i \<Rightarrow> drop i rs | None \<Rightarrow> []) else [])"

text \<open>
  The body the post operations have in common: limit the number of requests by the room in the
  queue pair, build their work requests, count them, call the driver, and on an error mark the
  requests of the \<open>bad_wr\<close> chain and take them off the count.  The result is the returned
  count, the new depth, the heap and the requests the device accepted.  The count is returned
  even when the verbs call fails.
\<close>

definition post_requests ::
  "ibv_post \<Rightarrow> (req_heap \<Rightarrow> req \<Rightarrow> ibv_wr) \<Rightarrow> depth_ref \<Rightarrow> int \<Rightarrow> int \<Rightarrow> req list \<Rightarrow> req_heap
     \<Rightarrow> int \<times> int \<times> req_heap \<times> req list" where
  "post_requests post make_wr dref max_wr_depth depth request_list heap =
     (let wr_count = min (max_wr_depth - depth) (int (length request_list))
      in if wr_count = 0 then (0, depth, heap, [])
         else
           let used = take (nat wr_count) request_list;
               bad = bad_chain (post (map (make_wr heap) used)) used
           in (wr_count, depth + wr_count - int (length bad), set_failed bad (set_depth_ref dref used heap),
               take (length used - length bad) used))"

section \<open>The endpoint store for datagrams\<close>

record ud_store =
  us_send_wr_depth :: "int list"
  us_recv_wr_depth :: "int list"
  us_max_wr_depth :: int
  us_max_inline_bytes :: int
  us_qp_num :: "u32 list"

definition ud_store_construct :: "u32 list \<Rightarrow> u64 \<Rightarrow> u64 \<Rightarrow> ud_store" where
  "ud_store_construct qp_num max_wr_per_qp max_inline_bytes =
     \<lparr>us_send_wr_depth = replicate (length qp_num) 0, us_recv_wr_depth = replicate (length qp_num) 0,
      us_max_wr_depth = sint (ucast max_wr_per_qp :: 32 word), us_max_inline_bytes = sint (ucast max_inline_bytes :: 32 word),
      us_qp_num = qp_num\<rparr>"

text \<open>\<open>actual_length\<close> adds the lengths as \<open>int\<close>.\<close>

definition ud_make_send_wr :: "int \<Rightarrow> nat option \<Rightarrow> u32 \<Rightarrow> req_heap \<Rightarrow> req \<Rightarrow> ibv_wr" where
  "ud_make_send_wr max_inline ah remote_qpn heap r =
     \<lparr>wr_id = r, wr_sg_list = make_sge_list (heap r), wr_imm = imm_of_request (heap r),
      wr_inline = (sum_list (map (\<lambda>s. sint (sge_length s)) (make_sge_list (heap r))) < max_inline),
      wr_ah = ah, wr_remote_qkey = 0, wr_remote_qpn = remote_qpn\<rparr>"

definition ud_make_recv_wr :: "req_heap \<Rightarrow> req \<Rightarrow> ibv_wr" where
  "ud_make_recv_wr heap r =
     \<lparr>wr_id = r, wr_sg_list = make_sge_list (heap r), wr_imm = None, wr_inline = False,
      wr_ah = None, wr_remote_qkey = 0, wr_remote_qpn = 0\<rparr>"

definition ud_postSendRequest ::
  "ibv_post \<Rightarrow> nat option \<Rightarrow> u32 \<Rightarrow> nat \<Rightarrow> req list \<Rightarrow> ud_store \<times> req_heap \<Rightarrow> int \<times> (ud_store \<times> req_heap) \<times> req list" where
  "ud_postSendRequest post ah remote_qpn qp_index request_list = (\<lambda>(st, heap).
     case post_requests post (ud_make_send_wr (us_max_inline_bytes st) ah remote_qpn) (SendDepth qp_index)
            (us_max_wr_depth st) (us_send_wr_depth st ! qp_index) request_list heap of
       (n, depth, heap', acc) \<Rightarrow>
         (n, (st\<lparr>us_send_wr_depth := (us_send_wr_depth st)[qp_index := depth]\<rparr>, heap'), acc))"

definition ud_postReceiveRequest ::
  "ibv_post \<Rightarrow> nat \<Rightarrow> req list \<Rightarrow> ud_store \<times> req_heap \<Rightarrow> int \<times> (ud_store \<times> req_heap) \<times> req list" where
  "ud_postReceiveRequest post qp_index request_list = (\<lambda>(st, heap).
     case post_requests post ud_make_recv_wr (RecvDepth qp_index)
            (us_max_wr_depth st) (us_recv_wr_depth st ! qp_index) request_list heap of
       (n, depth, heap', acc) \<Rightarrow>
         (n, (st\<lparr>us_recv_wr_depth := (us_recv_wr_depth st)[qp_index := depth]\<rparr>, heap'), acc))"

section \<open>The connected endpoint\<close>

datatype rc_status = INITIALIZING | UNCONNECTED | CONNECTED

text \<open>A queue pair is its number, None the null pointer.\<close>

record rc_endpoint =
  re_send_wr_depth :: "int list"
  re_recv_wr_depth :: "int list"
  re_max_wr_depth :: int
  re_qp_list :: "u32 option list"
  re_status :: rc_status

definition rc_construct :: "u32 list \<Rightarrow> u64 \<Rightarrow> rc_endpoint" where
  "rc_construct qp_num max_wr_depth =
     \<lparr>re_send_wr_depth = replicate (length qp_num) 0, re_recv_wr_depth = replicate (length qp_num) 0,
      re_max_wr_depth = sint (ucast max_wr_depth :: 32 word), re_qp_list = map Some qp_num, re_status = UNCONNECTED\<rparr>"

definition rc_make_wr :: "req_heap \<Rightarrow> req \<Rightarrow> ibv_wr" where
  "rc_make_wr heap r =
     \<lparr>wr_id = r, wr_sg_list = make_sge_list (heap r), wr_imm = None, wr_inline = False,
      wr_ah = None, wr_remote_qkey = 0, wr_remote_qpn = 0\<rparr>"

text \<open>Both post operations use queue pair 0.\<close>

definition rc_postSendRequest ::
  "ibv_post \<Rightarrow> req list \<Rightarrow> rc_endpoint \<times> req_heap \<Rightarrow> int \<times> (rc_endpoint \<times> req_heap) \<times> req list" where
  "rc_postSendRequest post request_list = (\<lambda>(ep, heap).
     case post_requests post rc_make_wr (SendDepth 0) (re_max_wr_depth ep) (re_send_wr_depth ep ! 0) request_list heap of
       (n, depth, heap', acc) \<Rightarrow> (n, (ep\<lparr>re_send_wr_depth := (re_send_wr_depth ep)[0 := depth]\<rparr>, heap'), acc))"

definition rc_postReceiveRequest ::
  "ibv_post \<Rightarrow> req list \<Rightarrow> rc_endpoint \<times> req_heap \<Rightarrow> int \<times> (rc_endpoint \<times> req_heap) \<times> req list" where
  "rc_postReceiveRequest post request_list = (\<lambda>(ep, heap).
     case post_requests post rc_make_wr (RecvDepth 0) (re_max_wr_depth ep) (re_recv_wr_depth ep ! 0) request_list heap of
       (n, depth, heap', acc) \<Rightarrow> (n, (ep\<lparr>re_recv_wr_depth := (re_recv_wr_depth ep)[0 := depth]\<rparr>, heap'), acc))"

section \<open>The multicast connection\<close>

record mcast_connection =
  mc_ah :: "nat option"
  mc_remote_qpn :: u32
  mc_remote_qkey :: u32
  mc_send_wr_depth :: int
  mc_recv_wr_depth :: int

text \<open>\<open>actual_length\<close> adds the lengths as \<open>size_t\<close>; two 32-bit lengths do not overflow.\<close>

definition mcast_make_send_wr :: "u64 \<Rightarrow> mcast_connection \<Rightarrow> req_heap \<Rightarrow> req \<Rightarrow> ibv_wr" where
  "mcast_make_send_wr max_inline c heap r =
     \<lparr>wr_id = r, wr_sg_list = make_sge_list (heap r), wr_imm = imm_of_request (heap r),
      wr_inline = (sum_list (map (\<lambda>s. uint (sge_length s)) (make_sge_list (heap r))) < uint max_inline),
      wr_ah = mc_ah c, wr_remote_qkey = mc_remote_qkey c, wr_remote_qpn = mc_remote_qpn c\<rparr>"

text \<open>
  A failed \<open>ibv_post_send\<close> of the multicast context aborts the process.  An invalid
  connection index is rejected.
\<close>

definition mcast_postSendRequest ::
  "ibv_post \<Rightarrow> int \<Rightarrow> u64 \<Rightarrow> int \<Rightarrow> req list \<Rightarrow> mcast_connection list \<times> req_heap
     \<Rightarrow> (int \<times> (mcast_connection list \<times> req_heap) \<times> req list) outcome" where
  "mcast_postSendRequest post max_wr max_inline conn_index request_list = (\<lambda>(cs, heap).
     if conn_index < 0 \<or> conn_index \<ge> int (length cs) then Inr (-1, (cs, heap), [])
     else
       let connection = cs ! nat conn_index;
           wr_count = min (max_wr - mc_send_wr_depth connection) (int (length request_list))
       in if wr_count = 0 then Inr (0, (cs, heap), [])
          else
            let used = take (nat wr_count) request_list;
                res = post (map (mcast_make_send_wr max_inline connection heap) used);
                heap' = set_depth_ref (SendDepth (nat conn_index)) used heap;
                cs' = cs[nat conn_index := connection\<lparr>mc_send_wr_depth := mc_send_wr_depth connection + wr_count\<rparr>]
            in if fst res \<noteq> 0 then Inl Abort else Inr (wr_count, (cs', heap'), used))"

definition mcast_postReceiveRequest ::
  "ibv_post \<Rightarrow> int \<Rightarrow> int \<Rightarrow> req list \<Rightarrow> mcast_connection list \<times> req_heap
     \<Rightarrow> int \<times> (mcast_connection list \<times> req_heap) \<times> req list" where
  "mcast_postReceiveRequest post max_wr conn_index request_list = (\<lambda>(cs, heap).
     if conn_index < 0 \<or> conn_index \<ge> int (length cs) then (-1, (cs, heap), [])
     else
       let i = nat conn_index
       in case post_requests post ud_make_recv_wr (RecvDepth i) max_wr (mc_recv_wr_depth (cs ! i)) request_list heap of
            (n, depth, heap', acc) \<Rightarrow> (n, (cs[i := (cs ! i)\<lparr>mc_recv_wr_depth := depth\<rparr>], heap'), acc))"

section \<open>Completions\<close>

text \<open>\<open>__sync_fetch_and_sub (request->qp_depth, 1)\<close> for the request of a completion.\<close>

definition ud_complete :: "depth_ref \<Rightarrow> ud_store \<times> req_heap \<Rightarrow> ud_store \<times> req_heap" where
  "ud_complete d = (\<lambda>(st, heap). case d of
     SendDepth i \<Rightarrow> (st\<lparr>us_send_wr_depth := (us_send_wr_depth st)[i := us_send_wr_depth st ! i - 1]\<rparr>, heap)
   | RecvDepth i \<Rightarrow> (st\<lparr>us_recv_wr_depth := (us_recv_wr_depth st)[i := us_recv_wr_depth st ! i - 1]\<rparr>, heap))"

definition rc_complete :: "depth_ref \<Rightarrow> rc_endpoint \<times> req_heap \<Rightarrow> rc_endpoint \<times> req_heap" where
  "rc_complete d = (\<lambda>(ep, heap). case d of
     SendDepth i \<Rightarrow> (ep\<lparr>re_send_wr_depth := (re_send_wr_depth ep)[i := re_send_wr_depth ep ! i - 1]\<rparr>, heap)
   | RecvDepth i \<Rightarrow> (ep\<lparr>re_recv_wr_depth := (re_recv_wr_depth ep)[i := re_recv_wr_depth ep ! i - 1]\<rparr>, heap))"

definition mcast_complete_recv :: "nat \<Rightarrow> mcast_connection list \<times> req_heap \<Rightarrow> mcast_connection list \<times> req_heap" where
  "mcast_complete_recv i = (\<lambda>(cs, heap). (cs[i := (cs ! i)\<lparr>mc_recv_wr_depth := mc_recv_wr_depth (cs ! i) - 1\<rparr>], heap))"

section \<open>Accounting\<close>

text \<open>
  A run of posts, each with the driver's behaviour, and of completions of outstanding requests;
  \<open>out\<close> are the requests accepted and not yet completed.
\<close>

inductive wr_run :: "(ibv_post \<Rightarrow> req list \<Rightarrow> 's \<Rightarrow> int \<times> 's \<times> req list) \<Rightarrow> ('s \<Rightarrow> 's) \<Rightarrow> 's \<Rightarrow> req list \<Rightarrow> 's \<Rightarrow> bool"
  for post complete s0 where
  run_init: "wr_run post complete s0 [] s0"
| run_post: "wr_run post complete s0 out s \<Longrightarrow> post driver rs s = (n, s', acc) \<Longrightarrow> wr_run post complete s0 (out @ acc) s'"
| run_complete: "wr_run post complete s0 out s \<Longrightarrow> r \<in> set out \<Longrightarrow> wr_run post complete s0 (remove1 r out) (complete s)"

locale wr_queue =
  fixes depth :: "'s \<Rightarrow> int"
    and limit :: "'s \<Rightarrow> int"
    and post :: "ibv_post \<Rightarrow> req list \<Rightarrow> 's \<Rightarrow> int \<times> 's \<times> req list"
    and complete :: "'s \<Rightarrow> 's"
    and valid :: "'s \<Rightarrow> bool"
  assumes post_accepts: "valid s \<Longrightarrow> 0 \<le> depth s \<Longrightarrow> depth s \<le> limit s \<Longrightarrow> post driver rs s = (n, s', acc) \<Longrightarrow>
      n = min (limit s - depth s) (int (length rs)) \<and> (\<exists>k. acc = take k rs) \<and> int (length acc) \<le> n
      \<and> depth s' = depth s + int (length acc) \<and> limit s' = limit s \<and> valid s'"
    and complete_depth: "valid s \<Longrightarrow> depth (complete s) = depth s - 1 \<and> limit (complete s) = limit s \<and> valid (complete s)"
begin

lemma wr_run_depth:
  assumes "wr_run post complete s0 out s" "valid s0" "depth s0 = 0" "0 \<le> limit s0"
  shows "valid s \<and> depth s = int (length out) \<and> depth s \<le> limit s \<and> limit s = limit s0"
  using assms
proof (induction rule: wr_run.induct)
  case (run_post out s driver rs n s' acc)
  then have s: "valid s" "depth s = int (length out)" "depth s \<le> limit s" "limit s = limit s0" by auto
  have "n = min (limit s - depth s) (int (length rs))" "int (length acc) \<le> n" "depth s' = depth s + int (length acc)"
    "limit s' = limit s" "valid s'" using post_accepts[OF s(1) _ s(3) run_post.hyps(2)] s(2) by auto
  with s show ?case by auto
next
  case (run_complete out s r)
  then have "int (length (remove1 r out)) = int (length out) - 1"
    by (simp add: length_remove1) (metis One_nat_def Suc_leI length_pos_if_in_set of_nat_1 of_nat_diff)
  with run_complete complete_depth[of s] show ?case by auto
qed simp

end

lemma bad_chain_length: "length (bad_chain res rs) \<le> length rs"
  by (simp add: bad_chain_def split: option.splits)

lemma post_requests_accepts:
  assumes "0 \<le> d" "d \<le> lim" "post_requests post mk dref lim d rs heap = (n, d', heap', acc)"
  shows "n = min (lim - d) (int (length rs)) \<and> (\<exists>k. acc = take k rs) \<and> int (length acc) \<le> n \<and> d' = d + int (length acc)"
proof (cases "min (lim - d) (int (length rs)) = 0")
  case True
  with assms show ?thesis by (auto simp: post_requests_def Let_def intro: exI[of _ 0])
next
  case False
  define used where "used = take (nat (min (lim - d) (int (length rs)))) rs"
  define bad where "bad = bad_chain (post (map (mk heap) used)) used"
  have u: "int (length used) = min (lim - d) (int (length rs))" using assms(1,2) by (auto simp: used_def)
  have b: "length bad \<le> length used" by (simp add: bad_def bad_chain_length)
  have r: "n = min (lim - d) (int (length rs))" "d' = d + min (lim - d) (int (length rs)) - int (length bad)"
    "acc = take (length used - length bad) used"
    using False assms(3) unfolding post_requests_def Let_def by (auto simp: used_def bad_def)
  have "int (length acc) = int (length used) - int (length bad)" using b by (simp add: r(3) of_nat_diff)
  then have "d' = d + int (length acc)" "int (length acc) \<le> n" using r(1,2) u by linarith+
  moreover have "\<exists>k. acc = take k rs" unfolding r(3) used_def take_take by blast
  ultimately show ?thesis using r(1) by blast
qed

interpretation ud_send: wr_queue "\<lambda>s. us_send_wr_depth (fst s) ! i" "\<lambda>s. us_max_wr_depth (fst s)"
  "\<lambda>d. ud_postSendRequest d ah qpn i" "ud_complete (SendDepth i)" "\<lambda>s. i < length (us_send_wr_depth (fst s))" for i ah qpn
  by unfold_locales (auto simp: ud_postSendRequest_def ud_complete_def split: prod.splits dest!: post_requests_accepts[rotated 2])

interpretation ud_recv: wr_queue "\<lambda>s. us_recv_wr_depth (fst s) ! i" "\<lambda>s. us_max_wr_depth (fst s)"
  "\<lambda>d. ud_postReceiveRequest d i" "ud_complete (RecvDepth i)" "\<lambda>s. i < length (us_recv_wr_depth (fst s))" for i
  by unfold_locales (auto simp: ud_postReceiveRequest_def ud_complete_def split: prod.splits dest!: post_requests_accepts[rotated 2])

interpretation rc_send: wr_queue "\<lambda>s. re_send_wr_depth (fst s) ! 0" "\<lambda>s. re_max_wr_depth (fst s)"
  rc_postSendRequest "rc_complete (SendDepth 0)" "\<lambda>s. 0 < length (re_send_wr_depth (fst s))"
  by unfold_locales (auto simp: rc_postSendRequest_def rc_complete_def split: prod.splits dest!: post_requests_accepts[rotated 2])

interpretation rc_recv: wr_queue "\<lambda>s. re_recv_wr_depth (fst s) ! 0" "\<lambda>s. re_max_wr_depth (fst s)"
  rc_postReceiveRequest "rc_complete (RecvDepth 0)" "\<lambda>s. 0 < length (re_recv_wr_depth (fst s))"
  by unfold_locales (auto simp: rc_postReceiveRequest_def rc_complete_def split: prod.splits dest!: post_requests_accepts[rotated 2])

interpretation mcast_recv: wr_queue "\<lambda>s. mc_recv_wr_depth (fst s ! i)" "\<lambda>s. max_wr"
  "\<lambda>d. mcast_postReceiveRequest d max_wr (int i)" "mcast_complete_recv i" "\<lambda>s. i < length (fst s)" for i max_wr
  by unfold_locales (auto simp: mcast_postReceiveRequest_def mcast_complete_recv_def Let_def split: prod.splits if_splits
      dest!: post_requests_accepts[rotated 2])

text \<open>
  C21. The queue pairs are never overrun.  From a newly constructed endpoint, whatever the driver
  accepts or rejects, the depth counters of a datagram queue pair and of a connected endpoint
  equal the number of requests accepted and not yet completed, in both directions, and never
  exceed \<open>max_wr_per_qp\<close>.
\<close>

theorem wr_depth_accounting:
  assumes i: "i < length qps" and lim: "0 \<le> sint (ucast max_wr :: 32 word)"
  shows "(wr_run (\<lambda>d. ud_postSendRequest d ah qpn i) (ud_complete (SendDepth i)) (ud_store_construct qps max_wr inl, heap) out (st, heap')
      \<longrightarrow> us_send_wr_depth st ! i = int (length out) \<and> int (length out) \<le> sint (ucast max_wr :: 32 word))
    \<and> (wr_run (\<lambda>d. ud_postReceiveRequest d i) (ud_complete (RecvDepth i)) (ud_store_construct qps max_wr inl, heap) out (st, heap')
      \<longrightarrow> us_recv_wr_depth st ! i = int (length out) \<and> int (length out) \<le> sint (ucast max_wr :: 32 word))
    \<and> (wr_run rc_postSendRequest (rc_complete (SendDepth 0)) (rc_construct qps max_wr, heap) out (ep, heap')
      \<longrightarrow> re_send_wr_depth ep ! 0 = int (length out) \<and> int (length out) \<le> sint (ucast max_wr :: 32 word))
    \<and> (wr_run rc_postReceiveRequest (rc_complete (RecvDepth 0)) (rc_construct qps max_wr, heap) out (ep, heap')
      \<longrightarrow> re_recv_wr_depth ep ! 0 = int (length out) \<and> int (length out) \<le> sint (ucast max_wr :: 32 word))"
proof -
  have n: "0 < length qps" using i by auto
  show ?thesis
    using ud_send.wr_run_depth[of ah qpn i "(ud_store_construct qps max_wr inl, heap)" out "(st, heap')"]
      ud_recv.wr_run_depth[of i "(ud_store_construct qps max_wr inl, heap)" out "(st, heap')"]
      rc_send.wr_run_depth[of "(rc_construct qps max_wr, heap)" out "(ep, heap')"]
      rc_recv.wr_run_depth[of "(rc_construct qps max_wr, heap)" out "(ep, heap')"] i n lim
    by (auto simp: ud_store_construct_def rc_construct_def)
qed

theorem wr_depth_accounting_witness:
  "\<exists>st heap'. wr_run (\<lambda>d. ud_postSendRequest d None 5 0) (ud_complete (SendDepth 0))
        (ud_store_construct [17] 128 64, \<lambda>_. Request_new) [3, 4] (st, heap') \<and> us_send_wr_depth st ! 0 = 2"
proof -
  let ?s = "(ud_store_construct [17] 128 64, \<lambda>_. Request_new)"
  obtain n st heap' acc where p: "ud_postSendRequest (\<lambda>_. (0, None)) None 5 0 [3, 4] ?s = (n, (st, heap'), acc)"
    by (metis prod_cases3 surj_pair)
  then have acc: "acc = [3, 4]"
    by (auto simp: ud_postSendRequest_def post_requests_def ud_store_construct_def bad_chain_def Let_def)
  have run: "wr_run (\<lambda>d. ud_postSendRequest d None 5 0) (ud_complete (SendDepth 0)) ?s [3, 4] (st, heap')"
    using run_post[OF run_init, of "\<lambda>d. ud_postSendRequest d None 5 0" "\<lambda>_. (0, None)" "[3, 4]" ?s] p acc by simp
  from wr_depth_accounting[of 0 "[17]" 128 None 5 64 "\<lambda>_. Request_new" "[3, 4]" st heap'] run show ?thesis by auto
qed

end
