(* ===== verification/TextCodec.thy ===== *)
theory TextCodec
  imports Prelude
begin

text \<open>
  The textual encodings of the connection attributes: \<open>ToString\<close> and \<open>FromString\<close> of
  \<open>src/src/protocols/rdma_unreliable/controller.cpp\<close> and \<open>rdma_reliable/impl.cpp\<close>,
  \<open>RdmaContext::gid\<close> of \<open>common/rdma_context.cpp\<close> and the loop that reads a GID back in
  \<open>controller.cpp\<close> and \<open>common/rdma_ud_endpoint.cpp\<close>.

  The part of the iostream library they use is modelled on strings: a stream is its remaining
  characters together with its fail bit.  Extraction skips white space, takes an optional sign
  and the longest run of digits of the base, and fails without digits or when the value does
  not fit; at the end of the stream, or after a failure, the variable keeps its value.
\<close>

section \<open>Digits\<close>

definition digit_char :: "nat \<Rightarrow> char" where
  "digit_char d = char_of (if d < 10 then 48 + d else 87 + d)"

definition digit_value :: "char \<Rightarrow> nat" where
  "digit_value c =
     (let k = of_char c :: nat
      in if 48 \<le> k \<and> k \<le> 57 then k - 48 else if 97 \<le> k \<and> k \<le> 102 then k - 87
         else if 65 \<le> k \<and> k \<le> 70 then k - 55 else 255)"

definition is_digit :: "nat \<Rightarrow> char \<Rightarrow> bool" where
  "is_digit b c \<longleftrightarrow> digit_value c < b"

definition is_space :: "char \<Rightarrow> bool" where
  "is_space c \<longleftrightarrow> (of_char c :: nat) \<in> {32, 9, 10, 11, 12, 13}"

fun show_digits :: "nat \<Rightarrow> nat \<Rightarrow> string" where
  "show_digits b n = (if n < b \<or> b < 2 then [digit_char n] else show_digits b (n div b) @ [digit_char (n mod b)])"

declare show_digits.simps [simp del]

definition digits_value :: "nat \<Rightarrow> string \<Rightarrow> nat" where
  "digits_value b s = foldl (\<lambda>v c. v * b + digit_value c) 0 s"

lemma digit_value_char: "d < 16 \<Longrightarrow> digit_value (digit_char d) = d"
  by (auto simp: digit_value_def digit_char_def Let_def)

lemma digits_value_snoc: "digits_value b (s @ [c]) = digits_value b s * b + digit_value c"
  by (simp add: digits_value_def)

lemma show_digits_value: "2 \<le> b \<Longrightarrow> b \<le> 16 \<Longrightarrow> digits_value b (show_digits b n) = n"
proof (induction b n rule: show_digits.induct)
  case (1 b n)
  show ?case
  proof (cases "n < b")
    case True
    then show ?thesis using 1 by (simp add: show_digits.simps[of b n] digits_value_def digit_value_char)
  next
    case False
    then have "digits_value b (show_digits b (n div b)) = n div b" using 1 by simp
    moreover have "show_digits b n = show_digits b (n div b) @ [digit_char (n mod b)]"
      using False 1(2) by (subst show_digits.simps) simp
    moreover have "n mod b < 16" using mod_less_divisor[of b n] 1(2,3) by linarith
    ultimately show ?thesis by (simp add: digits_value_snoc digit_value_char)
  qed
qed

lemma show_digits_are_digits: "2 \<le> b \<Longrightarrow> b \<le> 16 \<Longrightarrow> list_all (is_digit b) (show_digits b n)"
proof (induction b n rule: show_digits.induct)
  case (1 b n)
  have d: "m < b \<Longrightarrow> is_digit b (digit_char m)" for m using 1(3) by (simp add: is_digit_def digit_value_char)
  show ?case
  proof (cases "n < b")
    case True
    then show ?thesis using d by (simp add: show_digits.simps[of b n])
  next
    case False
    then have "list_all (is_digit b) (show_digits b (n div b))" using 1 by simp
    moreover have "show_digits b n = show_digits b (n div b) @ [digit_char (n mod b)]"
      using False 1(2) by (subst show_digits.simps) simp
    ultimately show ?thesis using d[of "n mod b"] 1(2) by simp
  qed
qed

lemma show_digits_not_Nil: "show_digits b n \<noteq> []"
  by (subst show_digits.simps) simp

lemma digit_not_space: "is_digit b c \<Longrightarrow> b \<le> 16 \<Longrightarrow> \<not> is_space c"
  by (auto simp: is_digit_def is_space_def digit_value_def Let_def split: if_splits)

lemma digit_not_sign: "is_digit b c \<Longrightarrow> b \<le> 16 \<Longrightarrow> c \<noteq> CHR ''-'' \<and> c \<noteq> CHR ''+''"
  by (auto simp: is_digit_def digit_value_def)

section \<open>Streams\<close>

record istream =
  is_rest :: string
  is_fail :: bool

definition istream_of :: "string \<Rightarrow> istream" where
  "istream_of s = \<lparr>is_rest = s, is_fail = False\<rparr>"

definition take_sign :: "string \<Rightarrow> bool \<times> string" where
  "take_sign s = (case s of c # cs \<Rightarrow> if c = CHR ''-'' then (True, cs) else if c = CHR ''+'' then (False, cs) else (False, s)
                          | [] \<Rightarrow> (False, []))"

text \<open>In base 16 a prefix \<open>0x\<close> is skipped.\<close>

definition take_prefix :: "nat \<Rightarrow> string \<Rightarrow> string" where
  "take_prefix b s = (case s of z # x # cs \<Rightarrow> if b = 16 \<and> z = CHR ''0'' \<and> (x = CHR ''x'' \<or> x = CHR ''X'') then cs else s | _ \<Rightarrow> s)"

text \<open>Sign, magnitude and the rest, or None without digits.\<close>

definition scan_int :: "nat \<Rightarrow> string \<Rightarrow> (bool \<times> nat) option \<times> string" where
  "scan_int b s =
     (let (neg, s1) = take_sign (dropWhile (\<lambda>c. is_space c) s);
          s2 = take_prefix b s1;
          ds = takeWhile (is_digit b) s2
      in (if ds = [] then None else Some (neg, digits_value b ds), dropWhile (is_digit b) s2))"

text \<open>\<open>iss >> val\<close> for \<open>uint32_t val\<close>: a minus sign negates modulo \<open>2 ^ 32\<close>.\<close>

definition read_u32 :: "istream \<Rightarrow> u32 \<Rightarrow> u32 \<times> istream" where
  "read_u32 st val =
     (if is_fail st then (val, st)
      else if list_all is_space (is_rest st) then (val, \<lparr>is_rest = [], is_fail = True\<rparr>)
      else case scan_int 10 (is_rest st) of
        (None, rest) \<Rightarrow> (0, \<lparr>is_rest = rest, is_fail = True\<rparr>)
      | (Some (neg, v), rest) \<Rightarrow>
          if v \<ge> 2 ^ 32 then (- 1, \<lparr>is_rest = rest, is_fail = True\<rparr>)
          else ((if neg then - of_nat v else of_nat v), \<lparr>is_rest = rest, is_fail = False\<rparr>))"

text \<open>\<open>iss >> std::hex >> value\<close> for \<open>int value\<close>, kept as a 32-bit word.\<close>

definition read_hex_int :: "istream \<Rightarrow> u32 \<Rightarrow> u32 \<times> istream" where
  "read_hex_int st val =
     (if is_fail st then (val, st)
      else if list_all is_space (is_rest st) then (val, \<lparr>is_rest = [], is_fail = True\<rparr>)
      else case scan_int 16 (is_rest st) of
        (None, rest) \<Rightarrow> (0, \<lparr>is_rest = rest, is_fail = True\<rparr>)
      | (Some (neg, v), rest) \<Rightarrow>
          if \<not> neg \<and> v \<ge> 2 ^ 31 then (2 ^ 31 - 1, \<lparr>is_rest = rest, is_fail = True\<rparr>)
          else if neg \<and> v > 2 ^ 31 then (2 ^ 31, \<lparr>is_rest = rest, is_fail = True\<rparr>)
          else ((if neg then - of_nat v else of_nat v), \<lparr>is_rest = rest, is_fail = False\<rparr>))"

text \<open>\<open>iss.ignore (1, ':')\<close> extracts one character, whatever it is, unless the stream failed.\<close>

definition ignore_one :: "istream \<Rightarrow> istream" where
  "ignore_one st = (if is_fail st then st else st\<lparr>is_rest := tl (is_rest st)\<rparr>)"

lemma scan_int_digits:
  assumes b: "2 \<le> b" "b \<le> 16" and pre: "list_all is_space pre" and ds: "list_all (is_digit b) ds" "ds \<noteq> []"
    and rest: "rest = [] \<or> \<not> is_digit b (hd rest)" and x: "b \<noteq> 16 \<or> (rest = [] \<or> hd rest \<noteq> CHR ''x'' \<and> hd rest \<noteq> CHR ''X'')"
  shows "scan_int b (pre @ ds @ rest) = (Some (False, digits_value b ds), rest)"
proof -
  obtain c cs where c: "ds = c # cs" using ds(2) by (cases ds) auto
  have cd: "is_digit b c" "list_all (is_digit b) cs" using ds(1) c by auto
  have skip: "dropWhile (\<lambda>c. is_space c) (pre @ ds @ rest) = ds @ rest"
    using pre digit_not_space[OF cd(1) b(2)] by (simp add: c dropWhile_append list_all_iff)
  have sign: "take_sign (ds @ rest) = (False, ds @ rest)" using digit_not_sign[OF cd(1) b(2)] by (simp add: take_sign_def c)
  have nx: "d \<noteq> CHR ''x'' \<and> d \<noteq> CHR ''X''" if "is_digit 16 d" for d using that by (auto simp: is_digit_def digit_value_def)
  have prefix: "take_prefix b (ds @ rest) = ds @ rest"
    using nx cd(2) x by (cases cs; cases rest) (auto simp: take_prefix_def c)
  have "takeWhile (is_digit b) (ds @ rest) = ds" "dropWhile (is_digit b) (ds @ rest) = rest"
    using ds(1) rest by (cases rest; simp add: takeWhile_append dropWhile_append list_all_iff)+
  then show ?thesis unfolding scan_int_def skip sign using prefix ds(2) by (simp add: Let_def)
qed

section \<open>Integers\<close>

text \<open>\<open>std::stoi\<close> ignores what follows the digits, and throws without digits or on a value that is no \<open>int\<close>.\<close>

definition stoi :: "string \<Rightarrow> int outcome" where
  "stoi s = (case scan_int 10 s of
       (Some (neg, v), _) \<Rightarrow>
         let i = (if neg then - int v else int v) in if - (2 ^ 31) \<le> i \<and> i < 2 ^ 31 then Inr i else Inl Throw
     | (None, _) \<Rightarrow> Inl Throw)"

lemma stoi_show: "n < 2 ^ 31 \<Longrightarrow> stoi (show_digits 10 n) = Inr (int n)"
  using scan_int_digits[of 10 "[]" "show_digits 10 n" "[]"] show_digits_are_digits[of 10 n] show_digits_not_Nil[of 10 n]
    show_digits_value[of 10 n] by (simp add: stoi_def)

section \<open>Lists of queue pair numbers\<close>

definition ToString :: "u32 list \<Rightarrow> string" where
  "ToString xs = concat (map (\<lambda>e. '' '' @ show_digits 10 (unat e)) xs)"

lemma scan_int_shorter: "fst (scan_int b s) \<noteq> None \<Longrightarrow> length (snd (scan_int b s)) < length s"
proof -
  assume a: "fst (scan_int b s) \<noteq> None"
  define s1 where "s1 = snd (take_sign (dropWhile (\<lambda>c. is_space c) s))"
  have "length s1 \<le> length (dropWhile (\<lambda>c. is_space c) s)" by (auto simp: s1_def take_sign_def split: list.splits)
  moreover have "length (take_prefix b s1) \<le> length s1" by (auto simp: take_prefix_def split: list.splits)
  moreover have "takeWhile (is_digit b) (take_prefix b s1) \<noteq> []" "snd (scan_int b s) = dropWhile (is_digit b) (take_prefix b s1)"
    using a by (auto simp: scan_int_def s1_def Let_def split: prod.splits if_splits)
  moreover have "length (take_prefix b s1) = length (takeWhile (is_digit b) (take_prefix b s1)) + length (dropWhile (is_digit b) (take_prefix b s1))"
    by (metis length_append takeWhile_dropWhile_id)
  moreover have "length (dropWhile (\<lambda>c. is_space c) s) \<le> length s" by (rule length_dropWhile_le)
  ultimately show ?thesis by (cases "takeWhile (is_digit b) (take_prefix b s1)") simp_all
qed

lemma read_u32_shorter: "\<not> is_fail (snd (read_u32 st v)) \<Longrightarrow> length (is_rest (snd (read_u32 st v))) < length (is_rest st)"
  using scan_int_shorter[of 10 "is_rest st"]
  by (auto simp: read_u32_def split: if_splits prod.splits option.splits)

function from_stream :: "istream \<Rightarrow> u32 list" where
  "from_stream st = (let r = read_u32 st 0 in if is_fail (snd r) then [] else fst r # from_stream (snd r))"
  by auto
termination
  by (relation "measure (\<lambda>st. length (is_rest st))") (simp_all add: read_u32_shorter)

declare from_stream.simps [simp del]

definition FromString :: "string \<Rightarrow> u32 list" where
  "FromString s = from_stream (istream_of s)"

lemma read_u32_digits:
  assumes "rest = [] \<or> is_space (hd rest)" "n < 2 ^ 32"
  shows "read_u32 \<lparr>is_rest = '' '' @ show_digits 10 n @ rest, is_fail = False\<rparr> v = (of_nat n, \<lparr>is_rest = rest, is_fail = False\<rparr>)"
proof -
  have "rest = [] \<or> \<not> is_digit 10 (hd rest)" using assms(1) digit_not_space[of 10 "hd rest"] by auto
  then have scan: "scan_int 10 ('' '' @ show_digits 10 n @ rest) = (Some (False, n), rest)"
    using scan_int_digits[of 10 "'' ''" "show_digits 10 n" rest] show_digits_are_digits[of 10 n] show_digits_not_Nil[of 10 n]
      show_digits_value[of 10 n] by (auto simp: is_space_def)
  have "\<not> is_space (hd (show_digits 10 n))"
    using digit_not_space[of 10] show_digits_are_digits[of 10 n] show_digits_not_Nil[of 10 n] by (cases "show_digits 10 n") auto
  then have "\<not> list_all is_space ('' '' @ show_digits 10 n @ rest)"
    using show_digits_not_Nil[of 10 n] by (cases "show_digits 10 n") auto
  with scan assms(2) show ?thesis by (simp add: read_u32_def)
qed

lemma ToString_start: "ToString xs = [] \<or> is_space (hd (ToString xs))"
  by (cases xs) (simp_all add: ToString_def is_space_def)

lemma from_stream_ToString: "from_stream \<lparr>is_rest = ToString xs, is_fail = False\<rparr> = xs"
proof (induction xs)
  case Nil
  show ?case by (subst from_stream.simps) (simp add: ToString_def read_u32_def)
next
  case (Cons x xs)
  have "unat x < 2 ^ 32" using unsigned_less[of x] by simp
  then have "read_u32 \<lparr>is_rest = ToString (x # xs), is_fail = False\<rparr> 0 = (x, \<lparr>is_rest = ToString xs, is_fail = False\<rparr>)"
    using read_u32_digits[OF ToString_start, of "unat x" xs 0] by (simp add: ToString_def)
  then show ?case using Cons by (subst from_stream.simps) simp
qed

section \<open>Global identifiers\<close>

text \<open>\<open>sprintf (buf, "%02x", raw[i])\<close>\<close>

definition hex2 :: "u8 \<Rightarrow> string" where
  "hex2 x = [digit_char (unat x div 16), digit_char (unat x mod 16)]"

definition gid_string :: "u8 list \<Rightarrow> string" where
  "gid_string raw = concat (map (\<lambda>i. if i = 0 then hex2 (raw ! i) else '':'' @ hex2 (raw ! i)) [0..<16])"

text \<open>
  The loop that reads a GID; \<open>k\<close> iterations are left, \<open>g\<close> are the values of the
  uninitialised variable \<open>value\<close>.
\<close>

fun parse_gid_loop :: "(nat \<Rightarrow> u32) \<Rightarrow> nat \<Rightarrow> istream \<Rightarrow> u8 list" where
  "parse_gid_loop g 0 st = []"
| "parse_gid_loop g (Suc k) st =
     (let r = read_hex_int st (g k); st' = (if k > 0 then ignore_one (snd r) else snd r)
      in ucast (fst r) # parse_gid_loop g k st')"

definition parse_gid :: "(nat \<Rightarrow> u32) \<Rightarrow> string \<Rightarrow> u8 list" where
  "parse_gid g s = parse_gid_loop g 16 (istream_of s)"

fun gid_join :: "u8 list \<Rightarrow> string" where
  "gid_join [] = []"
| "gid_join [x] = hex2 x"
| "gid_join (x # xs) = hex2 x @ '':'' @ gid_join xs"

lemma gid_join_snoc: "gid_join (xs @ [x]) = gid_join xs @ (if xs = [] then hex2 x else '':'' @ hex2 x)"
  by (induction xs rule: gid_join.induct) auto

lemma gid_string_join:
  assumes "length raw = 16"
  shows "gid_string raw = gid_join raw"
proof -
  have "concat (map (\<lambda>i. if i = 0 then hex2 (raw ! i) else '':'' @ hex2 (raw ! i)) [0..<n]) = gid_join (take n raw)"
    if "n \<le> length raw" for n using that
  proof (induction n)
    case (Suc n)
    then show ?case by (auto simp: take_Suc_conv_app_nth gid_join_snoc)
  qed simp
  from this[of 16] show ?thesis using assms by (simp add: gid_string_def)
qed

lemma read_hex2:
  assumes "rest = [] \<or> hd rest = CHR '':''"
  shows "read_hex_int \<lparr>is_rest = hex2 x @ rest, is_fail = False\<rparr> v = (ucast x, \<lparr>is_rest = rest, is_fail = False\<rparr>)"
proof -
  have u: "unat x < 256" using unsigned_less[of x] by simp
  have dig: "list_all (is_digit 16) (hex2 x)" using u by (simp add: hex2_def is_digit_def digit_value_char)
  have val: "digits_value 16 (hex2 x) = unat x" using u by (simp add: hex2_def digits_value_def digit_value_char)
  have "rest = [] \<or> \<not> is_digit 16 (hd rest)" using assms by (auto simp: is_digit_def digit_value_def)
  then have scan: "scan_int 16 (hex2 x @ rest) = (Some (False, unat x), rest)"
    using scan_int_digits[of 16 "[]" "hex2 x" rest] dig val assms by (auto simp: hex2_def)
  have "\<not> list_all is_space (hex2 x @ rest)" using dig digit_not_space[of 16] by (auto simp: hex2_def)
  with scan u show ?thesis by (simp add: read_hex_int_def)
qed

lemma ucast_u32_u8: "(ucast (ucast (x :: u8) :: u32) :: u8) = x"
  by (rule bit_word_eqI) (auto simp: bit_simps)

lemma parse_gid_loop_join:
  "length raw = k \<Longrightarrow> parse_gid_loop g k \<lparr>is_rest = gid_join raw, is_fail = False\<rparr> = raw"
proof (induction raw arbitrary: k rule: gid_join.induct)
  case (2 x)
  then have "k = Suc 0" by simp
  then show ?case using read_hex2[of "[]" x] by (simp add: ucast_u32_u8)
next
  case (3 x y ys)
  then obtain k' where k: "k = Suc k'" "k' = length (y # ys)" by simp
  show ?case using 3(1)[OF k(2)[symmetric]] read_hex2[of "CHR '':'' # gid_join (y # ys)" x "g k'"] k
    by (simp add: ignore_one_def ucast_u32_u8)
qed simp

text \<open>
  The connection attributes survive the exchange: the list of queue pair numbers a peer
  prints is the list the other side reads, and a GID printed in hexadecimal reads back to the
  same 16 bytes whatever the uninitialised variable of the reading loop holds.
\<close>

lemma attributes_roundtrip:
  assumes "length raw = 16"
  shows "FromString (ToString qps) = qps \<and> parse_gid g (gid_string raw) = raw"
  using assms by (simp add: FromString_def istream_of_def from_stream_ToString parse_gid_def gid_string_join parse_gid_loop_join)

lemma attributes_roundtrip_witness:
  "FromString (ToString [17, 4294967295]) = [17, 4294967295]
   \<and> parse_gid (\<lambda>_. 7) (gid_string (replicate 16 254)) = replicate 16 254"
  using attributes_roundtrip[of "replicate 16 254" "[17, 4294967295]" "\<lambda>_. 7"] by simp

end
