(* ===== verification/Concurrency.thy ===== *)
theory Concurrency
  imports Prelude "HOL-Library.Multiset"
begin

text \<open>
  \<open>RWSpinlock\<close> and \<open>SimpleRandom\<close> of \<open>src/src/concurrency.h\<close>.

  The lock is a step relation over the shared counters and the mode of each thread; a step is
  one atomic access of one thread.  A compare-and-swap attempt is one step, taken when the
  value loaded before it is still current; a failed attempt changes nothing and is not a step.
  (A load that is overtaken by exactly a multiple of 65536 lock operations before its
  compare-and-swap is outside this model.)  The counters are 16-bit
  words that wrap, and the invariants hold for fewer threads than the counters can count.
\<close>

section \<open>Counting threads\<close>

definition cnt :: "('a \<Rightarrow> bool) \<Rightarrow> 'a list \<Rightarrow> nat" where
  "cnt P xs = length (filter P xs)"

lemma cnt_update:
  assumes "i < length xs"
  shows "cnt P (xs[i := x]) + (if P (xs ! i) then 1 else 0) = cnt P xs + (if P x then 1 else 0)"
  using assms
proof (induction xs arbitrary: i)
  case (Cons y ys)
  then show ?case by (cases i) (auto simp: cnt_def)
qed simp

lemma cnt_le: "cnt P xs \<le> length xs"
  by (simp add: cnt_def)

lemma cnt_zero: "cnt P xs = 0 \<Longrightarrow> i < length xs \<Longrightarrow> \<not> P (xs ! i)"
  by (auto simp: cnt_def filter_empty_conv)

lemma cnt_pos: "i < length xs \<Longrightarrow> P (xs ! i) \<Longrightarrow> 0 < cnt P xs"
  using cnt_zero by (metis gr0I)

lemma cnt_le_1:
  assumes "cnt P xs \<le> 1" "i < length xs" "j < length xs" "P (xs ! i)" "P (xs ! j)"
  shows "i = j"
proof -
  have "cnt P xs = card {k. k < length xs \<and> P (xs ! k)}" by (simp add: cnt_def length_filter_conv_card)
  then have "card {k. k < length xs \<and> P (xs ! k)} \<le> 1" using assms(1) by simp
  then show ?thesis using assms(2-5) by (auto simp: card_le_Suc0_iff_eq)
qed

lemma of_nat_u16_zero: "k < 2 ^ 16 \<Longrightarrow> (of_nat k :: u16) = 0 \<longleftrightarrow> k = 0"
  by (auto simp: word_of_nat_eq_0_iff dest: dvd_imp_le)

lemma of_nat_u16_eq: "k < 2 ^ 16 \<Longrightarrow> l < 2 ^ 16 \<Longrightarrow> (of_nat k :: u16) = of_nat l \<longleftrightarrow> k = l"
  by (simp add: of_nat_inverse word_of_nat_eq_iff take_bit_nat_eq_self)

section \<open>The reader-writer spinlock\<close>

record rw_ticket =
  rt_write :: u16
  rt_read :: u16
  rt_users :: u16

definition RWTicket_new :: rw_ticket where
  "RWTicket_new = \<lparr>rt_write = 0, rt_read = 0, rt_users = 0\<rparr>"

text \<open>
  \<open>t\<close> is the ticket the thread loaded, \<open>cur\<close> the shared ticket at its compare-and-swap.
\<close>

definition tryLock :: "rw_ticket \<Rightarrow> rw_ticket \<Rightarrow> bool \<times> rw_ticket" where
  "tryLock t cur =
     (if rt_users t \<noteq> rt_write t then (False, cur)
      else if cur = t then (True, t\<lparr>rt_users := rt_users t + 1\<rparr>) else (False, cur))"

definition tryLockShared :: "rw_ticket \<Rightarrow> rw_ticket \<Rightarrow> bool \<times> rw_ticket" where
  "tryLockShared t cur =
     (let old = t\<lparr>rt_users := rt_read t\<rparr>;
          new = t\<lparr>rt_read := rt_read t + 1, rt_users := rt_users t + 1\<rparr>
      in if cur = old then (True, new) else (False, cur))"

definition writeLockAggressive_enter :: "rw_ticket \<Rightarrow> u16 \<times> rw_ticket" where
  "writeLockAggressive_enter cur = (rt_users cur, cur\<lparr>rt_users := rt_users cur + 1\<rparr>)"

definition writeLockAggressive_done :: "u16 \<Rightarrow> rw_ticket \<Rightarrow> bool" where
  "writeLockAggressive_done val cur \<longleftrightarrow> val = rt_write cur"

text \<open>\<open>unlock\<close> stores the read and write counters only.\<close>

definition unlock_store :: "rw_ticket \<Rightarrow> rw_ticket \<Rightarrow> rw_ticket" where
  "unlock_store t cur = cur\<lparr>rt_read := rt_read t + 1, rt_write := rt_write t + 1\<rparr>"

definition unlockAndLockShared :: "rw_ticket \<Rightarrow> rw_ticket" where
  "unlockAndLockShared cur = cur\<lparr>rt_read := rt_read cur + 1\<rparr>"

definition unlockShared :: "rw_ticket \<Rightarrow> rw_ticket" where
  "unlockShared cur = cur\<lparr>rt_write := rt_write cur + 1\<rparr>"

datatype rw_mode = Idle | Waiting u16 | Writer | Releasing rw_ticket | Reader

inductive rw_step :: "rw_ticket \<times> rw_mode list \<Rightarrow> rw_ticket \<times> rw_mode list \<Rightarrow> bool" where
  rw_lock: "i < length ms \<Longrightarrow> ms ! i = Idle \<Longrightarrow> tryLock t t = (True, t') \<Longrightarrow> rw_step (t, ms) (t', ms[i := Writer])"
| rw_enter: "i < length ms \<Longrightarrow> ms ! i = Idle \<Longrightarrow> writeLockAggressive_enter t = (val, t') \<Longrightarrow> rw_step (t, ms) (t', ms[i := Waiting val])"
| rw_done: "i < length ms \<Longrightarrow> ms ! i = Waiting val \<Longrightarrow> writeLockAggressive_done val t \<Longrightarrow> rw_step (t, ms) (t, ms[i := Writer])"
| rw_unlock_load: "i < length ms \<Longrightarrow> ms ! i = Writer \<Longrightarrow> rw_step (t, ms) (t, ms[i := Releasing t])"
| rw_unlock_store: "i < length ms \<Longrightarrow> ms ! i = Releasing l \<Longrightarrow> rw_step (t, ms) (unlock_store l t, ms[i := Idle])"
| rw_downgrade: "i < length ms \<Longrightarrow> ms ! i = Writer \<Longrightarrow> rw_step (t, ms) (unlockAndLockShared t, ms[i := Reader])"
| rw_lock_shared: "i < length ms \<Longrightarrow> ms ! i = Idle \<Longrightarrow> tryLockShared t t = (True, t') \<Longrightarrow> rw_step (t, ms) (t', ms[i := Reader])"
| rw_unlock_shared: "i < length ms \<Longrightarrow> ms ! i = Reader \<Longrightarrow> rw_step (t, ms) (unlockShared t, ms[i := Idle])"

inductive rw_reach :: "nat \<Rightarrow> rw_ticket \<times> rw_mode list \<Rightarrow> bool" for n where
  rw_init: "rw_reach n (RWTicket_new, replicate n Idle)"
| rw_next: "rw_reach n s \<Longrightarrow> rw_step s s' \<Longrightarrow> rw_reach n s'"

fun is_writer :: "rw_mode \<Rightarrow> bool" where
  "is_writer Writer = True"
| "is_writer (Releasing t) = True"
| "is_writer _ = False"

fun is_waiting :: "rw_mode \<Rightarrow> bool" where
  "is_waiting (Waiting v) = True"
| "is_waiting _ = False"

lemma cnt_modes: "cnt (\<lambda>m. m = Reader) ms + cnt is_writer ms + cnt is_waiting ms \<le> length ms"
proof (induction ms)
  case (Cons m ms)
  then show ?case by (cases m) (auto simp: cnt_def)
qed (simp add: cnt_def)

text \<open>
  \<open>rw_ok t ms r w a\<close>: with \<open>r\<close> readers, \<open>w\<close> writers and \<open>a\<close> threads waiting, the read
  counter is the write counter plus the readers, the users counter counts every thread inside,
  and the waiting threads hold distinct tickets behind the threads inside.
\<close>

definition rw_ok :: "rw_ticket \<Rightarrow> rw_mode list \<Rightarrow> nat \<Rightarrow> nat \<Rightarrow> nat \<Rightarrow> bool" where
  "rw_ok t ms r w a \<longleftrightarrow>
     rt_read t = rt_write t + of_nat r \<and> rt_users t = rt_write t + of_nat (r + w + a)
     \<and> w \<le> 1 \<and> (w = 1 \<longrightarrow> r = 0)
     \<and> (\<forall>i<length ms. \<forall>l. ms ! i = Releasing l \<longrightarrow> rt_read l = rt_read t \<and> rt_write l = rt_write t)
     \<and> (\<forall>i<length ms. \<forall>v. ms ! i = Waiting v \<longrightarrow> (\<exists>k<a. v = rt_write t + of_nat (r + w + k)))
     \<and> (\<forall>i<length ms. \<forall>j<length ms. \<forall>v. ms ! i = Waiting v \<longrightarrow> ms ! j = Waiting v \<longrightarrow> i = j)"

definition rw_inv :: "nat \<Rightarrow> rw_ticket \<times> rw_mode list \<Rightarrow> bool" where
  "rw_inv n s \<longleftrightarrow> (case s of (t, ms) \<Rightarrow> length ms = n
     \<and> rw_ok t ms (cnt (\<lambda>m. m = Reader) ms) (cnt is_writer ms) (cnt is_waiting ms))"

lemma rw_inv_D:
  assumes "rw_inv n (t, ms)"
  shows "length ms = n" "rw_ok t ms (cnt (\<lambda>m. m = Reader) ms) (cnt is_writer ms) (cnt is_waiting ms)"
  using assms by (simp_all add: rw_inv_def)

lemma rw_okI:
  assumes "rt_read t = rt_write t + of_nat r" "rt_users t = rt_write t + of_nat (r + w + a)"
    "w \<le> 1" "w = 1 \<Longrightarrow> r = 0"
    "\<And>i l. i < length ms \<Longrightarrow> ms ! i = Releasing l \<Longrightarrow> rt_read l = rt_read t \<and> rt_write l = rt_write t"
    "\<And>i v. i < length ms \<Longrightarrow> ms ! i = Waiting v \<Longrightarrow> \<exists>k<a. v = rt_write t + of_nat (r + w + k)"
    "\<And>i j v. i < length ms \<Longrightarrow> j < length ms \<Longrightarrow> ms ! i = Waiting v \<Longrightarrow> ms ! j = Waiting v \<Longrightarrow> i = j"
  shows "rw_ok t ms r w a"
  using assms unfolding rw_ok_def by blast

lemma rw_okD:
  assumes "rw_ok t ms r w a"
  shows "rt_read t = rt_write t + of_nat r" "rt_users t = rt_write t + of_nat (r + w + a)"
    "w \<le> 1" "w = 1 \<Longrightarrow> r = 0"
    "\<And>i l. i < length ms \<Longrightarrow> ms ! i = Releasing l \<Longrightarrow> rt_read l = rt_read t \<and> rt_write l = rt_write t"
    "\<And>i v. i < length ms \<Longrightarrow> ms ! i = Waiting v \<Longrightarrow> \<exists>k<a. v = rt_write t + of_nat (r + w + k)"
    "\<And>i j v. i < length ms \<Longrightarrow> j < length ms \<Longrightarrow> ms ! i = Waiting v \<Longrightarrow> ms ! j = Waiting v \<Longrightarrow> i = j"
  using assms unfolding rw_ok_def by blast+

text \<open>Replacing a mode by one that is neither waiting nor releasing keeps these entries.\<close>

lemma waiting_update: "i < length ms \<Longrightarrow> \<not> is_waiting x \<Longrightarrow> ms[i := x] ! j = Waiting v \<Longrightarrow> j \<noteq> i \<and> ms ! j = Waiting v"
  by (cases "j = i") auto

lemma releasing_update: "i < length ms \<Longrightarrow> \<not> is_writer x \<or> x = Writer \<Longrightarrow> ms[i := x] ! j = Releasing l \<Longrightarrow> j \<noteq> i \<and> ms ! j = Releasing l"
  by (cases "j = i") auto

text \<open>The counts after one thread changes its mode.\<close>

lemma cnt_readers: "i < length ms \<Longrightarrow> cnt (\<lambda>m. m = Reader) (ms[i := x]) =
    cnt (\<lambda>m. m = Reader) ms + (if x = Reader then 1 else 0) - (if ms ! i = Reader then 1 else 0)"
  using cnt_update[of i ms "\<lambda>m. m = Reader" x] by arith

lemma cnt_writers: "i < length ms \<Longrightarrow> cnt is_writer (ms[i := x]) =
    cnt is_writer ms + (if is_writer x then 1 else 0) - (if is_writer (ms ! i) then 1 else 0)"
  using cnt_update[of i ms is_writer x] by arith

lemma cnt_waiters: "i < length ms \<Longrightarrow> cnt is_waiting (ms[i := x]) =
    cnt is_waiting ms + (if is_waiting x then 1 else 0) - (if is_waiting (ms ! i) then 1 else 0)"
  using cnt_update[of i ms is_waiting x] by arith

lemmas cnt_moves = cnt_readers cnt_writers cnt_waiters

text \<open>
  A thread that enters or leaves without waiting: either nobody waits, or the threads inside
  move together with the write counter, so that the waiting tickets stay right.
\<close>

lemma rw_ok_move:
  assumes ok: "rw_ok t ms r w a" and i: "i < length ms"
    and x: "\<not> is_waiting x" "\<not> is_writer x \<or> x = Writer"
    and r': "rt_read t' = rt_write t' + of_nat r'" and u': "rt_users t' = rt_write t' + of_nat (r' + w' + a)"
    and w': "w' \<le> 1" "w' = 1 \<Longrightarrow> r' = 0"
    and base: "a = 0 \<or> rt_write t' + of_nat (r' + w') = rt_write t + of_nat (r + w)"
    and rel: "rt_read t' = rt_read t \<and> rt_write t' = rt_write t \<or> (\<forall>j<length ms. j \<noteq> i \<longrightarrow> \<not> is_writer (ms ! j))"
  shows "rw_ok t' (ms[i := x]) r' w' a"
proof (rule rw_okI[OF r' u' w'])
  fix j l assume j: "j < length (ms[i := x])" "ms[i := x] ! j = Releasing l"
  then have jl: "j \<noteq> i" "ms ! j = Releasing l" using releasing_update[OF i x(2), of j l] by simp_all
  then have "rt_read t' = rt_read t \<and> rt_write t' = rt_write t" using rel j(1) by auto
  then show "rt_read l = rt_read t' \<and> rt_write l = rt_write t'"
    using rw_okD(5)[OF ok, of j l] j(1) jl by simp
next
  fix j v assume j: "j < length (ms[i := x])" "ms[i := x] ! j = Waiting v"
  then have "ms ! j = Waiting v" using waiting_update[OF i x(1), of j v] by simp
  then obtain k where k: "k < a" "v = rt_write t + of_nat (r + w + k)"
    using rw_okD(6)[OF ok, of j v] j(1) by auto
  have "v = rt_write t' + of_nat (r' + w' + k)" using k base by (simp add: add.assoc[symmetric])
  then show "\<exists>k<a. v = rt_write t' + of_nat (r' + w' + k)" using k(1) by blast
next
  fix j j' v assume "j < length (ms[i := x])" "j' < length (ms[i := x])"
    "ms[i := x] ! j = Waiting v" "ms[i := x] ! j' = Waiting v"
  then show "j = j'"
    using rw_okD(7)[OF ok, of j j' v] waiting_update[OF i x(1), of j v] waiting_update[OF i x(1), of j' v] by simp
qed

lemma rw_lock_ok:
  assumes ok: "rw_ok t ms r w a" and n: "r + w + a < 2 ^ 16" and i: "i < length ms"
    and s: "tryLock t t = (True, t')"
  shows "rw_ok t' (ms[i := Writer]) r (w + 1) a"
proof -
  have eq: "rt_users t = rt_write t" and t': "t' = t\<lparr>rt_users := rt_users t + 1\<rparr>"
    using s by (auto simp: tryLock_def split: if_splits)
  have "(of_nat (r + w + a) :: u16) = 0" using rw_okD(2)[OF ok] eq by simp
  then have z: "r = 0" "w = 0" "a = 0" using of_nat_u16_zero[OF n] by auto
  show ?thesis by (rule rw_ok_move[OF ok i]) (use rw_okD(1)[OF ok] eq z in \<open>simp_all add: t'\<close>)
qed

lemma rw_lock_shared_ok:
  assumes ok: "rw_ok t ms r w a" and n: "r + w + a < 2 ^ 16" and i: "i < length ms"
    and none: "w = 0 \<Longrightarrow> \<forall>j<length ms. \<not> is_writer (ms ! j)"
    and s: "tryLockShared t t = (True, t')"
  shows "rw_ok t' (ms[i := Reader]) (r + 1) w a"
proof -
  have eq: "rt_users t = rt_read t" and t': "t' = t\<lparr>rt_read := rt_read t + 1, rt_users := rt_users t + 1\<rparr>"
    using s by (cases t; auto simp: tryLockShared_def Let_def split: if_splits)+
  have "(of_nat (w + a) :: u16) = 0" using rw_okD(1,2)[OF ok] eq by simp
  then have z: "w = 0" "a = 0" using of_nat_u16_zero[of "w + a"] n by auto
  show ?thesis by (rule rw_ok_move[OF ok i]) (use rw_okD(1)[OF ok] eq z none in \<open>simp_all add: t' ac_simps\<close>)
qed

text \<open>A writer that leaves or downgrades: it is alone inside.\<close>

lemma rw_unlock_ok:
  assumes ok: "rw_ok t ms r 1 a" and i: "i < length ms"
    and l: "rt_read l = rt_read t" "rt_write l = rt_write t"
    and alone: "\<forall>j<length ms. j \<noteq> i \<longrightarrow> \<not> is_writer (ms ! j)"
  shows "r = 0 \<and> rw_ok (unlock_store l t) (ms[i := Idle]) 0 0 a \<and> rw_ok (unlockAndLockShared t) (ms[i := Reader]) 1 0 a"
proof -
  have r: "r = 0" using rw_okD(4)[OF ok] by simp
  have eq: "rt_read t = rt_write t" "rt_users t = rt_write t + 1 + of_nat a"
    using rw_okD(1,2)[OF ok] r by (simp_all add: ac_simps)
  have "rw_ok (unlock_store l t) (ms[i := Idle]) 0 0 a"
    by (rule rw_ok_move[OF ok i]) (use eq r l alone in \<open>simp_all add: unlock_store_def\<close>)
  moreover have "rw_ok (unlockAndLockShared t) (ms[i := Reader]) 1 0 a"
    by (rule rw_ok_move[OF ok i]) (use eq r alone in \<open>simp_all add: unlockAndLockShared_def ac_simps\<close>)
  ultimately show ?thesis using r by blast
qed

lemma rw_unlock_shared_ok:
  assumes ok: "rw_ok t ms (Suc r) w a" and i: "i < length ms"
    and none: "w = 0 \<Longrightarrow> \<forall>j<length ms. \<not> is_writer (ms ! j)"
  shows "rw_ok (unlockShared t) (ms[i := Idle]) r w a"
proof -
  have w: "w = 0" using rw_okD(3,4)[OF ok] by fastforce
  show ?thesis by (rule rw_ok_move[OF ok i]) (use rw_okD(1,2)[OF ok] w none in \<open>simp_all add: unlockShared_def ac_simps\<close>)
qed

text \<open>A waiting thread whose ticket comes up: nobody is inside and it is the first to wait.\<close>

lemma rw_done_ok:
  assumes ok: "rw_ok t ms r w a" and n: "r + w + a < 2 ^ 16" and i: "i < length ms"
    and m: "ms ! i = Waiting v" and s: "writeLockAggressive_done v t"
  shows "rw_ok t (ms[i := Writer]) r (w + 1) (a - 1)"
proof -
  obtain k where k: "k < a" "v = rt_write t + of_nat (r + w + k)" using rw_okD(6)[OF ok i m] by blast
  have "(of_nat (r + w + k) :: u16) = 0" using s k(2) by (simp add: writeLockAggressive_done_def)
  then have z: "r = 0" "w = 0" "k = 0" using of_nat_u16_zero[of "r + w + k"] n k(1) by auto
  show ?thesis
  proof (rule rw_okI)
    fix j l assume "j < length (ms[i := Writer])" "ms[i := Writer] ! j = Releasing l"
    then show "rt_read l = rt_read t \<and> rt_write l = rt_write t"
      using rw_okD(5)[OF ok, of j l] releasing_update[OF i, of Writer j l] by simp
  next
    fix j u assume j: "j < length (ms[i := Writer])" "ms[i := Writer] ! j = Waiting u"
    then have ju: "j \<noteq> i" "ms ! j = Waiting u" using waiting_update[OF i, of Writer j u] by simp_all
    obtain k' where k': "k' < a" "u = rt_write t + of_nat k'" using rw_okD(6)[OF ok _ ju(2)] j(1) z by auto
    have "u \<noteq> v" using rw_okD(7)[OF ok, of j i v] ju j(1) i m by auto
    then obtain k'' where "k' = Suc k''" using k' k(2) z by (cases k') auto
    then show "\<exists>k<a - 1. u = rt_write t + of_nat (r + (w + 1) + k)" using k' z by (intro exI[of _ k'']) auto
  next
    fix j j' u assume "j < length (ms[i := Writer])" "j' < length (ms[i := Writer])"
      "ms[i := Writer] ! j = Waiting u" "ms[i := Writer] ! j' = Waiting u"
    then show "j = j'"
      using rw_okD(7)[OF ok, of j j' u] waiting_update[OF i, of Writer j u] waiting_update[OF i, of Writer j' u] by simp
  qed (use rw_okD(1,2)[OF ok] z k(1) in \<open>simp_all add: of_nat_Suc[symmetric] del: of_nat_Suc\<close>)
qed

lemma rw_enter_ok:
  assumes ok: "rw_ok t ms r w a" and n: "r + w + a < 2 ^ 16" and i: "i < length ms"
    and s: "writeLockAggressive_enter t = (v, t')"
  shows "rw_ok t' (ms[i := Waiting v]) r w (a + 1)"
proof -
  have v: "v = rt_write t + of_nat (r + w + a)" and t': "t' = t\<lparr>rt_users := rt_users t + 1\<rparr>"
    using s rw_okD(2)[OF ok] by (auto simp: writeLockAggressive_enter_def)
  have new: "u \<noteq> v" if u: "j < length ms" "ms ! j = Waiting u" for j u
  proof -
    obtain k where k: "k < a" "u = rt_write t + of_nat (r + w + k)" using rw_okD(6)[OF ok u] by blast
    have "(of_nat (r + w + k) :: u16) \<noteq> of_nat (r + w + a)"
      using of_nat_u16_eq[of "r + w + k" "r + w + a"] n k(1) by simp
    then show ?thesis unfolding k(2) v by simp
  qed
  show ?thesis
  proof (rule rw_okI)
    fix j l assume "j < length (ms[i := Waiting v])" "ms[i := Waiting v] ! j = Releasing l"
    then show "rt_read l = rt_read t' \<and> rt_write l = rt_write t'"
      using rw_okD(5)[OF ok, of j l] releasing_update[OF i, of "Waiting v" j l] by (simp add: t')
  next
    fix j u assume j: "j < length (ms[i := Waiting v])" "ms[i := Waiting v] ! j = Waiting u"
    show "\<exists>k<a + 1. u = rt_write t' + of_nat (r + w + k)"
    proof (cases "j = i")
      case True
      then show ?thesis using j i v by (intro exI[of _ a]) (simp add: t')
    next
      case False
      then show ?thesis using rw_okD(6)[OF ok, of j u] j by (auto simp: t' intro: less_SucI)
    qed
  next
    fix j j' u assume "j < length (ms[i := Waiting v])" "j' < length (ms[i := Waiting v])"
      "ms[i := Waiting v] ! j = Waiting u" "ms[i := Waiting v] ! j' = Waiting u"
    then show "j = j'" using rw_okD(7)[OF ok, of j j' u] new[of j u] new[of j' u] by (cases "j = i"; cases "j' = i") auto
  qed (use rw_okD(1-4)[OF ok] in \<open>simp_all add: t' ac_simps\<close>)
qed

lemma rw_unlock_load_ok:
  assumes ok: "rw_ok t ms r w a" and i: "i < length ms"
  shows "rw_ok t (ms[i := Releasing t]) r w a"
proof (rule rw_okI[OF rw_okD(1-4)[OF ok]])
  fix j l assume "j < length (ms[i := Releasing t])" "ms[i := Releasing t] ! j = Releasing l"
  then show "rt_read l = rt_read t \<and> rt_write l = rt_write t"
    using rw_okD(5)[OF ok, of j l] by (cases "j = i") auto
next
  fix j u assume "j < length (ms[i := Releasing t])" "ms[i := Releasing t] ! j = Waiting u"
  then show "\<exists>k<a. u = rt_write t + of_nat (r + w + k)"
    using rw_okD(6)[OF ok, of j u] waiting_update[OF i, of "Releasing t" j u] by simp
next
  fix j j' u assume "j < length (ms[i := Releasing t])" "j' < length (ms[i := Releasing t])"
    "ms[i := Releasing t] ! j = Waiting u" "ms[i := Releasing t] ! j' = Waiting u"
  then show "j = j'"
    using rw_okD(7)[OF ok, of j j' u] waiting_update[OF i, of "Releasing t" j u] waiting_update[OF i, of "Releasing t" j' u] by simp
qed

lemma rw_step_inv:
  assumes n: "n < 2 ^ 16" and step: "rw_step s s'" and inv: "rw_inv n s"
  shows "rw_inv n s'"
proof -
  obtain t ms where s: "s = (t, ms)" by (cases s)
  define r w a where defs: "r = cnt (\<lambda>m. m = Reader) ms" "w = cnt is_writer ms" "a = cnt is_waiting ms"
  have len: "length ms = n" and ok: "rw_ok t ms r w a" using rw_inv_D[of n t ms] inv by (simp_all add: s defs)
  have few: "r + w + a < 2 ^ 16" using cnt_modes[of ms] len n by (simp add: defs)
  have none: "w = 0 \<Longrightarrow> \<forall>j<length ms. \<not> is_writer (ms ! j)" using cnt_zero[of is_writer ms] by (simp add: defs)
  have writer: "w = 1 \<and> (\<forall>j<length ms. j \<noteq> i \<longrightarrow> \<not> is_writer (ms ! j))" if "i < length ms" "is_writer (ms ! i)" for i
    using cnt_pos[of i ms is_writer] cnt_le_1[of is_writer ms i] rw_okD(3)[OF ok] that by (fastforce simp: defs)
  have inv': "rw_inv n (t', ms[i := x])" if "i < length ms" "rw_ok t' (ms[i := x]) r' w' a'"
    "r' = r + (if x = Reader then 1 else 0) - (if ms ! i = Reader then 1 else 0)"
    "w' = w + (if is_writer x then 1 else 0) - (if is_writer (ms ! i) then 1 else 0)"
    "a' = a + (if is_waiting x then 1 else 0) - (if is_waiting (ms ! i) then 1 else 0)" for t' i x r' w' a'
    using that len unfolding rw_inv_def defs by (simp only: cnt_moves split length_list_update)
  from step show ?thesis unfolding s
  proof cases
    case (rw_lock i t')
    then show ?thesis using inv'[OF _ rw_lock_ok[OF ok few]] by simp
  next
    case (rw_enter i val t')
    then show ?thesis using inv'[OF _ rw_enter_ok[OF ok few]] by simp
  next
    case (rw_done i val)
    then show ?thesis using inv'[OF _ rw_done_ok[OF ok few]] by simp
  next
    case (rw_unlock_load i)
    then show ?thesis using inv'[OF _ rw_unlock_load_ok[OF ok]] by simp
  next
    case (rw_unlock_store i l)
    have w: "w = 1" "\<forall>j<length ms. j \<noteq> i \<longrightarrow> \<not> is_writer (ms ! j)" using writer[of i] rw_unlock_store by simp_all
    have "rt_read l = rt_read t" "rt_write l = rt_write t" using rw_okD(5)[OF ok] rw_unlock_store by blast+
    note res = rw_unlock_ok[OF ok[unfolded w(1)] _ this w(2)]
    show ?thesis using inv'[of i "unlock_store l t" Idle 0 0 a] res rw_unlock_store w(1) by simp
  next
    case (rw_downgrade i)
    have w: "w = 1" "\<forall>j<length ms. j \<noteq> i \<longrightarrow> \<not> is_writer (ms ! j)" using writer[of i] rw_downgrade by simp_all
    note res = rw_unlock_ok[OF ok[unfolded w(1)] _ refl refl w(2)]
    show ?thesis using inv'[of i "unlockAndLockShared t" Reader 1 0 a] res rw_downgrade w(1) by simp
  next
    case (rw_lock_shared i t')
    then show ?thesis using inv'[OF _ rw_lock_shared_ok[OF ok few _ none]] by simp
  next
    case (rw_unlock_shared i)
    then obtain r' where r': "r = Suc r'" using cnt_pos[of i ms "\<lambda>m. m = Reader"] by (cases r) (auto simp: defs)
    show ?thesis using inv'[OF _ rw_unlock_shared_ok[OF ok[unfolded r'] _ none]] rw_unlock_shared r' by simp
  qed
qed

lemma rw_reach_inv: "rw_reach n s \<Longrightarrow> n < 2 ^ 16 \<Longrightarrow> rw_inv n s"
proof (induction rule: rw_reach.induct)
  case rw_init
  show ?case by (simp add: rw_inv_def rw_ok_def RWTicket_new_def cnt_def)
next
  case (rw_next s s')
  then show ?case using rw_step_inv by blast
qed

text \<open>
  C11.  Mutual exclusion of the reader-writer spinlock: with fewer than 65536 threads, however
  their lock, unlock, downgrade and shared-lock operations interleave and however often the
  16-bit counters wrap, a thread that holds the lock for writing excludes every other writer
  and every reader.
\<close>

theorem rw_mutual_exclusion:
  assumes "rw_reach n (t, ms)" and "n < 2 ^ 16" and "i < n" and "j < n" and "i \<noteq> j" and "is_writer (ms ! i)"
  shows "\<not> is_writer (ms ! j) \<and> ms ! j \<noteq> Reader"
proof -
  have len: "length ms = n" and ok: "rw_ok t ms (cnt (\<lambda>m. m = Reader) ms) (cnt is_writer ms) (cnt is_waiting ms)"
    using rw_inv_D[OF rw_reach_inv[OF assms(1,2)]] by blast+
  have "0 < cnt is_writer ms" using cnt_pos assms(3,6) len by blast
  then have w: "cnt is_writer ms = 1" using rw_okD(3)[OF ok] by simp
  then have "cnt (\<lambda>m. m = Reader) ms = 0" using rw_okD(4)[OF ok] by simp
  then show ?thesis using cnt_le_1[of is_writer ms i j] cnt_zero[of "\<lambda>m. m = Reader" ms j] w assms(3-6) len by auto
qed

text \<open>Two threads: the first takes the lock for writing while the second queues for it.\<close>

lemma test_rw_reach: "rw_reach 2 (\<lparr>rt_write = 0, rt_read = 0, rt_users = 2\<rparr>, [Writer, Waiting 1])"
proof -
  have "rw_reach 2 (RWTicket_new, [Idle, Idle])" using rw_init[of 2] by (simp add: numeral_2_eq_2)
  moreover have "rw_step (RWTicket_new, [Idle, Idle]) (\<lparr>rt_write = 0, rt_read = 0, rt_users = 1\<rparr>, [Writer, Idle])"
    using rw_step.rw_lock[of 0 "[Idle, Idle]"] by (simp add: tryLock_def RWTicket_new_def)
  moreover have "rw_step (\<lparr>rt_write = 0, rt_read = 0, rt_users = 1\<rparr>, [Writer, Idle])
       (\<lparr>rt_write = 0, rt_read = 0, rt_users = 2\<rparr>, [Writer, Waiting 1])"
    using rw_step.rw_enter[of 1 "[Writer, Idle]" "\<lparr>rt_write = 0, rt_read = 0, rt_users = 1\<rparr>" 1 "\<lparr>rt_write = 0, rt_read = 0, rt_users = 2\<rparr>"] by (simp add: writeLockAggressive_enter_def)
  ultimately show ?thesis by (meson rw_next)
qed

theorem rw_mutual_exclusion_witness:
  "\<not> is_writer ([Writer, Waiting 1] ! 1) \<and> [Writer, Waiting 1] ! 1 \<noteq> Reader"
  using rw_mutual_exclusion[OF test_rw_reach, of 0 1] by simp

section \<open>The random number generator\<close>

definition random_next :: "u32 \<Rightarrow> u32" where
  "random_next current = (1664525 * current + 1013904223) mod 0xFFFFFFFF"

text \<open>\<open>next (max)\<close>: the number and the new state; \<open>max = 0\<close> divides by zero.\<close>

definition random_next_max :: "u32 \<Rightarrow> u32 \<Rightarrow> (u32 \<times> u32) outcome" where
  "random_next_max mx current = (if mx = 0 then Inl DivByZero else Inr (random_next current mod mx, random_next current))"

lemma random_next_max_less: "random_next_max mx current = Inr (v, current') \<Longrightarrow> v < mx"
  by (auto simp: random_next_max_def word_gt_0 word_mod_less_divisor split: if_splits)

lemma random_next_max_total: "mx \<noteq> 0 \<Longrightarrow> \<exists>v current'. random_next_max mx current = Inr (v, current')"
  by (simp add: random_next_max_def)

end
