(* ===== verification/UDEndpoint.thy ===== *)
theory UDEndpoint
  imports PostRequest TextCodec Concurrency
begin

text \<open>
  The datagram endpoints: \<open>RdmaUDEndPoint\<close> of \<open>src/src/protocols/common/rdma_ud_endpoint.cpp\<close>,
  and construction, queue pair setup and the endpoint map of \<open>RdmaUDEndPointStore\<close>
  (\<open>rdma_ud_endpoint_store.cpp\<close>).

  The verbs calls are parameters: \<open>create_ah\<close> (a handle or None), \<open>create_qp\<close> (a queue pair
  and its number or None) and \<open>modify_qp\<close> (an error code), the last two with the state of
  the device.  A pointer to an endpoint is the key of the endpoint in the map.
\<close>

section \<open>Queue pairs\<close>

datatype qp_state = IBV_QPS_RESET | IBV_QPS_INIT | IBV_QPS_RTR | IBV_QPS_RTS

datatype qp_attr_mask = IBV_QP_STATE | IBV_QP_PKEY_INDEX | IBV_QP_PORT | IBV_QP_QKEY | IBV_QP_SQ_PSN

record ibv_qp_attr =
  qa_qp_state :: qp_state
  qa_port_num :: u8
  qa_pkey_index :: u16
  qa_qkey :: u32
  qa_sq_psn :: u32

type_synonym qp = nat
type_synonym 'd modify_qp = "qp \<Rightarrow> ibv_qp_attr \<Rightarrow> qp_attr_mask list \<Rightarrow> 'd \<Rightarrow> int \<times> 'd"
type_synonym 'd create_qp = "'d \<Rightarrow> (qp \<times> u32) option \<times> 'd"

definition zero_attr :: "qp_state \<Rightarrow> ibv_qp_attr" where
  "zero_attr s = \<lparr>qa_qp_state = s, qa_port_num = 0, qa_pkey_index = 0, qa_qkey = 0, qa_sq_psn = 0\<rparr>"

text \<open>The transitions of \<open>setupQueuePair\<close>, in order; the first failure ends it.\<close>

definition setup_transitions :: "u8 \<Rightarrow> (ibv_qp_attr \<times> qp_attr_mask list) list" where
  "setup_transitions port_num =
     [(zero_attr IBV_QPS_RESET, [IBV_QP_STATE]),
      ((zero_attr IBV_QPS_INIT)\<lparr>qa_port_num := port_num\<rparr>, [IBV_QP_STATE, IBV_QP_PKEY_INDEX, IBV_QP_PORT, IBV_QP_QKEY]),
      (zero_attr IBV_QPS_RTR, [IBV_QP_STATE]),
      (zero_attr IBV_QPS_RTS, [IBV_QP_STATE, IBV_QP_SQ_PSN])]"

fun modify_all :: "('q \<Rightarrow> 'a \<Rightarrow> 'm \<Rightarrow> 'd \<Rightarrow> int \<times> 'd) \<Rightarrow> 'q \<Rightarrow> ('a \<times> 'm) list \<Rightarrow> 'd \<Rightarrow> int \<times> 'd" where
  "modify_all modify_qp qp [] d = (0, d)"
| "modify_all modify_qp qp ((attr, flags) # ts) d =
     (let (err, d') = modify_qp qp attr flags d in if err \<noteq> 0 then (-1, d') else modify_all modify_qp qp ts d')"

definition setupQueuePair :: "'d modify_qp \<Rightarrow> u8 \<Rightarrow> qp \<Rightarrow> 'd \<Rightarrow> int \<times> 'd" where
  "setupQueuePair modify_qp port_num qp d = modify_all modify_qp qp (setup_transitions port_num) d"

text \<open>The loop of \<open>construct\<close> over \<open>n\<close> queue pairs; None when it returns -1.\<close>

fun create_queue_pairs :: "'d create_qp \<Rightarrow> 'd modify_qp \<Rightarrow> u8 \<Rightarrow> nat \<Rightarrow> 'd \<Rightarrow> u32 list option \<times> 'd" where
  "create_queue_pairs create_qp modify_qp port_num 0 d = (Some [], d)"
| "create_queue_pairs create_qp modify_qp port_num (Suc n) d =
     (case create_qp d of
        (None, d1) \<Rightarrow> (None, d1)
      | (Some (qp, num), d1) \<Rightarrow>
          (case setupQueuePair modify_qp port_num qp d1 of (ret, d2) \<Rightarrow>
             if ret \<noteq> 0 then (None, d2)
             else case create_queue_pairs create_qp modify_qp port_num n d2 of
                    (None, d3) \<Rightarrow> (None, d3)
                  | (Some nums, d3) \<Rightarrow> (Some (num # nums), d3)))"

definition ud_construct ::
  "'d create_qp \<Rightarrow> 'd modify_qp \<Rightarrow> u8 \<Rightarrow> u64 \<Rightarrow> u64 \<Rightarrow> u64 \<Rightarrow> 'd \<Rightarrow> ud_store option \<times> 'd" where
  "ud_construct create_qp modify_qp port_num num_qp_per_endpoint max_wr_per_qp max_inline_bytes d =
     (case create_queue_pairs create_qp modify_qp port_num (unat num_qp_per_endpoint) d of
        (None, d') \<Rightarrow> (None, d')
      | (Some nums, d') \<Rightarrow> (Some (ud_store_construct nums max_wr_per_qp max_inline_bytes), d'))"

section \<open>Endpoints\<close>

record ibv_ah_attr =
  ah_dgid :: "u8 list"
  ah_sgid_index :: int
  ah_hop_limit :: u8
  ah_dlid :: u16
  ah_sl :: u8
  ah_src_path_bits :: u8
  ah_static_rate :: u8
  ah_is_global :: u8
  ah_port_num :: u8

record ud_endpoint =
  ue_connected :: bool
  ue_peer_gid :: string
  ue_peer_lid :: u16
  ue_peer_qp_num_list :: "u32 list"
  ue_ah :: "nat option"

text \<open>\<open>peer_lid_\<close> is not initialised by the constructor.\<close>

definition RdmaUDEndPoint_new :: "u16 \<Rightarrow> ud_endpoint" where
  "RdmaUDEndPoint_new garbage =
     \<lparr>ue_connected = False, ue_peer_gid = [], ue_peer_lid = garbage, ue_peer_qp_num_list = [], ue_ah = None\<rparr>"

definition MAX_HOP_LIMIT :: u8 where
  "MAX_HOP_LIMIT = 16"

definition peer_ah_attr :: "int \<Rightarrow> u8 \<Rightarrow> u8 list \<Rightarrow> u16 \<Rightarrow> ibv_ah_attr" where
  "peer_ah_attr gid_index port_num gid lid =
     \<lparr>ah_dgid = gid, ah_sgid_index = gid_index, ah_hop_limit = MAX_HOP_LIMIT, ah_dlid = lid, ah_sl = 0,
      ah_src_path_bits = 0, ah_static_rate = 0, ah_is_global = 1, ah_port_num = port_num\<rparr>"

definition udep_setupConnection ::
  "(ibv_ah_attr \<Rightarrow> nat option) \<Rightarrow> (nat \<Rightarrow> u32) \<Rightarrow> int \<Rightarrow> u8 \<Rightarrow> string \<Rightarrow> u16 \<Rightarrow> u32 list \<Rightarrow> ud_endpoint \<Rightarrow> int \<times> ud_endpoint" where
  "udep_setupConnection create_ah g gid_index port_num peer_gid peer_lid peer_qp_num_list ep =
     (if ue_connected ep then (0, ep)
      else case create_ah (peer_ah_attr gid_index port_num (parse_gid g peer_gid) peer_lid) of
        None \<Rightarrow> (-1, ep\<lparr>ue_ah := None\<rparr>)
      | Some ah \<Rightarrow>
          (0, ep\<lparr>ue_ah := Some ah, ue_peer_gid := peer_gid, ue_peer_lid := peer_lid,
                 ue_peer_qp_num_list := peer_qp_num_list, ue_connected := True\<rparr>))"

text \<open>
  \<open>postSendRequest\<close> draws the peer's queue pair and the local one; \<open>rnd\<close> is the state of the
  random generator, and \<open>next\<close> takes the list sizes as \<open>uint32_t\<close>.
\<close>

definition udep_postSendRequest ::
  "ibv_post \<Rightarrow> req list \<Rightarrow> ud_endpoint \<Rightarrow> u32 \<Rightarrow> ud_store \<times> req_heap
     \<Rightarrow> (int \<times> (ud_store \<times> req_heap) \<times> req list \<times> u32) outcome" where
  "udep_postSendRequest post request_list ep rnd s =
     (if \<not> ue_connected ep then Inr (-1, s, [], rnd)
      else case random_next_max (of_nat (length (ue_peer_qp_num_list ep))) rnd of
        Inl f \<Rightarrow> Inl f
      | Inr (peer_qp_index, rnd1) \<Rightarrow>
          (case random_next_max (of_nat (length (us_qp_num (fst s)))) rnd1 of
             Inl f \<Rightarrow> Inl f
           | Inr (qp_index, rnd2) \<Rightarrow>
               (case ud_postSendRequest post (ue_ah ep) (ue_peer_qp_num_list ep ! unat peer_qp_index) (unat qp_index) request_list s of
                  (n, s', acc) \<Rightarrow> Inr (n, s', acc, rnd2))))"

definition udep_postReceiveRequest ::
  "ibv_post \<Rightarrow> req list \<Rightarrow> ud_endpoint \<Rightarrow> u32 \<Rightarrow> ud_store \<times> req_heap
     \<Rightarrow> (int \<times> (ud_store \<times> req_heap) \<times> req list \<times> u32) outcome" where
  "udep_postReceiveRequest post request_list ep rnd s =
     (if \<not> ue_connected ep then Inr (-1, s, [], rnd)
      else case random_next_max (of_nat (length (us_qp_num (fst s)))) rnd of
        Inl f \<Rightarrow> Inl f
      | Inr (qp_index, rnd1) \<Rightarrow>
          (case ud_postReceiveRequest post (unat qp_index) request_list s of
             (n, s', acc) \<Rightarrow> Inr (n, s', acc, rnd1)))"

section \<open>The endpoint map\<close>

type_synonym endpoint_map = "string \<rightharpoonup> ud_endpoint"

text \<open>The second test of the map, under the write lock, repeats the first.\<close>

definition store_getOrCreateEndpoint :: "u16 \<Rightarrow> string \<Rightarrow> endpoint_map \<Rightarrow> string option \<times> endpoint_map" where
  "store_getOrCreateEndpoint garbage peer_nic_path m =
     (if peer_nic_path = [] then (None, m)
      else if m peer_nic_path \<noteq> None then (Some peer_nic_path, m)
      else (Some peer_nic_path, m(peer_nic_path \<mapsto> RdmaUDEndPoint_new garbage)))"

definition store_deleteEndpoint :: "string \<Rightarrow> endpoint_map \<Rightarrow> endpoint_map" where
  "store_deleteEndpoint peer_nic_path m = m(peer_nic_path := None)"

section \<open>Properties\<close>

lemma random_index:
  assumes "0 < n" "n < 2 ^ 32"
  obtains v rnd' where "random_next_max (of_nat n) rnd = Inr (v, rnd')" "unat v < n"
proof -
  have u: "unat (of_nat n :: u32) = n" using assms(2) by (simp add: unsigned_of_nat take_bit_nat_eq_self_iff)
  then have "(of_nat n :: u32) \<noteq> 0" using assms(1) by force
  then obtain v rnd' where r: "random_next_max (of_nat n) rnd = Inr (v, rnd')" using random_next_max_total by blast
  show ?thesis using that[OF r] random_next_max_less[OF r] u by (simp add: word_less_nat_alt)
qed

text \<open>
  A connected endpoint posts within its lists: whatever the state of the random generator,
  \<open>postSendRequest\<close> is a post of the same requests on an existing local queue pair to a queue
  pair number the peer announced, and \<open>postReceiveRequest\<close> is a post on an existing local
  queue pair; neither divides by zero.
\<close>

lemma endpoint_posts_in_range:
  assumes "ue_connected ep" and "0 < length (ue_peer_qp_num_list ep)" and "length (ue_peer_qp_num_list ep) < 2 ^ 32"
    and "0 < length (us_qp_num (fst s))" and "length (us_qp_num (fst s)) < 2 ^ 32"
  shows "(\<exists>qpn j n s' acc rnd'. qpn \<in> set (ue_peer_qp_num_list ep) \<and> j < length (us_qp_num (fst s))
            \<and> ud_postSendRequest post (ue_ah ep) qpn j reqs s = (n, s', acc)
            \<and> udep_postSendRequest post reqs ep rnd s = Inr (n, s', acc, rnd'))
       \<and> (\<exists>j n s' acc rnd'. j < length (us_qp_num (fst s)) \<and> ud_postReceiveRequest post j reqs s = (n, s', acc)
            \<and> udep_postReceiveRequest post reqs ep rnd s = Inr (n, s', acc, rnd'))"
proof
  obtain i r1 where i: "random_next_max (of_nat (length (ue_peer_qp_num_list ep))) rnd = Inr (i, r1)"
    "unat i < length (ue_peer_qp_num_list ep)" using random_index assms(2,3) by blast
  obtain j r2 where j: "random_next_max (of_nat (length (us_qp_num (fst s)))) r1 = Inr (j, r2)"
    "unat j < length (us_qp_num (fst s))" using random_index assms(4,5) by blast
  have "udep_postSendRequest post reqs ep rnd s =
     (case ud_postSendRequest post (ue_ah ep) (ue_peer_qp_num_list ep ! unat i) (unat j) reqs s of (n, s', acc) \<Rightarrow> Inr (n, s', acc, r2))"
    using assms(1) i(1) j(1) by (simp add: udep_postSendRequest_def)
  moreover have "ue_peer_qp_num_list ep ! unat i \<in> set (ue_peer_qp_num_list ep)" using i(2) by simp
  ultimately show "\<exists>qpn j n s' acc rnd'. qpn \<in> set (ue_peer_qp_num_list ep) \<and> j < length (us_qp_num (fst s))
            \<and> ud_postSendRequest post (ue_ah ep) qpn j reqs s = (n, s', acc)
            \<and> udep_postSendRequest post reqs ep rnd s = Inr (n, s', acc, rnd')"
    using j(2) by (cases "ud_postSendRequest post (ue_ah ep) (ue_peer_qp_num_list ep ! unat i) (unat j) reqs s") fastforce
next
  obtain j r1 where j: "random_next_max (of_nat (length (us_qp_num (fst s)))) rnd = Inr (j, r1)"
    "unat j < length (us_qp_num (fst s))" using random_index assms(4,5) by blast
  then have "udep_postReceiveRequest post reqs ep rnd s =
     (case ud_postReceiveRequest post (unat j) reqs s of (n, s', acc) \<Rightarrow> Inr (n, s', acc, r1))"
    using assms(1) by (simp add: udep_postReceiveRequest_def)
  then show "\<exists>j n s' acc rnd'. j < length (us_qp_num (fst s)) \<and> ud_postReceiveRequest post j reqs s = (n, s', acc)
            \<and> udep_postReceiveRequest post reqs ep rnd s = Inr (n, s', acc, rnd')"
    using j(2) by (cases "ud_postReceiveRequest post (unat j) reqs s") fastforce
qed

definition test_endpoint :: ud_endpoint where
  "test_endpoint = \<lparr>ue_connected = True, ue_peer_gid = [], ue_peer_lid = 0, ue_peer_qp_num_list = [21, 22], ue_ah = Some 1\<rparr>"

lemma endpoint_posts_in_range_witness:
  "\<exists>n s' acc rnd'. udep_postSendRequest (\<lambda>_. (0, None)) [3] test_endpoint 9 (ud_store_construct [17] 128 64, \<lambda>_. Request_new)
     = Inr (n, s', acc, rnd')"
  using endpoint_posts_in_range[of test_endpoint "(ud_store_construct [17] 128 64, \<lambda>_. Request_new)" "\<lambda>_. (0, None)" "[3]" 9]
  by (auto simp: test_endpoint_def ud_store_construct_def)

text \<open>A driver that also records the state each queue pair is moved to.\<close>

definition traced_modify :: "'d modify_qp \<Rightarrow> ('d \<times> (qp \<times> qp_state) list) modify_qp" where
  "traced_modify modify_qp qp attr flags = (\<lambda>(d, tr).
     case modify_qp qp attr flags d of (err, d') \<Rightarrow> (err, (d', tr @ [(qp, qa_qp_state attr)])))"

definition traced_create :: "'d create_qp \<Rightarrow> ('d \<times> (qp \<times> qp_state) list) create_qp" where
  "traced_create create_qp = (\<lambda>(d, tr). case create_qp d of (r, d') \<Rightarrow> (r, (d', tr)))"

definition ready_trace :: "qp \<Rightarrow> (qp \<times> qp_state) list" where
  "ready_trace q = [(q, IBV_QPS_RESET), (q, IBV_QPS_INIT), (q, IBV_QPS_RTR), (q, IBV_QPS_RTS)]"

lemma traced_modify_apply:
  "traced_modify f q attr flags (d, tr) = (fst (f q attr flags d), snd (f q attr flags d), tr @ [(q, qa_qp_state attr)])"
  by (simp add: traced_modify_def split: prod.splits)

lemma modify_all_trace:
  "modify_all (traced_modify f) q ts (d, tr) = (0, d', tr') \<Longrightarrow> tr' = tr @ map (\<lambda>t. (q, qa_qp_state (fst t))) ts"
proof (induction ts arbitrary: d tr)
  case (Cons t ts)
  obtain attr flags where t: "t = (attr, flags)" by (cases t)
  have "modify_all (traced_modify f) q ts (snd (f q attr flags d), tr @ [(q, qa_qp_state attr)]) = (0, d', tr')"
    using Cons.prems by (auto simp: t traced_modify_apply split: if_splits)
  from Cons.IH[OF this] show ?case by (simp add: t)
qed simp

lemma setupQueuePair_trace:
  "setupQueuePair (traced_modify f) port q (d, tr) = (0, d', tr') \<Longrightarrow> tr' = tr @ ready_trace q"
  unfolding setupQueuePair_def by (drule modify_all_trace) (simp add: setup_transitions_def ready_trace_def zero_attr_def)

lemma create_queue_pairs_trace:
  assumes "create_queue_pairs (traced_create c) (traced_modify f) port n (d, tr) = (Some nums, d', tr')"
  shows "\<exists>qs. length qs = n \<and> length nums = n \<and> tr' = tr @ concat (map ready_trace qs)"
  using assms
proof (induction n arbitrary: d tr nums)
  case (Suc n)
  from Suc.prems obtain q num d1 tr1 d2 tr2 nums' where c: "traced_create c (d, tr) = (Some (q, num), d1, tr1)"
    "setupQueuePair (traced_modify f) port q (d1, tr1) = (0, d2, tr2)"
    "create_queue_pairs (traced_create c) (traced_modify f) port n (d2, tr2) = (Some nums', d', tr')" "nums = num # nums'"
    by (auto split: prod.splits option.splits if_splits)
  have "tr1 = tr" using c(1) by (auto simp: traced_create_def split: prod.splits)
  moreover have "tr2 = tr1 @ ready_trace q" using setupQueuePair_trace[OF c(2)] .
  moreover obtain qs where "length qs = n" "length nums' = n" "tr' = tr2 @ concat (map ready_trace qs)"
    using Suc.IH[OF c(3)] by blast
  ultimately show ?case using c(4) by (intro exI[of _ "q # qs"]) simp
qed simp

text \<open>
  A store that constructs successfully is ready to post: it has the configured number of
  queue pairs, every one of them was moved through RESET, INIT, RTR and RTS in this order, one
  after the other, and their depth counters start at zero.
\<close>

lemma construct_ready:
  assumes "ud_construct (traced_create create_qp) (traced_modify modify_qp) port num_qp max_wr max_inline (d, []) = (Some st, d', tr)"
  shows "\<exists>qs. length qs = unat num_qp \<and> tr = concat (map ready_trace qs) \<and> length (us_qp_num st) = unat num_qp
     \<and> us_send_wr_depth st = replicate (unat num_qp) 0 \<and> us_recv_wr_depth st = replicate (unat num_qp) 0"
  using assms create_queue_pairs_trace[of create_qp modify_qp port "unat num_qp" d "[]"]
  by (auto simp: ud_construct_def ud_store_construct_def split: prod.splits option.splits)

lemma construct_ready_witness:
  "\<exists>st tr. ud_construct (traced_create (\<lambda>d. (Some (d, of_nat d), d + 1))) (traced_modify (\<lambda>_ _ _ d. (0, d))) 1 2 128 64 (5, [])
        = (Some st, 7, tr) \<and> tr = ready_trace 5 @ ready_trace 6 \<and> length (us_qp_num st) = 2"
proof -
  have "create_queue_pairs (traced_create (\<lambda>d. (Some (d, of_nat d), d + 1))) (traced_modify (\<lambda>_ _ _ d. (0, d))) 1 (Suc (Suc 0)) (5, [])
     = (Some [5, 6], 7, ready_trace 5 @ ready_trace 6)"
    by (simp add: traced_create_def setupQueuePair_def setup_transitions_def traced_modify_apply ready_trace_def zero_attr_def)
  then have run: "ud_construct (traced_create (\<lambda>d. (Some (d, of_nat d), d + 1))) (traced_modify (\<lambda>_ _ _ d. (0, d))) 1 2 128 64 (5, [])
     = (Some (ud_store_construct [5, 6] 128 64), 7, ready_trace 5 @ ready_trace 6)"
    unfolding numeral_2_eq_2[symmetric] by (simp add: ud_construct_def)
  show ?thesis using run construct_ready[OF run] by auto
qed

end
