(* ===== verification/Controller.thy ===== *)
theory Controller
  imports UDEndpoint "HOL-Library.List_Lexorder" "HOL-Library.Char_ord" "HOL-Library.AList" "HOL-Library.Signed_Division"
begin

text \<open>
  \<open>Controller\<close> of \<open>src/src/protocols/rdma_unreliable/controller.cpp\<close>: the exchange of the
  connection attributes, the node identifiers of peers and multicast groups, and the lookup of
  the session a packet belongs to.

  A session is \<open>node_id * 256 + session\<close>.  \<open>multicast_context_map_\<close> is a \<open>std::map\<close>, an
  association list in key order; \<open>node_id_map_\<close> is an association list in some order (no
  operation depends on it).  The construction of a multicast context (\<open>RdmaMulticastContext\<close>)
  is an argument of \<open>joinMulticast\<close>.
\<close>

section \<open>State\<close>

record mcast_group =
  mg_group_id :: int
  mg_replicas :: "string list"
  mg_qp_num :: "u32 list"

type_synonym node_address = "u8 list \<times> u32"
type_synonym attributes = "string \<rightharpoonup> string"

record controller =
  ct_local_addr :: string
  ct_device_name :: string
  ct_lid :: u16
  ct_gid :: "u8 list"
  ct_gid_index :: int
  ct_port_num :: u8
  ct_store :: ud_store
  ct_endpoint_map :: endpoint_map
  ct_multicast_context_map :: "(string \<times> mcast_group) list"
  ct_node_id_map :: "(node_address \<times> int) list"
  ct_peer_name_map :: "string \<rightharpoonup> int"
  ct_peer_name_rev_map :: "int \<rightharpoonup> string"
  ct_next_node_id :: int

definition Controller_new :: "string \<Rightarrow> string \<Rightarrow> u16 \<Rightarrow> u8 list \<Rightarrow> int \<Rightarrow> u8 \<Rightarrow> ud_store \<Rightarrow> controller" where
  "Controller_new local_addr device_name lid gid gid_index port_num st =
     \<lparr>ct_local_addr = local_addr, ct_device_name = device_name, ct_lid = lid, ct_gid = gid, ct_gid_index = gid_index,
      ct_port_num = port_num, ct_store = st, ct_endpoint_map = Map.empty, ct_multicast_context_map = [],
      ct_node_id_map = [], ct_peer_name_map = Map.empty, ct_peer_name_rev_map = Map.empty, ct_next_node_id = 0\<rparr>"

text \<open>\<open>operator []\<close> of \<open>std::map\<close>, with an assignment.\<close>

fun ordered_insert :: "string \<Rightarrow> 'v \<Rightarrow> (string \<times> 'v) list \<Rightarrow> (string \<times> 'v) list" where
  "ordered_insert k v [] = [(k, v)]"
| "ordered_insert k v ((k', v') # xs) =
     (if k = k' then (k, v) # xs else if k < k' then (k, v) # (k', v') # xs else (k', v') # ordered_insert k v xs)"

section \<open>Multicast groups\<close>

text \<open>
  \<open>construct\<close> is the result of constructing the context: its queue pair numbers, or None when
  it fails.  The node identifier is taken even then.
\<close>

definition joinMulticast :: "u32 list option \<Rightarrow> string \<Rightarrow> controller \<Rightarrow> int \<times> controller" where
  "joinMulticast construct multicast_addr c =
     (if map_of (ct_multicast_context_map c) multicast_addr \<noteq> None then (-1, c)
      else
        let node_id = ct_next_node_id c; c1 = c\<lparr>ct_next_node_id := node_id + 1\<rparr>
        in case construct of
             None \<Rightarrow> (-1, c1)
           | Some qps \<Rightarrow>
               (0, c1\<lparr>ct_multicast_context_map := ordered_insert multicast_addr
                         \<lparr>mg_group_id = node_id, mg_replicas = [], mg_qp_num = qps\<rparr> (ct_multicast_context_map c),
                      ct_peer_name_map := (ct_peer_name_map c)(multicast_addr \<mapsto> node_id),
                      ct_peer_name_rev_map := (ct_peer_name_rev_map c)(node_id \<mapsto> multicast_addr)\<rparr>))"

text \<open>\<open>leaveMulticast\<close> drops the context only; the names of the group stay.\<close>

definition leaveMulticast :: "string \<Rightarrow> controller \<Rightarrow> int \<times> controller" where
  "leaveMulticast multicast_addr c =
     (if map_of (ct_multicast_context_map c) multicast_addr = None then (-1, c)
      else (0, c\<lparr>ct_multicast_context_map := AList.delete multicast_addr (ct_multicast_context_map c)\<rparr>))"

definition getMulticastContext_addr :: "string \<Rightarrow> controller \<Rightarrow> mcast_group option" where
  "getMulticastContext_addr multicast_addr c = map_of (ct_multicast_context_map c) multicast_addr"

text \<open>\<open>setReplicas\<close> on the context of a group.\<close>

definition setReplicas :: "string \<Rightarrow> string list \<Rightarrow> controller \<Rightarrow> controller" where
  "setReplicas multicast_addr replicas c =
     c\<lparr>ct_multicast_context_map := map (\<lambda>(k, g). if k = multicast_addr then (k, g\<lparr>mg_replicas := replicas\<rparr>) else (k, g))
          (ct_multicast_context_map c)\<rparr>"

section \<open>Connections\<close>

definition prepareConnection :: "u16 \<Rightarrow> string \<Rightarrow> attributes \<Rightarrow> controller \<Rightarrow> int \<times> attributes \<times> controller" where
  "prepareConnection garbage peer_addr local_attr c =
     (case store_getOrCreateEndpoint garbage peer_addr (ct_endpoint_map c) of
        (None, m) \<Rightarrow> (-1, local_attr, c\<lparr>ct_endpoint_map := m\<rparr>)
      | (Some _, m) \<Rightarrow>
          let ext_qp_num_list = us_qp_num (ct_store c) @ concat (map (\<lambda>(_, g). mg_qp_num g) (ct_multicast_context_map c))
          in (0, local_attr(''lid'' \<mapsto> show_digits 10 (unat (ct_lid c)), ''gid'' \<mapsto> gid_string (ct_gid c),
                            ''qp'' \<mapsto> ToString (us_qp_num (ct_store c)), ''ext_qp'' \<mapsto> ToString ext_qp_num_list),
              c\<lparr>ct_endpoint_map := m\<rparr>))"

definition registerNode :: "string \<Rightarrow> u8 list \<Rightarrow> u32 list \<Rightarrow> controller \<Rightarrow> controller" where
  "registerNode peer_addr gid qp_num_list c =
     (let node_id = ct_next_node_id c
      in c\<lparr>ct_next_node_id := node_id + 1,
           ct_node_id_map := foldl (\<lambda>m qp_num. AList.update (gid, qp_num) node_id m) (ct_node_id_map c) qp_num_list,
           ct_peer_name_map := (ct_peer_name_map c)(peer_addr \<mapsto> node_id),
           ct_peer_name_rev_map := (ct_peer_name_rev_map c)(node_id \<mapsto> peer_addr)\<rparr>)"

text \<open>\<open>(uint16_t) std::stoi (s)\<close>, which throws on a string that is no \<open>int\<close>.\<close>

definition stoi_u16 :: "string \<Rightarrow> u16 outcome" where
  "stoi_u16 s = obind (stoi s) (\<lambda>i. Inr (word_of_int i))"

definition setupConnection ::
  "(ibv_ah_attr \<Rightarrow> nat option) \<Rightarrow> (nat \<Rightarrow> u32) \<Rightarrow> u16 \<Rightarrow> string \<Rightarrow> attributes \<Rightarrow> controller \<Rightarrow> (int \<times> controller) outcome" where
  "setupConnection create_ah g garbage peer_addr peer c =
     (case store_getOrCreateEndpoint garbage peer_addr (ct_endpoint_map c) of
        (None, m) \<Rightarrow> Inr (-1, c\<lparr>ct_endpoint_map := m\<rparr>)
      | (Some name, m) \<Rightarrow>
          (case (peer ''lid'', peer ''gid'', peer ''qp'', peer ''ext_qp'') of
             (Some lid_s, Some gid, Some qp, Some ext_qp) \<Rightarrow>
               (case stoi_u16 lid_s of
                  Inl f \<Rightarrow> Inl f
                | Inr lid \<Rightarrow>
                    (case udep_setupConnection create_ah g (ct_gid_index c) (ct_port_num c) gid lid (FromString qp) (the (m name)) of
                       (ret, ep) \<Rightarrow>
                         let c1 = c\<lparr>ct_endpoint_map := m(name \<mapsto> ep)\<rparr>
                         in if ret \<noteq> 0 then Inr (ret, c1)
                            else Inr (0, registerNode peer_addr (parse_gid g gid) (FromString ext_qp) c1)))
           | _ \<Rightarrow> Inr (-1, c\<lparr>ct_endpoint_map := m\<rparr>)))"

section \<open>Sessions\<close>

definition is_bond :: "string \<Rightarrow> bool" where
  "is_bond device_name \<longleftrightarrow> (\<exists>i\<in>set [0..<length device_name]. take 9 (drop i device_name) = ''mlx5_bond'')"

definition findSession_addr :: "u8 list \<Rightarrow> u32 \<Rightarrow> u8 \<Rightarrow> controller \<Rightarrow> int outcome" where
  "findSession_addr gid qp_num session c =
     (if is_bond (ct_device_name c)
      then (case filter (\<lambda>((_, q), _). q = qp_num) (ct_node_id_map c) of
              [] \<Rightarrow> Inr (-1)
            | [(_, node_id)] \<Rightarrow> Inr (node_id * 256 + uint session)
            | _ \<Rightarrow> Inl AssertFailed)
      else (case map_of (ct_node_id_map c) (gid, qp_num) of
              Some node_id \<Rightarrow> Inr (node_id * 256 + uint session)
            | None \<Rightarrow> Inr (-1)))"

definition findSession_name :: "string \<Rightarrow> u8 \<Rightarrow> controller \<Rightarrow> int" where
  "findSession_name peer_addr session c =
     (case ct_peer_name_map c peer_addr of None \<Rightarrow> -1 | Some node_id \<Rightarrow> node_id * 256 + uint session)"

definition getOrCreateEndpoint :: "u16 \<Rightarrow> int \<Rightarrow> controller \<Rightarrow> string option \<times> controller" where
  "getOrCreateEndpoint garbage session c =
     (case ct_peer_name_rev_map c (session sdiv 256) of
        None \<Rightarrow> (None, c)
      | Some name \<Rightarrow>
          (case store_getOrCreateEndpoint garbage name (ct_endpoint_map c) of (r, m) \<Rightarrow> (r, c\<lparr>ct_endpoint_map := m\<rparr>)))"

definition getMulticastContext :: "int \<Rightarrow> controller \<Rightarrow> mcast_group option" where
  "getMulticastContext session c =
     (case ct_peer_name_rev_map c (session sdiv 256) of
        None \<Rightarrow> None
      | Some peer_name \<Rightarrow> map_of (ct_multicast_context_map c) peer_name)"

text \<open>Position of the first occurrence in a list.\<close>

fun index_of :: "'a \<Rightarrow> 'a list \<Rightarrow> nat option" where
  "index_of x [] = None"
| "index_of x (y # ys) = (if y = x then Some 0 else map_option Suc (index_of x ys))"

text \<open>
  The scan of the groups: the group with its replica index, or None with the index variable
  as the last group left it.
\<close>

fun redirect_scan :: "string \<Rightarrow> (string \<times> mcast_group) list \<Rightarrow> int \<Rightarrow> mcast_group option \<times> int" where
  "redirect_scan name [] index = (None, index)"
| "redirect_scan name ((_, g) # gs) index =
     (case index_of name (mg_replicas g) of
        Some k \<Rightarrow> (Some g, int k)
      | None \<Rightarrow> redirect_scan name gs (int (length (mg_replicas g))))"

text \<open>
  \<open>peer_name_rev_map_[node_id]\<close> inserts the empty name for an unknown node when there is a
  replica to compare with.
\<close>

definition redirectMulticast :: "int \<Rightarrow> int \<Rightarrow> controller \<Rightarrow> int \<times> int \<times> controller" where
  "redirectMulticast sid index c =
     (let node_id = sid sdiv 256; session = sid smod 256; groups = ct_multicast_context_map c;
          name = (case ct_peer_name_rev_map c node_id of Some n \<Rightarrow> n | None \<Rightarrow> []);
          c' = (if ct_peer_name_rev_map c node_id = None \<and> list_ex (\<lambda>(_, g). mg_replicas g \<noteq> []) groups
                then c\<lparr>ct_peer_name_rev_map := (ct_peer_name_rev_map c)(node_id \<mapsto> [])\<rparr> else c)
      in case redirect_scan name groups index of
           (Some g, k) \<Rightarrow> (mg_group_id g * 256 + session, k, c')
         | (None, k) \<Rightarrow> (sid, k, c'))"

section \<open>Exchange of the attributes\<close>

lemma map_of_register:
  "map_of (foldl (\<lambda>m q. AList.update (gid, q) n m) m qs) a = (if fst a = gid \<and> snd a \<in> set qs then Some n else map_of m a)"
  by (induction qs arbitrary: m) (auto simp: update_conv')

lemma stoi_u16_show: "n < 2 ^ 31 \<Longrightarrow> stoi_u16 (show_digits 10 n) = Inr (of_nat n)"
  by (simp add: stoi_u16_def stoi_show)

lemma registerNode_finds:
  fixes gid :: "u8 list"
  defines "sid s c \<equiv> ct_next_node_id c * 256 + uint (s :: u8)"
  shows "findSession_name p s (registerNode p gid qps c) = sid s c"
    "\<not> is_bond (ct_device_name c) \<Longrightarrow> q \<in> set qps \<Longrightarrow> findSession_addr gid q s (registerNode p gid qps c) = Inr (sid s c)"
  by (simp_all add: findSession_name_def findSession_addr_def registerNode_def Let_def map_of_register sid_def)

lemma sdiv_session:
  assumes "0 \<le> n"
  shows "(n * 256 + uint (s :: u8)) sdiv 256 = n" "(n * 256 + uint (s :: u8)) smod 256 = uint s"
proof -
  have s: "0 \<le> uint s" "uint s < 256" using uint_bounded[of s] by simp_all
  then have q: "(n * 256 + uint s) div 256 = n" "(n * 256 + uint s) mod 256 = uint s" by simp_all
  have nn: "\<bar>n * 256 + uint s\<bar> = n * 256 + uint s" using assms s by linarith
  have "sgn (n * 256 + uint s) = 1 \<or> n = 0 \<and> uint s = 0"
  proof (cases "0 < n * 256 + uint s")
    case False
    then show ?thesis using s assms by linarith
  qed (simp only: sgn_pos simp_thms)
  then have "sgn (n * 256 + uint s) * n = n \<and> sgn (n * 256 + uint s) * uint s = uint s" by fastforce
  then show "(n * 256 + uint s) sdiv 256 = n" "(n * 256 + uint s) smod 256 = uint s"
    by (simp_all only: signed_divide_int_def signed_modulo_int_def nn q abs_numeral sgn_pos zero_less_numeral mult_1_right)
qed

text \<open>The attributes of a controller, and setting up a connection from them.\<close>

definition ext_qp_list :: "controller \<Rightarrow> u32 list" where
  "ext_qp_list a = us_qp_num (ct_store a) @ concat (map (\<lambda>(_, g). mg_qp_num g) (ct_multicast_context_map a))"

definition ud_attributes :: "controller \<Rightarrow> attributes" where
  "ud_attributes a = [''lid'' \<mapsto> show_digits 10 (unat (ct_lid a)), ''gid'' \<mapsto> gid_string (ct_gid a),
     ''qp'' \<mapsto> ToString (us_qp_num (ct_store a)), ''ext_qp'' \<mapsto> ToString (ext_qp_list a)]"

lemma prepareConnection_new:
  "n \<noteq> [] \<Longrightarrow> prepareConnection ga n Map.empty a
     = (0, ud_attributes a, a\<lparr>ct_endpoint_map := (if ct_endpoint_map a n = None then (ct_endpoint_map a)(n \<mapsto> RdmaUDEndPoint_new ga) else ct_endpoint_map a)\<rparr>)"
  by (auto simp: prepareConnection_def store_getOrCreateEndpoint_def ud_attributes_def ext_qp_list_def Let_def)

definition ud_connected_endpoint :: "controller \<Rightarrow> nat \<Rightarrow> ud_endpoint \<Rightarrow> ud_endpoint" where
  "ud_connected_endpoint a h ep = ep\<lparr>ue_ah := Some h, ue_peer_gid := gid_string (ct_gid a), ue_peer_lid := ct_lid a,
     ue_peer_qp_num_list := us_qp_num (ct_store a), ue_connected := True\<rparr>"

lemma setupConnection_new:
  assumes gid: "length (ct_gid a) = 16" and n: "n \<noteq> []"
    and new: "\<And>ep. ct_endpoint_map b n = Some ep \<Longrightarrow> \<not> ue_connected ep"
    and ah: "create_ah (peer_ah_attr (ct_gid_index b) (ct_port_num b) (ct_gid a) (ct_lid a)) = Some h"
  shows "\<exists>m ep. setupConnection create_ah g gb n (ud_attributes a) b = Inr (0, registerNode n (ct_gid a) (ext_qp_list a)
     (b\<lparr>ct_endpoint_map := m(n \<mapsto> ud_connected_endpoint a h ep)\<rparr>))"
proof -
  have lid: "stoi_u16 (show_digits 10 (unat (ct_lid a))) = Inr (ct_lid a)"
    using stoi_u16_show[of "unat (ct_lid a)"] order_less_trans[OF unat_u16_less, of "2 ^ 31" "ct_lid a"] by simp
  have parsed: "parse_gid g (gid_string (ct_gid a)) = ct_gid a" "FromString (ToString xs) = xs" for xs
    using gid by (simp_all add: parse_gid_def istream_of_def gid_string_join parse_gid_loop_join FromString_def from_stream_ToString)
  obtain m ep where "store_getOrCreateEndpoint gb n (ct_endpoint_map b) = (Some n, m)" "m n = Some ep" "\<not> ue_connected ep"
    using n new by (cases "ct_endpoint_map b n") (auto simp: store_getOrCreateEndpoint_def RdmaUDEndPoint_new_def)
  then have "setupConnection create_ah g gb n (ud_attributes a) b = Inr (0, registerNode n (ct_gid a) (ext_qp_list a)
     (b\<lparr>ct_endpoint_map := m(n \<mapsto> ud_connected_endpoint a h ep)\<rparr>))"
    using lid parsed ah by (simp add: setupConnection_def udep_setupConnection_def ud_attributes_def ud_connected_endpoint_def Let_def)
  then show ?thesis by blast
qed

text \<open>
  A connection is set up for what the peer announced.  When side A prepares its attributes
  and side B, which has no connected endpoint of that name yet, sets up the connection from
  them, B's endpoint becomes connected to A's GID, LID and queue pair numbers; from then on B
  files the packets of each queue pair A announced, its multicast ones included, under the
  session of that name, and this session leads back to the endpoint.
\<close>

lemma connection_exchange:
  assumes gid: "length (ct_gid a) = 16" and pa: "b_name \<noteq> []" and pb: "a_name \<noteq> []" and id: "0 \<le> ct_next_node_id b"
    and prep: "prepareConnection ga b_name Map.empty a = (ret, attrs, a')"
    and new: "\<And>ep. ct_endpoint_map b a_name = Some ep \<Longrightarrow> \<not> ue_connected ep"
    and ah: "create_ah (peer_ah_attr (ct_gid_index b) (ct_port_num b) (ct_gid a) (ct_lid a)) = Some h"
    and bond: "\<not> is_bond (ct_device_name b)"
    and q: "q \<in> set (us_qp_num (ct_store a)) \<or> (\<exists>k g. (k, g) \<in> set (ct_multicast_context_map a) \<and> q \<in> set (mg_qp_num g))"
  shows "\<exists>b' ep sid. setupConnection create_ah g gb a_name attrs b = Inr (0, b')
     \<and> ct_endpoint_map b' a_name = Some ep \<and> ue_connected ep \<and> ue_ah ep = Some h
     \<and> ue_peer_qp_num_list ep = us_qp_num (ct_store a) \<and> ue_peer_lid ep = ct_lid a
     \<and> findSession_addr (ct_gid a) q s b' = Inr sid \<and> findSession_name a_name s b' = sid
     \<and> getOrCreateEndpoint gb sid b' = (Some a_name, b')"
proof -
  have attrs: "attrs = ud_attributes a" using prep prepareConnection_new [OF pa] by simp
  obtain m ep where run: "setupConnection create_ah g gb a_name attrs b = Inr (0, registerNode a_name (ct_gid a) (ext_qp_list a)
      (b\<lparr>ct_endpoint_map := m(a_name \<mapsto> ud_connected_endpoint a h ep)\<rparr>))"
    using setupConnection_new [where create_ah = create_ah, OF gid pb new ah] unfolding attrs by blast
  define b1 where "b1 = b\<lparr>ct_endpoint_map := m(a_name \<mapsto> ud_connected_endpoint a h ep)\<rparr>"
  define b' where "b' = registerNode a_name (ct_gid a) (ext_qp_list a) b1"
  let ?sid = "ct_next_node_id b1 * 256 + uint s"
  have "q \<in> set (ext_qp_list a)" using q by (force simp: ext_qp_list_def)
  then have find: "findSession_addr (ct_gid a) q s b' = Inr ?sid" "findSession_name a_name s b' = ?sid"
    using registerNode_finds bond by (simp_all add: b1_def b'_def)
  have "getOrCreateEndpoint gb ?sid b' = (Some a_name, b')"
    using id pb by (simp add: getOrCreateEndpoint_def sdiv_session registerNode_def Let_def b1_def b'_def store_getOrCreateEndpoint_def)
  moreover have "ct_endpoint_map b' a_name = Some (ud_connected_endpoint a h ep)"
    by (simp add: registerNode_def Let_def b1_def b'_def)
  ultimately show ?thesis using run find by (auto simp: ud_connected_endpoint_def b1_def b'_def)
qed

definition test_controller :: "u32 \<Rightarrow> controller" where
  "test_controller q = Controller_new ''10.0.0.1'' ''mlx5_0'' 7 (replicate 16 254) 3 1 (ud_store_construct [q] 128 64)"

lemma connection_exchange_witness:
  "\<exists>attrs a' b'. prepareConnection 0 ''b'' Map.empty (test_controller 17) = (0, attrs, a')
     \<and> setupConnection (\<lambda>_. Some 5) (\<lambda>_. 0) 0 ''a'' attrs (test_controller 21) = Inr (0, b')
     \<and> findSession_addr (replicate 16 254) 17 9 b' = Inr (findSession_name ''a'' 9 b')"
proof -
  obtain attrs a' where prep: "prepareConnection 0 ''b'' Map.empty (test_controller 17) = (0, attrs, a')"
    by (simp add: prepareConnection_def store_getOrCreateEndpoint_def test_controller_def Controller_new_def)
  have "length (ct_gid (test_controller 17)) = 16" "(0::int) \<le> ct_next_node_id (test_controller 21)"
    "\<And>ep. ct_endpoint_map (test_controller 21) ''a'' = Some ep \<Longrightarrow> \<not> ue_connected ep"
    "\<not> is_bond (ct_device_name (test_controller 21))" "17 \<in> set (us_qp_num (ct_store (test_controller 17)))"
    by (simp_all add: test_controller_def Controller_new_def ud_store_construct_def is_bond_def upt_rec)
  then show ?thesis
    using connection_exchange[of "test_controller 17" "''b''" "''a''" "test_controller 21" 0 0 attrs a' "\<lambda>_. Some 5" 5 17 "\<lambda>_. 0" 0 9] prep
    by (auto simp: test_controller_def Controller_new_def)
qed

section \<open>Uniqueness of sessions\<close>

text \<open>The operations of the controller in any order, from a new controller.\<close>

inductive ctrl_run :: "controller \<Rightarrow> controller \<Rightarrow> bool" for c0 where
  ctrl_init: "ctrl_run c0 c0"
| ctrl_join: "ctrl_run c0 c \<Longrightarrow> ctrl_run c0 (snd (joinMulticast construct addr c))"
| ctrl_leave: "ctrl_run c0 c \<Longrightarrow> ctrl_run c0 (snd (leaveMulticast addr c))"
| ctrl_replicas: "ctrl_run c0 c \<Longrightarrow> ctrl_run c0 (setReplicas addr replicas c)"
| ctrl_prepare: "ctrl_run c0 c \<Longrightarrow> prepareConnection ga peer_addr attrs c = (ret, attrs', c') \<Longrightarrow> ctrl_run c0 c'"
| ctrl_setup: "ctrl_run c0 c \<Longrightarrow> setupConnection create_ah g ga peer_addr attrs c = Inr (ret, c') \<Longrightarrow> ctrl_run c0 c'"
| ctrl_endpoint: "ctrl_run c0 c \<Longrightarrow> ctrl_run c0 (snd (getOrCreateEndpoint ga session c))"
| ctrl_redirect: "ctrl_run c0 c \<Longrightarrow> redirectMulticast sid index c = (sid', index', c') \<Longrightarrow> ctrl_run c0 c'"

text \<open>
  Node identifiers are below the counter; the identifier of a name, of a group and of an
  address leads back to the name that was registered with it.
\<close>

definition ids_ok :: "int \<Rightarrow> (string \<rightharpoonup> int) \<Rightarrow> (int \<rightharpoonup> string) \<Rightarrow> (node_address \<times> int) list \<Rightarrow> (string \<times> mcast_group) list \<Rightarrow> bool" where
  "ids_ok nxt names rnames nodes groups \<longleftrightarrow> 0 \<le> nxt
     \<and> (\<forall>p n. names p = Some n \<longrightarrow> 0 \<le> n \<and> n < nxt \<and> rnames n = Some p)
     \<and> (\<forall>(a, n)\<in>set nodes. 0 \<le> n \<and> n < nxt \<and> (\<exists>p. p \<noteq> [] \<and> rnames n = Some p))
     \<and> (\<forall>(p, g)\<in>set groups. 0 \<le> mg_group_id g \<and> mg_group_id g < nxt \<and> rnames (mg_group_id g) = Some p)"

definition ctrl_inv :: "controller \<Rightarrow> bool" where
  "ctrl_inv c \<longleftrightarrow> ids_ok (ct_next_node_id c) (ct_peer_name_map c) (ct_peer_name_rev_map c) (ct_node_id_map c) (ct_multicast_context_map c)"

lemma set_ordered_insert: "x \<in> set (ordered_insert k v xs) \<Longrightarrow> x = (k, v) \<or> x \<in> set xs"
  by (induction xs) (auto split: if_splits)

lemma set_alist_update: "x \<in> set (AList.update k v xs) \<Longrightarrow> x = (k, v) \<or> x \<in> set xs"
  by (induction xs) (auto split: if_splits)

lemma set_register: "x \<in> set (foldl (\<lambda>m q. AList.update (gid, q) n m) m qs) \<Longrightarrow> snd x = n \<or> x \<in> set m"
  by (induction qs arbitrary: m) (fastforce dest: set_alist_update)+

lemma ids_ok_group:
  assumes "ids_ok nxt names rnames nodes groups"
  shows "ids_ok (nxt + 1) (names(p \<mapsto> nxt)) (rnames(nxt \<mapsto> p)) nodes
     (ordered_insert p \<lparr>mg_group_id = nxt, mg_replicas = rs, mg_qp_num = qs\<rparr> groups)"
  using assms by (fastforce simp: ids_ok_def dest!: set_ordered_insert)

lemma ids_ok_node:
  assumes "ids_ok nxt names rnames nodes groups" "p \<noteq> []"
  shows "ids_ok (nxt + 1) (names(p \<mapsto> nxt)) (rnames(nxt \<mapsto> p)) (foldl (\<lambda>m q. AList.update (gid, q) nxt m) nodes qs) groups"
  using assms by (fastforce simp: ids_ok_def dest!: set_register)

lemma ids_ok_skip: "ids_ok nxt names rnames nodes groups \<Longrightarrow> ids_ok (nxt + 1) names rnames nodes groups"
  by (fastforce simp: ids_ok_def)

lemma ids_ok_default: "ids_ok nxt names rnames nodes groups \<Longrightarrow> rnames n = None \<Longrightarrow> ids_ok nxt names (rnames(n \<mapsto> p)) nodes groups"
  by (fastforce simp: ids_ok_def)

lemma ids_ok_groups:
  assumes "ids_ok nxt names rnames nodes groups"
    and "\<And>p g. (p, g) \<in> set groups' \<Longrightarrow> \<exists>g0. (p, g0) \<in> set groups \<and> mg_group_id g0 = mg_group_id g"
  shows "ids_ok nxt names rnames nodes groups'"
  using assms unfolding ids_ok_def by fastforce

lemma joinMulticast_inv: "ctrl_inv c \<Longrightarrow> ctrl_inv (snd (joinMulticast construct addr c))"
  by (auto simp: ctrl_inv_def joinMulticast_def Let_def split: option.splits intro: ids_ok_skip ids_ok_group)

lemma leaveMulticast_inv:
  assumes "ctrl_inv c"
  shows "ctrl_inv (snd (leaveMulticast addr c))"
proof -
  have "ids_ok (ct_next_node_id c) (ct_peer_name_map c) (ct_peer_name_rev_map c) (ct_node_id_map c)
      (AList.delete addr (ct_multicast_context_map c))"
    by (rule ids_ok_groups[OF assms[unfolded ctrl_inv_def]]) (auto simp: AList.delete_eq)
  with assms show ?thesis by (simp add: ctrl_inv_def leaveMulticast_def)
qed

lemma setReplicas_inv: "ctrl_inv c \<Longrightarrow> ctrl_inv (setReplicas addr rs c)"
  unfolding ctrl_inv_def setReplicas_def
  by simp (erule ids_ok_groups, force split: if_splits)

lemma prepareConnection_inv: "ctrl_inv c \<Longrightarrow> prepareConnection ga p attrs c = (ret, attrs', c') \<Longrightarrow> ctrl_inv c'"
  by (auto simp: ctrl_inv_def prepareConnection_def Let_def split: prod.splits option.splits)

lemma registerNode_inv: "ctrl_inv c \<Longrightarrow> p \<noteq> [] \<Longrightarrow> ctrl_inv (registerNode p gid qps c)"
  by (simp add: ctrl_inv_def registerNode_def Let_def ids_ok_node)

lemma setupConnection_inv:
  assumes "ctrl_inv c" "setupConnection create_ah g ga p attrs c = Inr (ret, c')"
  shows "ctrl_inv c'"
proof -
  have e: "ctrl_inv (c\<lparr>ct_endpoint_map := m\<rparr>)" for m using assms(1) by (simp add: ctrl_inv_def)
  have "p \<noteq> []" if "store_getOrCreateEndpoint ga p (ct_endpoint_map c) = (Some name, m)" for name m
    using that by (auto simp: store_getOrCreateEndpoint_def)
  then show ?thesis using assms(2) e
    by (auto simp: setupConnection_def Let_def registerNode_inv split: prod.splits option.splits sum.splits if_splits)
qed

lemma getOrCreateEndpoint_inv: "ctrl_inv c \<Longrightarrow> ctrl_inv (snd (getOrCreateEndpoint ga sid c))"
  by (auto simp: ctrl_inv_def getOrCreateEndpoint_def split: prod.splits option.splits)

lemma redirectMulticast_inv: "ctrl_inv c \<Longrightarrow> redirectMulticast sid index c = (sid', index', c') \<Longrightarrow> ctrl_inv c'"
  by (auto simp: ctrl_inv_def redirectMulticast_def Let_def ids_ok_default split: prod.splits option.splits if_splits)

lemma ctrl_run_inv:
  assumes "ctrl_run c0 c" "ctrl_inv c0"
  shows "ctrl_inv c"
  using assms
  by (induction rule: ctrl_run.induct)
    (auto intro: joinMulticast_inv leaveMulticast_inv setReplicas_inv prepareConnection_inv setupConnection_inv
      getOrCreateEndpoint_inv redirectMulticast_inv)

lemma Controller_new_inv: "ctrl_inv (Controller_new la dn lid gid gi pn qps)"
  by (simp add: ctrl_inv_def ids_ok_def Controller_new_def)

lemma ctrl_invD:
  assumes "ctrl_inv c"
  shows "ct_peer_name_map c p = Some n \<Longrightarrow> 0 \<le> n \<and> ct_peer_name_rev_map c n = Some p"
    "(a, n) \<in> set (ct_node_id_map c) \<Longrightarrow> 0 \<le> n \<and> (\<exists>p. p \<noteq> [] \<and> ct_peer_name_rev_map c n = Some p)"
    "(p, g) \<in> set (ct_multicast_context_map c) \<Longrightarrow> 0 \<le> mg_group_id g \<and> ct_peer_name_rev_map c (mg_group_id g) = Some p"
  using assms unfolding ctrl_inv_def ids_ok_def by fast+

lemma findSession_name_node:
  assumes "ctrl_inv c" "findSession_name p s c = sid" "sid \<noteq> -1"
  shows "0 \<le> sid" "ct_peer_name_rev_map c (sid sdiv 256) = Some p" "sid smod 256 = uint s"
proof -
  obtain n where n: "ct_peer_name_map c p = Some n" "sid = n * 256 + uint s"
    using assms(2,3) by (auto simp: findSession_name_def split: option.splits)
  then show "0 \<le> sid" "ct_peer_name_rev_map c (sid sdiv 256) = Some p" "sid smod 256 = uint s"
    using ctrl_invD(1)[OF assms(1) n(1)] by (simp_all add: sdiv_session)
qed

lemma findSession_addr_node:
  assumes "findSession_addr gid qp s c = Inr sid" "sid \<noteq> -1"
  obtains a n where "(a, n) \<in> set (ct_node_id_map c)" "sid = n * 256 + uint s"
proof (cases "is_bond (ct_device_name c)")
  case True
  then obtain a n where f: "filter (\<lambda>((_, q), _). q = qp) (ct_node_id_map c) = [(a, n)]" "sid = n * 256 + uint s"
    using assms by (auto simp: findSession_addr_def split: list.splits)
  have "(a, n) \<in> set (filter (\<lambda>((_, q), _). q = qp) (ct_node_id_map c))" by (simp only: f(1)) simp
  then have "(a, n) \<in> set (ct_node_id_map c)" by simp
  then show ?thesis using f(2) by (rule that)
next
  case False
  then show ?thesis using assms that by (auto simp: findSession_addr_def split: option.splits dest: map_of_SomeD)
qed



end
