(* ===== verification/Congestion.thy ===== *)
theory Congestion
  imports Prelude
begin

text \<open>
  The retransmission timer and the congestion window of
  \<open>src/src/protocols/rdma_unreliable/context.cpp\<close> and \<open>context_mcast.cpp\<close>:
  \<open>updateRTO\<close> and \<open>updateWndOnSuccess\<close>, whose text is the same in both but for the
  constants.

  All counters are 64-bit or 32-bit words that wrap.  The lemmas relate the timer to the
  estimator over natural numbers it computes, bound the congestion window, and show what the
  missing bound on \<open>incr\<close> leads to.
\<close>

section \<open>The retransmission timer\<close>

record rto_state =
  rto_srtt :: u64
  rto_rttval :: u64
  rto_rto :: u64

definition RTO_new :: "u64 \<Rightarrow> rto_state" where
  "RTO_new kDefaultRTO = \<lparr>rto_srtt = 0, rto_rttval = 0, rto_rto = kDefaultRTO\<rparr>"

definition kDefaultRTO :: u64 where "kDefaultRTO = 4096"
definition kMinRTO :: u64 where "kMinRTO = 128"
definition kMaxRTO :: u64 where "kMaxRTO = 8196"

definition mcast_kDefaultRTO :: u64 where "mcast_kDefaultRTO = 8196"
definition mcast_kMinRTO :: u64 where "mcast_kMinRTO = 64"
definition mcast_kMaxRTO :: u64 where "mcast_kMaxRTO = 8196 * 2"

text \<open>The sample of an acknowledgement: the 48-bit difference of the time stamps.\<close>

definition rtt_sample :: "u64 \<Rightarrow> u64 \<Rightarrow> u64" where
  "rtt_sample current_ts ts = (current_ts - ts) AND (2 ^ 48 - 1)"

text \<open>\<open>long delta\<close> reads the difference as a signed value; its absolute value is added as unsigned.\<close>

definition updateRTO :: "u64 \<Rightarrow> u64 \<Rightarrow> u64 \<Rightarrow> rto_state \<Rightarrow> rto_state" where
  "updateRTO min_rto max_rto rtt r =
     (let r1 = (if rto_srtt r = 0 then r\<lparr>rto_srtt := rtt, rto_rttval := rtt div 2\<rparr>
                else
                  let d = rtt - rto_srtt r; delta = (if sint d < 0 then - d else d);
                      srtt = (7 * rto_srtt r + rtt) div 8
                  in r\<lparr>rto_rttval := (3 * rto_rttval r + delta) div 4, rto_srtt := (if srtt < 1 then 1 else srtt)\<rparr>);
          rto = rto_srtt r1 + 4 * rto_rttval r1
      in r1\<lparr>rto_rto := min (max min_rto rto) max_rto\<rparr>)"

section \<open>The congestion window\<close>

record cwnd_state =
  cw_cwnd :: u32
  cw_rwnd :: u32
  cw_ssthresh :: u32
  cw_incr :: u32

definition cwnd_new :: "u32 \<Rightarrow> cwnd_state" where
  "cwnd_new wnd_size = \<lparr>cw_cwnd = 1, cw_rwnd = wnd_size, cw_ssthresh = 2, cw_incr = 0\<rparr>"

definition kMinSSThreshValue :: u32 where "kMinSSThreshValue = 2"
definition kResendValue :: u32 where "kResendValue = 2"

text \<open>
  \<open>updateWndOnSuccess\<close> up to the queue's window: 32-bit arithmetic, dividing by \<open>incr\<close> and
  by the packet size.
\<close>

definition updateWnd :: "u32 \<Rightarrow> u32 \<Rightarrow> 'a cwnd_state_scheme \<Rightarrow> 'a cwnd_state_scheme outcome" where
  "updateWnd mtu_size rwnd e =
     (let e1 =
        (if cw_cwnd e < cw_ssthresh e
         then Inr (e\<lparr>cw_cwnd := cw_cwnd e + 1, cw_incr := cw_incr e + mtu_size\<rparr>)
         else
           let incr1 = (if cw_incr e < mtu_size then mtu_size else cw_incr e) in
           if incr1 = 0 then Inl DivByZero
           else
             let incr2 = incr1 + ((mtu_size * mtu_size) div incr1 + mtu_size div 16) in
             if (cw_cwnd e + 1) * mtu_size \<le> incr2
             then if mtu_size = 0 then Inl DivByZero
                  else Inr (e\<lparr>cw_incr := incr2, cw_cwnd := (incr2 + mtu_size - 1) div mtu_size\<rparr>)
             else Inr (e\<lparr>cw_incr := incr2\<rparr>))
      in case e1 of
           Inl f \<Rightarrow> Inl f
         | Inr e2 \<Rightarrow> Inr (e2\<lparr>cw_rwnd := rwnd, cw_cwnd := min rwnd (cw_cwnd e2)\<rparr>))"

text \<open>
  The reaction of \<open>sendDataPackets\<close> to a retransmission; \<open>cwnd'\<close> is the new window, which
  differs between the contexts.
\<close>

definition backoffWnd :: "(u32 \<Rightarrow> u32) \<Rightarrow> u32 \<Rightarrow> 'a cwnd_state_scheme \<Rightarrow> 'a cwnd_state_scheme" where
  "backoffWnd cwnd' mtu_size e =
     (let s = max kMinSSThreshValue (cw_cwnd e div 2)
      in e\<lparr>cw_ssthresh := s, cw_cwnd := cwnd' s, cw_incr := mtu_size\<rparr>)"

section \<open>The timer computes the estimator\<close>

text \<open>The estimator without overflow: smoothed round trip time and deviation.\<close>

definition rtt_step :: "nat \<Rightarrow> nat \<times> nat \<Rightarrow> nat \<times> nat" where
  "rtt_step rtt = (\<lambda>(srtt, var).
     if srtt = 0 then (rtt, rtt div 2)
     else (max 1 ((7 * srtt + rtt) div 8), (3 * var + (if rtt < srtt then srtt - rtt else rtt - srtt)) div 4))"

definition rto_of :: "nat \<Rightarrow> nat \<Rightarrow> nat \<times> nat \<Rightarrow> nat" where
  "rto_of lo hi = (\<lambda>(srtt, var). min (max lo (srtt + 4 * var)) hi)"

definition rtt_ok :: "nat \<times> nat \<Rightarrow> bool" where
  "rtt_ok = (\<lambda>(srtt, var). srtt < 2 ^ 48 \<and> var < 2 ^ 48)"

lemma rtt_step_ok: "rtt_ok s \<Longrightarrow> rtt < 2 ^ 48 \<Longrightarrow> rtt_ok (rtt_step rtt s)"
  by (auto simp: rtt_ok_def rtt_step_def split: prod.splits)

lemma unat_rtt_sample: "unat (rtt_sample now ts) < 2 ^ 48"
proof -
  have "rtt_sample now ts = take_bit 48 (now - ts)" by (simp add: rtt_sample_def take_bit_eq_mask mask_eq_exp_minus_1)
  then show ?thesis using take_bit_nat_less_exp[of 48 "unat (now - ts)"] by (simp add: unsigned_take_bit_eq)
qed

lemma sint_u64_negative: "sint (w :: u64) < 0 \<longleftrightarrow> 2 ^ 63 \<le> unat w"
proof -
  have "sint w < 0 \<longleftrightarrow> bit (unat w) 63" using bit_last_iff[of w] by (simp add: bit_unsigned_iff)
  also have "\<dots> \<longleftrightarrow> odd (unat w div 2 ^ 63)" by (simp add: bit_iff_odd)
  also have "\<dots> \<longleftrightarrow> 2 ^ 63 \<le> unat w"
  proof (cases "2 ^ 63 \<le> unat w")
    case True
    then have "unat w div 2 ^ 63 = 1" using unat_u64_less[of w] by (intro div_nat_eqI) simp_all
    with True show ?thesis by simp
  qed simp
  finally show ?thesis .
qed

lemma unat_uminus_u64:
  assumes "d \<noteq> (0 :: u64)"
  shows "unat (- d) = 2 ^ 64 - unat d"
proof -
  have "(unat d + unat (- d)) mod 2 ^ 64 = 0" using unat_word_ariths(1)[of d "- d"] by simp
  moreover have "0 < unat d" using assms by (simp add: unat_gt_0)
  ultimately have "2 ^ 64 \<le> unat d + unat (- d)" by (metis add_gr_0 leI mod_less neq0_conv)
  then have "(unat d + unat (- d)) mod 2 ^ 64 = unat d + unat (- d) - 2 ^ 64"
    using unat_u64_less[of d] unat_u64_less[of "- d"] by (simp add: mod_if)
  then show ?thesis using \<open>_ mod _ = 0\<close> \<open>2 ^ 64 \<le> _\<close> by linarith
qed

lemma abs_diff_word:
  assumes "unat a < 2 ^ 48" "unat b < 2 ^ 48"
  shows "unat (if sint (a - b :: u64) < 0 then - (a - b) else a - b) = (if unat a < unat b then unat b - unat a else unat a - unat b)"
proof (cases "unat a < unat b")
  case True
  have u: "unat (b - a) = unat b - unat a" using True by (intro unat_sub) (simp add: word_le_nat_alt)
  have "b - a \<noteq> 0" using True by auto
  from unat_uminus_u64[OF this] have "2 ^ 63 \<le> unat (a - b)" using u assms by simp
  then show ?thesis using True u by (simp add: sint_u64_negative)
next
  case False
  then have u: "unat (a - b) = unat a - unat b" by (intro unat_sub) (simp add: word_le_nat_alt)
  then have "unat (a - b) < 2 ^ 63" using assms by simp
  then show ?thesis using False u by (simp add: sint_u64_negative)
qed

lemma unat_linear_u64:
  fixes x y :: u64
  assumes "unat x < 2 ^ 48" "unat y < 2 ^ 48" "k \<le> 8"
  shows "unat (of_nat k * x + y) = k * unat x + unat y"
proof -
  have "k * unat x \<le> 8 * unat x" using assms(3) by (rule mult_le_mono1)
  moreover have "8 * unat x + unat y < 2 ^ 64" using assms(1,2) by simp
  ultimately have b: "k * unat x + unat y < 2 ^ 64" by linarith
  have k: "unat (of_nat k :: u64) = k" using assms(3) by (simp add: unat_of_nat)
  show ?thesis using b by (simp add: unat_word_ariths k mod_add_left_eq)
qed

lemma updateRTO_step:
  assumes s: "rtt_ok s" "s = (unat (rto_srtt r), unat (rto_rttval r))" and rtt: "unat rtt < 2 ^ 48"
    and r': "r' = updateRTO lo hi rtt r"
  shows "(unat (rto_srtt r'), unat (rto_rttval r')) = rtt_step (unat rtt) s
     \<and> unat (rto_rto r') = rto_of (unat lo) (unat hi) (rtt_step (unat rtt) s)"
proof -
  have b: "unat (rto_srtt r) < 2 ^ 48" "unat (rto_rttval r) < 2 ^ 48" using s by (auto simp: rtt_ok_def)
  define delta where "delta = (let d = rtt - rto_srtt r in if sint d < 0 then - d else d)"
  have delta: "unat delta = (if unat rtt < unat (rto_srtt r) then unat (rto_srtt r) - unat rtt else unat rtt - unat (rto_srtt r))"
    unfolding delta_def Let_def by (rule abs_diff_word[OF rtt b(1)])
  then have db: "unat delta < 2 ^ 48" using rtt b(1) by (simp add: less_imp_diff_less)
  have srtt: "unat ((7 * rto_srtt r + rtt) div 8) = (7 * unat (rto_srtt r) + unat rtt) div 8"
    using unat_linear_u64[OF b(1) rtt, of 7] by (simp add: unat_div)
  have var: "unat ((3 * rto_rttval r + delta) div 4) = (3 * unat (rto_rttval r) + unat delta) div 4"
    using unat_linear_u64[OF b(2) db, of 3] by (simp add: unat_div)
  have half: "unat (rtt div 2) = unat rtt div 2" by (simp add: unat_div)
  have est: "(unat (rto_srtt r'), unat (rto_rttval r')) = rtt_step (unat rtt) s"
  proof (cases "rto_srtt r = 0")
    case True
    then show ?thesis by (simp add: r' updateRTO_def rtt_step_def s(2) half Let_def)
  next
    case False
    have one: "unat (if x < 1 then 1 else x) = max 1 (unat x)" for x :: u64
      by (cases "x = 0") (auto simp: max_def unat_gt_0 Suc_leI)
    have "unat (rto_srtt r) \<noteq> 0" using False by (simp add: unat_eq_0)
    then show ?thesis using False
      by (simp add: r' updateRTO_def rtt_step_def s(2) Let_def delta_def[unfolded Let_def, symmetric] one srtt var delta
          del: word_less_1)
  qed
  have ok': "unat (rto_srtt r') < 2 ^ 48" "unat (rto_rttval r') < 2 ^ 48"
    using rtt_step_ok[OF s(1) rtt] unfolding est[symmetric] by (simp_all add: rtt_ok_def)
  have clamp: "unat (min (max lo x) hi) = min (max (unat lo) (unat x)) (unat hi)" for x
    by (simp add: min_def max_def word_le_nat_alt)
  have "rto_rto r' = min (max lo (rto_srtt r' + 4 * rto_rttval r')) hi" by (simp add: r' updateRTO_def Let_def)
  moreover have "unat (rto_srtt r' + 4 * rto_rttval r') = unat (rto_srtt r') + 4 * unat (rto_rttval r')"
    using unat_linear_u64[OF ok'(2,1), of 4] by (simp add: add.commute)
  ultimately show ?thesis unfolding est[symmetric] by (simp add: clamp rto_of_def)
qed

lemma updateRTO_run:
  assumes "\<forall>x\<in>set samples. unat x < 2 ^ 48"
  shows "let r = fold (updateRTO lo hi) samples (RTO_new d); s = fold rtt_step (map unat samples) (0, 0) in
    rtt_ok s \<and> s = (unat (rto_srtt r), unat (rto_rttval r)) \<and> (samples \<noteq> [] \<longrightarrow> unat (rto_rto r) = rto_of (unat lo) (unat hi) s)"
  using assms
proof (induction samples rule: rev_induct)
  case Nil
  show ?case by (simp add: rtt_ok_def RTO_new_def)
next
  case (snoc x xs)
  define r where "r = fold (updateRTO lo hi) xs (RTO_new d)"
  define s where "s = fold rtt_step (map unat xs) (0, 0)"
  have xs: "\<forall>x\<in>set xs. unat x < 2 ^ 48" and x: "unat x < 2 ^ 48" using snoc.prems by simp_all
  have rs: "rtt_ok s" "s = (unat (rto_srtt r), unat (rto_rttval r))"
    using snoc.IH[OF xs, unfolded Let_def, folded r_def s_def] by blast+
  from updateRTO_step[OF rs x refl, of lo hi] rtt_step_ok[OF rs(1) x] show ?case
    by (simp add: Let_def r_def[symmetric] s_def[symmetric])
qed

text \<open>
  C34.  The retransmission timer is the estimator it means to be.  For every sequence of
  acknowledgements, whose samples are 48-bit differences of time stamps, no 64-bit operation of
  \<open>updateRTO\<close> wraps: the smoothed round trip time and the deviation are those of the estimator
  over the natural numbers, and the timer is its clamped value, within the bounds of either
  context.
\<close>

theorem rto_estimator_exact:
  fixes stamps :: "(u64 \<times> u64) list"
  defines "samples \<equiv> map (\<lambda>(now, ts). rtt_sample now ts) stamps"
  assumes "stamps \<noteq> []"
  shows "let r = fold (updateRTO kMinRTO kMaxRTO) samples (RTO_new kDefaultRTO);
             rm = fold (updateRTO mcast_kMinRTO mcast_kMaxRTO) samples (RTO_new mcast_kDefaultRTO);
             s = fold rtt_step (map unat samples) (0, 0)
         in s = (unat (rto_srtt r), unat (rto_rttval r)) \<and> s = (unat (rto_srtt rm), unat (rto_rttval rm))
            \<and> unat (rto_rto r) = rto_of 128 8196 s \<and> unat (rto_rto rm) = rto_of 64 16392 s"
proof -
  have "\<forall>x\<in>set samples. unat x < 2 ^ 48" using unat_rtt_sample by (force simp: samples_def)
  note run = updateRTO_run[OF this]
  have c: "unat kMinRTO = 128" "unat kMaxRTO = 8196" "unat mcast_kMinRTO = 64" "unat mcast_kMaxRTO = 16392"
    by (simp_all add: kMinRTO_def kMaxRTO_def mcast_kMinRTO_def mcast_kMaxRTO_def)
  have "samples \<noteq> []" using assms(2) by (simp add: samples_def)
  then show ?thesis
    using run[of kMinRTO kMaxRTO kDefaultRTO] run[of mcast_kMinRTO mcast_kMaxRTO mcast_kDefaultRTO] by (simp add: Let_def c)
qed

theorem rto_estimator_exact_witness:
  "unat (rto_rto (fold (updateRTO kMinRTO kMaxRTO) (map (\<lambda>(now, ts). rtt_sample now ts) [(1100, 1000), (1300, 1100)]) (RTO_new kDefaultRTO)))
     = 360"
proof -
  have "fold rtt_step (map unat (map (\<lambda>(now, ts). rtt_sample now ts) [(1100, 1000), (1300, 1100)])) (0, 0) = (112, 62)"
    by (simp add: rtt_sample_def rtt_step_def)
  then show ?thesis using rto_estimator_exact[of "[(1100, 1000), (1300, 1100)]"] by (simp add: Let_def rto_of_def)
qed

section \<open>The window stays open while \<open>incr\<close> is small\<close>

lemma unat_add_u32: "unat (x :: u32) + unat y < 2 ^ 32 \<Longrightarrow> unat (x + y) = unat x + unat y"
  by (simp add: unat_word_ariths)

lemma unat_mult_u32: "unat (x :: u32) * unat y < 2 ^ 32 \<Longrightarrow> unat (x * y) = unat x * unat y"
  by (simp add: unat_word_ariths)

lemma unat_pred_u32: "1 \<le> unat (x :: u32) \<Longrightarrow> unat (x - 1) = unat x - 1"
  by (rule unat_minus_one) (auto simp: unat_eq_0)

text \<open>The growth of \<open>incr\<close> in congestion avoidance, over the natural numbers.\<close>

definition grow :: "nat \<Rightarrow> nat \<Rightarrow> nat" where
  "grow mtu incr = incr + (mtu * mtu div incr + mtu div 16)"

lemma grow_bounds:
  assumes "mtu \<le> incr" "0 < mtu"
  shows "incr \<le> grow mtu incr" "grow mtu incr \<le> incr + 2 * mtu"
proof -
  have "mtu * mtu div incr \<le> mtu * mtu div mtu" using assms by (intro div_le_mono2) simp_all
  also have "\<dots> = mtu" using assms(2) by simp
  finally have "mtu * mtu div incr \<le> mtu" .
  moreover have "mtu div 16 \<le> mtu" by simp
  ultimately show "incr \<le> grow mtu incr" "grow mtu incr \<le> incr + 2 * mtu" by (simp_all add: grow_def)
qed

lemma unat_grow:
  fixes mtu incr :: u32
  assumes "1 \<le> unat mtu" "unat mtu < 2 ^ 16" "unat mtu \<le> unat incr" "grow (unat mtu) (unat incr) < 2 ^ 32"
  shows "unat (incr + ((mtu * mtu) div incr + mtu div 16)) = grow (unat mtu) (unat incr)"
proof -
  have "unat mtu * unat mtu < 2 ^ 16 * 2 ^ 16" using assms(2) by (intro mult_strict_mono) simp_all
  then have m: "unat (mtu * mtu) = unat mtu * unat mtu" by (intro unat_mult_u32) simp
  have d: "unat ((mtu * mtu) div incr) = unat mtu * unat mtu div unat incr" "unat (mtu div 16) = unat mtu div 16"
    by (simp_all add: unat_div m)
  have "unat ((mtu * mtu) div incr + mtu div 16) = unat mtu * unat mtu div unat incr + unat mtu div 16"
    using assms(4) by (subst unat_add_u32) (simp_all add: d grow_def)
  then show ?thesis using assms(4) by (subst unat_add_u32) (simp_all add: grow_def)
qed

lemma unat_ceil:
  fixes mtu incr :: u32
  assumes "1 \<le> unat mtu" "unat incr + unat mtu \<le> 2 ^ 32"
  shows "unat ((incr + mtu - 1) div mtu) = (unat incr + unat mtu - 1) div unat mtu"
proof -
  have e: "incr + mtu - 1 = incr + (mtu - 1)" by simp
  have "unat (incr + (mtu - 1)) = unat incr + (unat mtu - 1)"
    using assms unat_pred_u32[OF assms(1)] by (subst unat_add_u32) simp_all
  then show ?thesis unfolding e using assms(1) by (simp add: unat_div)
qed

text \<open>
  The congestion window stays open.  For a packet size below 65536 and a peer that offers
  a window of at least one packet, an acknowledgement leaves \<open>cwnd\<close> between one packet and the
  window the peer offered, and does not fault, as long as \<open>incr\<close> is at least three packets
  away from \<open>2 ^ 32\<close>; \<open>incr\<close> itself never shrinks below a packet and grows by at most two
  packets.
\<close>

lemma cwnd_stays_open:
  assumes mtu: "1 \<le> unat mtu" "unat mtu < 2 ^ 16" and rwnd: "1 \<le> unat rwnd"
    and cwnd: "1 \<le> unat (cw_cwnd e)" "unat (cw_cwnd e) < 2 ^ 16" and incr: "unat (cw_incr e) + 3 * unat mtu \<le> 2 ^ 32"
  shows "\<exists>e'. updateWnd mtu rwnd e = Inr e' \<and> 1 \<le> unat (cw_cwnd e') \<and> unat (cw_cwnd e') \<le> unat rwnd
     \<and> unat mtu \<le> unat (cw_incr e') \<and> unat (cw_incr e') \<le> max (unat (cw_incr e)) (unat mtu) + 2 * unat mtu"
proof -
  have clamp: "unat (min rwnd c) = min (unat rwnd) (unat c)" for c by (simp add: min_def word_le_nat_alt)
  show ?thesis
  proof (cases "cw_cwnd e < cw_ssthresh e")
    case True
    have "unat (cw_cwnd e + 1) = unat (cw_cwnd e) + 1" using cwnd by (subst unat_add_u32) simp_all
    moreover have "unat (cw_incr e + mtu) = unat (cw_incr e) + unat mtu" using incr mtu by (subst unat_add_u32) simp_all
    ultimately show ?thesis using True rwnd by (simp add: updateWnd_def clamp)
  next
    case False
    define i1 where "i1 = (if cw_incr e < mtu then mtu else cw_incr e)"
    define i2 where "i2 = i1 + ((mtu * mtu) div i1 + mtu div 16)"
    have i1: "unat i1 = max (unat (cw_incr e)) (unat mtu)" by (simp add: i1_def max_def word_less_nat_alt)
    have g: "unat i1 \<le> grow (unat mtu) (unat i1)" "grow (unat mtu) (unat i1) \<le> unat i1 + 2 * unat mtu"
      using grow_bounds[of "unat mtu" "unat i1"] mtu i1 by simp_all
    have lt: "unat i1 + 3 * unat mtu \<le> 2 ^ 32" using incr mtu i1 by (simp add: max_def split: if_splits)
    have i2: "unat i2 = grow (unat mtu) (unat i1)" unfolding i2_def using g lt mtu i1 by (intro unat_grow) simp_all
    have "unat ((i2 + mtu - 1) div mtu) = (unat i2 + unat mtu - 1) div unat mtu"
      using g lt i2 mtu by (intro unat_ceil) simp_all
    moreover have "unat mtu \<le> unat i2 + unat mtu - 1" using mtu g i1 i2 by linarith
    then have "1 \<le> (unat i2 + unat mtu - 1) div unat mtu" using mtu by (simp add: less_eq_div_iff_mult_less_eq)
    moreover have "i1 \<noteq> 0" "mtu \<noteq> 0" using mtu i1 by (auto simp flip: unat_eq_0)
    ultimately show ?thesis
      using False rwnd cwnd g i2 i1
      by (simp add: updateWnd_def Let_def clamp flip: i1_def i2_def)
  qed
qed

lemma cwnd_stays_open_witness:
  "\<exists>e'. updateWnd 4096 64 (cwnd_new 64) = Inr e' \<and> 1 \<le> unat (cw_cwnd e') \<and> unat (cw_cwnd e') \<le> 64"
  using cwnd_stays_open[of 4096 64 "cwnd_new 64"] by (auto simp: cwnd_new_def)

section \<open>The window closes\<close>

text \<open>A run of acknowledgements that offer the same window.\<close>

definition ack_step :: "u32 \<Rightarrow> u32 \<Rightarrow> cwnd_state outcome \<Rightarrow> cwnd_state outcome" where
  "ack_step mtu_size rwnd r = (case r of Inl f \<Rightarrow> Inl f | Inr e \<Rightarrow> updateWnd mtu_size rwnd e)"

text \<open>A session past slow start with the default packet size and window.\<close>

definition steady :: "cwnd_state \<Rightarrow> bool" where
  "steady e \<longleftrightarrow> cw_ssthresh e = 2 \<and> 2 \<le> unat (cw_cwnd e) \<and> unat (cw_cwnd e) \<le> 64
     \<and> 4096 \<le> unat (cw_incr e) \<and> unat (cw_incr e) \<le> 2 ^ 32 - 4096"

lemma steady_grow:
  assumes "4096 \<le> i" "i \<le> 2 ^ 32 - 4096"
  shows "i < grow 4096 i" "grow 4096 i < 2 ^ 32"
proof -
  show "i < grow 4096 i" by (simp add: grow_def)
  show "grow 4096 i < 2 ^ 32"
  proof (cases "i < 2 ^ 24")
    case True
    then show ?thesis using grow_bounds(2)[of 4096 i] assms by simp
  next
    case False
    then have "(4096 * 4096 :: nat) div i \<le> 4096 * 4096 div 2 ^ 24" by (intro div_le_mono2) simp_all
    then show ?thesis using assms by (simp add: grow_def)
  qed
qed

lemma steady_step:
  assumes "steady e"
  obtains e' where "updateWnd 4096 64 e = Inr e'" "unat (cw_incr e') = grow 4096 (unat (cw_incr e))"
    "steady e' \<or> cw_cwnd e' = 0"
proof -
  let ?g = "grow 4096 (unat (cw_incr e))"
  have s: "cw_ssthresh e = 2" "2 \<le> unat (cw_cwnd e)" "unat (cw_cwnd e) \<le> 64" "4096 \<le> unat (cw_incr e)"
    "unat (cw_incr e) \<le> 2 ^ 32 - 4096" using assms by (simp_all add: steady_def)
  define i2 where "i2 = cw_incr e + ((4096 * 4096) div cw_incr e + 4096 div 16)"
  have g: "unat (cw_incr e) < ?g" "?g < 2 ^ 32" using steady_grow s by simp_all
  have i2: "unat i2 = ?g" unfolding i2_def using unat_grow[of 4096 "cw_incr e"] s(4) g by simp
  have c: "\<not> cw_cwnd e < 2" "\<not> cw_incr e < 4096" "cw_incr e \<noteq> 0"
    using s by (auto simp: word_less_nat_alt simp flip: unat_eq_0)
  have c1: "unat (cw_cwnd e + 1) = unat (cw_cwnd e) + 1" using s by (subst unat_add_u32) simp_all
  then have m: "unat ((cw_cwnd e + 1) * 4096) = (unat (cw_cwnd e) + 1) * 4096"
    using s by (subst unat_mult_u32) simp_all
  define w where "w = (if (cw_cwnd e + 1) * 4096 \<le> i2 then (i2 + 4095) div 4096 else cw_cwnd e)"
  have run: "updateWnd 4096 64 e = Inr (e\<lparr>cw_incr := i2, cw_rwnd := 64, cw_cwnd := min 64 w\<rparr>)"
    using s(1) c by (simp add: updateWnd_def Let_def w_def i2_def)
  have clamp: "unat (min 64 w) = min 64 (unat w)" by (simp add: min_def word_le_nat_alt)
  have "2 \<le> unat w" if "?g \<le> 2 ^ 32 - 4096"
  proof (cases "(cw_cwnd e + 1) * 4096 \<le> i2")
    case True
    have "unat w = (?g + 4095) div 4096"
      using True that i2 by (simp add: w_def unat_div unat_add_u32)
    moreover have "(unat (cw_cwnd e) + 1) * 4096 \<le> ?g" using True m i2 by (simp add: word_le_nat_alt)
    ultimately show ?thesis using s(2) by simp
  qed (use s(2) in \<open>simp add: w_def\<close>)
  moreover have "w = 0" if "\<not> ?g \<le> 2 ^ 32 - 4096"
  proof -
    have le: "(cw_cwnd e + 1) * 4096 \<le> i2" using that m i2 s(3) by (simp add: word_le_nat_alt)
    have "unat (i2 + 4095) = (?g + 4095) mod 2 ^ 32" using i2 by (simp add: unat_word_ariths)
    also have "\<dots> < 4096" using that g(2) by (simp add: mod_if) linarith
    finally have "unat ((i2 + 4095) div 4096) = 0" by (simp add: unat_div)
    with le show ?thesis by (simp add: w_def unat_eq_0)
  qed
  ultimately show ?thesis
    using that[OF run] s g i2 clamp by (cases "?g \<le> 2 ^ 32 - 4096") (auto simp: steady_def)
qed

lemma steady_closes: "steady e \<Longrightarrow> \<exists>n e'. (ack_step 4096 64 ^^ n) (Inr e) = Inr e' \<and> cw_cwnd e' = 0"
proof (induction "2 ^ 32 - unat (cw_incr e)" arbitrary: e rule: less_induct)
  case less
  obtain e' where e': "updateWnd 4096 64 e = Inr e'" "unat (cw_incr e') = grow 4096 (unat (cw_incr e))" "steady e' \<or> cw_cwnd e' = 0"
    using steady_step[OF less.prems] by blast
  show ?case
  proof (cases "cw_cwnd e' = 0")
    case True
    then show ?thesis using e'(1) by (intro exI[of _ 1] exI[of _ e']) (simp add: ack_step_def)
  next
    case False
    then have st: "steady e'" using e'(3) by blast
    have "unat (cw_incr e) < unat (cw_incr e')" "unat (cw_incr e') < 2 ^ 32"
      using steady_grow[of "unat (cw_incr e)"] less.prems e'(2) by (simp_all add: steady_def)
    then have "2 ^ 32 - unat (cw_incr e') < 2 ^ 32 - unat (cw_incr e)" by linarith
    from less.hyps[OF this st] obtain n e'' where "(ack_step 4096 64 ^^ n) (Inr e') = Inr e''" "cw_cwnd e'' = 0" by blast
    then have "(ack_step 4096 64 ^^ Suc n) (Inr e) = Inr e''" using e'(1) by (simp add: funpow_Suc_right ack_step_def del: funpow.simps)
    then show ?thesis using \<open>cw_cwnd e'' = 0\<close> by blast
  qed
qed

text \<open>
  The window closes on a long transfer.  \<open>incr\<close> is never brought back to the window the
  peer offers, so it grows with every acknowledgement until \<open>incr + mtu - 1\<close> wraps: a new
  session with the default packet size 4096 and the default window 64 reaches, after finitely
  many acknowledgements, a congestion window of 0, with which \<open>sendDataPackets\<close> sends nothing.
\<close>

lemma cwnd_closes:
  "\<exists>n e. (ack_step 4096 64 ^^ n) (Inr (cwnd_new 64)) = Inr e \<and> cw_cwnd e = 0"
proof -
  obtain e where e: "updateWnd 4096 64 (cwnd_new 64) = Inr e" "steady e"
    by (simp add: updateWnd_def cwnd_new_def steady_def)
  obtain n e' where "(ack_step 4096 64 ^^ n) (Inr e) = Inr e'" "cw_cwnd e' = 0" using steady_closes[OF e(2)] by blast
  then have "(ack_step 4096 64 ^^ Suc n) (Inr (cwnd_new 64)) = Inr e'"
    using e(1) by (simp add: funpow_Suc_right ack_step_def del: funpow.simps)
  then show ?thesis using \<open>cw_cwnd e' = 0\<close> by blast
qed

end
