(* ===== verification/Context.thy ===== *)
theory Context
  imports PacketManager MemoryRegions Controller Congestion
begin

text \<open>
  \<open>Context\<close> of \<open>src/src/protocols/rdma_unreliable/context.{h,cpp}\<close>: the unicast transport on
  top of the queues, the controller and the endpoints.

  The state is the object with everything it owns: the controller (with the endpoint store), the
  packet manager, the registered regions, the tasks, the sessions, the timer, the request cache
  with the heap of requests, and memory.  A queue pointer of a session is set or null
  (\<open>si_setup\<close>); once set it refers to the queue of the packet manager under the session.  The
  iteration order of \<open>active_session_map_\<close> is an argument, as are the time, the completions a
  poll returns and the driver.  The debugging statistics of \<open>runStep\<close> and the thread-local
  counters of retransmissions are left out.
\<close>

section \<open>State\<close>

record task =
  tk_session :: int
  tk_last_sn :: u32
  tk_is_send :: bool

record session_info = cwnd_state +
  si_ack_handle :: packet_handle
  si_send_packets :: u64
  si_recv_packets :: u64
  si_ack_packets :: u64
  si_setup :: bool
  si_last_send_ts :: u64

text \<open>\<open>g\<close> is what the memory of \<open>ack_handle\<close> held before.\<close>

definition SessionInfo_new :: "packet_handle \<Rightarrow> session_info" where
  "SessionInfo_new g =
     \<lparr>cw_cwnd = 1, cw_rwnd = ucast kWndSize, cw_ssthresh = kMinSSThreshValue, cw_incr = 0,
      si_ack_handle = PacketHandle_new g, si_send_packets = 0, si_recv_packets = 0, si_ack_packets = 0,
      si_setup = False, si_last_send_ts = 0\<rparr>"

record unicast_context =
  cx_mtu_size :: u32
  cx_controller :: controller
  cx_packet_manager :: packet_manager
  cx_regions :: "ibv_mr list"
  cx_task_map :: "int \<rightharpoonup> task"
  cx_next_task_id :: u32
  cx_sessions :: "int \<rightharpoonup> session_info"
  cx_rto :: rto_state
  cx_local_arena_lkey :: u32
  cx_recv_handles :: "packet_handle list"
  cx_recv_qp_index :: "addr \<rightharpoonup> int"
  cx_stats_send :: u64
  cx_stats_recv :: u64
  cx_stats_ack :: u64
  cx_request_cache :: request_cache
  cx_heap :: req_heap
  cx_fresh :: req
  cx_mem :: mem
  cx_rnd :: u32

definition kNumReceiveHandles :: nat where
  "kNumReceiveHandles = 128"

text \<open>
  The constructor; the controller, memory, the random generator and the address the allocator
  will return next are arguments, \<open>garbage\<close> is the uninitialised key.
\<close>

definition Context_new :: "u64 \<Rightarrow> u64 \<Rightarrow> u64 \<Rightarrow> controller \<Rightarrow> u32 \<Rightarrow> mem \<Rightarrow> req_heap \<Rightarrow> req \<Rightarrow> u32 \<Rightarrow> unicast_context" where
  "Context_new mtu_size max_packets queue_capacity ctl garbage m heap fresh rnd =
     \<lparr>cx_mtu_size = ucast mtu_size, cx_controller = ctl,
      cx_packet_manager = PacketManager_new mtu_size max_packets queue_capacity kWndSize, cx_regions = [],
      cx_task_map = Map.empty, cx_next_task_id = 0, cx_sessions = Map.empty, cx_rto = RTO_new kDefaultRTO,
      cx_local_arena_lkey = garbage, cx_recv_handles = [], cx_recv_qp_index = Map.empty, cx_stats_send = 0, cx_stats_recv = 0,
      cx_stats_ack = 0, cx_request_cache = RequestCache_new, cx_heap = heap, cx_fresh = fresh, cx_mem = m, cx_rnd = rnd\<rparr>"

section \<open>Access to the parts\<close>

definition ctx_pool :: "unicast_context \<Rightarrow> packet_buffer_pool" where
  "ctx_pool c = pm_pool (cx_packet_manager c)"

definition ctx_put_pool :: "packet_buffer_pool \<Rightarrow> unicast_context \<Rightarrow> unicast_context" where
  "ctx_put_pool p c = c\<lparr>cx_packet_manager := (cx_packet_manager c)\<lparr>pm_pool := p\<rparr>\<rparr>"

definition ctx_put_send_queue :: "int \<Rightarrow> packet_buffer_pool \<times> send_queue \<Rightarrow> unicast_context \<Rightarrow> unicast_context" where
  "ctx_put_send_queue sid = (\<lambda>(p, q) c. c\<lparr>cx_packet_manager := (cx_packet_manager c)
     \<lparr>pm_pool := p, pm_send_queue := (pm_send_queue (cx_packet_manager c))(sid \<mapsto> q)\<rparr>\<rparr>)"

definition ctx_put_receive_queue :: "int \<Rightarrow> receive_queue \<Rightarrow> unicast_context \<Rightarrow> unicast_context" where
  "ctx_put_receive_queue sid q c = c\<lparr>cx_packet_manager := (cx_packet_manager c)
     \<lparr>pm_receive_queue := (pm_receive_queue (cx_packet_manager c))(sid \<mapsto> q)\<rparr>\<rparr>"

definition ctx_put_session :: "int \<Rightarrow> session_info \<Rightarrow> unicast_context \<Rightarrow> unicast_context" where
  "ctx_put_session sid si c = c\<lparr>cx_sessions := (cx_sessions c)(sid \<mapsto> si)\<rparr>"

text \<open>The queue a pointer of the session leads to.\<close>

definition ctx_send_queue :: "int \<Rightarrow> unicast_context \<Rightarrow> send_queue outcome" where
  "ctx_send_queue sid c =
     (case (cx_sessions c sid, pm_send_queue (cx_packet_manager c) sid) of
        (Some si, Some q) \<Rightarrow> if si_setup si then Inr q else Inl NullDeref
      | _ \<Rightarrow> Inl NullDeref)"

definition ctx_receive_queue :: "int \<Rightarrow> unicast_context \<Rightarrow> receive_queue outcome" where
  "ctx_receive_queue sid c =
     (case (cx_sessions c sid, pm_receive_queue (cx_packet_manager c) sid) of
        (Some si, Some q) \<Rightarrow> if si_setup si then Inr q else Inl NullDeref
      | _ \<Rightarrow> Inl NullDeref)"

definition ctx_store :: "unicast_context \<Rightarrow> ud_store \<times> req_heap" where
  "ctx_store c = (ct_store (cx_controller c), cx_heap c)"

definition ctx_put_store :: "ud_store \<times> req_heap \<Rightarrow> unicast_context \<Rightarrow> unicast_context" where
  "ctx_put_store = (\<lambda>(st, heap) c. c\<lparr>cx_controller := (cx_controller c)\<lparr>ct_store := st\<rparr>, cx_heap := heap\<rparr>)"

text \<open>\<open>request_cache_.allocate ()\<close> followed by the placement \<open>new\<close> of \<open>rq\<close>.\<close>

definition ctx_new_request :: "rdma_request \<Rightarrow> unicast_context \<Rightarrow> req \<times> unicast_context" where
  "ctx_new_request rq c =
     (case cache_allocate (cx_fresh c) (cx_request_cache c) (cx_heap c) of
        (r, cache, heap) \<Rightarrow>
          (r, c\<lparr>cx_request_cache := cache, cx_heap := heap(r := rq),
               cx_fresh := (if rc_head (cx_request_cache c) - rc_tail (cx_request_cache c) = 0 then cx_fresh c + 1 else cx_fresh c)\<rparr>))"

text \<open>\<open>endpoint->postSendRequest\<close> for the endpoint registered under \<open>name\<close>.\<close>

definition ctx_post_send :: "ibv_post \<Rightarrow> string \<Rightarrow> req list \<Rightarrow> unicast_context \<Rightarrow> (int \<times> unicast_context) outcome" where
  "ctx_post_send post name request_list c =
     (case ct_endpoint_map (cx_controller c) name of
        None \<Rightarrow> Inl NullDeref
      | Some ep \<Rightarrow>
          obind (udep_postSendRequest post request_list ep (cx_rnd c) (ctx_store c))
            (\<lambda>(n, st, acc, rnd). Inr (n, (ctx_put_store st c)\<lparr>cx_rnd := rnd\<rparr>)))"

text \<open>The endpoint of a session, created if needed.\<close>

definition ctx_endpoint :: "u16 \<Rightarrow> int \<Rightarrow> unicast_context \<Rightarrow> string option \<times> unicast_context" where
  "ctx_endpoint garbage sid c =
     (case getOrCreateEndpoint garbage sid (cx_controller c) of (r, ctl) \<Rightarrow> (r, c\<lparr>cx_controller := ctl\<rparr>))"

section \<open>Receive buffers\<close>

text \<open>\<open>operator []\<close> inserts 0 for a buffer that has no queue pair yet.\<close>

definition submitNormalRecvWR :: "ibv_post \<Rightarrow> addr \<Rightarrow> unicast_context \<Rightarrow> int \<times> unicast_context" where
  "submitNormalRecvWR post raw c =
     (let index = (case cx_recv_qp_index c raw of Some i \<Rightarrow> i | None \<Rightarrow> 0);
          (request, c1) = ctx_new_request (Request_new\<lparr>rr_addr0 := raw, rr_length0 := pm_mtu_size (cx_packet_manager c),
                                                       rr_lkey0 := cx_local_arena_lkey c\<rparr>)
                            (c\<lparr>cx_recv_qp_index := (cx_recv_qp_index c)(raw \<mapsto> index)\<rparr>)
      in case ud_postReceiveRequest post (nat index) [request] (ctx_store c1) of
           (n, st, acc) \<Rightarrow> (n, ctx_put_store st c1))"

text \<open>The loop of \<open>construct\<close> over the receive handles.\<close>

fun construct_recv_handles :: "ibv_post \<Rightarrow> nat list \<Rightarrow> unicast_context \<Rightarrow> (int \<times> unicast_context) outcome" where
  "construct_recv_handles post [] c = Inr (0, c)"
| "construct_recv_handles post (i # is) c =
     (case allocatePacket (cx_mem c) (ctx_pool c) (cx_recv_handles c ! i) True of
        (ret, p, h) \<Rightarrow>
          let c1 = (ctx_put_pool p c)\<lparr>cx_recv_handles := (cx_recv_handles c)[i := h]\<rparr>
          in if ret < 0 then Inr (ret, c1)
             else case submitNormalRecvWR post (ph_packet_buf h) c1 of
               (ret, c2) \<Rightarrow>
                 if ret < 0 then Inr (ret, c2)
                 else let n = length (us_qp_num (ct_store (cx_controller c2)))
                      in if n = 0 then Inl DivByZero
                         else construct_recv_handles post is
                                (c2\<lparr>cx_recv_qp_index := (cx_recv_qp_index c2)(ph_packet_buf h \<mapsto> int (i mod n))\<rparr>))"

text \<open>
  \<open>construct\<close>: \<open>ctl\<close> is the controller its own construction leaves with its return code,
  \<open>arena\<close> the address of the packet arena.
\<close>

definition ctx_construct ::
  "int \<times> controller \<Rightarrow> addr \<Rightarrow> reg_mr \<Rightarrow> ibv_post \<Rightarrow> (nat \<Rightarrow> packet_handle) \<Rightarrow> unicast_context \<Rightarrow> (int \<times> unicast_context) outcome" where
  "ctx_construct ctl arena reg_mr post g c =
     (let c0 = c\<lparr>cx_controller := snd ctl\<rparr> in
      if fst ctl < 0 then Inr (fst ctl, c0)
      else case manager_construct arena (cx_packet_manager c0) (cx_mem c0) of
        (ret, pm, m) \<Rightarrow>
          let c1 = c0\<lparr>cx_packet_manager := pm, cx_mem := m\<rparr> in
          if ret < 0 then Inr (ret, c1)
          else case registerMemoryRegion reg_mr (cx_regions c1) (pool_arena (ctx_pool c1)) (getCapacity (ctx_pool c1)) 1 of
            (ret, regions) \<Rightarrow>
              let c2 = c1\<lparr>cx_regions := regions\<rparr> in
              if ret \<noteq> 0 then Inr (ret, c2)
              else construct_recv_handles post [0..<kNumReceiveHandles]
                     (c2\<lparr>cx_local_arena_lkey := fst (mr_key regions (pool_arena (ctx_pool c2))),
                         cx_recv_handles := map (\<lambda>i. PacketHandle_new (g i)) [0..<kNumReceiveHandles]\<rparr>))"

definition ctx_deconstruct :: "int list \<Rightarrow> dereg_mr \<Rightarrow> unicast_context \<Rightarrow> int \<times> unicast_context" where
  "ctx_deconstruct order dereg_mr c =
     (let c1 = c\<lparr>cx_sessions := Map.empty, cx_regions := snd (unregisterMemoryRegion dereg_mr (cx_regions c) (pool_arena (ctx_pool c)))\<rparr>;
          (ret, pm, m) = manager_deconstruct order (cx_packet_manager c1) (cx_mem c1)
      in (0, c1\<lparr>cx_packet_manager := pm, cx_mem := m,
               cx_controller := (cx_controller c1)\<lparr>ct_endpoint_map := Map.empty\<rparr>\<rparr>))"

section \<open>Tasks\<close>

text \<open>
  The first use of a session: the entry is inserted before the acknowledgement packet is
  allocated, and stays, without queues, when the allocation fails.  \<open>g\<close> is what the memory of
  new handles held before.
\<close>

definition ctx_activate :: "(nat \<Rightarrow> packet_handle) \<Rightarrow> int \<Rightarrow> unicast_context \<Rightarrow> (int \<times> unicast_context) outcome" where
  "ctx_activate g session c =
     (if cx_sessions c session \<noteq> None then Inr (0, c)
      else
        let si = SessionInfo_new (g 0) in
        case allocatePacket (cx_mem c) (ctx_pool c) (si_ack_handle si) False of
          (ret, p, h) \<Rightarrow>
            let si1 = si\<lparr>si_ack_handle := h\<rparr>; c1 = ctx_put_session session si1 (ctx_put_pool p c)
            in if ret \<noteq> 0 then Inr (ret, c1)
               else obind (getSendQueue g (cx_packet_manager c1) session)
                 (\<lambda>pm1. obind (getReceiveQueue pm1 session)
                   (\<lambda>pm2. obind (getMcastSendQueue g pm2 session)
                     (\<lambda>pm3. Inr (0, ctx_put_session session (si1\<lparr>si_setup := True\<rparr>) (c1\<lparr>cx_packet_manager := pm3\<rparr>))))))"

definition ctx_new_task :: "task \<Rightarrow> unicast_context \<Rightarrow> int \<times> unicast_context" where
  "ctx_new_task t c =
     (let task_id = sint (cx_next_task_id c)
      in (task_id, c\<lparr>cx_next_task_id := cx_next_task_id c + 1, cx_task_map := (cx_task_map c)(task_id \<mapsto> t)\<rparr>))"

definition ctx_send ::
  "(nat \<Rightarrow> packet_handle) \<Rightarrow> string \<Rightarrow> buffer list \<Rightarrow> unicast_context \<Rightarrow> (int \<times> unicast_context) outcome" where
  "ctx_send g peer_name buffer_list c =
     (let session = findSession_name peer_name 0 (cx_controller c) in
      if session < 0 then Inr (-1, c)
      else obind (ctx_activate g session c) (\<lambda>(ret, c1).
        if ret \<noteq> 0 then Inr (ret, c1)
        else obind (ctx_send_queue session c1) (\<lambda>q.
          obind (send_push (cx_mem c1) buffer_list (ctx_pool c1, q)) (\<lambda>(last_sn, ret, s).
            let c2 = ctx_put_send_queue session s c1
            in if ret \<noteq> 0 then Inr (ret, c2)
               else Inr (ctx_new_task \<lparr>tk_session = session, tk_last_sn = last_sn, tk_is_send = True\<rparr> c2)))))"

definition ctx_receive ::
  "(nat \<Rightarrow> packet_handle) \<Rightarrow> string \<Rightarrow> buffer list \<Rightarrow> unicast_context \<Rightarrow> (int \<times> unicast_context) outcome" where
  "ctx_receive g peer_name buffer_list c =
     (let session = findSession_name peer_name 0 (cx_controller c) in
      if session < 0 then Inr (-1, c)
      else obind (ctx_activate g session c) (\<lambda>(ret, c1).
        if ret \<noteq> 0 then Inr (ret, c1)
        else obind (ctx_receive_queue session c1) (\<lambda>q.
          obind (recv_push buffer_list q) (\<lambda>(last_sn, ret, q').
            let c2 = ctx_put_receive_queue session q' c1
            in if ret \<noteq> 0 then Inr (ret, c2)
               else Inr (ctx_new_task \<lparr>tk_session = session, tk_last_sn = last_sn, tk_is_send = False\<rparr> c2)))))"

text \<open>The comparison at the end of \<open>getStatus\<close>.\<close>

definition task_status :: "u32 \<Rightarrow> u32 \<Rightarrow> u32 \<Rightarrow> status" where
  "task_status last_sn ack_sn next_sn =
     (if ack_sn \<le> next_sn then if last_sn \<le> ack_sn then SUCCESS else PENDING
      else if last_sn \<ge> next_sn then SUCCESS else PENDING)"

definition ctx_getStatus :: "int \<Rightarrow> unicast_context \<Rightarrow> status outcome" where
  "ctx_getStatus task_id c =
     (case cx_task_map c task_id of
        None \<Rightarrow> Inr UNKNOWN
      | Some t \<Rightarrow>
          if tk_is_send t
          then (case pm_send_queue (cx_packet_manager c) (tk_session t) of
                  Some q \<Rightarrow> Inr (task_status (tk_last_sn t) (send_getAckSN q) (send_getNextSN q))
                | None \<Rightarrow> Inl NullDeref)
          else (case pm_receive_queue (cx_packet_manager c) (tk_session t) of
                  Some q \<Rightarrow> Inr (task_status (tk_last_sn t) (recv_getAckSN q) (recv_getNextSN q))
                | None \<Rightarrow> Inl NullDeref))"

definition ctx_freeTask :: "int \<Rightarrow> unicast_context \<Rightarrow> int \<times> unicast_context" where
  "ctx_freeTask task_id c =
     (if cx_task_map c task_id = None then (-1, c) else (0, c\<lparr>cx_task_map := (cx_task_map c)(task_id := None)\<rparr>))"

definition ctx_prepareConnection :: "u16 \<Rightarrow> string \<Rightarrow> attributes \<Rightarrow> unicast_context \<Rightarrow> int \<times> attributes \<times> unicast_context" where
  "ctx_prepareConnection garbage peer_addr local_attr c =
     (case prepareConnection garbage peer_addr local_attr (cx_controller c) of (ret, a, ctl) \<Rightarrow> (ret, a, c\<lparr>cx_controller := ctl\<rparr>))"

definition ctx_setupConnection ::
  "(ibv_ah_attr \<Rightarrow> nat option) \<Rightarrow> (nat \<Rightarrow> u32) \<Rightarrow> u16 \<Rightarrow> string \<Rightarrow> attributes \<Rightarrow> unicast_context \<Rightarrow> (int \<times> unicast_context) outcome" where
  "ctx_setupConnection create_ah g garbage peer_addr peer c =
     obind (setupConnection create_ah g garbage peer_addr peer (cx_controller c)) (\<lambda>(ret, ctl). Inr (ret, c\<lparr>cx_controller := ctl\<rparr>))"

definition ctx_registerLocalMemory :: "reg_mr \<Rightarrow> addr \<Rightarrow> u64 \<Rightarrow> unicast_context \<Rightarrow> int \<times> unicast_context" where
  "ctx_registerLocalMemory reg_mr a len c =
     (case registerMemoryRegion reg_mr (cx_regions c) a len 1 of (ret, regions) \<Rightarrow> (ret, c\<lparr>cx_regions := regions\<rparr>))"

definition ctx_unregisterLocalMemory :: "dereg_mr \<Rightarrow> addr \<Rightarrow> unicast_context \<Rightarrow> int \<times> unicast_context" where
  "ctx_unregisterLocalMemory dereg_mr a c =
     (case unregisterMemoryRegion dereg_mr (cx_regions c) a of (ret, regions) \<Rightarrow> (ret, c\<lparr>cx_regions := regions\<rparr>))"

section \<open>Sending\<close>

definition kRequestBatchSize :: nat where
  "kRequestBatchSize = 4"

text \<open>
  The locals of the loop over the packets of a session: the copy of the session the range-for
  makes, the collected requests, the endpoint (its name) if it has been looked up, and the
  context.
\<close>

type_synonym send_locals = "session_info \<times> req list \<times> string option \<times> unicast_context"

text \<open>
  \<open>endpoint->postSendRequest (request_list)\<close> with the counting of the sent packets.  A partial
  post is not counted, its requests are dropped from the list.
\<close>

definition flush_requests :: "ibv_post \<Rightarrow> send_locals \<Rightarrow> send_locals outcome" where
  "flush_requests post = (\<lambda>(si, reqs, ep, c).
     case ep of
       None \<Rightarrow> Inl NullDeref
     | Some name \<Rightarrow>
         obind (ctx_post_send post name reqs c) (\<lambda>(ret, c1).
           if ret = int (length reqs)
           then Inr (si\<lparr>si_send_packets := si_send_packets si + of_nat (length reqs)\<rparr>, [], ep,
                     c1\<lparr>cx_stats_send := cx_stats_send c1 + of_nat (length reqs)\<rparr>)
           else Inr (si, [], ep, c1)))"

text \<open>
  What is done with the packet at index \<open>curr\<close> once it is due: the timeout reaction if it was
  sent before, the time stamp, and the header.
\<close>

definition stamp_packet :: "u64 \<Rightarrow> int \<Rightarrow> u64 \<Rightarrow> send_queue \<Rightarrow> session_info \<Rightarrow> unicast_context
  \<Rightarrow> (session_info \<times> unicast_context \<times> int \<times> (buffer \<times> buffer \<times> u32) option)" where
  "stamp_packet now session curr_idx q si c =
     (let handle = send_getMutableEntry q curr_idx;
          (si1, q1) = (if ph_ts handle \<noteq> 0
                       then let si1 = backoffWnd (\<lambda>s. s + kResendValue) (cx_mtu_size c) si
                            in (si1, send_setWndSize (ucast (cw_cwnd si1)) q)
                       else (si, q))
      in case serialize (cx_mem c) (handle\<lparr>ph_ts := now\<rparr>) of
           (rc, handle', m, out) \<Rightarrow>
             (si1\<lparr>si_last_send_ts := now\<rparr>,
              (ctx_put_send_queue session (ctx_pool c, send_updateEntry curr_idx (\<lambda>_. handle') q1) c)\<lparr>cx_mem := m\<rparr>, rc, out))"

text \<open>The request for a stamped packet, and the post of a full batch.\<close>

definition queue_packet ::
  "ibv_post \<Rightarrow> u16 \<Rightarrow> int \<Rightarrow> buffer \<times> buffer \<times> u32 \<Rightarrow> send_locals \<Rightarrow> (bool \<times> send_locals) flow" where
  "queue_packet post garbage session = (\<lambda>(s0, s1, imm) (si, reqs, ep, c).
     let (request, c1) = ctx_new_request (Request_new\<lparr>
           rr_addr0 := buf_addr s0, rr_addr1 := buf_addr s1, rr_length0 := buf_length s0, rr_length1 := buf_length s1,
           rr_lkey0 := cx_local_arena_lkey c, rr_lkey1 := fst (mr_key (cx_regions c) (buf_addr s1)), rr_imm_data := imm\<rparr>) c;
         (ep', c2) = (if ep = None then ctx_endpoint garbage session c1 else (ep, c1))
     in if ep' = None then Return (-1) (True, (si, reqs, ep', c2))
        else
          let l = (si, reqs @ [request], ep', c2)
          in if length (reqs @ [request]) = kRequestBatchSize
             then (case flush_requests post l of Inl f \<Rightarrow> Fault f | Inr l' \<Rightarrow> Continue (False, l'))
             else Continue (False, l))"

text \<open>One round: True in the result is \<open>skip_remaining\<close>.\<close>

definition send_packet_round ::
  "ibv_post \<Rightarrow> u16 \<Rightarrow> u64 \<Rightarrow> int \<Rightarrow> u64 \<Rightarrow> send_locals \<Rightarrow> (bool \<times> send_locals) flow" where
  "send_packet_round post garbage now session curr_idx = (\<lambda>(si, reqs, ep, c).
     case ctx_send_queue session c of
       Inl f \<Rightarrow> Fault f
     | Inr q \<Rightarrow>
         if sq_queue_capacity q = 0 then Fault DivByZero
         else if now - ph_ts (send_getMutableEntry q curr_idx) < rto_rto (cx_rto c) then Continue (True, (si, reqs, ep, c))
         else (case stamp_packet now session curr_idx q si c of
           (si1, c1, rc, out) \<Rightarrow>
             (case (if rc \<noteq> 0 then None else out) of
                None \<Rightarrow> Return (-1) (True, (si1, reqs, ep, c1))
              | Some slices \<Rightarrow> queue_packet post garbage session slices (si1, reqs, ep, c1))))"

fun send_packet_loop ::
  "ibv_post \<Rightarrow> u16 \<Rightarrow> u64 \<Rightarrow> int \<Rightarrow> u64 list \<Rightarrow> send_locals \<Rightarrow> send_locals flow" where
  "send_packet_loop post garbage now session [] l = Continue l"
| "send_packet_loop post garbage now session (curr_idx # rest) l =
     (case send_packet_round post garbage now session curr_idx l of
        Fault f \<Rightarrow> Fault f
      | Return rc (_, l') \<Rightarrow> Return rc l'
      | Continue (True, l') \<Rightarrow> Continue l'
      | Continue (False, l') \<Rightarrow> send_packet_loop post garbage now session rest l')"

text \<open>\<open>for (curr = tail; curr < head; curr++)\<close>.\<close>

definition index_range :: "u64 \<Rightarrow> u64 \<Rightarrow> u64 list" where
  "index_range tail head = (if tail < head then map (\<lambda>k. tail + of_nat k) [0..<unat (head - tail)] else [])"

definition send_session ::
  "ibv_post \<Rightarrow> u16 \<Rightarrow> u64 \<Rightarrow> int \<Rightarrow> session_info \<Rightarrow> unicast_context \<Rightarrow> send_locals flow" where
  "send_session post garbage now session si c =
     (if now - si_last_send_ts si < rto_rto (cx_rto c) * 2 div 3 then Continue (si, [], None, c)
      else case ctx_send_queue session c of
        Inl f \<Rightarrow> Fault f
      | Inr q \<Rightarrow>
          let (_, head, tail) = send_getIndexRange q; head' = min head (tail + ucast (cw_cwnd si))
          in case send_packet_loop post garbage now session (index_range tail head') (si, [], None, c) of
               Fault f \<Rightarrow> Fault f
             | Return rc l \<Rightarrow> Return rc l
             | Continue (si', reqs, ep, c') \<Rightarrow>
                 if reqs = [] then Continue (si', reqs, ep, c')
                 else case flush_requests post (si', reqs, ep, c') of Inl f \<Rightarrow> Fault f | Inr l \<Rightarrow> Continue l)"

text \<open>
  \<open>order\<close> is the order in which the loop meets the sessions.  Its variable is a copy: what
  happened to the session in the loop is dropped.
\<close>

fun ctx_sendDataPackets ::
  "ibv_post \<Rightarrow> u16 \<Rightarrow> u64 \<Rightarrow> int list \<Rightarrow> unicast_context \<Rightarrow> (int \<times> unicast_context) outcome" where
  "ctx_sendDataPackets post garbage now [] c = Inr (0, c)"
| "ctx_sendDataPackets post garbage now (session # order) c =
     (case cx_sessions c session of
        None \<Rightarrow> ctx_sendDataPackets post garbage now order c
      | Some si \<Rightarrow>
          (case send_session post garbage now session si c of
             Fault f \<Rightarrow> Inl f
           | Return rc (_, _, _, c') \<Rightarrow> Inr (rc, c')
           | Continue (_, _, _, c') \<Rightarrow> ctx_sendDataPackets post garbage now order c'))"

section \<open>Acknowledgements\<close>

definition kMinWindowSize :: u64 where
  "kMinWindowSize = 8"

text \<open>The acknowledgement of a session, as \<open>sendAckPackets\<close> fills it in.\<close>

definition ack_packet :: "int \<Rightarrow> receive_queue \<Rightarrow> packet_handle \<Rightarrow> packet_handle" where
  "ack_packet session q handle =
     (let (_, head, tail) = recv_getIndexRange q
      in handle\<lparr>ph_session := of_int (session smod 256), ph_cmd := PKT_CMD_ACK, ph_wnd := ucast (max (head - tail) kMinWindowSize),
                ph_sn := recv_getAckSN q, ph_ts := recv_getLastTS q, ph_inflight := True\<rparr>)"

text \<open>
  The body of the loop for one session.  The entry is a reference here, so every change stays,
  also on the error paths.  The result -1 ends \<open>sendAckPackets\<close>.  \<open>post_ack\<close> is the part
  after the packet is serialized.
\<close>

definition post_ack ::
  "ibv_post \<Rightarrow> u16 \<Rightarrow> int \<Rightarrow> session_info \<Rightarrow> buffer \<Rightarrow> u32 \<Rightarrow> unicast_context \<Rightarrow> (int \<times> unicast_context) outcome" where
  "post_ack post garbage session si s0 imm c =
     (let (request, c1) = ctx_new_request (Request_new\<lparr>rr_addr0 := buf_addr s0, rr_length0 := buf_length s0,
            rr_lkey0 := cx_local_arena_lkey c, rr_imm_data := imm, rr_context := Some session\<rparr>) c;
          (ep, c2) = ctx_endpoint garbage session c1
      in case ep of
           None \<Rightarrow> Inr (-1, c2)
         | Some name \<Rightarrow>
             obind (ctx_post_send post name [request] c2) (\<lambda>(ret, c3).
               if ret \<noteq> 1 then Inr (-1, c3)
               else Inr (0, (ctx_put_session session (si\<lparr>si_ack_packets := si_recv_packets si\<rparr>) c3)
                              \<lparr>cx_stats_ack := cx_stats_ack c3 + 1\<rparr>)))"

definition send_ack ::
  "ibv_post \<Rightarrow> u16 \<Rightarrow> int \<Rightarrow> session_info \<Rightarrow> unicast_context \<Rightarrow> (int \<times> unicast_context) outcome" where
  "send_ack post garbage session si c =
     (if si_ack_packets si \<ge> si_recv_packets si \<or> ph_inflight (si_ack_handle si) then Inr (0, c)
      else obind (ctx_receive_queue session c) (\<lambda>q.
        case serialize (cx_mem c) (ack_packet session q (si_ack_handle si)) of
          (rc, handle, m, out) \<Rightarrow>
            let si1 = si\<lparr>si_ack_handle := handle\<rparr>; c1 = (ctx_put_session session si1 c)\<lparr>cx_mem := m\<rparr>
            in case (if rc \<noteq> 0 then None else out) of
                 None \<Rightarrow> Inr (-1, c1)
               | Some (s0, _, imm) \<Rightarrow> post_ack post garbage session si1 s0 imm c1))"

fun ctx_sendAckPackets ::
  "ibv_post \<Rightarrow> u16 \<Rightarrow> int list \<Rightarrow> unicast_context \<Rightarrow> (int \<times> unicast_context) outcome" where
  "ctx_sendAckPackets post garbage [] c = Inr (0, c)"
| "ctx_sendAckPackets post garbage (session # order) c =
     (case cx_sessions c session of
        None \<Rightarrow> ctx_sendAckPackets post garbage order c
      | Some si \<Rightarrow>
          obind (send_ack post garbage session si c) (\<lambda>(ret, c').
            if ret \<noteq> 0 then Inr (ret, c') else ctx_sendAckPackets post garbage order c'))"

section \<open>Completions\<close>

datatype wc_opcode = IBV_WC_SEND | IBV_WC_RECV | IBV_WC_OTHER

record ibv_wc =
  wc_wr_id :: req
  wc_success :: bool
  wc_opcode :: wc_opcode
  wc_imm_data :: u32
  wc_with_imm :: bool
  wc_byte_len :: u32
  wc_src_qp :: u32

definition ctx_updateWndOnSuccess :: "int \<Rightarrow> u32 \<Rightarrow> unicast_context \<Rightarrow> unicast_context outcome" where
  "ctx_updateWndOnSuccess session rwnd c =
     (case cx_sessions c session of
        None \<Rightarrow> Inl NullDeref
      | Some si \<Rightarrow>
          obind (updateWnd (cx_mtu_size c) rwnd si) (\<lambda>si'.
            obind (ctx_send_queue session c) (\<lambda>q.
              let q' = (if ucast (send_getWndSize q) \<noteq> cw_cwnd si' then send_setWndSize (ucast (cw_cwnd si')) q else q)
              in Inr (ctx_put_send_queue session (ctx_pool c, q') (ctx_put_session session si' c)))))"

text \<open>The two kinds of packets; the return codes of \<open>markCompleted\<close> are ignored.\<close>

definition process_data :: "packet_handle \<Rightarrow> int \<Rightarrow> unicast_context \<Rightarrow> unicast_context outcome" where
  "process_data handle session c =
     obind (ctx_receive_queue session c) (\<lambda>q.
       obind (recv_markCompleted (cx_mem c) handle q) (\<lambda>(_, m, q').
         let c1 = (ctx_put_receive_queue session q' c)\<lparr>cx_mem := m, cx_stats_recv := cx_stats_recv c + 1\<rparr>
         in case cx_sessions c1 session of
              None \<Rightarrow> Inl NullDeref
            | Some si \<Rightarrow> Inr (ctx_put_session session (si\<lparr>si_recv_packets := si_recv_packets si + 1\<rparr>) c1)))"

definition process_ack :: "u64 \<Rightarrow> packet_handle \<Rightarrow> int \<Rightarrow> unicast_context \<Rightarrow> unicast_context outcome" where
  "process_ack now handle session c =
     obind (ctx_send_queue session c) (\<lambda>q.
       obind (send_markCompleted (cx_mem c) (ph_sn handle) (ctx_pool c, q)) (\<lambda>(_, s).
         let c1 = ctx_put_send_queue session s c
         in ctx_updateWndOnSuccess session (ucast (ph_wnd handle))
              (c1\<lparr>cx_rto := updateRTO kMinRTO kMaxRTO (rtt_sample now (ph_ts handle)) (cx_rto c1)\<rparr>)))"

definition process_packet :: "u64 \<Rightarrow> packet_handle \<Rightarrow> int \<Rightarrow> unicast_context \<Rightarrow> unicast_context outcome" where
  "process_packet now handle session c =
     (if session < 0 then Inr c
      else if cx_sessions c session = None then Inl AssertFailed
      else if ph_cmd handle = PKT_CMD_DATA then process_data handle session c
      else if ph_cmd handle = PKT_CMD_ACK then process_ack now handle session c
      else Inr c)"

text \<open>The source address is in the header in front of the packet, at offset 8; \<open>g\<close> as before.\<close>

definition ctx_processReceivedPacket ::
  "ibv_post \<Rightarrow> packet_handle \<Rightarrow> u64 \<Rightarrow> ibv_wc \<Rightarrow> unicast_context \<Rightarrow> (int \<times> unicast_context) outcome" where
  "ctx_processReceivedPacket post g now wc c =
     (let request = cx_heap c (wc_wr_id wc) in
      case wc_opcode wc of
        IBV_WC_SEND \<Rightarrow>
          (case rr_context request of
             None \<Rightarrow> Inr (0, c)
           | Some session \<Rightarrow>
               (case cx_sessions c session of
                  None \<Rightarrow> Inl NullDeref
                | Some si \<Rightarrow>
                    if ph_cmd (si_ack_handle si) = PKT_CMD_ACK
                    then Inr (0, ctx_put_session session (si\<lparr>si_ack_handle := (si_ack_handle si)\<lparr>ph_inflight := False\<rparr>\<rparr>) c)
                    else Inr (0, c)))
      | IBV_WC_RECV \<Rightarrow>
          (case deserialize (cx_mem c) (if wc_with_imm wc then wc_imm_data wc else 0) (wc_byte_len wc)
                  (setRawPacket (rr_addr0 request) True (PacketHandle_new g)) of
             (ret, handle) \<Rightarrow>
               if ret \<noteq> 0 then Inr (ret, c)
               else obind (findSession_addr (mem_read (cx_mem c) (rr_addr0 request + 8) 16) (wc_src_qp wc) (ph_session handle)
                             (cx_controller c))
                      (\<lambda>session. obind (process_packet now handle session c)
                        (\<lambda>c1. Inr (submitNormalRecvWR post (ph_packet_buf handle) c1))))
      | IBV_WC_OTHER \<Rightarrow> Inr (0, c))"

text \<open>\<open>pollCompletedPackets\<close> on the completions \<open>poll\<close> returned; None is a failed poll.\<close>

definition poll_one :: "ibv_post \<Rightarrow> packet_handle \<Rightarrow> u64 \<Rightarrow> ibv_wc \<Rightarrow> unicast_context \<Rightarrow> unicast_context outcome" where
  "poll_one post g now wc c =
     (case rr_qp_depth (cx_heap c (wc_wr_id wc)) of
        None \<Rightarrow> Inl NullDeref
      | Some d \<Rightarrow>
          let c1 = ctx_put_store (ud_complete d (ctx_store c)) c
          in if \<not> wc_success wc then Inl Abort
             else obind (ctx_processReceivedPacket post g now wc c1)
                    (\<lambda>(_, c2). Inr (c2\<lparr>cx_request_cache := cache_deallocate (wc_wr_id wc) (cx_request_cache c2)\<rparr>)))"

primrec poll_all :: "ibv_post \<Rightarrow> packet_handle \<Rightarrow> u64 \<Rightarrow> ibv_wc list \<Rightarrow> unicast_context \<Rightarrow> unicast_context outcome" where
  "poll_all post g now [] c = Inr c"
| "poll_all post g now (wc # wcs) c = obind (poll_one post g now wc c) (poll_all post g now wcs)"

definition ctx_pollCompletedPackets ::
  "ibv_post \<Rightarrow> packet_handle \<Rightarrow> u64 \<Rightarrow> ibv_wc list option \<Rightarrow> unicast_context \<Rightarrow> (int \<times> unicast_context) outcome" where
  "ctx_pollCompletedPackets post g now polled c =
     (case polled of
        None \<Rightarrow> Inr (-1, c)
      | Some wcs \<Rightarrow> obind (poll_all post g now wcs c) (\<lambda>c'. Inr (int (length wcs), c')))"

text \<open>\<open>recv_wcs\<close> and \<open>send_wcs\<close> are what the two polls of a step return.\<close>

definition ctx_runStep ::
  "ibv_post \<Rightarrow> packet_handle \<Rightarrow> u16 \<Rightarrow> u64 \<Rightarrow> int list \<Rightarrow> ibv_wc list option \<Rightarrow> ibv_wc list option
     \<Rightarrow> unicast_context \<Rightarrow> (int \<times> unicast_context) outcome" where
  "ctx_runStep post g garbage now order recv_wcs send_wcs c =
     obind (ctx_pollCompletedPackets post g now recv_wcs c) (\<lambda>(ret, c1).
       if ret < 0 then Inr (ret, c1)
       else obind (ctx_sendAckPackets post garbage order c1) (\<lambda>(_, c2).
         obind (ctx_sendDataPackets post garbage now order c2) (\<lambda>(ret, c3).
           if ret \<noteq> 0 then Inr (ret, c3)
           else obind (ctx_pollCompletedPackets post g now send_wcs c3) (\<lambda>(ret, c4).
             if ret < 0 then Inr (ret, c4) else Inr (0, c4)))))"

section \<open>The status of a task\<close>

lemma task_status_iff:
  assumes "unat tail \<le> unat head" "unat head < 2 ^ 24" "unat l < 2 ^ 24"
  shows "task_status (SHORT_SN l) (SHORT_SN tail) (SHORT_SN head) = (if l \<le> tail then SUCCESS else PENDING)"
  using assms by (auto simp: task_status_def word_le_nat_alt unat_SHORT_SN)

text \<open>The sessions whose queue pointers are set have their queues, and only these.\<close>

lemma ctx_send_queue_eq:
  "ctx_send_queue sid c = Inr q \<longleftrightarrow>
     (\<exists>si. cx_sessions c sid = Some si \<and> si_setup si) \<and> pm_send_queue (cx_packet_manager c) sid = Some q"
  by (auto simp: ctx_send_queue_def split: option.splits)

lemma ctx_receive_queue_eq:
  "ctx_receive_queue sid c = Inr q \<longleftrightarrow>
     (\<exists>si. cx_sessions c sid = Some si \<and> si_setup si) \<and> pm_receive_queue (cx_packet_manager c) sid = Some q"
  by (auto simp: ctx_receive_queue_def split: option.splits)

lemma ctx_send_queue_active: "ctx_send_queue sid c = Inr q \<Longrightarrow> ctx_activate g sid c = Inr (0, c)"
  by (auto simp: ctx_send_queue_eq ctx_activate_def)

text \<open>
  A send task succeeds exactly when all its packets are acknowledged.  On an active session
  with a well-formed queue, \<open>send\<close> of non-empty buffers returns the next task identifier and
  registers a task for which \<open>getStatus\<close>, in every later state where \<open>k\<close> more packets of the
  session have been acknowledged, reports SUCCESS if those are all the packets that were queued
  up to and including the task's, and PENDING otherwise, as long as the indices stay below
  \<open>2 ^ 24\<close>.
\<close>

lemma send_task_status:
  assumes s: "findSession_name peer 0 (cx_controller c) = sid" "0 \<le> sid" "ctx_send_queue sid c = Inr q"
    and inv: "send_inv (cx_mem c) others (ctx_pool c, q)" "\<forall>b\<in>set bs. user_ok (sec_fragment_size (sq_secondary_queue q)) b"
    and small: "unat (sq_tail q) + length (send_contents q) + length (user_chunks (sec_fragment_size (sq_secondary_queue q)) bs) < 2 ^ 24"
  shows "\<exists>t c'. ctx_send g peer bs c = Inr (sint (cx_next_task_id c), c') \<and> cx_task_map c' (sint (cx_next_task_id c)) = Some t
    \<and> (\<forall>c2 q2 k. cx_task_map c2 (sint (cx_next_task_id c)) = Some t \<longrightarrow> pm_send_queue (cx_packet_manager c2) sid = Some q2 \<longrightarrow>
         sq_tail q2 = sq_tail q + of_nat k \<longrightarrow> unat (sq_tail q) + k \<le> unat (sq_head q2) \<longrightarrow> unat (sq_head q2) < 2 ^ 24 \<longrightarrow>
         ctx_getStatus (sint (cx_next_task_id c)) c2 =
           Inr (if length (send_contents q @ user_chunks (sec_fragment_size (sq_secondary_queue q)) bs) \<le> k then SUCCESS else PENDING))"
proof -
  let ?n = "length (send_contents q @ user_chunks (sec_fragment_size (sq_secondary_queue q)) bs)"
  obtain p' q' where push: "send_push (cx_mem c) bs (ctx_pool c, q) = Inr (SHORT_SN (sq_tail q + of_nat ?n), 0, p', q')"
    using send_push_ok[OF inv] by auto
  define t where "t = \<lparr>tk_session = sid, tk_last_sn = SHORT_SN (sq_tail q + of_nat ?n), tk_is_send = True\<rparr>"
  define c' where "c' = snd (ctx_new_task t (ctx_put_send_queue sid (p', q') c))"
  have send: "ctx_send g peer bs c = Inr (sint (cx_next_task_id c), c')"
    using s push ctx_send_queue_active[OF s(3), of g]
    by (simp add: ctx_send_def c'_def ctx_new_task_def Let_def t_def ctx_put_send_queue_def)
  have task: "cx_task_map c' (sint (cx_next_task_id c)) = Some t"
    by (simp add: c'_def ctx_new_task_def Let_def ctx_put_send_queue_def)
  have u: "unat (sq_tail q + of_nat j) = unat (sq_tail q) + j" if "unat (sq_tail q) + j < 2 ^ 24" for j
    using that by (simp add: unat_add_of_nat)
  have "ctx_getStatus (sint (cx_next_task_id c)) c2 = Inr (if ?n \<le> k then SUCCESS else PENDING)"
    if c2: "cx_task_map c2 (sint (cx_next_task_id c)) = Some t" "pm_send_queue (cx_packet_manager c2) sid = Some q2"
      "sq_tail q2 = sq_tail q + of_nat k" "unat (sq_tail q) + k \<le> unat (sq_head q2)" "unat (sq_head q2) < 2 ^ 24" for c2 q2 k
  proof -
    have k: "unat (sq_tail q + of_nat k) = unat (sq_tail q) + k" and n: "unat (sq_tail q + of_nat ?n) = unat (sq_tail q) + ?n"
      by (rule u, use c2(4,5) small in simp)+
    have "task_status (SHORT_SN (sq_tail q + of_nat ?n)) (SHORT_SN (sq_tail q + of_nat k)) (SHORT_SN (sq_head q2)) =
        (if sq_tail q + of_nat ?n \<le> sq_tail q + of_nat k then SUCCESS else PENDING)"
      by (rule task_status_iff) (use k n c2(4,5) small in simp_all)
    with c2 k n show ?thesis
      by (simp add: ctx_getStatus_def t_def send_getAckSN_def send_getNextSN_def word_le_nat_alt)
  qed
  with send task show ?thesis by blast
qed

text \<open>
  Beyond \<open>2 ^ 24\<close> packets the status is wrong in both directions: a task whose last index
  is past the wrap of the sequence numbers is reported SUCCESS while none of its packets has
  been acknowledged (its queue has not even reached the wrap), and a task whose packets were
  all acknowledged before the wrap is PENDING again after it.
\<close>

lemma task_status_wrong_after_wrap:
  "task_status (SHORT_SN 0x1000005) (SHORT_SN 0xffff00) (SHORT_SN 0xffff40) = SUCCESS
   \<and> task_status (SHORT_SN 0xfffff0) (SHORT_SN 0x1000005) (SHORT_SN 0x1000010) = PENDING
   \<and> (0x1000005 :: u64) > 0xffff00 \<and> (0xfffff0 :: u64) \<le> 0x1000005"
  by (simp add: task_status_def SHORT_SN_def)

section \<open>Failures that last\<close>

text \<open>
  A session whose acknowledgement packet could not be allocated is lost.  When the first
  \<open>send\<close> to a peer meets an empty pool it returns -1, but the session stays registered without
  queues: every later \<open>send\<close> or \<open>receive\<close> for the peer dereferences a null pointer, even
  after packets have been freed, and so does the next \<open>sendDataPackets\<close>.
\<close>

lemma failed_activation_is_permanent:
  assumes "findSession_name peer 0 (cx_controller c) = sid" "0 \<le> sid" "cx_sessions c sid = None"
    and "pool_global_free_buffer (ctx_pool c) = 0"
  shows "\<exists>c'. ctx_send g peer bs c = Inr (-1, c')
    \<and> ctx_send g' peer bs' (ctx_put_pool p c') = Inl NullDeref \<and> ctx_receive g' peer bs' (ctx_put_pool p c') = Inl NullDeref
    \<and> (rto_rto (cx_rto c) * 2 div 3 \<le> now \<longrightarrow> ctx_sendDataPackets post garbage now [sid] (ctx_put_pool p c') = Inl NullDeref)"
proof -
  define c' where "c' = ctx_put_session sid (SessionInfo_new (g 0)) c"
  have a: "ctx_activate g sid c = Inr (-1, c')"
    using assms(3,4)
    by (simp add: ctx_activate_def allocatePacket_def c'_def ctx_pool_def ctx_put_pool_def ctx_put_session_def)
  have s: "cx_sessions (ctx_put_pool p c') sid = Some (SessionInfo_new (g 0))" "cx_rto (ctx_put_pool p c') = cx_rto c"
    "findSession_name peer 0 (cx_controller (ctx_put_pool p c')) = sid"
    using assms(1) by (simp_all add: c'_def ctx_put_session_def ctx_put_pool_def)
  then have q: "ctx_send_queue sid (ctx_put_pool p c') = Inl NullDeref" "ctx_receive_queue sid (ctx_put_pool p c') = Inl NullDeref"
    "ctx_activate g' sid (ctx_put_pool p c') = Inr (0, ctx_put_pool p c')"
    by (simp_all add: ctx_send_queue_def ctx_receive_queue_def ctx_activate_def SessionInfo_new_def split: option.splits)
  have n: "(now < rto_rto (cx_rto c) * 2 div 3) = False" if "rto_rto (cx_rto c) * 2 div 3 \<le> now" using that by auto
  show ?thesis
    using a q s assms(1,2) n
    by (intro exI[of _ c']) (auto simp: ctx_send_def ctx_receive_def Let_def send_session_def SessionInfo_new_def)
qed

text \<open>A post on a queue pair without room does nothing.\<close>

lemma udep_post_full:
  assumes "ue_connected ep" "0 < length (ue_peer_qp_num_list ep)" "length (ue_peer_qp_num_list ep) < 2 ^ 32"
    and "0 < length (us_qp_num st)" "length (us_qp_num st) < 2 ^ 32" "length (us_send_wr_depth st) = length (us_qp_num st)"
    and "\<forall>d\<in>set (us_send_wr_depth st). d = us_max_wr_depth st"
  shows "\<exists>rnd'. udep_postSendRequest post reqs ep rnd (st, heap) = Inr (0, (st, heap), [], rnd')"
proof -
  obtain i r1 where i: "random_next_max (of_nat (length (ue_peer_qp_num_list ep))) rnd = Inr (i, r1)"
    using random_index assms(2,3) by blast
  obtain j r2 where j: "random_next_max (of_nat (length (us_qp_num st))) r1 = Inr (j, r2)" "unat j < length (us_qp_num st)"
    using random_index assms(4,5) by blast
  then have "us_send_wr_depth st ! unat j = us_max_wr_depth st" using assms(6,7) by simp
  moreover from this have "(us_send_wr_depth st)[unat j := us_max_wr_depth st] = us_send_wr_depth st"
    by (metis list_update_id)
  ultimately show ?thesis
    using assms(1) i j by (simp add: udep_postSendRequest_def ud_postSendRequest_def post_requests_def)
qed

lemma ctx_new_request_fields [simp]:
  "cx_sessions (snd (ctx_new_request rq c)) = cx_sessions c" "cx_controller (snd (ctx_new_request rq c)) = cx_controller c"
  "cx_rto (snd (ctx_new_request rq c)) = cx_rto c" "cx_task_map (snd (ctx_new_request rq c)) = cx_task_map c"
  "cx_packet_manager (snd (ctx_new_request rq c)) = cx_packet_manager c"
  by (simp_all add: ctx_new_request_def split: prod.splits)

lemma serialize_packet_ok:
  assumes "ph_packet_buf h \<noteq> 0" "\<not> ph_with_grh h"
  shows "\<exists>m' out. serialize m h = (0, h\<lparr>ph_pkt_hdr_imm := ph_pkt_hdr_imm (fst (snd (encode m h)))\<rparr>, m', Some out)"
  using assms by (simp add: serialize_def encode_def Let_def split: prod.splits)


section \<open>What sending does to the queues\<close>

text \<open>
  \<open>stamped now rto is q q'\<close>: the queue \<open>q'\<close> differs from \<open>q\<close> in its window size and in
  packets at indices of \<open>is\<close> that were due and now carry the time \<open>now\<close>.
\<close>

definition same_packet :: "packet_handle \<Rightarrow> packet_handle \<Rightarrow> bool" where
  "same_packet h h' \<longleftrightarrow> h'\<lparr>ph_ts := 0, ph_pkt_hdr_imm := 0\<rparr> = h\<lparr>ph_ts := 0, ph_pkt_hdr_imm := 0\<rparr>"

definition stamped :: "u64 \<Rightarrow> u64 \<Rightarrow> u64 set \<Rightarrow> send_queue \<Rightarrow> send_queue \<Rightarrow> bool" where
  "stamped now rto is q q' \<longleftrightarrow> q'\<lparr>sq_wnd_size := 0, sq_handle := []\<rparr> = q\<lparr>sq_wnd_size := 0, sq_handle := []\<rparr>
     \<and> length (sq_handle q') = length (sq_handle q)
     \<and> (\<forall>i<length (sq_handle q). sq_handle q' ! i = sq_handle q ! i
          \<or> i \<in> (\<lambda>x. unat (x mod sq_queue_capacity q)) ` is \<and> rto \<le> now - ph_ts (sq_handle q ! i)
            \<and> ph_ts (sq_handle q' ! i) = now \<and> same_packet (sq_handle q ! i) (sq_handle q' ! i))"

lemma stamped_refl: "stamped now rto is q q"
  by (simp add: stamped_def)

lemma stamped_fields:
  assumes "stamped now rto is q q'"
  shows "sq_queue_capacity q' = sq_queue_capacity q" "sq_head q' = sq_head q" "sq_tail q' = sq_tail q"
proof -
  have e: "q'\<lparr>sq_wnd_size := 0, sq_handle := []\<rparr> = q\<lparr>sq_wnd_size := 0, sq_handle := []\<rparr>" using assms by (simp add: stamped_def)
  show "sq_queue_capacity q' = sq_queue_capacity q" using arg_cong[OF e, of sq_queue_capacity] by simp
  show "sq_head q' = sq_head q" using arg_cong[OF e, of sq_head] by simp
  show "sq_tail q' = sq_tail q" using arg_cong[OF e, of sq_tail] by simp
qed

lemma stamped_trans:
  assumes "stamped now rto is q q'" "stamped now rto is q' q''"
  shows "stamped now rto is q q''"
proof -
  have c: "sq_queue_capacity q' = sq_queue_capacity q" using stamped_fields[OF assms(1)] by simp
  have l: "length (sq_handle q') = length (sq_handle q)" "length (sq_handle q'') = length (sq_handle q)"
    using assms by (simp_all add: stamped_def)
  have "sq_handle q'' ! i = sq_handle q ! i
          \<or> i \<in> (\<lambda>x. unat (x mod sq_queue_capacity q)) ` is \<and> rto \<le> now - ph_ts (sq_handle q ! i)
            \<and> ph_ts (sq_handle q'' ! i) = now \<and> same_packet (sq_handle q ! i) (sq_handle q'' ! i)"
    if i: "i < length (sq_handle q)" for i
    using assms[unfolded stamped_def c same_packet_def] i l unfolding same_packet_def by metis
  then show ?thesis using assms l by (simp add: stamped_def)
qed

text \<open>The indices \<open>sendDataPackets\<close> considers in a session.\<close>

definition due_range :: "unicast_context \<Rightarrow> int \<Rightarrow> u64 set" where
  "due_range c sid = (case (cx_sessions c sid, pm_send_queue (cx_packet_manager c) sid) of
     (Some si, Some q) \<Rightarrow> set (index_range (sq_tail q) (min (sq_head q) (sq_tail q + ucast (cw_cwnd si))))
   | _ \<Rightarrow> {})"

text \<open>Everything the sending path must not touch.\<close>

definition ctx_rest :: "unicast_context \<Rightarrow> (int \<rightharpoonup> session_info) \<times> rto_state \<times> (int \<rightharpoonup> task) \<times> packet_manager" where
  "ctx_rest c = (cx_sessions c, cx_rto c, cx_task_map c, (cx_packet_manager c)\<lparr>pm_send_queue := Map.empty\<rparr>)"

definition sends_due :: "u64 \<Rightarrow> unicast_context \<Rightarrow> unicast_context \<Rightarrow> bool" where
  "sends_due now c c' \<longleftrightarrow> ctx_rest c' = ctx_rest c
     \<and> (\<forall>sid. rel_option (stamped now (rto_rto (cx_rto c)) (due_range c sid))
                (pm_send_queue (cx_packet_manager c) sid) (pm_send_queue (cx_packet_manager c') sid))"

lemma sends_due_queue:
  assumes "ctx_rest c' = ctx_rest c" "pm_send_queue (cx_packet_manager c') = pm_send_queue (cx_packet_manager c)"
  shows "sends_due now c c'"
  using assms by (simp add: sends_due_def option.rel_refl stamped_refl)

lemma sends_due_range:
  assumes "sends_due now c c'"
  shows "due_range c' sid = due_range c sid" "cx_rto c' = cx_rto c"
proof -
  have s: "cx_sessions c' = cx_sessions c" using assms by (simp add: sends_due_def ctx_rest_def)
  have "rel_option (stamped now (rto_rto (cx_rto c)) (due_range c sid))
      (pm_send_queue (cx_packet_manager c) sid) (pm_send_queue (cx_packet_manager c') sid)"
    using assms by (simp add: sends_due_def)
  then show "due_range c' sid = due_range c sid"
    by (cases rule: option.rel_cases) (auto simp: due_range_def s stamped_fields split: option.splits)
  show "cx_rto c' = cx_rto c" using assms by (simp add: sends_due_def ctx_rest_def)
qed

lemma sends_due_trans:
  assumes "sends_due now c c'" "sends_due now c' c''"
  shows "sends_due now c c''"
proof -
  have "rel_option (stamped now (rto_rto (cx_rto c)) (due_range c sid))
      (pm_send_queue (cx_packet_manager c) sid) (pm_send_queue (cx_packet_manager c'') sid)" for sid
  proof -
    have "rel_option (stamped now (rto_rto (cx_rto c)) (due_range c sid))
        (pm_send_queue (cx_packet_manager c) sid) (pm_send_queue (cx_packet_manager c') sid)"
      using assms(1) by (simp add: sends_due_def)
    moreover have "rel_option (stamped now (rto_rto (cx_rto c)) (due_range c sid))
        (pm_send_queue (cx_packet_manager c') sid) (pm_send_queue (cx_packet_manager c'') sid)"
      using assms(2)[unfolded sends_due_def, THEN conjunct2, rule_format, of sid]
      unfolding sends_due_range(1)[OF assms(1)] sends_due_range(2)[OF assms(1)] .
    ultimately show ?thesis by (auto simp: rel_option_iff intro: stamped_trans split: option.splits)
  qed
  then show ?thesis using assms by (simp add: sends_due_def)
qed

text \<open>The context of the locals, and a round or a run of the loop on it.\<close>

abbreviation locals_ctx :: "send_locals \<Rightarrow> unicast_context" where
  "locals_ctx l \<equiv> snd (snd (snd l))"

definition same_core :: "unicast_context \<Rightarrow> unicast_context \<Rightarrow> bool" where
  "same_core c c' \<longleftrightarrow> cx_sessions c' = cx_sessions c \<and> cx_rto c' = cx_rto c \<and> cx_task_map c' = cx_task_map c
     \<and> cx_packet_manager c' = cx_packet_manager c"

lemma same_core_due: "same_core c c' \<Longrightarrow> sends_due now c c'"
  by (rule sends_due_queue) (simp_all add: same_core_def ctx_rest_def)

lemma same_core_post: "ctx_post_send post name reqs c = Inr (n, c') \<Longrightarrow> same_core c c'"
  by (auto simp: ctx_post_send_def obind_eq_Inr same_core_def ctx_put_store_def split: option.splits prod.splits)

lemma same_core_endpoint: "ctx_endpoint garbage sid c = (r, c') \<Longrightarrow> same_core c c'"
  by (auto simp: ctx_endpoint_def same_core_def split: prod.splits)

lemma same_core_request: "ctx_new_request rq c = (r, c') \<Longrightarrow> same_core c c'"
  using ctx_new_request_fields[of rq c] by (simp add: same_core_def)

lemma same_core_flush:
  assumes "flush_requests post l = Inr l'"
  shows "same_core (locals_ctx l) (locals_ctx l')"
proof -
  obtain si reqs ep c where l: "l = (si, reqs, ep, c)" using prod_cases4 by blast
  obtain name where ep: "ep = Some name" using assms by (cases ep) (simp_all add: flush_requests_def l)
  obtain n c1 where p: "ctx_post_send post name reqs c = Inr (n, c1)"
    using assms by (cases "ctx_post_send post name reqs c") (auto simp: flush_requests_def l ep)
  from same_core_post[OF p] assms p show ?thesis
    by (auto simp: flush_requests_def l ep same_core_def split: if_splits)
qed

lemma serialize_packet: "serialize m h = (rc, h', m', out) \<Longrightarrow> ph_ts h' = ph_ts h \<and> same_packet h h'"
  by (auto simp: serialize_def encode_def Let_def same_packet_def split: if_splits prod.splits)

lemma stamp_packet_due:
  assumes st: "stamp_packet now sid i q si c = (si', c', rc, out)" and q: "ctx_send_queue sid c = Inr q"
    and i: "i \<in> due_range c sid" and due: "\<not> now - ph_ts (send_getMutableEntry q i) < rto_rto (cx_rto c)"
  shows "sends_due now c c'"
proof -
  have pq: "pm_send_queue (cx_packet_manager c) sid = Some q" using q by (simp add: ctx_send_queue_eq)
  obtain rc' h' m' out' where ser: "serialize (cx_mem c) ((send_getMutableEntry q i)\<lparr>ph_ts := now\<rparr>) = (rc', h', m', out')"
    using prod_cases4 by blast
  define w where "w = sq_wnd_size (if ph_ts (send_getMutableEntry q i) \<noteq> 0
      then send_setWndSize (ucast (cw_cwnd (backoffWnd (\<lambda>s. s + kResendValue) (cx_mtu_size c) si))) q else q)"
  have c': "c' = (ctx_put_send_queue sid (ctx_pool c, send_updateEntry i (\<lambda>_. h') (q\<lparr>sq_wnd_size := w\<rparr>)) c)\<lparr>cx_mem := m'\<rparr>"
    using st ser by (auto simp: stamp_packet_def Let_def w_def send_setWndSize_def split: if_splits)
  from serialize_packet[OF ser] have h': "ph_ts h' = now" "same_packet (send_getMutableEntry q i) h'"
    by (auto simp: same_packet_def)
  let ?k = "unat (i mod sq_queue_capacity q)"
  have "stamped now (rto_rto (cx_rto c)) (due_range c sid) q (send_updateEntry i (\<lambda>_. h') (q\<lparr>sq_wnd_size := w\<rparr>))"
  proof -
    have "(sq_handle q)[?k := h'] ! j = sq_handle q ! j \<or> j = ?k \<and> (sq_handle q)[?k := h'] ! j = h'" if "j < length (sq_handle q)" for j
      using that by (cases "j = ?k") simp_all
    then show ?thesis
      using h' i due by (fastforce simp: stamped_def send_updateEntry_def Let_def send_getMutableEntry_def)
  qed
  then show ?thesis
    using pq by (auto simp: sends_due_def ctx_rest_def c' ctx_put_send_queue_def ctx_pool_def option.rel_refl stamped_refl)
qed

lemma same_core_queue:
  assumes "queue_packet post garbage sid slices l = Continue (b, l') \<or> queue_packet post garbage sid slices l = Return rc (b, l')"
  shows "same_core (locals_ctx l) (locals_ctx l')"
proof -
  obtain si reqs ep c where l: "l = (si, reqs, ep, c)" using prod_cases4 by blast
  obtain s0 s1 imm where sl: "slices = (s0, s1, imm)" using prod_cases3 by blast
  define rq where "rq = Request_new\<lparr>
           rr_addr0 := buf_addr s0, rr_addr1 := buf_addr s1, rr_length0 := buf_length s0, rr_length1 := buf_length s1,
           rr_lkey0 := cx_local_arena_lkey c, rr_lkey1 := fst (mr_key (cx_regions c) (buf_addr s1)), rr_imm_data := imm\<rparr>"
  obtain r c1 where r: "ctx_new_request rq c = (r, c1)" by fastforce
  obtain ep' c2 where e: "(if ep = None then ctx_endpoint garbage sid c1 else (ep, c1)) = (ep', c2)" by fastforce
  have "same_core c1 c2" using e same_core_endpoint by (auto simp: same_core_def split: if_splits)
  moreover have "same_core c c1" by (rule same_core_request[OF r])
  moreover have "same_core c2 (locals_ctx l')"
    using assms same_core_flush unfolding queue_packet_def sl l
    by (simp add: r e Let_def flip: rq_def split: if_splits sum.splits) (fastforce simp: same_core_def)+
  ultimately show ?thesis by (simp add: l same_core_def)
qed

lemma send_packet_round_due:
  assumes r: "send_packet_round post garbage now sid i l = Continue (b, l') \<or> send_packet_round post garbage now sid i l = Return rc (b, l')"
    and i: "i \<in> due_range (locals_ctx l) sid"
  shows "sends_due now (locals_ctx l) (locals_ctx l')"
proof -
  obtain si reqs ep c where l: "l = (si, reqs, ep, c)" using prod_cases4 by blast
  obtain q where q: "ctx_send_queue sid c = Inr q"
    using r by (cases "ctx_send_queue sid c") (auto simp: send_packet_round_def l)
  show ?thesis
  proof (cases "now - ph_ts (send_getMutableEntry q i) < rto_rto (cx_rto c)")
    case True
    then have "l' = l" using r q by (auto simp: send_packet_round_def l split: if_splits)
    then show ?thesis by (simp add: same_core_due same_core_def)
  next
    case False
    obtain si1 c1 rc1 out where st: "stamp_packet now sid i q si c = (si1, c1, rc1, out)" using prod_cases4 by blast
    have due: "sends_due now c c1" using stamp_packet_due[OF st q _ False] i by (simp add: l)
    have "same_core c1 (locals_ctx l')"
    proof (cases "if rc1 \<noteq> 0 then None else out")
      case None
      then show ?thesis using r q False st by (auto simp: send_packet_round_def l same_core_def split: if_splits)
    next
      case (Some slices)
      then have "queue_packet post garbage sid slices (si1, reqs, ep, c1) = Continue (b, l')
          \<or> queue_packet post garbage sid slices (si1, reqs, ep, c1) = Return rc (b, l')"
        using r q False st by (auto simp: send_packet_round_def l split: if_splits)
      from same_core_queue[OF this] show ?thesis by simp
    qed
    with due show ?thesis by (metis l sends_due_trans same_core_due snd_conv)
  qed
qed

lemma send_packet_loop_due:
  assumes "send_packet_loop post garbage now sid is l = Continue l' \<or> send_packet_loop post garbage now sid is l = Return rc l'"
    and "set is \<subseteq> due_range (locals_ctx l) sid"
  shows "sends_due now (locals_ctx l) (locals_ctx l')"
  using assms
proof (induction "is" arbitrary: l)
  case (Cons i "is")
  have i: "i \<in> due_range (locals_ctx l) sid" using Cons.prems(2) by simp
  show ?case
  proof (cases "send_packet_round post garbage now sid i l")
    case (Continue x)
    obtain b l1 where x: "x = (b, l1)" by (cases x)
    have due: "sends_due now (locals_ctx l) (locals_ctx l1)" using send_packet_round_due i Continue x by blast
    show ?thesis
    proof (cases b)
      case True
      with Cons.prems(1) Continue x have "l' = l1" by auto
      with due show ?thesis by simp
    next
      case False
      have "sends_due now (locals_ctx l1) (locals_ctx l')"
        using Cons.prems Continue x False sends_due_range(1)[OF due] by (intro Cons.IH) auto
      with due show ?thesis by (rule sends_due_trans)
    qed
  next
    case (Return n x)
    obtain b l1 where x: "x = (b, l1)" by (cases x)
    have "sends_due now (locals_ctx l) (locals_ctx l1)" using send_packet_round_due i Return x by blast
    moreover have "l' = l1" using Cons.prems(1) Return x by auto
    ultimately show ?thesis by simp
  next
    case (Fault f)
    with Cons.prems(1) show ?thesis by auto
  qed
qed (auto simp: same_core_due same_core_def)

lemma send_session_due:
  assumes "send_session post garbage now sid si c = Continue l' \<or> send_session post garbage now sid si c = Return rc l'"
    and si: "cx_sessions c sid = Some si"
  shows "sends_due now c (locals_ctx l')"
proof (cases "now - si_last_send_ts si < rto_rto (cx_rto c) * 2 div 3")
  case True
  with assms(1) show ?thesis by (auto simp: send_session_def same_core_due same_core_def)
next
  case False
  obtain q where q: "ctx_send_queue sid c = Inr q"
    using assms(1) False by (cases "ctx_send_queue sid c") (auto simp: send_session_def)
  let ?is = "index_range (sq_tail q) (min (sq_head q) (sq_tail q + ucast (cw_cwnd si)))"
  let ?r = "send_packet_loop post garbage now sid ?is (si, [], None, c)"
  have "set ?is \<subseteq> due_range c sid" using q si by (auto simp: due_range_def ctx_send_queue_eq)
  then have loop: "?r = Continue l \<or> ?r = Return n l \<Longrightarrow> sends_due now c (locals_ctx l)" for l n
    using send_packet_loop_due[of post garbage now sid ?is "(si, [], None, c)" l n] by auto
  have s: "send_session post garbage now sid si c = (case ?r of
               Fault f \<Rightarrow> Fault f
             | Return rc l \<Rightarrow> Return rc l
             | Continue (si', reqs, ep, c') \<Rightarrow>
                 if reqs = [] then Continue (si', reqs, ep, c')
                 else case flush_requests post (si', reqs, ep, c') of Inl f \<Rightarrow> Fault f | Inr l \<Rightarrow> Continue l)"
    using False q by (simp add: send_session_def send_getIndexRange_def)
  show ?thesis
  proof (cases ?r)
    case (Continue l)
    obtain si' reqs ep c1 where l: "l = (si', reqs, ep, c1)" using prod_cases4 by blast
    have "same_core c1 (locals_ctx l')"
      using assms(1) s Continue l same_core_flush[of post l l'] by (auto simp: same_core_def split: if_splits sum.splits)
    with loop Continue l show ?thesis by (metis sends_due_trans same_core_due snd_conv)
  next
    case (Return n l)
    with assms(1) s have "l' = l" by simp
    with loop Return show ?thesis by blast
  qed (use assms(1) s in simp)
qed

text \<open>
  C29.  \<open>sendDataPackets\<close> transmits only packets that are due.  Whatever the driver does and
  whichever way the call ends, the only packets it changes are inside the congestion window of
  their session, were last sent at least \<open>recv_rto_\<close> ago, keep their contents and carry the
  time of the call; the indices of the queues, the pool, the receive queues, the tasks and the
  timer stay as they were, and so does every session entry, including its congestion window and
  \<open>last_send_ts\<close>.
\<close>

theorem send_data_only_due:
  assumes "ctx_sendDataPackets post garbage now order c = Inr (rc, c')"
  shows "sends_due now c c'"
  using assms
proof (induction order arbitrary: c)
  case (Cons sid order)
  show ?case
  proof (cases "cx_sessions c sid")
    case None
    with Cons show ?thesis by simp
  next
    case (Some si)
    show ?thesis
    proof (cases "send_session post garbage now sid si c")
      case (Continue l)
      then have "sends_due now c (locals_ctx l)" using send_session_due Some by blast
      moreover have "sends_due now (locals_ctx l) c'"
        using Cons.prems Some Continue by (intro Cons.IH) (simp split: prod.splits)
      ultimately show ?thesis by (rule sends_due_trans)
    next
      case (Return n l)
      then have "sends_due now c (locals_ctx l)" using send_session_due Some by blast
      with Cons.prems Some Return show ?thesis by (simp split: prod.splits)
    qed (use Cons.prems Some in simp)
  qed
qed (simp add: same_core_due same_core_def)

text \<open>A context with one connected peer and two packets waiting.\<close>

definition test_context :: unicast_context where
  "test_context = (Context_new 64 2 4 ((test_controller 17)\<lparr>ct_peer_name_map := [''b'' \<mapsto> 0],
       ct_peer_name_rev_map := [0 \<mapsto> ''b''], ct_endpoint_map := [''b'' \<mapsto> test_endpoint]\<rparr>) 5 (\<lambda>_. 0) (\<lambda>_. Request_new) 7 1)
     \<lparr>cx_packet_manager := (PacketManager_new 64 2 4 2)\<lparr>pm_pool := test_full_pool, pm_send_queue := [0 \<mapsto> test_send_queue]\<rparr>,
      cx_sessions := [0 \<mapsto> (SessionInfo_new test_handle)\<lparr>si_setup := True\<rparr>]\<rparr>"

lemma test_context_queue: "ctx_send_queue 0 test_context = Inr test_send_queue"
  by (simp add: ctx_send_queue_def test_context_def)

lemma test_context_fields:
  "findSession_name ''b'' 0 (cx_controller test_context) = 0" "cx_mem test_context = (\<lambda>_. 0)" "ctx_pool test_context = test_full_pool"
  "cx_next_task_id test_context = 0"
  by (simp_all add: test_context_def findSession_name_def Context_new_def ctx_pool_def)

lemma send_task_status_witness:
  "\<exists>t c'. ctx_send (\<lambda>_. test_handle) ''b'' [\<lparr>buf_addr = 8224, buf_length = 8\<rparr>] test_context = Inr (0, c')
     \<and> cx_task_map c' 0 = Some t"
proof -
  have f: "sec_fragment_size (sq_secondary_queue test_send_queue) = 16" "sq_tail test_send_queue = 0"
    by (simp_all add: test_send_queue_def)
  have "user_chunks 16 [\<lparr>buf_addr = 8224, buf_length = 8\<rparr>] = [\<lparr>buf_addr = 8224, buf_length = 8\<rparr>]"
    by (simp add: chunks.simps)
  then show ?thesis
    using send_task_status[OF test_context_fields(1) _ test_context_queue, of "[]" "[\<lparr>buf_addr = 8224, buf_length = 8\<rparr>]" "\<lambda>_. test_handle"]
      test_send_inv[of "\<lambda>_. 0"]
    by (auto simp: test_context_fields f test_contents user_ok_def slice_ok_def)
qed

lemma failed_activation_is_permanent_witness:
  "\<exists>c'. ctx_send (\<lambda>_. test_handle) ''b'' [] (test_context\<lparr>cx_sessions := Map.empty\<rparr>) = Inr (-1, c')
     \<and> ctx_send (\<lambda>_. test_handle) ''b'' [] (ctx_put_pool (fst test_pool) c') = Inl NullDeref"
  using failed_activation_is_permanent[of "''b''" "test_context\<lparr>cx_sessions := Map.empty\<rparr>" 0 "\<lambda>_. test_handle" "[]"
      "\<lambda>_. test_handle" "[]" "fst test_pool" 10000 "\<lambda>_. (0, None)" 0]
    test_context_fields(1,3)
  by (auto simp: test_full_pool_def ctx_pool_def)

text \<open>The same context with a packet to acknowledge and every queue pair full.\<close>

definition test_ack_session :: session_info where
  "test_ack_session = (SessionInfo_new test_handle)\<lparr>si_setup := True, si_recv_packets := 1,
     si_ack_handle := (test_packet 4096 0 0)\<lparr>ph_inflight := False\<rparr>\<rparr>"

definition test_full_context :: unicast_context where
  "test_full_context = test_context\<lparr>
     cx_controller := (cx_controller test_context)\<lparr>ct_store := (ud_store_construct [17] 128 64)\<lparr>us_send_wr_depth := [128]\<rparr>\<rparr>,
     cx_packet_manager := (cx_packet_manager test_context)\<lparr>pm_receive_queue := [0 \<mapsto> test_recv_queue]\<rparr>,
     cx_sessions := [0 \<mapsto> test_ack_session]\<rparr>"


text \<open>The congestion window of the session is one packet, so one of the two is sent.\<close>

lemma test_send_data:
  "case ctx_sendDataPackets (\<lambda>_. (0, None)) 0 10000 [0] test_context of
     Inr (rc, c') \<Rightarrow> rc = 0 \<and> map_option (map ph_ts \<circ> sq_handle) (pm_send_queue (cx_packet_manager c') 0) = Some [10000, 0, 0, 0]
   | Inl _ \<Rightarrow> False"
  by code_simp

theorem send_data_only_due_witness:
  "\<exists>c' q'. ctx_sendDataPackets (\<lambda>_. (0, None)) 0 10000 [0] test_context = Inr (0, c') \<and> sends_due 10000 test_context c'
     \<and> pm_send_queue (cx_packet_manager c') 0 = Some q' \<and> map ph_ts (sq_handle q') = [10000, 0, 0, 0]"
  using test_send_data send_data_only_due[of "\<lambda>_. (0, None)" 0 10000 "[0]" test_context]
  by (auto split: sum.splits prod.splits)

end
