(* ===== verification/EndToEnd.thy ===== *)
theory EndToEnd
  imports SendQueue ReceiveQueue
begin

text \<open>
  A transfer between a \<open>SendQueue\<close> and the \<open>ReceiveQueue\<close> of its peer over a network that loses,
  duplicates and reorders packets.

  The state has both queues with their real operations, the receiver's memory, everything that was
  ever put on the network (a packet may be delivered any number of times, or never), and ghost
  state: the fragments pushed on either side, and the number of them acknowledged and received.
  A packet on the wire is its 24-bit number and its bytes, an acknowledgement its 24-bit number;
  each carries the ghost index it was made for.  The steps are what \<open>Context\<close> does with the
  queues: \<open>send\<close>, \<open>receive\<close>, transmission of a packet of the window, the arrival of a data
  packet, the making of an acknowledgement and its arrival.

  The sender's buffers stay as they are during the transfer.  The receiver's buffers do not
  overlap; what the device writes when a packet arrives is outside of them.  No packet survives
  for \<open>2 ^ 24 - 2 ^ 16\<close> others.
\<close>

section \<open>The system\<close>

record transfer =
  xf_pool :: packet_buffer_pool
  xf_tx :: send_queue
  xf_rx :: receive_queue
  xf_mem :: mem
  xf_sent :: "buffer list"
  xf_posted :: "buffer list"
  xf_acked :: nat
  xf_done :: nat
  xf_data :: "(nat \<times> u32 \<times> u8 list) set"
  xf_acks :: "(nat \<times> u32) set"

definition buffer_region :: "buffer \<Rightarrow> addr set" where
  "buffer_region b = region (buf_addr b) (unat (buf_length b))"

definition separate :: "buffer list \<Rightarrow> bool" where
  "separate bs \<longleftrightarrow> (\<forall>i<length bs. \<forall>j<length bs. i \<noteq> j \<longrightarrow> buffer_region (bs ! i) \<inter> buffer_region (bs ! j) = {})"

text \<open>The index after the last packet of the send window.\<close>

definition xf_head :: "transfer \<Rightarrow> nat" where
  "xf_head x = xf_acked x + unat (sq_head (xf_tx x) - sq_tail (xf_tx x))"

definition tx_chunks :: "transfer \<Rightarrow> buffer list \<Rightarrow> buffer list" where
  "tx_chunks x es = user_chunks (sec_fragment_size (sq_secondary_queue (xf_tx x))) es"

definition rx_chunks :: "transfer \<Rightarrow> buffer list \<Rightarrow> buffer list" where
  "rx_chunks x es = user_chunks (sec_fragment_size (rq_secondary_queue (xf_rx x))) es"

inductive transfer_step :: "mem \<Rightarrow> transfer \<Rightarrow> transfer \<Rightarrow> bool" for m where
  push_tx: "\<forall>e\<in>set es. user_ok (sec_fragment_size (sq_secondary_queue (xf_tx x))) e \<Longrightarrow>
    send_push m es (xf_pool x, xf_tx x) = Inr (last_sn, rc, p, q) \<Longrightarrow>
    transfer_step m x (x\<lparr>xf_pool := p, xf_tx := q, xf_sent := xf_sent x @ tx_chunks x es\<rparr>)"
| push_rx: "\<forall>e\<in>set es. slice_ok (sec_fragment_size (rq_secondary_queue (xf_rx x))) e \<Longrightarrow>
    separate (xf_posted x @ rx_chunks x es) \<Longrightarrow>
    recv_push es (xf_rx x) = Inr (last_sn, rc, q) \<Longrightarrow>
    transfer_step m x (x\<lparr>xf_rx := q, xf_posted := xf_posted x @ rx_chunks x es\<rparr>)"
| transmit: "k < length (send_entries (xf_tx x)) \<Longrightarrow> h = send_entries (xf_tx x) ! k \<Longrightarrow>
    transfer_step m x (x\<lparr>xf_data := insert (xf_acked x + k, ph_sn h, buffer_bytes m (handle_fragment h)) (xf_data x)\<rparr>)"
| arrive: "(i, sn, bs) \<in> xf_data x \<Longrightarrow> xf_done x < i + (2 ^ 24 - 2 ^ 16) \<Longrightarrow>
    \<forall>b\<in>set (xf_posted x). \<forall>a\<in>buffer_region b. m1 a = xf_mem x a \<Longrightarrow>
    ph_sn h = sn \<Longrightarrow> unat (ph_data_len h) = length bs \<Longrightarrow> mem_read m1 (getPayload h) (length bs) = bs \<Longrightarrow>
    recv_markCompleted m1 h (xf_rx x) = Inr (rc, m2, q) \<Longrightarrow>
    transfer_step m x (x\<lparr>xf_mem := m2, xf_rx := q, xf_done := xf_done x + unat (rq_tail q - rq_tail (xf_rx x))\<rparr>)"
| acknowledge: "transfer_step m x (x\<lparr>xf_acks := insert (xf_done x, recv_getAckSN (xf_rx x)) (xf_acks x)\<rparr>)"
| arrive_ack: "(j, sn) \<in> xf_acks x \<Longrightarrow> xf_head x < j + 2 ^ 24 \<Longrightarrow>
    send_markCompleted m sn (xf_pool x, xf_tx x) = Inr (rc, p, q) \<Longrightarrow>
    transfer_step m x (x\<lparr>xf_pool := p, xf_tx := q, xf_acked := xf_acked x + unat (sq_tail q - sq_tail (xf_tx x))\<rparr>)"

inductive_cases transfer_stepE: "transfer_step m x x'"

section \<open>The invariant\<close>

definition filled :: "mem \<Rightarrow> transfer \<Rightarrow> nat \<Rightarrow> bool" where
  "filled m x i \<longleftrightarrow> i < xf_head x \<and> i < length (xf_posted x)
     \<and> buffer_bytes (xf_mem x) (xf_posted x ! i) = buffer_bytes m (xf_sent x ! i)"

text \<open>The requests of the receive queue are the posted buffers not yet dropped.\<close>

definition rx_matches :: "mem \<Rightarrow> transfer \<Rightarrow> bool" where
  "rx_matches m x \<longleftrightarrow> xf_done x + length (recv_contents (xf_rx x)) = length (xf_posted x)
     \<and> (\<forall>j<length (recv_contents (xf_rx x)).
          rqst_addr (recv_contents (xf_rx x) ! j) = buf_addr (xf_posted x ! (xf_done x + j))
          \<and> rqst_length (recv_contents (xf_rx x) ! j) = buf_length (xf_posted x ! (xf_done x + j))
          \<and> (completed (recv_contents (xf_rx x) ! j) \<longrightarrow> filled m x (xf_done x + j)))"

definition tx_ok :: "mem \<Rightarrow> addr list \<Rightarrow> transfer \<Rightarrow> bool" where
  "tx_ok m others x \<longleftrightarrow> send_inv m others (xf_pool x, xf_tx x) \<and> sq_tail (xf_tx x) = of_nat (xf_acked x)
     \<and> xf_acked x \<le> length (xf_sent x) \<and> send_contents (xf_tx x) = drop (xf_acked x) (xf_sent x)"

definition rx_ok :: "mem \<Rightarrow> transfer \<Rightarrow> bool" where
  "rx_ok m x \<longleftrightarrow> recv_inv (xf_rx x) \<and> recv_stopped (xf_rx x) \<and> rq_tail (xf_rx x) = of_nat (xf_done x) \<and> rx_matches m x
     \<and> (\<forall>i<xf_done x. filled m x i)"

definition net_ok :: "mem \<Rightarrow> transfer \<Rightarrow> bool" where
  "net_ok m x \<longleftrightarrow> xf_acked x \<le> xf_done x
     \<and> (\<forall>(i, sn, bs)\<in>xf_data x. i < xf_head x \<and> sn = SHORT_SN (of_nat i) \<and> bs = buffer_bytes m (xf_sent x ! i))
     \<and> (\<forall>(j, sn)\<in>xf_acks x. j \<le> xf_done x \<and> sn = SHORT_SN (of_nat j))"

definition transfer_inv :: "mem \<Rightarrow> addr list \<Rightarrow> transfer \<Rightarrow> bool" where
  "transfer_inv m others x \<longleftrightarrow> tx_ok m others x \<and> rx_ok m x \<and> net_ok m x \<and> separate (xf_posted x)"

lemma length_send_entries [simp]: "length (send_entries q) = unat (sq_head q - sq_tail q)"
  by (simp add: send_entries_def)

lemma tx_ok_head:
  assumes "tx_ok m others x"
  shows "xf_head x \<le> length (xf_sent x)" "unat (sq_head (xf_tx x) - sq_tail (xf_tx x)) \<le> 2 ^ 16"
proof -
  have "unat (sq_head (xf_tx x) - sq_tail (xf_tx x)) \<le> length (send_contents (xf_tx x))"
    by (simp add: send_contents_def send_window_def)
  with assms show "xf_head x \<le> length (xf_sent x)" by (auto simp: tx_ok_def xf_head_def)
  have "send_wf (xf_tx x)" using assms by (simp add: tx_ok_def send_inv_def)
  then show "unat (sq_head (xf_tx x) - sq_tail (xf_tx x)) \<le> 2 ^ 16" by (simp add: send_wf_def)
qed

text \<open>Nothing depends on more of the network than \<open>net_ok\<close> says.\<close>

lemma net_update_simps [simp]:
  "xf_head (x\<lparr>xf_data := d\<rparr>) = xf_head x" "xf_head (x\<lparr>xf_acks := a\<rparr>) = xf_head x"
  "filled m (x\<lparr>xf_data := d\<rparr>) = filled m x" "filled m (x\<lparr>xf_acks := a\<rparr>) = filled m x"
  "tx_ok m others (x\<lparr>xf_data := d\<rparr>) = tx_ok m others x" "tx_ok m others (x\<lparr>xf_acks := a\<rparr>) = tx_ok m others x"
  "rx_ok m (x\<lparr>xf_data := d\<rparr>) = rx_ok m x" "rx_ok m (x\<lparr>xf_acks := a\<rparr>) = rx_ok m x"
  "tx_ok m others (x\<lparr>xf_rx := q, xf_posted := ps\<rparr>) = tx_ok m others x" "net_ok m (x\<lparr>xf_rx := q, xf_posted := ps\<rparr>) = net_ok m x"
  by (simp_all add: fun_eq_iff xf_head_def filled_def tx_ok_def rx_ok_def rx_matches_def net_ok_def)

lemma filled_mono:
  assumes "filled m x i" "xf_head x \<le> xf_head x'" "xf_mem x' = xf_mem x" "xf_posted x' = xf_posted x @ ps"
    and "xf_sent x' = xf_sent x @ ss" "xf_head x \<le> length (xf_sent x)"
  shows "filled m x' i"
  using assms by (simp add: filled_def nth_append)

lemma unat_of_nat_diff: "(b :: u64) = a + of_nat n \<Longrightarrow> n < 2 ^ 64 \<Longrightarrow> unat (b - a) = n"
  by (simp add: unsigned_of_nat take_bit_nat_eq_self_iff)

lemma short_index_inj:
  assumes "SHORT_SN (of_nat a) = SHORT_SN (of_nat b)" "a < b + 2 ^ 24" "b < a + 2 ^ 24"
  shows "a = b"
proof -
  have le: "x = y" if "SHORT_SN (of_nat x) = SHORT_SN (of_nat y)" "x \<le> y" "y < x + 2 ^ 24" for x y
  proof -
    have "y - x < 2 ^ 24" using that by linarith
    then show ?thesis using SHORT_SN_inj[of "of_nat x" 0 "y - x"] that by simp
  qed
  show ?thesis using le[of a b] le[of b a] assms by (cases "a \<le> b") auto
qed

lemma buffer_bytes_cong:
  "(\<forall>a\<in>buffer_region b. m1 a = m2 a) \<Longrightarrow> buffer_bytes m1 b = buffer_bytes m2 b"
  unfolding buffer_bytes_def by (rule mem_read_cong) (simp add: buffer_region_def)

text \<open>A step of the sender keeps what the receiver has.\<close>

lemma rx_ok_mono:
  assumes "rx_ok m x" "xf_head x \<le> xf_head x'" "xf_mem x' = xf_mem x" "xf_posted x' = xf_posted x" "xf_rx x' = xf_rx x"
    and "xf_done x' = xf_done x" "xf_sent x' = xf_sent x @ ss" "xf_head x \<le> length (xf_sent x)"
  shows "rx_ok m x'"
proof -
  have "filled m x i \<Longrightarrow> filled m x' i" for i using filled_mono[of m x i x' "[]" ss] assms by simp
  with assms show ?thesis by (auto simp: rx_ok_def rx_matches_def)
qed

lemma transfer_inv_push_tx:
  assumes inv: "transfer_inv m others x" and ok: "\<forall>e\<in>set es. user_ok (sec_fragment_size (sq_secondary_queue (xf_tx x))) e"
    and push: "send_push m es (xf_pool x, xf_tx x) = Inr (last_sn, rc, p, q)"
  shows "transfer_inv m others (x\<lparr>xf_pool := p, xf_tx := q, xf_sent := xf_sent x @ tx_chunks x es\<rparr>)"
proof -
  let ?x = "x\<lparr>xf_pool := p, xf_tx := q, xf_sent := xf_sent x @ tx_chunks x es\<rparr>"
  have tx: "tx_ok m others x" using inv by (simp add: transfer_inv_def)
  then have si: "send_inv m others (xf_pool x, xf_tx x)" by (simp add: tx_ok_def)
  have q: "send_inv m others (p, q)" "sq_tail q = sq_tail (xf_tx x)" "send_contents q = send_contents (xf_tx x) @ tx_chunks x es"
    "unat (sq_head (xf_tx x) - sq_tail (xf_tx x)) \<le> unat (sq_head q - sq_tail q)"
    using send_push_ok[OF si ok] push by (auto simp: tx_chunks_def)
  have h: "xf_head x \<le> xf_head ?x" using q(2,4) by (simp add: xf_head_def)
  have "tx_ok m others ?x" using tx q by (simp add: tx_ok_def)
  moreover have "rx_ok m ?x" using rx_ok_mono[OF _ h] inv tx_ok_head(1)[OF tx] by (simp add: transfer_inv_def)
  moreover have "net_ok m ?x"
    using inv h tx_ok_head(1)[OF tx] by (fastforce simp: transfer_inv_def net_ok_def nth_append)
  ultimately show ?thesis using inv by (simp add: transfer_inv_def)
qed

lemma transfer_inv_push_rx:
  assumes inv: "transfer_inv m others x" and ok: "\<forall>e\<in>set es. slice_ok (sec_fragment_size (rq_secondary_queue (xf_rx x))) e"
    and sep: "separate (xf_posted x @ rx_chunks x es)" and push: "recv_push es (xf_rx x) = Inr (last_sn, rc, q)"
  shows "transfer_inv m others (x\<lparr>xf_rx := q, xf_posted := xf_posted x @ rx_chunks x es\<rparr>)"
proof -
  let ?x = "x\<lparr>xf_rx := q, xf_posted := xf_posted x @ rx_chunks x es\<rparr>"
  have rx: "recv_inv (xf_rx x)" and tx: "tx_ok m others x" using inv by (simp_all add: transfer_inv_def rx_ok_def)
  have q: "recv_inv q" "recv_stopped q" "rq_tail q = rq_tail (xf_rx x)" "recv_contents q = recv_contents (xf_rx x) @ map fresh_request (rx_chunks x es)"
    by (rule recv_push_contents[OF rx ok], use push in \<open>simp add: rx_chunks_def\<close>)+
  have f: "filled m x i \<Longrightarrow> filled m ?x i" for i
    using filled_mono[of m x i ?x "rx_chunks x es" "[]"] tx_ok_head(1)[OF tx] by (simp add: xf_head_def)
  have m: "rx_matches m x" using inv by (simp add: transfer_inv_def rx_ok_def)
  then have l: "length (xf_posted x) = xf_done x + length (recv_contents (xf_rx x))" by (simp add: rx_matches_def)
  from m have "rx_matches m ?x"
    using f by (auto simp: rx_matches_def q(4) nth_append fresh_request_def l)
  then have "rx_ok m ?x" using inv q f by (simp add: transfer_inv_def rx_ok_def)
  with inv sep show ?thesis by (simp add: transfer_inv_def)
qed

lemma transfer_inv_transmit:
  assumes inv: "transfer_inv m others x" and k: "k < length (send_entries (xf_tx x))" and h: "h = send_entries (xf_tx x) ! k"
  shows "transfer_inv m others (x\<lparr>xf_data := insert (xf_acked x + k, ph_sn h, buffer_bytes m (handle_fragment h)) (xf_data x)\<rparr>)"
proof -
  have tx: "tx_ok m others x" using inv by (simp add: transfer_inv_def)
  then have "entry_ok (xf_tx x) k h" using k by (simp add: h tx_ok_def send_inv_def send_wf_def)
  then have sn: "ph_sn h = SHORT_SN (of_nat (xf_acked x + k))" using tx by (simp add: entry_ok_def tx_ok_def)
  have "handle_fragment h = send_contents (xf_tx x) ! k" using k by (simp add: h send_contents_def send_window_def nth_append)
  then have b: "handle_fragment h = xf_sent x ! (xf_acked x + k)" using tx by (simp add: tx_ok_def)
  have "xf_acked x + k < xf_head x" using k by (simp add: xf_head_def)
  with inv sn b show ?thesis by (simp add: transfer_inv_def net_ok_def)
qed

text \<open>An acknowledgement that is not too old designates the index it was made for.\<close>

lemma ack_designates:
  assumes inv: "transfer_inv m others x" and j: "(j, sn) \<in> xf_acks x" and fresh: "xf_head x < j + 2 ^ 24"
  shows "acked_index (sq_tail (xf_tx x)) (sq_head (xf_tx x)) sn = Some k \<Longrightarrow> xf_acked x + k = j"
    and "xf_acked x \<le> j \<Longrightarrow> acked_index (sq_tail (xf_tx x)) (sq_head (xf_tx x)) sn = Some (j - xf_acked x)"
proof -
  let ?t = "sq_tail (xf_tx x)" and ?h = "sq_head (xf_tx x)" and ?a = "xf_acked x"
  have tx: "tx_ok m others x" using inv by (simp add: transfer_inv_def)
  have t: "?t = of_nat ?a" using tx by (simp add: tx_ok_def)
  have jd: "j \<le> xf_done x" "sn = SHORT_SN (of_nat j)" using inv j by (auto simp: transfer_inv_def net_ok_def)
  have n: "unat (?h - ?t) \<le> 2 ^ 16" by (rule tx_ok_head(2)[OF tx])
  have "\<forall>i<xf_done x. i < xf_head x" using inv by (simp add: transfer_inv_def rx_ok_def filled_def)
  then have done_head: "xf_done x \<le> xf_head x" by (meson linorder_not_less order_less_irrefl)
  show "?a + k = j" if "acked_index ?t ?h sn = Some k"
  proof -
    have k: "k \<le> unat (?h - ?t)" "SHORT_SN (?t + of_nat k) = sn"
      using acked_index_le[OF that] that by (auto simp: acked_index_def find_Some_iff simp del: upt_Suc)
    have "SHORT_SN (of_nat (?a + k)) = SHORT_SN (of_nat j)" using k(2) jd(2) t by simp
    moreover have "?a + k < j + 2 ^ 24" using k(1) fresh by (simp add: xf_head_def)
    moreover have "j < ?a + k + 2 ^ 24" using jd(1) done_head n by (simp add: xf_head_def)
    ultimately show ?thesis by (rule short_index_inj)
  qed
  show "acked_index ?t ?h sn = Some (j - ?a)" if "?a \<le> j"
  proof (rule acked_index_Some)
    show "SHORT_SN (?t + of_nat (j - ?a)) = sn" using that by (simp add: t jd(2))
    show "j - ?a \<le> unat (?h - ?t)" using jd(1) done_head by (simp add: xf_head_def)
  qed (use n in simp)
qed

lemma transfer_inv_arrive_ack:
  assumes inv: "transfer_inv m others x" and j: "(j, sn) \<in> xf_acks x" and fresh: "xf_head x < j + 2 ^ 24"
    and mark: "send_markCompleted m sn (xf_pool x, xf_tx x) = Inr (rc, p, q)"
  shows "transfer_inv m others (x\<lparr>xf_pool := p, xf_tx := q, xf_acked := xf_acked x + unat (sq_tail q - sq_tail (xf_tx x))\<rparr>)"
    and "xf_acked x \<le> j \<Longrightarrow> unat (sq_tail q - sq_tail (xf_tx x)) = j - xf_acked x"
proof -
  let ?t = "sq_tail (xf_tx x)" and ?h = "sq_head (xf_tx x)" and ?a = "xf_acked x"
  let ?x = "x\<lparr>xf_pool := p, xf_tx := q, xf_acked := ?a + unat (sq_tail q - ?t)\<rparr>"
  have tx: "tx_ok m others x" using inv by (simp add: transfer_inv_def)
  have t: "?t = of_nat ?a" and si: "send_inv m others (xf_pool x, xf_tx x)" using tx by (simp_all add: tx_ok_def)
  have jd: "j \<le> xf_done x" "unat sn < 2 ^ 24" using inv j by (auto simp: transfer_inv_def net_ok_def)
  obtain k where k: "k = (case acked_index ?t ?h sn of Some j \<Rightarrow> j | None \<Rightarrow> 0)" "sq_tail q = ?t + of_nat k"
    "send_contents q = drop k (send_contents (xf_tx x))" "send_inv m others (p, q)"
    "k \<le> unat (?h - ?t)" "unat (?h - ?t) \<le> k + unat (sq_head q - sq_tail q)"
    using send_markCompleted_ok[OF si jd(2)] mark by auto
  have u: "unat (sq_tail q - ?t) = k" using k(5) tx_ok_head(2)[OF tx] by (intro unat_of_nat_diff[OF k(2)]) simp
  show "unat (sq_tail q - ?t) = j - ?a" if "?a \<le> j" using ack_designates(2)[OF inv j fresh that] k(1) u by simp
  have le: "?a + k \<le> xf_done x"
    using k(1) ack_designates(1)[OF inv j fresh] jd(1) inv by (auto simp: transfer_inv_def net_ok_def split: option.splits)
  have h: "xf_head x \<le> xf_head ?x" using k(6) u by (simp add: xf_head_def)
  have "length (send_contents (xf_tx x)) = length (xf_sent x) - ?a" using tx by (simp add: tx_ok_def)
  moreover have "unat (?h - ?t) \<le> length (send_contents (xf_tx x))" by (simp add: send_contents_def send_window_def)
  ultimately have "tx_ok m others ?x" using tx k(2-5) u t by (auto simp: tx_ok_def add.commute)
  moreover have "rx_ok m ?x" using rx_ok_mono[OF _ h, of m "[]"] inv tx_ok_head(1)[OF tx] by (simp add: transfer_inv_def)
  moreover have "net_ok m ?x" using inv h le u by (fastforce simp: transfer_inv_def net_ok_def)
  ultimately show "transfer_inv m others ?x" using inv by (simp add: transfer_inv_def)
qed

text \<open>
  The arrival of a packet: the memory changes at most in the request of the packet, which is then
  filled, and the completed prefix of the requests is dropped.
\<close>

lemma rx_ok_drop:
  assumes m: "xf_done x + length cs = length (xf_posted x)"
    and cs: "\<forall>j<length cs. rqst_addr (cs ! j) = buf_addr (xf_posted x ! (xf_done x + j))
          \<and> rqst_length (cs ! j) = buf_length (xf_posted x ! (xf_done x + j))
          \<and> (completed (cs ! j) \<longrightarrow> filled m (x\<lparr>xf_mem := m2\<rparr>) (xf_done x + j))"
    and old: "\<forall>i<xf_done x. filled m (x\<lparr>xf_mem := m2\<rparr>) i"
    and q: "recv_inv q" "recv_contents q = dropWhile completed cs" "rq_tail (xf_rx x) = of_nat (xf_done x)"
      "rq_tail q = rq_tail (xf_rx x) + of_nat (length cs - length (recv_contents q))" "recv_stopped q"
    and d: "d = length cs - length (recv_contents q)"
  shows "rx_ok m (x\<lparr>xf_mem := m2, xf_rx := q, xf_done := xf_done x + d\<rparr>)"
proof -
  let ?x = "x\<lparr>xf_mem := m2, xf_rx := q, xf_done := xf_done x + d\<rparr>"
  have f: "filled m ?x i = filled m (x\<lparr>xf_mem := m2\<rparr>) i" for i by (simp add: filled_def xf_head_def)
  have tw: "length (takeWhile completed cs) = d" "d \<le> length cs"
    using arg_cong[OF takeWhile_dropWhile_id[of completed cs], of length] unfolding length_append d q(2) by linarith+
  have c: "recv_contents q = drop d cs" using q(2) tw(1) by (simp add: dropWhile_eq_drop)
  have "completed (cs ! j)" if "j < d" for j
    using that tw by (metis nth_mem set_takeWhileD takeWhile_nth)
  then have pre: "filled m (x\<lparr>xf_mem := m2\<rparr>) i" if "i < xf_done x + d" for i
    using that old cs[rule_format, of "i - xf_done x"] tw(2) by (cases "i < xf_done x") auto
  have "rx_matches m ?x"
    unfolding rx_matches_def using m tw(2) cs by (simp add: c f add.assoc)
  with q d pre f show ?thesis by (simp add: rx_ok_def)
qed

lemma data_designates:
  assumes inv: "transfer_inv m others x" and i: "(i, sn, bs) \<in> xf_data x" and fresh: "xf_done x < i + (2 ^ 24 - 2 ^ 16)"
  shows "recv_offset (xf_rx x) sn = Some k \<Longrightarrow> xf_done x + k = i"
    and "xf_done x \<le> i \<Longrightarrow> i - xf_done x < unat (rq_wnd_size (xf_rx x)) \<Longrightarrow> recv_offset (xf_rx x) sn = Some (i - xf_done x)"
proof -
  have ok: "rq_tail (xf_rx x) = of_nat (xf_done x)" "i < xf_head x" "sn = SHORT_SN (of_nat i)" "xf_acked x \<le> xf_done x"
    using inv i by (auto simp: transfer_inv_def rx_ok_def net_ok_def)
  have n: "unat (sq_head (xf_tx x) - sq_tail (xf_tx x)) \<le> 2 ^ 16" using inv by (intro tx_ok_head(2)[of m others]) (simp add: transfer_inv_def)
  have hit: "xf_done x + k = i" if "k < 2 ^ 16" "SHORT_SN (of_nat (xf_done x) + of_nat k) = sn" for k
  proof (rule short_index_inj)
    show "SHORT_SN (of_nat (xf_done x + k)) = SHORT_SN (of_nat i)" using that(2) ok by simp
    show "xf_done x + k < i + 2 ^ 24" using fresh that(1) by simp
    show "i < xf_done x + k + 2 ^ 24" using ok(2,4) n by (simp add: xf_head_def)
  qed
  have w: "unat (rq_wnd_size (xf_rx x)) < 2 ^ 16" using unat_u16_less[of "rq_wnd_size (xf_rx x)"] by simp
  show "xf_done x + k = i" if "recv_offset (xf_rx x) sn = Some k"
    using recv_offset_Some[OF that] w ok(1) by (intro hit) auto
  show "recv_offset (xf_rx x) sn = Some (i - xf_done x)" if "xf_done x \<le> i" "i - xf_done x < unat (rq_wnd_size (xf_rx x))"
    unfolding recv_offset_def find_Some_iff
  proof (intro exI[of _ "i - xf_done x"] conjI allI impI)
    fix j assume j: "j < i - xf_done x"
    then show "SHORT_SN (rq_tail (xf_rx x) + of_nat ([0..<unat (rq_wnd_size (xf_rx x))] ! j)) \<noteq> sn"
      using hit[of j] that w ok(1) by auto
  qed (use that ok(1,3) in auto)
qed

lemma posted_bytes:
  "\<forall>b\<in>set bs. \<forall>a\<in>buffer_region b. m1 a = m2 a \<Longrightarrow> l < length bs \<Longrightarrow> buffer_bytes m1 (bs ! l) = buffer_bytes m2 (bs ! l)"
  by (intro buffer_bytes_cong) (metis nth_mem)

text \<open>Only requests of the window are ever dropped.\<close>

lemma recv_dropped_less:
  assumes "recv_wf q" "k < length (recv_window q)"
  shows "length (recv_contents q) - length (dropWhile completed ((recv_contents q)[k := r])) < 2 ^ 64"
proof -
  have "(recv_contents q)[k := r] = (recv_window q)[k := r] @ recv_pending q"
    using assms(2) by (simp add: recv_contents_def list_update_append)
  then have "length (recv_contents q) - length (dropWhile completed ((recv_contents q)[k := r])) \<le> length (recv_window q)"
    unfolding dropWhile_completed_pending by (simp add: dropWhile_completed_pending recv_contents_def)
  also have "\<dots> < 2 ^ 64" using unat_u64_less[of "rq_head q - rq_tail q"] by simp
  finally show ?thesis .
qed

text \<open>A packet that changes no request: ignored or a duplicate.\<close>

lemma rx_ok_quiet:
  assumes rx: "rx_ok m x" and m1: "\<forall>b\<in>set (xf_posted x). \<forall>a\<in>buffer_region b. m1 a = xf_mem x a"
    and q: "recv_inv q" "recv_contents q = recv_contents (xf_rx x)" "rq_tail q = rq_tail (xf_rx x)" "recv_stopped q"
  shows "rx_ok m (x\<lparr>xf_mem := m1, xf_rx := q\<rparr>)"
proof -
  have f: "filled m (x\<lparr>xf_mem := m1\<rparr>) l" if "filled m x l" for l
  proof -
    have "buffer_bytes m1 (xf_posted x ! l) = buffer_bytes (xf_mem x) (xf_posted x ! l)"
      using that by (intro posted_bytes[OF m1]) (simp add: filled_def)
    with that show ?thesis by (simp add: filled_def xf_head_def)
  qed
  have "rx_ok m (x\<lparr>xf_mem := m1, xf_rx := q, xf_done := xf_done x + 0\<rparr>)"
    by (rule rx_ok_drop[of x "recv_contents (xf_rx x)"]) (use rx q f in \<open>auto simp: rx_ok_def rx_matches_def recv_inv_def\<close>)
  then show ?thesis by simp
qed

text \<open>A packet that fills its request.\<close>

lemma rx_ok_fill:
  assumes rx: "rx_ok m x" and sep: "separate (xf_posted x)" and m1: "\<forall>b\<in>set (xf_posted x). \<forall>a\<in>buffer_region b. m1 a = xf_mem x a"
    and k: "k < length (recv_contents (xf_rx x))" "r = recv_contents (xf_rx x) ! k" "xf_done x + k < xf_head x"
    and bs: "length bs = unat (rqst_length r)" "bs = buffer_bytes m (xf_sent x ! (xf_done x + k))"
    and q: "recv_inv q" "recv_contents q = dropWhile completed ((recv_contents (xf_rx x))[k := r\<lparr>rqst_inflight := False\<rparr>])"
      "rq_tail q = rq_tail (xf_rx x) + of_nat (length (recv_contents (xf_rx x)) - length (recv_contents q))" "recv_stopped q"
  shows "rx_ok m (x\<lparr>xf_mem := mem_write m1 (rqst_addr r) bs, xf_rx := q,
      xf_done := xf_done x + (length (recv_contents (xf_rx x)) - length (recv_contents q))\<rparr>)"
proof -
  let ?cs = "recv_contents (xf_rx x)" and ?m = "mem_write m1 (rqst_addr r) bs" and ?i = "xf_done x + k"
  have mt: "xf_done x + length ?cs = length (xf_posted x)" and rt: "rq_tail (xf_rx x) = of_nat (xf_done x)"
    using rx by (simp_all add: rx_ok_def rx_matches_def)
  have r: "rqst_addr r = buf_addr (xf_posted x ! ?i)" "rqst_length r = buf_length (xf_posted x ! ?i)"
    using rx k by (simp_all add: rx_ok_def rx_matches_def)
  have here: "filled m (x\<lparr>xf_mem := ?m\<rparr>) ?i"
    using k(1,3) mt bs r unat_u64_less[of "rqst_length r"] mem_read_write_same[of bs m1 "rqst_addr r"]
    by (simp add: filled_def xf_head_def buffer_bytes_def)
  have other: "filled m (x\<lparr>xf_mem := ?m\<rparr>) l" if l: "filled m x l" "l \<noteq> ?i" for l
  proof -
    have "buffer_region (xf_posted x ! l) \<inter> region (rqst_addr r) (length bs) = {}"
      using sep l k(1) mt bs(1) by (simp add: separate_def filled_def r buffer_region_def)
    then have "buffer_bytes ?m (xf_posted x ! l) = buffer_bytes m1 (xf_posted x ! l)"
      unfolding buffer_bytes_def buffer_region_def by (rule mem_read_write_disjoint)
    also have "\<dots> = buffer_bytes (xf_mem x) (xf_posted x ! l)" using l(1) by (intro posted_bytes[OF m1]) (simp add: filled_def)
    finally show ?thesis using l(1) by (simp add: filled_def xf_head_def)
  qed
  have f: "filled m x l \<Longrightarrow> filled m (x\<lparr>xf_mem := ?m\<rparr>) l" for l using here other by blast
  show ?thesis
  proof (rule rx_ok_drop[of x "?cs[k := r\<lparr>rqst_inflight := False\<rparr>]"])
    show "\<forall>j<length (?cs[k := r\<lparr>rqst_inflight := False\<rparr>]).
        rqst_addr (?cs[k := r\<lparr>rqst_inflight := False\<rparr>] ! j) = buf_addr (xf_posted x ! (xf_done x + j))
        \<and> rqst_length (?cs[k := r\<lparr>rqst_inflight := False\<rparr>] ! j) = buf_length (xf_posted x ! (xf_done x + j))
        \<and> (completed (?cs[k := r\<lparr>rqst_inflight := False\<rparr>] ! j) \<longrightarrow> filled m (x\<lparr>xf_mem := ?m\<rparr>) (xf_done x + j))"
    proof (intro allI impI)
      fix j assume j: "j < length (?cs[k := r\<lparr>rqst_inflight := False\<rparr>])"
      show "rqst_addr (?cs[k := r\<lparr>rqst_inflight := False\<rparr>] ! j) = buf_addr (xf_posted x ! (xf_done x + j))
        \<and> rqst_length (?cs[k := r\<lparr>rqst_inflight := False\<rparr>] ! j) = buf_length (xf_posted x ! (xf_done x + j))
        \<and> (completed (?cs[k := r\<lparr>rqst_inflight := False\<rparr>] ! j) \<longrightarrow> filled m (x\<lparr>xf_mem := ?m\<rparr>) (xf_done x + j))"
        using rx r here f j k(1) by (cases "j = k") (simp_all add: rx_ok_def rx_matches_def)
    qed
  qed (use mt rt q f rx in \<open>simp_all add: rx_ok_def\<close>)
qed

lemma transfer_inv_arrive:
  assumes inv: "transfer_inv m others x" and i: "(i, sn, bs) \<in> xf_data x" and fresh: "xf_done x < i + (2 ^ 24 - 2 ^ 16)"
    and m1: "\<forall>b\<in>set (xf_posted x). \<forall>a\<in>buffer_region b. m1 a = xf_mem x a"
    and h: "ph_sn h = sn" "unat (ph_data_len h) = length bs" "mem_read m1 (getPayload h) (length bs) = bs"
    and mark: "recv_markCompleted m1 h (xf_rx x) = Inr (rc, m2, q)"
  shows "transfer_inv m others (x\<lparr>xf_mem := m2, xf_rx := q, xf_done := xf_done x + unat (rq_tail q - rq_tail (xf_rx x))\<rparr>)"
proof -
  let ?x = "\<lambda>d. x\<lparr>xf_mem := m2, xf_rx := q, xf_done := d\<rparr>" and ?w = "recv_window (xf_rx x)"
  have rx: "rx_ok m x" "recv_inv (xf_rx x)" "recv_stopped (xf_rx x)" and sep: "separate (xf_posted x)" using inv by (simp_all add: transfer_inv_def rx_ok_def)
  have sn: "unat (ph_sn h) < 2 ^ 24" "i < xf_head x" "bs = buffer_bytes m (xf_sent x ! i)"
    using inv i h(1) by (auto simp: transfer_inv_def net_ok_def)
  have rest: "tx_ok m others (?x d)" "xf_done x \<le> d \<Longrightarrow> net_ok m (?x d)" for d
    using inv by (fastforce simp: transfer_inv_def tx_ok_def net_ok_def xf_head_def)+
  have quiet: ?thesis if "m2 = m1" "recv_inv q" "recv_contents q = recv_contents (xf_rx x)" "rq_tail q = rq_tail (xf_rx x)"
      "recv_stopped q"
    using rx_ok_quiet[OF rx(1) m1 that(2-5)] inv rest[of "xf_done x"] that by (simp add: transfer_inv_def)
  show ?thesis
  proof (cases "recv_offset (xf_rx x) (ph_sn h)")
    case None
    with mark recv_mark_ignored[OF None sn(1), of m1] rx(2,3) show ?thesis by (intro quiet) auto
  next
    case (Some k)
    show ?thesis
    proof (cases "k < length ?w \<and> rqst_inflight (?w ! k)")
      case False
      with mark show ?thesis by (intro quiet; elim recv_mark_stale[OF rx(2) sn(1) Some, of m1]) auto
    next
      case True
      let ?r = "recv_contents (xf_rx x) ! k"
      have w: "?w ! k = ?r" "k < length (recv_contents (xf_rx x))" using True by (simp_all add: recv_contents_def nth_append)
      note P = recv_mark_pending[OF rx(2) sn(1) Some True[THEN conjunct1] True[THEN conjunct2], of m1, unfolded w(1)]
      have len: "ucast (ph_data_len h) = rqst_length ?r" using P(1) mark by (metis Inl_Inr_False)
      then have bl: "length bs = unat (rqst_length ?r)" by (simp flip: len h(2))
      obtain q: "m2 = memmove m1 (rqst_addr ?r) (getPayload h) (unat (rqst_length ?r))" "recv_inv q"
        "recv_contents q = dropWhile completed ((recv_contents (xf_rx x))[k := ?r\<lparr>rqst_inflight := False\<rparr>])"
        "rq_tail q = rq_tail (xf_rx x) + of_nat (length (recv_contents (xf_rx x)) - length (recv_contents q))" "recv_stopped q"
        using P(2)[OF len] mark by auto
      have ik: "xf_done x + k = i" using data_designates(1)[OF inv i fresh] Some h(1) by simp
      have m2: "m2 = mem_write m1 (rqst_addr ?r) bs" using q(1) h(3) by (simp add: memmove_def bl)
      have rq: "rx_ok m (?x (xf_done x + (length (recv_contents (xf_rx x)) - length (recv_contents q))))"
        unfolding m2 by (rule rx_ok_fill[OF rx(1) sep m1 w(2) refl _ bl _ q(2-5)]) (use ik sn in simp_all)
      have u: "unat (rq_tail q - rq_tail (xf_rx x)) = length (recv_contents (xf_rx x)) - length (recv_contents q)"
        using recv_dropped_less[of "xf_rx x" k] rx(2) True q(3) by (intro unat_of_nat_diff[OF q(4)]) (simp add: recv_inv_def)
      show ?thesis unfolding u using rq rest inv by (simp add: transfer_inv_def)
    qed
  qed
qed

lemma transfer_step_inv: "transfer_step m x x' \<Longrightarrow> transfer_inv m others x \<Longrightarrow> transfer_inv m others x'"
proof (induction rule: transfer_step.induct)
  case (acknowledge x)
  then have "rq_tail (xf_rx x) = of_nat (xf_done x)" by (simp add: transfer_inv_def rx_ok_def)
  with acknowledge show ?case by (simp add: transfer_inv_def net_ok_def recv_getAckSN_def)
qed (blast intro: transfer_inv_push_tx transfer_inv_push_rx transfer_inv_transmit transfer_inv_arrive transfer_inv_arrive_ack(1))+

text \<open>The start: empty queues, nothing on the network.\<close>

definition transfer_init :: "mem \<Rightarrow> addr list \<Rightarrow> transfer \<Rightarrow> bool" where
  "transfer_init m others x \<longleftrightarrow> send_inv m others (xf_pool x, xf_tx x) \<and> send_contents (xf_tx x) = [] \<and> sq_tail (xf_tx x) = 0
     \<and> recv_inv (xf_rx x) \<and> recv_contents (xf_rx x) = [] \<and> rq_tail (xf_rx x) = 0
     \<and> xf_sent x = [] \<and> xf_posted x = [] \<and> xf_acked x = 0 \<and> xf_done x = 0 \<and> xf_data x = {} \<and> xf_acks x = {}"

lemma transfer_init_inv: "transfer_init m others x \<Longrightarrow> transfer_inv m others x"
  by (auto simp: transfer_init_def transfer_inv_def tx_ok_def rx_ok_def rx_matches_def net_ok_def separate_def
      recv_stopped_def recv_contents_def)

lemma transfer_run_inv:
  assumes "transfer_init m others x0" "(transfer_step m)\<^sup>*\<^sup>* x0 x"
  shows "transfer_inv m others x"
  using assms(2) transfer_init_inv[OF assms(1)] by (induction rule: rtranclp_induct) (auto intro: transfer_step_inv)

text \<open>
  C1.  Integrity of a transfer over an unreliable network.  However packets and acknowledgements
  are lost, repeated and reordered, what the sender believes acknowledged has been received, and
  the receiver's buffers hold, fragment by fragment, the bytes of the sender's: in every reachable
  state \<open>tail_\<close> of the send queue is at most \<open>tail_\<close> of the receive queue, and the buffers before
  the latter are filled with the data that was sent.
\<close>

theorem transfer_integrity:
  assumes "transfer_init m others x0" "(transfer_step m)\<^sup>*\<^sup>* x0 x"
  shows "sq_tail (xf_tx x) = of_nat (xf_acked x) \<and> rq_tail (xf_rx x) = of_nat (xf_done x) \<and> xf_acked x \<le> xf_done x
    \<and> xf_done x \<le> length (xf_sent x) \<and> xf_done x \<le> length (xf_posted x)
    \<and> map (buffer_bytes (xf_mem x)) (take (xf_done x) (xf_posted x)) = map (buffer_bytes m) (take (xf_done x) (xf_sent x))"
proof -
  have inv: "tx_ok m others x" "rx_ok m x" "net_ok m x" using transfer_run_inv[OF assms] by (simp_all add: transfer_inv_def)
  have f: "i < xf_head x \<and> i < length (xf_posted x)
      \<and> buffer_bytes (xf_mem x) (xf_posted x ! i) = buffer_bytes m (xf_sent x ! i)" if "i < xf_done x" for i
    using inv(2) that by (simp add: rx_ok_def filled_def)
  then have "xf_done x \<le> xf_head x" "xf_done x \<le> length (xf_posted x)" by (meson linorder_not_less order_less_irrefl)+
  moreover from this tx_ok_head(1)[OF inv(1)] have "xf_done x \<le> length (xf_sent x)" by simp
  ultimately show ?thesis using inv f by (auto simp: tx_ok_def rx_ok_def net_ok_def intro!: nth_equalityI)
qed

section \<open>Progress\<close>

lemma progress_ack:
  assumes inv: "transfer_inv m others x" and less: "xf_acked x < xf_done x"
  shows "\<exists>x'. (transfer_step m)\<^sup>*\<^sup>* x x' \<and> xf_acked x < xf_acked x'"
proof -
  let ?sn = "recv_getAckSN (xf_rx x)" and ?x = "x\<lparr>xf_acks := insert (xf_done x, recv_getAckSN (xf_rx x)) (xf_acks x)\<rparr>"
  have s1: "transfer_step m x ?x" by (rule acknowledge)
  have inv': "transfer_inv m others ?x" by (rule transfer_step_inv[OF s1 inv])
  have si: "send_inv m others (xf_pool x, xf_tx x)" and tx: "tx_ok m others x" using inv by (simp_all add: transfer_inv_def tx_ok_def)
  have sn: "unat ?sn < 2 ^ 24" by (simp add: recv_getAckSN_def)
  obtain p q where mark: "send_markCompleted m ?sn (xf_pool x, xf_tx x) = Inr (0, p, q)"
    using send_markCompleted_ok[OF si sn] by blast
  have fresh: "xf_head ?x < xf_done x + 2 ^ 24" using less tx_ok_head(2)[OF tx] by (simp add: xf_head_def)
  have "transfer_step m ?x (?x\<lparr>xf_pool := p, xf_tx := q, xf_acked := xf_acked ?x + unat (sq_tail q - sq_tail (xf_tx ?x))\<rparr>)"
    by (rule arrive_ack[of "xf_done x" ?sn]) (use mark fresh in simp_all)
  moreover have "unat (sq_tail q - sq_tail (xf_tx x)) = xf_done x - xf_acked x"
    using transfer_inv_arrive_ack(2)[OF inv', of "xf_done x" ?sn 0 p q] mark fresh less by simp
  ultimately show ?thesis using s1 less
    by (intro exI[of _ "?x\<lparr>xf_pool := p, xf_tx := q, xf_acked := xf_acked ?x + unat (sq_tail q - sq_tail (xf_tx ?x))\<rparr>"])
       (auto intro: rtranclp.rtrancl_into_rtrancl converse_rtranclp_into_rtranclp)
qed

text \<open>The oldest posted buffer is in the window and waits for its packet.\<close>

lemma first_pending:
  assumes rx: "rx_ok m x" and posted: "xf_done x < length (xf_posted x)"
  shows "0 < length (recv_window (xf_rx x))" "rqst_inflight (recv_window (xf_rx x) ! 0)"
proof -
  let ?q = "xf_rx x"
  have ne: "recv_contents ?q \<noteq> []" using rx posted by (auto simp: rx_ok_def rx_matches_def)
  have "recv_inv ?q" "recv_stopped ?q" using rx by (simp_all add: rx_ok_def)
  with ne show w: "0 < length (recv_window ?q)" by (auto simp: recv_stopped_def recv_contents_def simp flip: length_recv_window)
  have "rqst_inflight (hd (recv_contents ?q))" using \<open>recv_inv ?q\<close> ne hd_dropWhile[of completed "recv_contents ?q"]
    by (auto simp: recv_inv_def)
  moreover have "recv_window ?q \<noteq> []" using w by (metis length_greater_0_conv)
  then have "hd (recv_contents ?q) = recv_window ?q ! 0" by (cases "recv_window ?q") (simp_all add: recv_contents_def)
  ultimately show "rqst_inflight (recv_window ?q ! 0)" by simp
qed

text \<open>A fresh packet for it is accepted.\<close>

lemma first_accepted:
  assumes inv: "transfer_inv m others x" and d: "(xf_done x, ph_sn h, bs) \<in> xf_data x" and posted: "xf_done x < length (xf_posted x)"
    and len: "ucast (ph_data_len h) = buf_length (xf_posted x ! xf_done x)" and wnd: "0 < unat (rq_wnd_size (xf_rx x))"
  obtains m2 q where "recv_markCompleted m1 h (xf_rx x) = Inr (0, m2, q)" "length (recv_contents q) < length (recv_contents (xf_rx x))"
proof -
  let ?q = "xf_rx x"
  have rx: "rx_ok m x" "recv_inv ?q" using inv by (simp_all add: transfer_inv_def rx_ok_def)
  note f = first_pending[OF rx(1) posted]
  have sn: "unat (ph_sn h) < 2 ^ 24" using inv d by (auto simp: transfer_inv_def net_ok_def)
  have off: "recv_offset ?q (ph_sn h) = Some 0" using data_designates(2)[OF inv d] wnd by simp
  obtain r rs where "recv_window ?q = r # rs" using f(1) by (metis length_greater_0_conv list.exhaust)
  then have c: "recv_contents ?q ! 0 = recv_window ?q ! 0" "recv_contents ?q \<noteq> []" by (simp_all add: recv_contents_def)
  have "rqst_length (recv_window ?q ! 0) = buf_length (xf_posted x ! xf_done x)"
    using rx(1) c by (auto simp: rx_ok_def rx_matches_def)
  with len recv_mark_pending(2)[OF rx(2) sn off f, of m1] obtain m2 q where
    q: "recv_markCompleted m1 h ?q = Inr (0, m2, q)"
      "recv_contents q = dropWhile completed ((recv_contents ?q)[0 := (recv_window ?q ! 0)\<lparr>rqst_inflight := False\<rparr>])" by auto
  have "length (recv_contents q) < length (recv_contents ?q)"
    using c(2) unfolding q(2) by (cases "recv_contents ?q") (simp_all add: le_imp_less_Suc length_dropWhile_le)
  with q(1) show thesis by (rule that)
qed

text \<open>The next packet the receiver waits for can be sent and received.\<close>

lemma progress_data:
  assumes inv: "transfer_inv m others x" and eq: "xf_acked x = xf_done x" and win: "xf_acked x < xf_head x"
    and posted: "xf_done x < length (xf_posted x)" "buf_length (xf_posted x ! xf_done x) = buf_length (xf_sent x ! xf_done x)"
    and wnd: "0 < unat (rq_wnd_size (xf_rx x))"
    and room: "a \<noteq> 0" "\<forall>b\<in>set (xf_posted x). region a (unat (buf_length (xf_sent x ! xf_done x))) \<inter> buffer_region b = {}"
  shows "\<exists>x'. (transfer_step m)\<^sup>*\<^sup>* x x' \<and> xf_acked x' < xf_done x' \<and> xf_acked x' = xf_acked x"
proof -
  define e where "e = send_entries (xf_tx x) ! 0"
  define bs where "bs = buffer_bytes m (handle_fragment e)"
  define x1 where "x1 = x\<lparr>xf_data := insert (xf_acked x + 0, ph_sn e, bs) (xf_data x)\<rparr>"
  have k: "0 < length (send_entries (xf_tx x))" using win by (simp add: xf_head_def)
  have s1: "transfer_step m x x1" unfolding x1_def bs_def by (rule transmit[OF k e_def])
  have inv1: "transfer_inv m others x1" by (rule transfer_step_inv[OF s1 inv])
  have "handle_fragment e = send_contents (xf_tx x) ! 0" using k by (simp add: e_def send_contents_def send_window_def nth_append)
  also have "\<dots> = xf_sent x ! xf_done x"
    using inv win tx_ok_head(1)[of m others x] eq by (simp add: transfer_inv_def tx_ok_def)
  finally have frag: "handle_fragment e = xf_sent x ! xf_done x" .
  define h where "h = e\<lparr>ph_packet_buf := a, ph_data_buf := a\<rparr>"
  define m1 where "m1 = mem_write (xf_mem x) a bs"
  have len: "length bs = unat (buf_length (xf_sent x ! xf_done x))" by (simp add: bs_def frag buffer_bytes_def)
  have "ucast (ph_data_len h) = buf_length (xf_sent x ! xf_done x)"
    using arg_cong[OF frag, of buf_length] by (simp add: h_def handle_fragment_def)
  then have dl: "ucast (ph_data_len h) = buf_length (xf_posted x1 ! xf_done x1)" "unat (ph_data_len h) = length bs"
    using posted(2) by (simp_all add: x1_def len flip: unat_ucast_32_64)
  have d: "(xf_done x1, ph_sn h, bs) \<in> xf_data x1" by (simp add: x1_def h_def eq)
  obtain m2 q where mark: "recv_markCompleted m1 h (xf_rx x1) = Inr (0, m2, q)" "length (recv_contents q) < length (recv_contents (xf_rx x1))"
    using first_accepted[OF inv1 d _ dl(1)] posted(1) wnd by (auto simp: x1_def)
  define x2 where "x2 = x1\<lparr>xf_mem := m2, xf_rx := q, xf_done := xf_done x1 + unat (rq_tail q - rq_tail (xf_rx x1))\<rparr>"
  have s2: "transfer_step m x1 x2" unfolding x2_def
  proof (rule arrive[OF d])
    show "\<forall>b\<in>set (xf_posted x1). \<forall>c\<in>buffer_region b. m1 c = xf_mem x1 c"
    proof (intro ballI)
      fix b c assume "b \<in> set (xf_posted x1)" "c \<in> buffer_region b"
      then have "c \<notin> region a (length bs)" using room(2) unfolding len x1_def by fastforce
      then show "m1 c = xf_mem x1 c" by (simp add: m1_def x1_def mem_write_outside)
    qed
    show "mem_read m1 (getPayload h) (length bs) = bs"
      using mem_read_write_same[of bs "xf_mem x" a] unat_u64_less[of "buf_length (xf_sent x ! xf_done x)"] dl(2) room(1) len
      by (cases "bs = []") (auto simp: m1_def getPayload_def h_def unat_eq_0)
  qed (use dl mark in simp_all)
  have "transfer_inv m others x2" by (rule transfer_step_inv[OF s2 inv1])
  then have "xf_done x2 + length (recv_contents q) = length (xf_posted x2)" "xf_done x1 + length (recv_contents (xf_rx x1)) = length (xf_posted x1)"
    using inv1 by (auto simp: transfer_inv_def rx_ok_def rx_matches_def x2_def)
  with mark(2) have "xf_done x1 < xf_done x2" by (simp add: x2_def)
  then show ?thesis using s1 s2 eq
    by (intro exI[of _ x2]) (auto simp: x2_def x1_def intro: rtranclp.rtrancl_into_rtrancl converse_rtranclp_into_rtranclp)
qed

text \<open>
  C2.  A transfer can always go on.  In every reachable state in which a packet waits in the send
  window and, if the receiver has already got everything acknowledged so far, a receive buffer of
  the same length is posted and the receive window is open, the steps of the protocol can raise
  the number of acknowledged packets; \<open>a\<close> is the address of a receive buffer outside the posted
  buffers.
\<close>

theorem transfer_progress:
  assumes run: "transfer_init m others x0" "(transfer_step m)\<^sup>*\<^sup>* x0 x" and win: "xf_acked x < xf_head x"
    and posted: "xf_done x < length (xf_posted x)" "buf_length (xf_posted x ! xf_done x) = buf_length (xf_sent x ! xf_done x)"
    and wnd: "0 < unat (rq_wnd_size (xf_rx x))"
    and room: "a \<noteq> 0" "\<forall>b\<in>set (xf_posted x). region a (unat (buf_length (xf_sent x ! xf_done x))) \<inter> buffer_region b = {}"
  shows "\<exists>x'. (transfer_step m)\<^sup>*\<^sup>* x x' \<and> xf_acked x < xf_acked x'"
proof (cases "xf_acked x = xf_done x")
  case True
  have inv: "transfer_inv m others x" by (rule transfer_run_inv[OF run])
  obtain x1 where x1: "(transfer_step m)\<^sup>*\<^sup>* x x1" "xf_acked x1 < xf_done x1" "xf_acked x1 = xf_acked x"
    using progress_data[OF inv True win posted wnd room] by blast
  have "transfer_inv m others x1" by (rule transfer_run_inv[OF run(1) rtranclp_trans[OF run(2) x1(1)]])
  from progress_ack[OF this x1(2)] x1 show ?thesis by (metis rtranclp_trans)
next
  case False
  have inv: "transfer_inv m others x" by (rule transfer_run_inv[OF run])
  with False have "xf_acked x < xf_done x" by (simp add: transfer_inv_def net_ok_def)
  with inv show ?thesis by (rule progress_ack)
qed

section \<open>A concrete transfer\<close>

definition test_tx_new :: send_queue where
  "test_tx_new = (case SendQueue_new (\<lambda>_. test_handle) 64 4 2 3 of Inr q \<Rightarrow> q)"

definition test_rx_new :: receive_queue where
  "test_rx_new = (case ReceiveQueue_new 64 4 2 3 of Inr q \<Rightarrow> q)"

definition test_start :: transfer where
  "test_start = \<lparr>xf_pool = fst test_pool, xf_tx = test_tx_new, xf_rx = test_rx_new, xf_mem = (\<lambda>_. 0), xf_sent = [], xf_posted = [],
     xf_acked = 0, xf_done = 0, xf_data = {}, xf_acks = {}\<rparr>"

lemma dvd_4: "unat (4 :: u64) dvd 2 ^ 24"
proof -
  have "(2 ^ 24 :: nat) = unat (4 :: u64) * 4194304" by simp
  then show ?thesis by (rule dvdI)
qed

lemma test_start_init: "transfer_init (snd test_pool) [] test_start"
proof -
  have pool: "pool_inv (fst test_pool) (snd test_pool) []" using pool_run_inv[OF test_pool_run] .
  obtain q where q: "SendQueue_new (\<lambda>_. test_handle) 64 4 2 3 = Inr q" "send_inv (snd test_pool) [] (fst test_pool, q)" "send_contents q = []"
    using SendQueue_new_inv[OF pool dvd_4, of 2 64 "\<lambda>_. test_handle" 3] by auto
  obtain r where r: "ReceiveQueue_new 64 4 2 3 = Inr r" "recv_inv r" "recv_contents r = []" "rq_tail r = 0"
    using ReceiveQueue_new_inv[OF dvd_4, of 2 64 3] by auto
  have "sq_tail q = 0" using q(1) by (auto simp: SendQueue_new_def split: if_splits)
  with q r show ?thesis by (simp add: transfer_init_def test_start_def test_tx_new_def test_rx_new_def)
qed

text \<open>One buffer of 16 bytes sent and one posted.\<close>

lemma test_push: "case send_push (snd test_pool) [\<lparr>buf_addr = 8192, buf_length = 16\<rparr>] (fst test_pool, test_tx_new) of
    Inr (_, _, _, q) \<Rightarrow> unat (sq_head q - sq_tail q) = 1 | Inl _ \<Rightarrow> False"
  by code_simp

lemma test_chunk: "chunks 16 a 16 = [\<lparr>buf_addr = a, buf_length = 16\<rparr>]"
  by (simp add: chunks.simps)

lemma test_fragment_size: "sec_fragment_size (sq_secondary_queue test_tx_new) = 16" "sec_fragment_size (rq_secondary_queue test_rx_new) = 16"
  "rq_wnd_size test_rx_new = 2"
  by (simp_all add: test_tx_new_def test_rx_new_def SendQueue_new_def ReceiveQueue_new_def SecondaryQueue_new_def sizeof_PktHdr_def kGRHSize_def)

lemma test_transfer:
  "\<exists>x. (transfer_step (snd test_pool))\<^sup>*\<^sup>* test_start x \<and> xf_acked x = 0 \<and> xf_done x = 0 \<and> 0 < xf_head x
     \<and> xf_sent x = [\<lparr>buf_addr = 8192, buf_length = 16\<rparr>] \<and> xf_posted x = [\<lparr>buf_addr = 12288, buf_length = 16\<rparr>]
     \<and> rq_wnd_size (xf_rx x) = 2"
proof -
  let ?es = "[\<lparr>buf_addr = 8192, buf_length = 16\<rparr>]" and ?rs = "[\<lparr>buf_addr = 12288, buf_length = 16\<rparr>]"
  obtain sn rc p q where push: "send_push (snd test_pool) ?es (fst test_pool, test_tx_new) = Inr (sn, rc, p, q)"
    "unat (sq_head q - sq_tail q) = 1" using test_push by (auto split: sum.splits)
  have inv: "transfer_inv (snd test_pool) [] test_start" by (rule transfer_init_inv[OF test_start_init])
  let ?x = "test_start\<lparr>xf_pool := p, xf_tx := q, xf_sent := xf_sent test_start @ tx_chunks test_start ?es\<rparr>"
  have s1: "transfer_step (snd test_pool) test_start ?x"
    by (rule push_tx) (use push in \<open>auto simp: test_start_def test_fragment_size user_ok_def slice_ok_def\<close>)
  have rx: "recv_inv test_rx_new" using inv by (simp add: transfer_inv_def rx_ok_def test_start_def)
  have ok: "\<forall>e\<in>set ?rs. slice_ok (sec_fragment_size (rq_secondary_queue test_rx_new)) e"
    by (simp add: test_fragment_size slice_ok_def)
  obtain sn' r where r: "recv_push ?rs test_rx_new = Inr (sn', 0, r)" "rq_wnd_size r = 2"
    using recv_push_contents[OF rx ok] by (metis test_fragment_size(3))
  let ?y = "?x\<lparr>xf_rx := r, xf_posted := xf_posted ?x @ rx_chunks ?x ?rs\<rparr>"
  have "transfer_step (snd test_pool) ?x ?y"
    by (rule push_rx) (use ok r in \<open>auto simp: test_start_def separate_def rx_chunks_def test_fragment_size test_chunk\<close>)
  then show ?thesis using s1 push(2) r(2)
    by (intro exI[of _ ?y]) (auto simp: test_start_def xf_head_def tx_chunks_def rx_chunks_def test_fragment_size test_chunk
        intro: rtranclp.rtrancl_into_rtrancl)
qed

lemma test_room: "\<forall>b\<in>{\<lparr>buf_addr = 12288, buf_length = 16\<rparr>}. region 20480 16 \<inter> buffer_region b = {}"
proof -
  have "x \<in> region 20480 16 \<Longrightarrow> x \<notin> region 12288 16" for x
    using region_linear[of 20480 16 x] region_linear[of 12288 16 x] by simp
  then show ?thesis by (auto simp: buffer_region_def)
qed

theorem transfer_progress_witness:
  "\<exists>x x'. (transfer_step (snd test_pool))\<^sup>*\<^sup>* test_start x \<and> (transfer_step (snd test_pool))\<^sup>*\<^sup>* x x' \<and> xf_acked x < xf_acked x'"
proof -
  obtain x where x: "(transfer_step (snd test_pool))\<^sup>*\<^sup>* test_start x" "xf_acked x = 0" "xf_done x = 0" "0 < xf_head x"
    "xf_sent x = [\<lparr>buf_addr = 8192, buf_length = 16\<rparr>]" "xf_posted x = [\<lparr>buf_addr = 12288, buf_length = 16\<rparr>]"
    "rq_wnd_size (xf_rx x) = 2" using test_transfer by blast
  then have "\<exists>x'. (transfer_step (snd test_pool))\<^sup>*\<^sup>* x x' \<and> xf_acked x < xf_acked x'"
    using test_room by (intro transfer_progress[OF test_start_init x(1), of 20480]) auto
  with x(1) show ?thesis by blast
qed

text \<open>The transfer can be completed, and then the sixteen bytes have arrived.\<close>

theorem transfer_integrity_witness:
  "\<exists>x. (transfer_step (snd test_pool))\<^sup>*\<^sup>* test_start x \<and> 0 < xf_done x \<and> xf_acked x \<le> xf_done x
     \<and> map (buffer_bytes (xf_mem x)) (take (xf_done x) (xf_posted x)) = map (buffer_bytes (snd test_pool)) (take (xf_done x) (xf_sent x))"
proof -
  obtain x where x: "(transfer_step (snd test_pool))\<^sup>*\<^sup>* test_start x" "xf_acked x = 0" "xf_done x = 0" "0 < xf_head x"
    "xf_sent x = [\<lparr>buf_addr = 8192, buf_length = 16\<rparr>]" "xf_posted x = [\<lparr>buf_addr = 12288, buf_length = 16\<rparr>]"
    "rq_wnd_size (xf_rx x) = 2" using test_transfer by blast
  obtain y where y: "(transfer_step (snd test_pool))\<^sup>*\<^sup>* x y" "xf_acked y < xf_done y"
    using progress_data[OF transfer_run_inv[OF test_start_init x(1)], of 20480] x test_room by auto
  have "(transfer_step (snd test_pool))\<^sup>*\<^sup>* test_start y" by (rule rtranclp_trans[OF x(1) y(1)])
  from transfer_integrity[OF test_start_init this] this y(2) show ?thesis by (intro exI[of _ y]) auto
qed

end
