(* ===== verification/Transmit.thy ===== *)
theory Transmit
  imports Context EndToEnd
begin

text \<open>
  What \<open>Context::sendDataPackets\<close> (\<open>src/src/protocols/rdma_unreliable/context.cpp\<close>) leaves of a context
  whose only session is well-formed: the send queue differs in time stamps, immediate values and the
  window size, which stays below the capacity, and memory in the headers of the packets of the
  queue.  The same for the parts of a context that posting and completing requests never touch
  (\<open>same_view\<close>), and what a packet says to the peer that deserializes it.
\<close>

section \<open>Packets on the wire\<close>

text \<open>The immediate value of a packet of session 0 that is not compacted.\<close>

definition imm_says :: "u8 \<Rightarrow> u32 \<Rightarrow> u32 \<Rightarrow> bool" where
  "imm_says cmd sn imm \<longleftrightarrow> (let p = imm_of_raw imm in
     ucast (imm_session p) = (0 :: u8) \<and> ucast (imm_cmd p) = cmd \<and> imm_compacted p = 0
     \<and> ucast (imm_sn0 p) OR push_bit 8 (ucast (imm_sn1 p)) OR push_bit 16 (ucast (imm_sn2 p)) = sn)"

lemma encode_says:
  assumes "ph_packet_buf h \<noteq> 0" "\<not> ph_compacted h" "ph_session h = 0"
  shows "imm_says (ph_cmd h AND 1) (ph_sn h AND 0xffffff) (ph_pkt_hdr_imm (fst (snd (encode m h))))"
  using encode_imm_fields[OF assms(1) refl, of m] assms by (simp add: imm_says_def Let_def)

lemma SHORT_SN_and [simp]: "SHORT_SN x AND 0xffffff = SHORT_SN x"
  by (simp add: SHORT_SN_def)

lemma deserialize_says:
  assumes "imm_says cmd sn imm" "rb \<noteq> 0" "unat len + 48 < 2 ^ 32"
  obtains r where "deserialize mr imm (of_nat (48 + unat len)) (setRawPacket rb True g) = (0, r)"
    "ph_session r = 0" "ph_cmd r = cmd" "ph_sn r = sn" "ph_wnd r = load16 mr (rb + 40)" "ph_data_len r = len"
    "len \<noteq> 0 \<Longrightarrow> getPayload r = rb + 48"
  using deserialize_ok[OF assms(2,3), of mr imm g] assms(1) that by (fastforce simp: imm_says_def Let_def)

section \<open>The handles of a send queue\<close>

definition plain_handles :: "send_queue \<Rightarrow> bool" where
  "plain_handles q \<longleftrightarrow> (\<forall>h\<in>set (sq_handle q). ph_packet_buf h \<noteq> 0 \<longrightarrow> \<not> ph_with_grh h \<and> \<not> ph_compacted h)"

definition send_keeps :: "send_queue \<Rightarrow> send_queue \<Rightarrow> bool" where
  "send_keeps q q' \<longleftrightarrow> (plain_handles q \<longrightarrow> plain_handles q') \<and> sq_queue_capacity q' = sq_queue_capacity q
     \<and> sq_session q' = sq_session q \<and> sq_wnd_size q' = sq_wnd_size q"

lemma plain_handles_update:
  assumes "plain_handles q" "i < length (sq_handle q) \<Longrightarrow> ph_packet_buf h \<noteq> 0 \<Longrightarrow> \<not> ph_with_grh h \<and> \<not> ph_compacted h"
    "sq_handle q' = (sq_handle q)[i := h]"
  shows "plain_handles q'"
proof (cases "i < length (sq_handle q)")
  case True
  then show ?thesis
    using assms set_update_subset_insert[of "sq_handle q" i h] by (auto simp: plain_handles_def)
next
  case False
  then show ?thesis using assms by (simp add: plain_handles_def list_update_beyond)
qed

lemma fill_round_keeps:
  assumes "send_fill_round m s = Continue s' \<or> send_fill_round m s = Return rc s'"
  shows "send_keeps (snd s) (snd s')"
proof -
  obtain p q where s: "s = (p, q)" by fastforce
  let ?i = "unat (sq_head q mod sq_queue_capacity q)"
  have cap: "sq_queue_capacity q \<noteq> 0" using assms by (auto simp: send_fill_round_def s)
  obtain fl p1 h1 where a: "(if ph_packet_buf (sq_handle q ! ?i) \<noteq> 0 then (0, p, sq_handle q ! ?i)
      else allocatePacket m p (sq_handle q ! ?i) False) = (fl, p1, h1)" by (metis prod_cases3)
  obtain b sec where pop: "popFragment (sq_secondary_queue q) = (b, sec)" by fastforce
  have h1: "ph_packet_buf h1 \<noteq> 0 \<longrightarrow> \<not> ph_with_grh h1 \<and> \<not> ph_compacted h1" if "plain_handles q" "?i < length (sq_handle q)"
    using a that nth_mem[OF that(2)]
    by (auto simp: plain_handles_def allocatePacket_def setRawPacket_def Let_def split: if_splits)
  have f: "send_fill_round m s = (if fl \<noteq> 0 then Return 0 (p1, q\<lparr>sq_handle := (sq_handle q)[?i := h1]\<rparr>)
      else let h2 = h1\<lparr>ph_session := sq_session q, ph_cmd := PKT_CMD_DATA, ph_wnd := sq_wnd_size q, ph_sn := SHORT_SN (sq_head q), ph_ts := 0\<rparr>;
               (rc, h3, m') = setPayload m (buf_addr b) (buf_length b) False h2
           in if rc \<noteq> 0
              then Return (-1) (p1, q\<lparr>sq_handle := (sq_handle q)[?i := h3], sq_secondary_queue := sec\<rparr>)
              else Continue (p1, q\<lparr>sq_handle := (sq_handle q)[?i := h3\<lparr>ph_inflight := True\<rparr>],
                                  sq_secondary_queue := sec, sq_head := sq_head q + 1\<rparr>))"
    using cap a pop by (simp add: send_fill_round_def s Let_def)
  obtain h where "sq_handle (snd s') = (sq_handle q)[?i := h]" "ph_packet_buf h = ph_packet_buf h1" "ph_with_grh h = ph_with_grh h1"
      "ph_compacted h = ph_compacted h1" "sq_queue_capacity (snd s') = sq_queue_capacity q" "sq_session (snd s') = sq_session q"
      "sq_wnd_size (snd s') = sq_wnd_size q"
    using assms unfolding f by (auto simp: setPayload_def Let_def split: if_splits)
  then show ?thesis using h1 plain_handles_update[of q ?i h "snd s'"] by (simp add: send_keeps_def s)
qed

lemma fill_keeps: "send_fillPrimaryQueue m s = Inr (rc, s') \<Longrightarrow> send_keeps (snd s) (snd s')"
proof (induction m s arbitrary: s' rule: send_fillPrimaryQueue.induct)
  case (1 m s)
  show ?case
  proof (cases "send_more (snd s)")
    case more: True
    show ?thesis
    proof (cases "send_fill_round m s")
      case (Continue s1)
      have "send_keeps (snd s1) (snd s')"
        using 1 more Continue by (simp add: send_fillPrimaryQueue.simps[of m s])
      then show ?thesis using fill_round_keeps[of m s s1 0] Continue by (simp add: send_keeps_def)
    next
      case (Return r s1)
      then show ?thesis using 1(2) more fill_round_keeps[of m s s1 r] by (simp add: send_fillPrimaryQueue.simps[of m s])
    next
      case (Fault f)
      then show ?thesis using 1(2) more by (simp add: send_fillPrimaryQueue.simps[of m s])
    qed
  next
    case False
    then show ?thesis using 1(2) by (simp add: send_fillPrimaryQueue.simps[of m s] send_keeps_def)
  qed
qed

lemma send_push_keeps: "send_push m es (p, q) = Inr (sn, rc, p', q') \<Longrightarrow> send_keeps q q'"
  using fill_keeps[of m "(p, _)" rc "(p', q')"]
  by (fastforce simp: send_push_def send_keeps_def plain_handles_def split: sum.splits prod.splits)

lemma send_mark_keeps: "send_markCompleted m sn (p, q) = Inr (rc, p', q') \<Longrightarrow> send_keeps q q'"
  using fill_keeps[of m "(p, _)" rc "(p', q')"]
  by (fastforce simp: send_markCompleted_def send_keeps_def plain_handles_def)

section \<open>Stamping packets\<close>

text \<open>
  What transmitting does to a queue: time stamps, immediate values and the window size change.
\<close>

definition restamped :: "send_queue \<Rightarrow> send_queue \<Rightarrow> bool" where
  "restamped q q' \<longleftrightarrow> (\<exists>w hs. q' = q\<lparr>sq_wnd_size := w, sq_handle := hs\<rparr> \<and> unat w < unat (sq_queue_capacity q)
     \<and> list_all2 same_packet (sq_handle q) hs)"

lemma same_packet_fields:
  assumes "same_packet h h'"
  shows "ph_packet_buf h' = ph_packet_buf h" "ph_session h' = ph_session h" "ph_cmd h' = ph_cmd h" "ph_sn h' = ph_sn h"
    "ph_data_len h' = ph_data_len h" "ph_data_buf h' = ph_data_buf h" "ph_with_grh h' = ph_with_grh h" "ph_compacted h' = ph_compacted h"
  using assms unfolding same_packet_def by (cases h; cases h'; simp)+

lemma same_packet_fragment: "same_packet h h' \<Longrightarrow> handle_fragment h' = handle_fragment h"
  by (simp add: handle_fragment_def same_packet_fields)

lemma same_packet_refl: "same_packet h h"
  by (simp add: same_packet_def)

lemma same_packet_trans: "same_packet h h' \<Longrightarrow> same_packet h' h'' \<Longrightarrow> same_packet h h''"
  by (simp add: same_packet_def)

lemma restamped_refl: "send_wf q \<Longrightarrow> restamped q q"
  unfolding restamped_def
  by (intro exI[of _ "sq_wnd_size q"] exI[of _ "sq_handle q"]) (simp add: send_wf_def same_packet_refl list_all2_refl)

lemma restamped_trans:
  assumes "restamped q q'" "restamped q' q''"
  shows "restamped q q''"
proof -
  obtain w hs w' hs' where q: "q' = q\<lparr>sq_wnd_size := w, sq_handle := hs\<rparr>" "list_all2 same_packet (sq_handle q) hs"
      "q'' = q'\<lparr>sq_wnd_size := w', sq_handle := hs'\<rparr>" "unat w' < unat (sq_queue_capacity q)" "list_all2 same_packet hs hs'"
    using assms by (auto simp: restamped_def)
  have "list_all2 same_packet (sq_handle q) hs'" by (rule list_all2_trans[OF _ q(2,5)]) (rule same_packet_trans)
  with q show ?thesis unfolding restamped_def by (intro exI[of _ w'] exI[of _ hs']) simp
qed

lemma restamped_bufs:
  assumes "restamped q q'"
  shows "queue_bufs (sq_handle q') = queue_bufs (sq_handle q)" "plain_handles q' = plain_handles q"
proof -
  have l: "list_all2 same_packet (sq_handle q) (sq_handle q')" using assms by (auto simp: restamped_def)
  then have "map ph_packet_buf (sq_handle q') = map ph_packet_buf (sq_handle q)"
    by (induction rule: list_all2_induct) (auto dest: same_packet_fields)
  then show "queue_bufs (sq_handle q') = queue_bufs (sq_handle q)" by (simp add: queue_bufs_def)
  from l show "plain_handles q' = plain_handles q"
    unfolding plain_handles_def by (induction rule: list_all2_induct) (auto simp: same_packet_fields)
qed

lemma restamped_wf:
  assumes wf: "send_wf q" and r: "restamped q q'"
  shows "send_wf q'" "send_contents q' = send_contents q" "sq_head q' = sq_head q" "sq_tail q' = sq_tail q"
    "sq_queue_capacity q' = sq_queue_capacity q" "sq_session q' = sq_session q" "sq_secondary_queue q' = sq_secondary_queue q"
proof -
  obtain w hs where q': "q' = q\<lparr>sq_wnd_size := w, sq_handle := hs\<rparr>" "unat w < unat (sq_queue_capacity q)"
      "list_all2 same_packet (sq_handle q) hs" using r by (auto simp: restamped_def)
  have l: "length hs = length (sq_handle q)" using q'(3) by (simp add: list_all2_lengthD)
  have slot: "unat (x mod sq_queue_capacity q) < length (sq_handle q)" for x
    using ring.slot_less[of "sq_queue_capacity q"] wf by (simp add: send_wf_def ring_def)
  have e: "same_packet (send_entries q ! k) (send_entries q' ! k)" if "k < unat (sq_head q - sq_tail q)" for k
    using that q'(3) slot by (auto simp: send_entries_def q'(1) ring_entries_nth list_all2_conv_all_nth)
  have w: "send_window q' = send_window q"
    by (rule nth_equalityI) (use same_packet_fragment[OF e] q'(1) in \<open>simp_all add: send_window_def\<close>)
  show "send_contents q' = send_contents q" using w by (simp add: send_contents_def q'(1))
  have "entry_ok q' k (send_entries q' ! k)" if "k < unat (sq_head q - sq_tail q)" for k
  proof -
    have "entry_ok q k (send_entries q ! k)" using wf that by (simp add: send_wf_def)
    with e[OF that] show ?thesis by (simp add: entry_ok_def same_packet_fields) (simp add: q'(1))
  qed
  then show "send_wf q'" using wf l q'(2) by (simp add: send_wf_def q'(1))
qed (use r in \<open>auto simp: restamped_def\<close>)

lemma restamped_inv: "send_inv m others (p, q) \<Longrightarrow> restamped q q' \<Longrightarrow> send_inv m others (p, q')"
  using restamped_wf(1)[of q q'] restamped_bufs(1)[of q q'] by (simp add: send_inv_def)

section \<open>What transmitting does to a context\<close>

definition ctl_view :: "unicast_context \<Rightarrow> string \<times> ((u8 list \<times> u32) \<times> int) list \<times> (string \<rightharpoonup> int)" where
  "ctl_view c = (ct_device_name (cx_controller c), ct_node_id_map (cx_controller c), ct_peer_name_map (cx_controller c))"

definition same_view :: "unicast_context \<Rightarrow> unicast_context \<Rightarrow> bool" where
  "same_view c c' \<longleftrightarrow> same_core c c' \<and> cx_mem c' = cx_mem c \<and> cx_mtu_size c' = cx_mtu_size c \<and> ctl_view c' = ctl_view c"

lemmas view_defs = same_view_def same_core_def ctl_view_def

lemma same_view_refl [simp]: "same_view c c"
  by (simp add: view_defs)

lemma same_view_trans: "same_view c c' \<Longrightarrow> same_view c' c'' \<Longrightarrow> same_view c c''"
  by (simp add: view_defs)

lemma same_view_post: "ctx_post_send post name reqs c = Inr (n, c') \<Longrightarrow> same_view c c'"
  by (auto simp: ctx_post_send_def obind_eq_Inr view_defs ctx_put_store_def split: option.splits prod.splits)

lemma same_view_endpoint: "ctx_endpoint garbage sid c = (r, c') \<Longrightarrow> same_view c c'"
  by (auto simp: ctx_endpoint_def getOrCreateEndpoint_def view_defs split: prod.splits option.splits)

lemma same_view_request: "ctx_new_request rq c = (r, c') \<Longrightarrow> same_view c c'"
  by (auto simp: ctx_new_request_def view_defs split: prod.splits)

lemma same_view_recv: "submitNormalRecvWR post raw c = (n, c') \<Longrightarrow> same_view c c'"
  by (auto simp: submitNormalRecvWR_def ctx_new_request_def view_defs ctx_put_store_def Let_def split: prod.splits)

lemma same_view_complete: "same_view c (ctx_put_store (ud_complete d (ctx_store c)) c)" "cx_heap (ctx_put_store (ud_complete d (ctx_store c)) c) = cx_heap c"
  by (auto simp: view_defs ctx_put_store_def ctx_store_def ud_complete_def split: prod.splits depth_ref.splits)

lemma same_view_flush:
  assumes "flush_requests post (si, reqs, ep, c) = Inr (si', reqs', ep', c')"
  shows "same_view c c' \<and> cw_cwnd si' = cw_cwnd si"
proof -
  obtain name where ep: "ep = Some name" using assms by (cases ep) (simp_all add: flush_requests_def)
  obtain n c1 where p: "ctx_post_send post name reqs c = Inr (n, c1)"
    using assms by (cases "ctx_post_send post name reqs c") (auto simp: flush_requests_def ep)
  from same_view_post[OF p] assms p show ?thesis
    by (auto simp: flush_requests_def ep view_defs split: if_splits)
qed

lemma same_view_queue:
  assumes "queue_packet post garbage sid slices (si, reqs, ep, c) = Continue (b, si', reqs', ep', c')
    \<or> queue_packet post garbage sid slices (si, reqs, ep, c) = Return rc (b, si', reqs', ep', c')"
  shows "same_view c c' \<and> cw_cwnd si' = cw_cwnd si"
proof -
  obtain s0 s1 imm where sl: "slices = (s0, s1, imm)" using prod_cases3 by blast
  define rq where "rq = Request_new\<lparr>
           rr_addr0 := buf_addr s0, rr_addr1 := buf_addr s1, rr_length0 := buf_length s0, rr_length1 := buf_length s1,
           rr_lkey0 := cx_local_arena_lkey c, rr_lkey1 := fst (mr_key (cx_regions c) (buf_addr s1)), rr_imm_data := imm\<rparr>"
  obtain r c1 where r: "ctx_new_request rq c = (r, c1)" by fastforce
  obtain ep1 c2 where e: "(if ep = None then ctx_endpoint garbage sid c1 else (ep, c1)) = (ep1, c2)" by fastforce
  have "same_view c1 c2" using e same_view_endpoint by (auto split: if_splits)
  then have c2: "same_view c c2" using same_view_request[OF r] same_view_trans by blast
  have q: "queue_packet post garbage sid slices (si, reqs, ep, c) =
      (if ep1 = None then Return (-1) (True, (si, reqs, ep1, c2))
       else if length (reqs @ [r]) = kRequestBatchSize
            then (case flush_requests post (si, reqs @ [r], ep1, c2) of Inl f \<Rightarrow> Fault f | Inr l' \<Rightarrow> Continue (False, l'))
            else Continue (False, (si, reqs @ [r], ep1, c2)))"
    unfolding queue_packet_def sl by (simp add: r e Let_def flip: rq_def)
  show ?thesis
  proof (cases "ep1 \<noteq> None \<and> length (reqs @ [r]) = kRequestBatchSize")
    case True
    then have "flush_requests post (si, reqs @ [r], ep1, c2) = Inr (si', reqs', ep', c')"
      using assms unfolding q by (auto split: sum.splits)
    from same_view_flush[OF this] c2 show ?thesis using same_view_trans by blast
  next
    case False
    then show ?thesis using assms c2 unfolding q by (auto split: if_splits)
  qed
qed

text \<open>Memory changes in the headers of the packets \<open>bs\<close> only.\<close>

definition header_writes :: "addr list \<Rightarrow> mem \<Rightarrow> mem \<Rightarrow> bool" where
  "header_writes bs m m' \<longleftrightarrow> (\<forall>x. (\<forall>b\<in>set bs. x \<notin> region b 8) \<longrightarrow> m' x = m x)"

definition restamps :: "int \<Rightarrow> unicast_context \<Rightarrow> unicast_context \<Rightarrow> bool" where
  "restamps sid c c' \<longleftrightarrow> cx_sessions c' = cx_sessions c \<and> cx_task_map c' = cx_task_map c \<and> cx_mtu_size c' = cx_mtu_size c
     \<and> ctl_view c' = ctl_view c
     \<and> (\<exists>q q'. pm_send_queue (cx_packet_manager c) sid = Some q \<and> restamped q q'
          \<and> cx_packet_manager c' = (cx_packet_manager c)\<lparr>pm_send_queue := (pm_send_queue (cx_packet_manager c))(sid \<mapsto> q')\<rparr>
          \<and> header_writes (queue_bufs (sq_handle q)) (cx_mem c) (cx_mem c'))"

lemma restamps_view:
  assumes "same_view c c'" "pm_send_queue (cx_packet_manager c) sid = Some q" "send_wf q"
  shows "restamps sid c c'"
  using assms restamped_refl[OF assms(3)] unfolding restamps_def
  by (intro conjI exI[of _ q]) (simp_all add: view_defs header_writes_def fun_upd_idem)

lemma restamps_trans:
  assumes "restamps sid c c'" "restamps sid c' c''"
  shows "restamps sid c c''"
proof -
  obtain q q' q'' where q: "pm_send_queue (cx_packet_manager c) sid = Some q" "restamped q q'" "restamped q' q''"
      "cx_packet_manager c' = (cx_packet_manager c)\<lparr>pm_send_queue := (pm_send_queue (cx_packet_manager c))(sid \<mapsto> q')\<rparr>"
      "cx_packet_manager c'' = (cx_packet_manager c')\<lparr>pm_send_queue := (pm_send_queue (cx_packet_manager c'))(sid \<mapsto> q'')\<rparr>"
      "header_writes (queue_bufs (sq_handle q)) (cx_mem c) (cx_mem c')" "header_writes (queue_bufs (sq_handle q')) (cx_mem c') (cx_mem c'')"
    using assms unfolding restamps_def by (auto simp: fun_upd_apply)
  have "header_writes (queue_bufs (sq_handle q)) (cx_mem c) (cx_mem c'')"
    using q(6,7) restamped_bufs(1)[OF q(2)] by (simp add: header_writes_def)
  with q restamped_trans[OF q(2,3)] assms show ?thesis
    unfolding restamps_def by (intro conjI exI[of _ q] exI[of _ q'']) simp_all
qed

lemma unat_ucast_le: "unat (ucast (x :: u32) :: u16) \<le> unat x"
  by (simp add: unsigned_ucast_eq take_bit_nat_less_eq_self)

lemma backoff_bound:
  assumes "unat (cw_cwnd si) < n" "4 < n"
  shows "unat (cw_cwnd (backoffWnd (\<lambda>s. s + kResendValue) mtu si)) < n"
proof -
  let ?m = "max 2 (cw_cwnd si div 2)"
  have d: "unat (cw_cwnd si div 2) = unat (cw_cwnd si) div 2" by (simp add: unat_div)
  have m: "unat ?m = max 2 (unat (cw_cwnd si) div 2)"
    using d by (cases "2 \<le> cw_cwnd si div 2") (simp_all add: max_def word_le_nat_alt)
  have "unat (?m + 2) = unat ?m + 2"
    using m unat_u32_less[of "cw_cwnd si"] by (subst unat_plus_simple[THEN iffD1]) (auto simp: word_le_nat_alt unat_word_ariths)
  then show ?thesis using m assms
    by (simp add: backoffWnd_def Let_def kMinSSThreshValue_def kResendValue_def)
qed

lemma serialize_writes:
  assumes "serialize m h = (rc, h', m', out)"
  shows "header_writes (if ph_packet_buf h = 0 then [] else [ph_packet_buf h]) m m'"
proof (cases "ph_packet_buf h = 0 \<or> ph_with_grh h")
  case False
  then have "m' = (if ph_compacted h then m else mem_write m (ph_packet_buf h) (header_bytes h))"
    using assms encode_mem[of h m] encode_handle[of h m] by (auto simp: serialize_def split: prod.splits if_splits)
  then show ?thesis using False by (auto simp: header_writes_def mem_write_outside)
qed (use assms in \<open>auto simp: serialize_def header_writes_def\<close>)

lemma header_writes_mono: "header_writes bs m m' \<Longrightarrow> set bs \<subseteq> set bs' \<Longrightarrow> header_writes bs' m m'"
  by (auto simp: header_writes_def)

lemma stamp_packet_restamps:
  assumes st: "stamp_packet now sid i q si c = (si', c', rc, out)" and q: "ctx_send_queue sid c = Inr q" and wf: "send_wf q"
    and w: "unat (cw_cwnd si) < unat (sq_queue_capacity q)" "4 < unat (sq_queue_capacity q)"
  shows "restamps sid c c' \<and> unat (cw_cwnd si') < unat (sq_queue_capacity q)"
proof -
  let ?h = "send_getMutableEntry q i" and ?k = "unat (i mod sq_queue_capacity q)"
  have pq: "pm_send_queue (cx_packet_manager c) sid = Some q" using q by (simp add: ctx_send_queue_eq)
  have k: "?k < length (sq_handle q)" using ring.slot_less[of "sq_queue_capacity q"] wf by (simp add: send_wf_def ring_def)
  define si1 where "si1 = (if ph_ts ?h \<noteq> 0 then backoffWnd (\<lambda>s. s + kResendValue) (cx_mtu_size c) si else si)"
  define w1 where "w1 = (if ph_ts ?h \<noteq> 0 then min (ucast (cw_cwnd si1)) (ucast (sq_queue_capacity q)) else sq_wnd_size q)"
  obtain rc' h' m' out' where ser: "serialize (cx_mem c) (?h\<lparr>ph_ts := now\<rparr>) = (rc', h', m', out')" using prod_cases4 by blast
  have si1: "unat (cw_cwnd si1) < unat (sq_queue_capacity q)" using backoff_bound[OF w] w(1) by (simp add: si1_def)
  then have w1: "unat w1 < unat (sq_queue_capacity q)"
    using wf unat_ucast_le[of "cw_cwnd si1"] by (auto simp: w1_def send_wf_def min_def word_le_nat_alt)
  have c': "c' = (ctx_put_send_queue sid (ctx_pool c, q\<lparr>sq_wnd_size := w1, sq_handle := list_update (sq_handle q) ?k h'\<rparr>) c)\<lparr>cx_mem := m'\<rparr>"
    "si' = si1\<lparr>si_last_send_ts := now\<rparr>"
    using st ser by (auto simp: stamp_packet_def Let_def w1_def si1_def send_setWndSize_def send_updateEntry_def split: if_splits)
  have sp: "same_packet (sq_handle q ! ?k) h'"
    using serialize_packet[OF ser] by (auto simp: same_packet_def send_getMutableEntry_def)
  have "list_all2 same_packet (sq_handle q) (list_update (sq_handle q) ?k h')"
    unfolding list_all2_conv_all_nth using sp k by (auto simp: nth_list_update same_packet_refl)
  then have r: "restamped q (q\<lparr>sq_wnd_size := w1, sq_handle := list_update (sq_handle q) ?k h'\<rparr>)"
    using w1 unfolding restamped_def by blast
  have "ph_packet_buf ?h \<noteq> 0 \<Longrightarrow> ph_packet_buf ?h \<in> set (queue_bufs (sq_handle q))"
    using k by (auto simp: queue_bufs_def send_getMutableEntry_def)
  then have "header_writes (queue_bufs (sq_handle q)) (cx_mem c) m'"
    by (intro header_writes_mono[OF serialize_writes[OF ser]]) auto
  with pq r si1 show ?thesis
    unfolding restamps_def by (auto simp: c' ctx_put_send_queue_def ctl_view_def ctx_pool_def)
qed

text \<open>The queue of the session is there and larger than the smallest windows.\<close>

definition tx_ready :: "int \<Rightarrow> u64 \<Rightarrow> unicast_context \<Rightarrow> bool" where
  "tx_ready sid cap c \<longleftrightarrow> (\<exists>q. ctx_send_queue sid c = Inr q \<and> send_wf q \<and> sq_queue_capacity q = cap) \<and> 4 < unat cap"

lemma tx_ready_restamps: "tx_ready sid cap c \<Longrightarrow> same_view c c' \<Longrightarrow> restamps sid c c'"
  unfolding tx_ready_def ctx_send_queue_eq using restamps_view by blast

lemma restamps_ready:
  assumes "restamps sid c c'" "tx_ready sid cap c"
  shows "tx_ready sid cap c'"
proof -
  obtain q q' where q: "pm_send_queue (cx_packet_manager c) sid = Some q" "restamped q q'" "cx_sessions c' = cx_sessions c"
      "cx_packet_manager c' = (cx_packet_manager c)\<lparr>pm_send_queue := (pm_send_queue (cx_packet_manager c))(sid \<mapsto> q')\<rparr>"
    using assms(1) unfolding restamps_def by blast
  moreover have "send_wf q" using assms(2) q(1) by (simp add: tx_ready_def ctx_send_queue_eq)
  ultimately show ?thesis
    using assms(2) restamped_wf(1,5)[OF \<open>send_wf q\<close> q(2)] by (auto simp: tx_ready_def ctx_send_queue_eq)
qed

definition sends :: "int \<Rightarrow> u64 \<Rightarrow> unicast_context \<Rightarrow> send_locals \<Rightarrow> bool" where
  "sends sid cap c l \<longleftrightarrow> restamps sid c (locals_ctx l) \<and> unat (cw_cwnd (fst l)) < unat cap"

lemma send_packet_round_sends:
  assumes r: "send_packet_round post garbage now sid i l = Continue (b, l') \<or> send_packet_round post garbage now sid i l = Return rc (b, l')"
    and ready: "tx_ready sid cap (locals_ctx l)" "unat (cw_cwnd (fst l)) < unat cap"
  shows "sends sid cap (locals_ctx l) l'"
proof -
  obtain si reqs ep c where l: "l = (si, reqs, ep, c)" using prod_cases4 by blast
  obtain si' reqs' ep' c' where l': "l' = (si', reqs', ep', c')" using prod_cases4 by blast
  obtain q where q: "ctx_send_queue sid c = Inr q" "send_wf q" "sq_queue_capacity q = cap" "4 < unat cap"
    using ready(1) by (auto simp: tx_ready_def l)
  show ?thesis
  proof (cases "now - ph_ts (send_getMutableEntry q i) < rto_rto (cx_rto c)")
    case True
    then have "l' = l" using r q by (auto simp: send_packet_round_def l split: if_splits)
    then show ?thesis using ready tx_ready_restamps[OF ready(1) same_view_refl] by (simp add: sends_def)
  next
    case False
    obtain si1 c1 rc1 out where st: "stamp_packet now sid i q si c = (si1, c1, rc1, out)" using prod_cases4 by blast
    have s1: "restamps sid c c1" "unat (cw_cwnd si1) < unat cap"
      using stamp_packet_restamps[OF st q(1,2)] q(3,4) ready(2) by (simp_all add: l)
    have cap: "sq_queue_capacity q \<noteq> 0" using q(3,4) by auto
    have "same_view c1 c' \<and> cw_cwnd si' = cw_cwnd si1"
    proof (cases "if rc1 \<noteq> 0 then None else out")
      case None
      then show ?thesis using r q(1) False st cap by (auto simp: send_packet_round_def l l' split: if_splits)
    next
      case (Some slices)
      then have "queue_packet post garbage sid slices (si1, reqs, ep, c1) = Continue (b, si', reqs', ep', c')
          \<or> queue_packet post garbage sid slices (si1, reqs, ep, c1) = Return rc (b, si', reqs', ep', c')"
        using r q(1) False st cap by (auto simp: send_packet_round_def l l' split: if_splits)
      then show ?thesis by (rule same_view_queue)
    qed
    moreover have "tx_ready sid cap c1" using restamps_ready[OF s1(1)] ready(1) by (simp add: l)
    ultimately show ?thesis
      using s1 restamps_trans[OF s1(1) tx_ready_restamps[of sid cap c1 c']] by (simp add: sends_def l l')
  qed
qed

lemma send_packet_loop_sends:
  assumes "send_packet_loop post garbage now sid is l = Continue l' \<or> send_packet_loop post garbage now sid is l = Return rc l'"
    and "tx_ready sid cap (locals_ctx l)" "unat (cw_cwnd (fst l)) < unat cap"
  shows "sends sid cap (locals_ctx l) l'"
  using assms
proof (induction "is" arbitrary: l)
  case Nil
  then show ?case using tx_ready_restamps[OF Nil(2) same_view_refl] by (auto simp: sends_def)
next
  case (Cons i "is")
  show ?case
  proof (cases "send_packet_round post garbage now sid i l")
    case (Continue x)
    obtain b l1 where x: "x = (b, l1)" by (cases x)
    have s: "sends sid cap (locals_ctx l) l1" using send_packet_round_sends[OF _ Cons.prems(2,3)] Continue x by blast
    show ?thesis
    proof (cases b)
      case True
      with Cons.prems(1) Continue x have "l' = l1" by auto
      with s show ?thesis by simp
    next
      case False
      have "tx_ready sid cap (locals_ctx l1)" using s restamps_ready[OF _ Cons.prems(2)] by (simp add: sends_def)
      then have "sends sid cap (locals_ctx l1) l'"
        using Cons.prems(1) Continue x False s by (intro Cons.IH) (simp_all add: sends_def)
      with s show ?thesis using restamps_trans[of sid "locals_ctx l" "locals_ctx l1" "locals_ctx l'"] by (simp add: sends_def)
    qed
  next
    case (Return n x)
    obtain b l1 where x: "x = (b, l1)" by (cases x)
    have "sends sid cap (locals_ctx l) l1" using send_packet_round_sends[OF _ Cons.prems(2,3)] Return x by blast
    moreover have "l' = l1" using Cons.prems(1) Return x by auto
    ultimately show ?thesis by simp
  next
    case (Fault f)
    with Cons.prems(1) show ?thesis by auto
  qed
qed

lemma send_session_restamps:
  assumes "send_session post garbage now sid si c = Continue l' \<or> send_session post garbage now sid si c = Return rc l'"
    and ready: "tx_ready sid cap c" "unat (cw_cwnd si) < unat cap"
  shows "restamps sid c (locals_ctx l')"
proof (cases "now - si_last_send_ts si < rto_rto (cx_rto c) * 2 div 3")
  case True
  with assms(1) show ?thesis using tx_ready_restamps[OF ready(1) same_view_refl] by (auto simp: send_session_def)
next
  case False
  obtain q where q: "ctx_send_queue sid c = Inr q" using ready(1) by (auto simp: tx_ready_def)
  let ?r = "send_packet_loop post garbage now sid (index_range (sq_tail q) (min (sq_head q) (sq_tail q + ucast (cw_cwnd si)))) (si, [], None, c)"
  have loop: "?r = Continue l \<or> ?r = Return n l \<Longrightarrow> restamps sid c (locals_ctx l)" for l n
    using send_packet_loop_sends[of post garbage now sid _ "(si, [], None, c)" l n cap] ready by (auto simp: sends_def)
  have s: "send_session post garbage now sid si c = (case ?r of
               Fault f \<Rightarrow> Fault f
             | Return rc l \<Rightarrow> Return rc l
             | Continue (si', reqs, ep, c') \<Rightarrow>
                 if reqs = [] then Continue (si', reqs, ep, c')
                 else case flush_requests post (si', reqs, ep, c') of Inl f \<Rightarrow> Fault f | Inr l \<Rightarrow> Continue l)"
    using False q by (simp add: send_session_def send_getIndexRange_def)
  show ?thesis
  proof (cases ?r)
    case (Continue l)
    obtain si1 reqs ep c1 where l: "l = (si1, reqs, ep, c1)" using prod_cases4 by blast
    obtain si' reqs' ep' c' where l': "l' = (si', reqs', ep', c')" using prod_cases4 by blast
    have "same_view c1 c'"
      using assms(1) s Continue l l' same_view_flush[of post si1 reqs ep c1 si' reqs' ep' c'] by (auto split: if_splits sum.splits)
    moreover have "restamps sid c c1" using loop Continue l by auto
    ultimately show ?thesis
      using restamps_trans[of sid c c1 c'] tx_ready_restamps[of sid cap c1 c'] restamps_ready[of sid c c1 cap] ready(1) l' by simp
  next
    case (Return n l)
    with assms(1) s have "l' = l" by simp
    with loop Return show ?thesis by blast
  qed (use assms(1) s in simp)
qed

lemma sendDataPackets_restamps:
  assumes "ctx_sendDataPackets post garbage now order c = Inr (rc, c')" and "cx_sessions c = [sid \<mapsto> si]"
    and "tx_ready sid cap c" "unat (cw_cwnd si) < unat cap"
  shows "restamps sid c c'"
  using assms
proof (induction order arbitrary: c)
  case Nil
  then show ?case using tx_ready_restamps[OF Nil(3) same_view_refl] by simp
next
  case (Cons s order)
  show ?case
  proof (cases "s = sid")
    case False
    with Cons show ?thesis by simp
  next
    case True
    show ?thesis
    proof (cases "send_session post garbage now sid si c")
      case (Continue l)
      have r: "restamps sid c (locals_ctx l)" using send_session_restamps[OF _ Cons.prems(3,4)] Continue by blast
      have "ctx_sendDataPackets post garbage now order (locals_ctx l) = Inr (rc, c')"
        using Cons.prems(1,2) True Continue by (simp split: prod.splits)
      moreover have "cx_sessions (locals_ctx l) = [sid \<mapsto> si]"
        using r Cons.prems(2) unfolding restamps_def by (simp only:)
      ultimately have "restamps sid (locals_ctx l) c'"
        by (rule Cons.IH) (use restamps_ready[OF r Cons.prems(3)] Cons.prems(4) in simp_all)
      with r show ?thesis by (rule restamps_trans)
    next
      case (Return n l)
      then have "restamps sid c (locals_ctx l)" using send_session_restamps[OF _ Cons.prems(3,4)] by blast
      with Cons.prems(1,2) True Return show ?thesis by (simp split: prod.splits)
    qed (use Cons.prems True in simp)
  qed
qed

section \<open>The arena\<close>

text \<open>Filling the window moves the free list of the pool, but not the pool.\<close>

definition pool_frame :: "packet_buffer_pool \<Rightarrow> u64 \<times> u64 \<times> addr" where
  "pool_frame p = (pool_mtu_size p, pool_max_packets p, pool_arena p)"

lemma fill_round_frame:
  "send_fill_round m s = Continue s' \<or> send_fill_round m s = Return rc s' \<Longrightarrow> pool_frame (fst s') = pool_frame (fst s)"
  by (auto simp: send_fill_round_def pool_frame_def allocatePacket_def Let_def split: prod.splits if_splits)

lemma fill_frame: "send_fillPrimaryQueue m s = Inr (rc, s') \<Longrightarrow> pool_frame (fst s') = pool_frame (fst s)"
proof (induction m s arbitrary: s' rule: send_fillPrimaryQueue.induct)
  case (1 m s)
  then show ?case
    using fill_round_frame[of m s]
    by (simp add: send_fillPrimaryQueue.simps[of m s] split: if_splits flow.splits)
qed

lemma send_push_frame: "send_push m es (p, q) = Inr (sn, rc, p', q') \<Longrightarrow> pool_frame p' = pool_frame p"
  using fill_frame[of m "(p, _)" rc "(p', q')"] by (fastforce simp: send_push_def split: sum.splits prod.splits)

lemma send_mark_frame: "send_markCompleted m sn (p, q) = Inr (rc, p', q') \<Longrightarrow> pool_frame p' = pool_frame p"
  using fill_frame[of m "(p, _)" rc "(p', q')"] by (fastforce simp: send_markCompleted_def)

lemma slots_frame: "pool_frame p' = pool_frame p \<Longrightarrow> slots p' = slots p"
  by (simp add: slots_def slot_addr_def pool_frame_def fun_eq_iff)

end
