(* ===== verification/UnicastLink.thy ===== *)
theory UnicastLink
  imports Transmit
begin

text \<open>
  Two \<open>Context\<close> objects (\<open>src/src/protocols/rdma_unreliable/context.cpp\<close>), connected and with one session each,
  that transfer data from the first to the second over a network that loses, duplicates and
  reorders packets.

  The steps are the operations of the contexts as a program calls them and as \<open>runStep\<close> makes
  them up: \<open>send\<close>, \<open>receive\<close> and \<open>freeTask\<close>, \<open>sendDataPackets\<close> and \<open>sendAckPackets\<close>, and the
  handling of a completion by \<open>pollCompletedPackets\<close>.  In between the devices work: they put packets of the
  send window and acknowledgements on the network and write what arrives into receive buffers.
  A device reads the header of a data packet at any time after it was posted, so the header on the wire is any
  eight bytes; it reads the payload from the buffers of the program, which stay as they are during the
  transfer.  Before a completion is handled the device may have written anything into receive
  buffers, but the buffer of the completion holds the packet.  No packet survives for \<open>2 ^ 24 - 2 ^ 16\<close> others.

  Each operation is related to the steps of \<open>EndToEnd\<close> on the queues of the session.
\<close>

section \<open>Memory\<close>

text \<open>Memory changes in the slots \<open>bs\<close> of a pool only.\<close>

definition slot_writes :: "packet_buffer_pool \<Rightarrow> addr list \<Rightarrow> mem \<Rightarrow> mem \<Rightarrow> bool" where
  "slot_writes p bs m m' \<longleftrightarrow> (\<forall>x. (\<forall>b\<in>set bs. x \<notin> region b (unat (pool_mtu_size p))) \<longrightarrow> m' x = m x)"

definition off_arena :: "packet_buffer_pool \<Rightarrow> buffer \<Rightarrow> bool" where
  "off_arena p b \<longleftrightarrow> (\<forall>s\<in>slots p. buffer_region b \<inter> region s (unat (pool_mtu_size p)) = {})"

lemma header_slot_writes: "header_writes bs m m' \<Longrightarrow> arena_ok p \<Longrightarrow> slot_writes p bs m m'"
  using region_mono[of 8 "unat (pool_mtu_size p)"] unfolding header_writes_def slot_writes_def arena_ok_def by blast

lemma slot_writes_mono: "slot_writes p bs m m' \<Longrightarrow> set bs \<subseteq> set bs' \<Longrightarrow> slot_writes p bs' m m'"
  by (auto simp: slot_writes_def)

lemma slot_writes_off:
  assumes "slot_writes p bs m m'" "set bs \<subseteq> slots p" "off_arena p b"
  shows "\<forall>x\<in>buffer_region b. m' x = m x"
  using assms unfolding slot_writes_def off_arena_def by blast

lemma pool_inv_slot_writes:
  assumes inv: "pool_inv p m held" and w: "slot_writes p held m m'"
  shows "pool_inv p m' held"
proof -
  obtain fs where fs: "pool_free p m fs" "distinct (held @ fs)" "set held \<union> set fs = slots p"
    using inv by (auto simp: pool_inv_def)
  have ok: "arena_ok p" using fs(1) by (simp add: pool_free_def)
  have "load64 m' x = load64 m x" if x: "x \<in> set fs" for x
    unfolding load64_def
  proof (rule arg_cong[where f = of_bytes], rule mem_read_cong)
    fix y assume y: "y \<in> region x 8"
    have "y \<in> region x (unat (pool_mtu_size p))" using y region_mono[of 8 "unat (pool_mtu_size p)" x] ok by (auto simp: arena_ok_def)
    moreover have "region x (unat (pool_mtu_size p)) \<inter> region b (unat (pool_mtu_size p)) = {}" if "b \<in> set held" for b
      using slots_disjoint[OF ok, of x b] fs(2,3) that x by (metis Un_iff disjoint_iff distinct_append)
    ultimately have "\<forall>b\<in>set held. y \<notin> region b (unat (pool_mtu_size p))" by blast
    then show "m' y = m y" using w by (simp add: slot_writes_def)
  qed
  then have "pool_free p m' fs" using fs(1) free_chain_cong[of fs m' m] by (simp add: pool_free_def)
  with fs show ?thesis by (auto simp: pool_inv_def)
qed

text \<open>The sender's memory may change outside of what was sent.\<close>

lemma transfer_inv_memory:
  assumes inv: "transfer_inv m others x" and w: "slot_writes (xf_pool x) (queue_bufs (sq_handle (xf_tx x)) @ others) m m'"
    and off: "\<forall>b\<in>set (xf_sent x). off_arena (xf_pool x) b"
  shows "transfer_inv m' others x"
proof -
  have tx: "tx_ok m others x" using inv by (simp add: transfer_inv_def)
  then have pool: "pool_inv (xf_pool x) m (queue_bufs (sq_handle (xf_tx x)) @ others)" by (simp add: tx_ok_def send_inv_def)
  have b: "buffer_bytes m' b = buffer_bytes m b" if "b \<in> set (xf_sent x)" for b
    using slot_writes_off[OF w] pool_inv_arena[OF pool] off that by (intro buffer_bytes_cong) blast
  have head: "xf_head x \<le> length (xf_sent x)" by (rule tx_ok_head(1)[OF tx])
  have "filled m' x i = filled m x i" for i using b[of "xf_sent x ! i"] head by (auto simp: filled_def)
  then have rx: "rx_ok m' x = rx_ok m x" by (simp add: rx_ok_def rx_matches_def)
  have "tx_ok m' others x" using tx pool_inv_slot_writes[OF pool w] by (simp add: tx_ok_def send_inv_def)
  moreover have "net_ok m' x" using inv b head by (fastforce simp: transfer_inv_def net_ok_def)
  ultimately show ?thesis using inv rx by (simp add: transfer_inv_def)
qed

text \<open>A queue that was restamped is as good as before.\<close>

lemma transfer_inv_restamped:
  assumes inv: "transfer_inv m others x" and r: "restamped (xf_tx x) q"
  shows "transfer_inv m others (x\<lparr>xf_tx := q\<rparr>)"
proof -
  have si: "send_inv m others (xf_pool x, xf_tx x)" using inv by (simp add: transfer_inv_def tx_ok_def)
  then have wf: "send_wf (xf_tx x)" by (simp add: send_inv_def)
  note R = restamped_wf[OF wf r]
  have "xf_head (x\<lparr>xf_tx := q\<rparr>) = xf_head x" by (simp add: xf_head_def R)
  moreover from this have "filled m (x\<lparr>xf_tx := q\<rparr>) = filled m x" by (simp add: fun_eq_iff filled_def)
  ultimately show ?thesis
    using inv restamped_inv[OF si r] R
    by (simp add: transfer_inv_def tx_ok_def rx_ok_def rx_matches_def net_ok_def)
qed

section \<open>The system\<close>

text \<open>
  The sessions of the two sides, the names of the peers, the source addresses by which the packets of
  each side are known, the receive buffers of each side, and all buffers of the sender's pool that are not in its send queue.
\<close>

record link_config =
  lc_a :: int
  lc_b :: int
  lc_peer_a :: string
  lc_peer_b :: string
  lc_from_a :: "(u8 list \<times> u32) set"
  lc_from_b :: "(u8 list \<times> u32) set"
  lc_slots_a :: "addr list"
  lc_slots_b :: "addr list"
  lc_others :: "addr list"

text \<open>
  The contexts; as in \<open>EndToEnd\<close>, the fragments sent and posted, the numbers of fragments acknowledged and
  received and what is on the network (index, immediate value and bytes); and, for each task, the
  number of fragments up to its end.
\<close>

record link =
  lk_a :: unicast_context
  lk_b :: unicast_context
  lk_sent :: "buffer list"
  lk_posted :: "buffer list"
  lk_acked :: nat
  lk_done :: nat
  lk_data :: "(nat \<times> u32 \<times> u8 list) set"
  lk_acks :: "(nat \<times> u32 \<times> u8 list) set"
  lk_sends :: "int \<rightharpoonup> nat"
  lk_receives :: "int \<rightharpoonup> nat"

definition tx_queue :: "link_config \<Rightarrow> unicast_context \<Rightarrow> send_queue" where
  "tx_queue cf a = the (pm_send_queue (cx_packet_manager a) (lc_a cf))"

definition rx_queue :: "link_config \<Rightarrow> unicast_context \<Rightarrow> receive_queue" where
  "rx_queue cf b = the (pm_receive_queue (cx_packet_manager b) (lc_b cf))"

definition xfer :: "link_config \<Rightarrow> link \<Rightarrow> transfer" where
  "xfer cf l = \<lparr>xf_pool = ctx_pool (lk_a l), xf_tx = tx_queue cf (lk_a l), xf_rx = rx_queue cf (lk_b l), xf_mem = cx_mem (lk_b l),
     xf_sent = lk_sent l, xf_posted = lk_posted l, xf_acked = lk_acked l, xf_done = lk_done l,
     xf_data = (\<lambda>(i, imm, w). (i, SHORT_SN (of_nat i), drop 8 w)) ` lk_data l,
     xf_acks = (\<lambda>(j, imm, w). (j, SHORT_SN (of_nat j))) ` lk_acks l\<rparr>"

abbreviation tx_fragments :: "link_config \<Rightarrow> link \<Rightarrow> buffer list \<Rightarrow> buffer list" where
  "tx_fragments cf l bs \<equiv> user_chunks (sec_fragment_size (sq_secondary_queue (tx_queue cf (lk_a l)))) bs"

abbreviation rx_fragments :: "link_config \<Rightarrow> link \<Rightarrow> buffer list \<Rightarrow> buffer list" where
  "rx_fragments cf l bs \<equiv> user_chunks (sec_fragment_size (rq_secondary_queue (rx_queue cf (lk_b l)))) bs"

text \<open>
  A completed receive request of context \<open>c\<close>: memory is \<open>m1\<close>, and the buffer of the request, one of \<open>rs\<close>, holds a packet
  with the immediate value \<open>imm\<close> and the bytes \<open>w\<close> from a source of \<open>from\<close>.
\<close>

definition delivers :: "addr list \<Rightarrow> (u8 list \<times> u32) set \<Rightarrow> u32 \<Rightarrow> u8 list \<Rightarrow> unicast_context \<Rightarrow> mem \<Rightarrow> ibv_wc \<Rightarrow> bool" where
  "delivers rs from_peer imm w c m1 wc \<longleftrightarrow> (let s = rr_addr0 (cx_heap c (wc_wr_id wc)) in
     slot_writes (ctx_pool c) rs (cx_mem c) m1 \<and> s \<in> set rs \<and> mem_read m1 (s + 40) (length w) = w
     \<and> (mem_read m1 (s + 8) 16, wc_src_qp wc) \<in> from_peer
     \<and> wc_opcode wc = IBV_WC_RECV \<and> wc_with_imm wc \<and> wc_imm_data wc = imm \<and> wc_byte_len wc = of_nat (40 + length w))"

inductive link_step :: "link_config \<Rightarrow> link \<Rightarrow> link \<Rightarrow> bool" for cf where
  a_send: "ctx_send g (lc_peer_b cf) bs (lk_a l) = Inr (task_id, a) \<Longrightarrow>
    \<forall>e\<in>set bs. user_ok (sec_fragment_size (sq_secondary_queue (tx_queue cf (lk_a l)))) e \<Longrightarrow>
    \<forall>b\<in>set (tx_fragments cf l bs). off_arena (ctx_pool (lk_a l)) b \<Longrightarrow>
    link_step cf l (l\<lparr>lk_a := a, lk_sent := lk_sent l @ tx_fragments cf l bs,
      lk_sends := (lk_sends l)(task_id \<mapsto> length (lk_sent l @ tx_fragments cf l bs))\<rparr>)"
| b_receive: "ctx_receive g (lc_peer_a cf) bs (lk_b l) = Inr (task_id, b) \<Longrightarrow>
    \<forall>e\<in>set bs. slice_ok (sec_fragment_size (rq_secondary_queue (rx_queue cf (lk_b l)))) e \<Longrightarrow>
    \<forall>b\<in>set (rx_fragments cf l bs). off_arena (ctx_pool (lk_b l)) b \<Longrightarrow> separate (lk_posted l @ rx_fragments cf l bs) \<Longrightarrow>
    link_step cf l (l\<lparr>lk_b := b, lk_posted := lk_posted l @ rx_fragments cf l bs,
      lk_receives := (lk_receives l)(task_id \<mapsto> length (lk_posted l @ rx_fragments cf l bs))\<rparr>)"
| a_free: "ctx_freeTask task_id (lk_a l) = (rc, a) \<Longrightarrow> link_step cf l (l\<lparr>lk_a := a, lk_sends := (lk_sends l)(task_id := None)\<rparr>)"
| b_free: "ctx_freeTask task_id (lk_b l) = (rc, b) \<Longrightarrow> link_step cf l (l\<lparr>lk_b := b, lk_receives := (lk_receives l)(task_id := None)\<rparr>)"
| a_data: "ctx_sendDataPackets post garbage now order (lk_a l) = Inr (rc, a) \<Longrightarrow> link_step cf l (l\<lparr>lk_a := a\<rparr>)"
| b_data: "ctx_sendDataPackets post garbage now order (lk_b l) = Inr (rc, b) \<Longrightarrow> link_step cf l (l\<lparr>lk_b := b\<rparr>)"
| a_ack: "ctx_sendAckPackets post garbage order (lk_a l) = Inr (rc, a) \<Longrightarrow> link_step cf l (l\<lparr>lk_a := a\<rparr>)"
| b_ack: "ctx_sendAckPackets post garbage order (lk_b l) = Inr (rc, b) \<Longrightarrow> link_step cf l (l\<lparr>lk_b := b\<rparr>)"
| a_sent: "wc_opcode wc = IBV_WC_SEND \<Longrightarrow> poll_one post g now wc (lk_a l) = Inr a \<Longrightarrow> link_step cf l (l\<lparr>lk_a := a\<rparr>)"
| b_sent: "wc_opcode wc = IBV_WC_SEND \<Longrightarrow> poll_one post g now wc (lk_b l) = Inr b \<Longrightarrow> link_step cf l (l\<lparr>lk_b := b\<rparr>)"
| transmit_data: "k < length (send_entries (tx_queue cf (lk_a l))) \<Longrightarrow>
    serialize (cx_mem (lk_a l)) ((send_entries (tx_queue cf (lk_a l)) ! k)\<lparr>ph_ts := now\<rparr>) = (0, h, m, Some (s0, s1, imm)) \<Longrightarrow>
    length hdr = 8 \<Longrightarrow>
    link_step cf l (l\<lparr>lk_data := insert (lk_acked l + k, imm, hdr @ drop 8 (wire_bytes m s0 s1)) (lk_data l)\<rparr>)"
| transmit_ack: "cx_sessions (lk_b l) (lc_b cf) = Some si \<Longrightarrow>
    serialize (cx_mem (lk_b l)) (ack_packet (lc_b cf) (rx_queue cf (lk_b l)) (si_ack_handle si)) = (0, h, m, Some (s0, s1, imm)) \<Longrightarrow>
    link_step cf l (l\<lparr>lk_acks := insert (lk_done l, imm, wire_bytes m s0 s1) (lk_acks l)\<rparr>)"
| data_arrives: "(i, imm, w) \<in> lk_data l \<Longrightarrow> lk_done l < i + (2 ^ 24 - 2 ^ 16) \<Longrightarrow>
    delivers (lc_slots_b cf) (lc_from_a cf) imm w (lk_b l) m1 wc \<Longrightarrow>
    poll_one post g now wc ((lk_b l)\<lparr>cx_mem := m1\<rparr>) = Inr b \<Longrightarrow>
    link_step cf l (l\<lparr>lk_b := b, lk_done := lk_done l + unat (rq_tail (rx_queue cf b) - rq_tail (rx_queue cf (lk_b l)))\<rparr>)"
| ack_arrives: "(j, imm, w) \<in> lk_acks l \<Longrightarrow> xf_head (xfer cf l) < j + 2 ^ 24 \<Longrightarrow>
    delivers (lc_slots_a cf) (lc_from_b cf) imm w (lk_a l) m1 wc \<Longrightarrow>
    poll_one post g now wc ((lk_a l)\<lparr>cx_mem := m1\<rparr>) = Inr a \<Longrightarrow>
    link_step cf l (l\<lparr>lk_a := a, lk_acked := lk_acked l + unat (sq_tail (tx_queue cf a) - sq_tail (tx_queue cf (lk_a l)))\<rparr>)"

section \<open>The invariant\<close>

lemma off_arena_frame: "pool_frame p' = pool_frame p \<Longrightarrow> off_arena p' = off_arena p"
  using slots_frame[of p' p] by (simp add: off_arena_def pool_frame_def fun_eq_iff)

definition sendable :: "packet_buffer_pool \<Rightarrow> buffer \<Rightarrow> bool" where
  "sendable p b \<longleftrightarrow> off_arena p b \<and> buf_addr b \<noteq> 0 \<and> unat (buf_length b) + 48 < 2 ^ 32"

definition known_from :: "(u8 list \<times> u32) set \<Rightarrow> string \<Rightarrow> int \<Rightarrow> unicast_context \<Rightarrow> bool" where
  "known_from from_peer peer sid c \<longleftrightarrow> (\<forall>(gid, qp)\<in>from_peer. findSession_addr gid qp 0 (cx_controller c) = Inr sid)
     \<and> findSession_name peer 0 (cx_controller c) = sid \<and> 0 \<le> sid"

definition task_of :: "int \<Rightarrow> bool \<Rightarrow> nat \<Rightarrow> task" where
  "task_of sid is_send n = \<lparr>tk_session = sid, tk_last_sn = SHORT_SN (of_nat n), tk_is_send = is_send\<rparr>"

definition tasks_ok :: "int \<Rightarrow> bool \<Rightarrow> nat \<Rightarrow> (int \<rightharpoonup> nat) \<Rightarrow> unicast_context \<Rightarrow> bool" where
  "tasks_ok sid is_send len tasks c \<longleftrightarrow> (\<forall>i n. tasks i = Some n \<longrightarrow> n \<le> len \<and> cx_task_map c i = Some (task_of sid is_send n))"

definition a_session :: "link_config \<Rightarrow> unicast_context \<Rightarrow> bool" where
  "a_session cf a \<longleftrightarrow> (\<exists>si q. cx_sessions a = [lc_a cf \<mapsto> si] \<and> si_setup si \<and> pm_send_queue (cx_packet_manager a) (lc_a cf) = Some q
     \<and> unat (cw_cwnd si) < unat (sq_queue_capacity q) \<and> si_recv_packets si \<le> si_ack_packets si
     \<and> sq_session q = 0 \<and> plain_handles q \<and> 8 < unat (sq_queue_capacity q)
     \<and> unat (sec_fragment_size (sq_secondary_queue q)) + 48 < 2 ^ 32)"

definition a_side :: "link_config \<Rightarrow> link \<Rightarrow> bool" where
  "a_side cf l \<longleftrightarrow> a_session cf (lk_a l) \<and> known_from (lc_from_b cf) (lc_peer_b cf) (lc_a cf) (lk_a l)
     \<and> (\<forall>b\<in>set (lk_sent l). sendable (ctx_pool (lk_a l)) b) \<and> set (lc_slots_a cf) \<subseteq> set (lc_others cf)
     \<and> tasks_ok (lc_a cf) True (length (lk_sent l)) (lk_sends l) (lk_a l)"

definition b_session :: "link_config \<Rightarrow> u64 \<Rightarrow> unicast_context \<Rightarrow> bool" where
  "b_session cf cap b \<longleftrightarrow> (\<exists>si q sq. cx_sessions b = [lc_b cf \<mapsto> si] \<and> si_setup si
     \<and> ph_packet_buf (si_ack_handle si) \<in> slots (ctx_pool b) \<and> \<not> ph_compacted (si_ack_handle si) \<and> ph_data_len (si_ack_handle si) = 0
     \<and> pm_receive_queue (cx_packet_manager b) (lc_b cf) = Some q \<and> Suc (unat (rq_wnd_size q)) < unat cap
     \<and> pm_send_queue (cx_packet_manager b) (lc_b cf) = Some sq \<and> sq_head sq = sq_tail sq)"

definition b_side :: "link_config \<Rightarrow> link \<Rightarrow> bool" where
  "b_side cf l \<longleftrightarrow> b_session cf (sq_queue_capacity (tx_queue cf (lk_a l))) (lk_b l) \<and> known_from (lc_from_a cf) (lc_peer_a cf) (lc_b cf) (lk_b l)
     \<and> arena_ok (ctx_pool (lk_b l)) \<and> set (lc_slots_b cf) \<subseteq> slots (ctx_pool (lk_b l)) \<and> lc_b cf smod 256 = 0
     \<and> (\<forall>b\<in>set (lk_posted l). off_arena (ctx_pool (lk_b l)) b) \<and> tasks_ok (lc_b cf) False (length (lk_posted l)) (lk_receives l) (lk_b l)"

definition wire_ok :: "link_config \<Rightarrow> link \<Rightarrow> bool" where
  "wire_ok cf l \<longleftrightarrow> (\<forall>(i, imm, w)\<in>lk_data l. imm_says PKT_CMD_DATA (SHORT_SN (of_nat i)) imm \<and> 8 \<le> length w \<and> length w + 40 < 2 ^ 32)
     \<and> (\<forall>(j, imm, w)\<in>lk_acks l. imm_says PKT_CMD_ACK (SHORT_SN (of_nat j)) imm \<and> length w = 8
          \<and> unat (of_bytes (take 2 w) :: u16) < unat (sq_queue_capacity (tx_queue cf (lk_a l))))"

definition link_inv :: "link_config \<Rightarrow> link \<Rightarrow> bool" where
  "link_inv cf l \<longleftrightarrow> transfer_inv (cx_mem (lk_a l)) (lc_others cf) (xfer cf l) \<and> a_side cf l \<and> b_side cf l \<and> wire_ok cf l"

lemma tasks_ok_new:
  assumes "tasks_ok sid b len tasks c" "len \<le> n" "cx_task_map c' = (cx_task_map c)(i \<mapsto> task_of sid b n)"
  shows "tasks_ok sid b n (tasks(i \<mapsto> n)) c'"
  using assms by (force simp: tasks_ok_def)

lemma known_from_view: "ctl_view c' = ctl_view c \<Longrightarrow> known_from f p sid c' = known_from f p sid c"
  by (simp add: known_from_def ctl_view_def findSession_addr_def findSession_name_def)

lemma link_inv_view_a:
  assumes "link_inv cf l" "same_view (lk_a l) a"
  shows "link_inv cf (l\<lparr>lk_a := a\<rparr>)"
proof -
  have v: "cx_packet_manager a = cx_packet_manager (lk_a l)" "cx_sessions a = cx_sessions (lk_a l)" "cx_mem a = cx_mem (lk_a l)"
    "cx_task_map a = cx_task_map (lk_a l)" "ctl_view a = ctl_view (lk_a l)" using assms(2) by (simp_all add: same_view_def same_core_def)
  then show ?thesis
    using assms(1) known_from_view[OF v(5)]
    by (simp add: link_inv_def xfer_def a_side_def b_side_def wire_ok_def a_session_def tx_queue_def ctx_pool_def tasks_ok_def)
qed

lemma link_inv_view_b:
  assumes "link_inv cf l" "same_view (lk_b l) b"
  shows "link_inv cf (l\<lparr>lk_b := b\<rparr>)"
proof -
  have v: "cx_packet_manager b = cx_packet_manager (lk_b l)" "cx_sessions b = cx_sessions (lk_b l)" "cx_mem b = cx_mem (lk_b l)"
    "cx_task_map b = cx_task_map (lk_b l)" "ctl_view b = ctl_view (lk_b l)" using assms(2) by (simp_all add: same_view_def same_core_def)
  then show ?thesis
    using assms(1) known_from_view[OF v(5)]
    by (simp add: link_inv_def xfer_def a_side_def b_side_def wire_ok_def b_session_def rx_queue_def ctx_pool_def tasks_ok_def)
qed

text \<open>Reading the invariant.\<close>

lemma link_inv_a:
  assumes "link_inv cf l"
  obtains si where "ctx_send_queue (lc_a cf) (lk_a l) = Inr (tx_queue cf (lk_a l))" "cx_sessions (lk_a l) = [lc_a cf \<mapsto> si]" "si_setup si"
    "pm_send_queue (cx_packet_manager (lk_a l)) (lc_a cf) = Some (tx_queue cf (lk_a l))"
    "unat (cw_cwnd si) < unat (sq_queue_capacity (tx_queue cf (lk_a l)))" "si_recv_packets si \<le> si_ack_packets si"
    "send_inv (cx_mem (lk_a l)) (lc_others cf) (ctx_pool (lk_a l), tx_queue cf (lk_a l))" "sq_session (tx_queue cf (lk_a l)) = 0"
    "plain_handles (tx_queue cf (lk_a l))" "8 < unat (sq_queue_capacity (tx_queue cf (lk_a l)))"
    "unat (sec_fragment_size (sq_secondary_queue (tx_queue cf (lk_a l)))) + 48 < 2 ^ 32"
proof -
  have "a_session cf (lk_a l)" using assms by (simp add: link_inv_def a_side_def)
  then obtain si q where s: "cx_sessions (lk_a l) = [lc_a cf \<mapsto> si]" "si_setup si" "pm_send_queue (cx_packet_manager (lk_a l)) (lc_a cf) = Some q"
      "unat (cw_cwnd si) < unat (sq_queue_capacity q)" "si_recv_packets si \<le> si_ack_packets si" "sq_session q = 0" "plain_handles q"
      "8 < unat (sq_queue_capacity q)" "unat (sec_fragment_size (sq_secondary_queue q)) + 48 < 2 ^ 32"
    unfolding a_session_def by blast
  have q: "tx_queue cf (lk_a l) = q" using s(3) by (simp add: tx_queue_def)
  have "tx_ok (cx_mem (lk_a l)) (lc_others cf) (xfer cf l)" using assms by (simp add: link_inv_def transfer_inv_def)
  then have "send_inv (cx_mem (lk_a l)) (lc_others cf) (ctx_pool (lk_a l), q)" by (simp add: tx_ok_def xfer_def q)
  moreover have "ctx_send_queue (lc_a cf) (lk_a l) = Inr q" using s(1-3) by (simp add: ctx_send_queue_eq)
  ultimately show thesis using that[unfolded q] s by blast
qed

lemma link_inv_b:
  assumes "link_inv cf l"
  obtains si sq where "ctx_receive_queue (lc_b cf) (lk_b l) = Inr (rx_queue cf (lk_b l))" "cx_sessions (lk_b l) = [lc_b cf \<mapsto> si]" "si_setup si"
    "pm_receive_queue (cx_packet_manager (lk_b l)) (lc_b cf) = Some (rx_queue cf (lk_b l))"
    "ph_packet_buf (si_ack_handle si) \<in> slots (ctx_pool (lk_b l))" "\<not> ph_compacted (si_ack_handle si)" "ph_data_len (si_ack_handle si) = 0"
    "Suc (unat (rq_wnd_size (rx_queue cf (lk_b l)))) < unat (sq_queue_capacity (tx_queue cf (lk_a l)))"
    "pm_send_queue (cx_packet_manager (lk_b l)) (lc_b cf) = Some sq" "sq_head sq = sq_tail sq" "recv_inv (rx_queue cf (lk_b l))"
proof -
  have "b_session cf (sq_queue_capacity (tx_queue cf (lk_a l))) (lk_b l)" using assms by (simp add: link_inv_def b_side_def)
  then obtain si q sq where s: "cx_sessions (lk_b l) = [lc_b cf \<mapsto> si]" "si_setup si" "ph_packet_buf (si_ack_handle si) \<in> slots (ctx_pool (lk_b l))"
      "\<not> ph_compacted (si_ack_handle si)" "ph_data_len (si_ack_handle si) = 0" "pm_receive_queue (cx_packet_manager (lk_b l)) (lc_b cf) = Some q"
      "Suc (unat (rq_wnd_size q)) < unat (sq_queue_capacity (tx_queue cf (lk_a l)))"
      "pm_send_queue (cx_packet_manager (lk_b l)) (lc_b cf) = Some sq" "sq_head sq = sq_tail sq"
    unfolding b_session_def by blast
  have q: "rx_queue cf (lk_b l) = q" using s(6) by (simp add: rx_queue_def)
  have "rx_ok (cx_mem (lk_a l)) (xfer cf l)" using assms by (simp add: link_inv_def transfer_inv_def)
  then have "recv_inv q" by (simp add: rx_ok_def xfer_def q)
  moreover have "ctx_receive_queue (lc_b cf) (lk_b l) = Inr q" using s(1,2,6) by (simp add: ctx_receive_queue_eq)
  ultimately show thesis using that[unfolded q] s by blast
qed

lemma link_inv_update_a:
  assumes "link_inv cf l" "l' = l\<lparr>lk_a := a, lk_sent := s, lk_acked := k, lk_sends := t\<rparr>"
    and "transfer_inv (cx_mem a) (lc_others cf) (xfer cf l')" "a_side cf l'"
    and "sq_queue_capacity (tx_queue cf a) = sq_queue_capacity (tx_queue cf (lk_a l))"
  shows "link_inv cf l'"
  using assms by (simp add: link_inv_def b_side_def wire_ok_def)

lemma link_inv_update_b:
  assumes "link_inv cf l" "l' = l\<lparr>lk_b := b, lk_posted := ps, lk_done := k, lk_receives := t\<rparr>"
    and "transfer_inv (cx_mem (lk_a l)) (lc_others cf) (xfer cf l')" "b_side cf l'"
  shows "link_inv cf l'"
  using assms by (simp add: link_inv_def a_side_def wire_ok_def)

section \<open>The program\<close>

lemma link_inv_send:
  assumes inv: "link_inv cf l" and send: "ctx_send g (lc_peer_b cf) bs (lk_a l) = Inr (task_id, a)"
    and ok: "\<forall>e\<in>set bs. user_ok (sec_fragment_size (sq_secondary_queue (tx_queue cf (lk_a l)))) e"
    and off: "\<forall>b\<in>set (tx_fragments cf l bs). off_arena (ctx_pool (lk_a l)) b"
  shows "link_inv cf (l\<lparr>lk_a := a, lk_sent := lk_sent l @ tx_fragments cf l bs,
      lk_sends := (lk_sends l)(task_id \<mapsto> length (lk_sent l @ tx_fragments cf l bs))\<rparr>)"
proof -
  let ?a = "lk_a l" and ?q = "tx_queue cf (lk_a l)" and ?n = "length (lk_sent l @ tx_fragments cf l bs)"
  let ?l = "l\<lparr>lk_a := a, lk_sent := lk_sent l @ tx_fragments cf l bs, lk_sends := (lk_sends l)(task_id \<mapsto> ?n)\<rparr>"
  obtain si where A: "ctx_send_queue (lc_a cf) ?a = Inr ?q" "cx_sessions ?a = [lc_a cf \<mapsto> si]" "si_setup si"
      "unat (cw_cwnd si) < unat (sq_queue_capacity ?q)" "si_recv_packets si \<le> si_ack_packets si"
      "send_inv (cx_mem ?a) (lc_others cf) (ctx_pool ?a, ?q)" "sq_session ?q = 0"
      "plain_handles ?q" "8 < unat (sq_queue_capacity ?q)" "unat (sec_fragment_size (sq_secondary_queue ?q)) + 48 < 2 ^ 32"
    using link_inv_a[OF inv] by blast
  have K: "known_from (lc_from_b cf) (lc_peer_b cf) (lc_a cf) ?a" using inv by (simp add: link_inv_def a_side_def)
  have T: "transfer_inv (cx_mem ?a) (lc_others cf) (xfer cf l)" using inv by (simp add: link_inv_def)
  obtain p' q' where push: "send_push (cx_mem ?a) bs (ctx_pool ?a, ?q) = Inr (SHORT_SN (sq_tail ?q + of_nat (length (send_contents q'))), 0, p', q')"
      "send_contents q' = send_contents ?q @ tx_fragments cf l bs" "sec_fragment_size (sq_secondary_queue q') = sec_fragment_size (sq_secondary_queue ?q)"
    using send_push_ok[OF A(6) ok] by blast
  have keep: "send_keeps ?q q'" "pool_frame p' = pool_frame (ctx_pool ?a)" using send_push_keeps[OF push(1)] send_push_frame[OF push(1)] by simp_all
  have tx: "sq_tail ?q = of_nat (lk_acked l)" "lk_acked l \<le> length (lk_sent l)" "send_contents ?q = drop (lk_acked l) (lk_sent l)"
    using T by (simp_all add: transfer_inv_def tx_ok_def xfer_def)
  have sn: "SHORT_SN (sq_tail ?q + of_nat (length (send_contents q'))) = SHORT_SN (of_nat ?n)"
    using tx push(2) by (simp flip: of_nat_add)
  have "ctx_send g (lc_peer_b cf) bs ?a = Inr (ctx_new_task (task_of (lc_a cf) True ?n) (ctx_put_send_queue (lc_a cf) (p', q') ?a))"
    using K A(1) ctx_send_queue_active[OF A(1), of g] push(1) sn by (simp add: ctx_send_def known_from_def task_of_def Let_def)
  then have a: "a = snd (ctx_new_task (task_of (lc_a cf) True ?n) (ctx_put_send_queue (lc_a cf) (p', q') ?a))" "task_id = sint (cx_next_task_id ?a)"
    using send by (simp_all add: ctx_new_task_def Let_def ctx_put_send_queue_def)
  have v: "cx_sessions a = cx_sessions ?a" "ctl_view a = ctl_view ?a" "cx_mem a = cx_mem ?a" "ctx_pool a = p'" "tx_queue cf a = q'"
      "pm_send_queue (cx_packet_manager a) (lc_a cf) = Some q'" "cx_task_map a = (cx_task_map ?a)(task_id \<mapsto> task_of (lc_a cf) True ?n)"
    by (simp_all add: a ctx_new_task_def Let_def ctx_put_send_queue_def ctl_view_def ctx_pool_def tx_queue_def)
  have fs: "sec_fragment_size (sq_secondary_queue ?q) \<noteq> 0" using A(6) by (simp add: send_inv_def send_wf_def sec_inv_def)
  show ?thesis
  proof (rule link_inv_update_a[OF inv, where k = "lk_acked l"])
    have "xfer cf ?l = (xfer cf l)\<lparr>xf_pool := p', xf_tx := q', xf_sent := xf_sent (xfer cf l) @ tx_chunks (xfer cf l) bs\<rparr>"
      by (simp add: xfer_def v tx_chunks_def)
    then show "transfer_inv (cx_mem a) (lc_others cf) (xfer cf ?l)"
      using transfer_inv_push_tx[OF T, of bs _ 0 p' q'] ok push(1) v(3) by (simp add: xfer_def)
    have "a_session cf a"
      unfolding a_session_def using A v keep(1) push(3) by (intro exI[of _ si] exI[of _ q']) (simp add: send_keeps_def)
    moreover have "sendable p' b" if "b \<in> set (lk_sent l @ tx_fragments cf l bs)" for b
    proof (cases "b \<in> set (lk_sent l)")
      case True
      then show ?thesis using inv off_arena_frame[OF keep(2)] by (simp add: link_inv_def a_side_def sendable_def)
    next
      case False
      then have b: "b \<in> set (tx_fragments cf l bs)" using that by simp
      then have "buf_addr b \<noteq> 0" "buf_length b \<le> sec_fragment_size (sq_secondary_queue ?q)"
        using user_chunks_addr[OF ok] user_chunks_length[OF fs] by blast+
      then show ?thesis using b off A(10) off_arena_frame[OF keep(2)] by (simp add: sendable_def word_le_nat_alt)
    qed
    moreover have "tasks_ok (lc_a cf) True ?n ((lk_sends l)(task_id \<mapsto> ?n)) a"
      using inv by (intro tasks_ok_new[where len = "length (lk_sent l)", OF _ _ v(7)]) (simp_all add: link_inv_def a_side_def)
    ultimately show "a_side cf ?l"
      using inv known_from_view[OF v(2)] K v(4) by (simp add: a_side_def link_inv_def)
  qed (use keep v in \<open>simp_all add: send_keeps_def\<close>)
qed

lemma recv_next_id: "recv_inv q \<Longrightarrow> sec_fragment_id (rq_secondary_queue q) = rq_tail q + of_nat (length (recv_contents q))"
  by (simp add: recv_inv_def recv_wf_def recv_contents_def recv_pending_def of_nat_unat)

lemma link_inv_receive:
  assumes inv: "link_inv cf l" and receive: "ctx_receive g (lc_peer_a cf) bs (lk_b l) = Inr (task_id, b)"
    and ok: "\<forall>e\<in>set bs. slice_ok (sec_fragment_size (rq_secondary_queue (rx_queue cf (lk_b l)))) e"
    and off: "\<forall>b\<in>set (rx_fragments cf l bs). off_arena (ctx_pool (lk_b l)) b" and sep: "separate (lk_posted l @ rx_fragments cf l bs)"
  shows "link_inv cf (l\<lparr>lk_b := b, lk_posted := lk_posted l @ rx_fragments cf l bs,
      lk_receives := (lk_receives l)(task_id \<mapsto> length (lk_posted l @ rx_fragments cf l bs))\<rparr>)"
proof -
  let ?b = "lk_b l" and ?q = "rx_queue cf (lk_b l)" and ?n = "length (lk_posted l @ rx_fragments cf l bs)"
  let ?l = "l\<lparr>lk_b := b, lk_posted := lk_posted l @ rx_fragments cf l bs, lk_receives := (lk_receives l)(task_id \<mapsto> ?n)\<rparr>"
  obtain si sq where B: "ctx_receive_queue (lc_b cf) ?b = Inr ?q" "cx_sessions ?b = [lc_b cf \<mapsto> si]" "si_setup si"
      "ph_packet_buf (si_ack_handle si) \<in> slots (ctx_pool ?b)" "\<not> ph_compacted (si_ack_handle si)" "ph_data_len (si_ack_handle si) = 0"
      "Suc (unat (rq_wnd_size ?q)) < unat (sq_queue_capacity (tx_queue cf (lk_a l)))"
      "pm_send_queue (cx_packet_manager ?b) (lc_b cf) = Some sq" "sq_head sq = sq_tail sq" "recv_inv ?q"
    using link_inv_b[OF inv] by blast
  have S: "known_from (lc_from_a cf) (lc_peer_a cf) (lc_b cf) ?b" "arena_ok (ctx_pool ?b)" "set (lc_slots_b cf) \<subseteq> slots (ctx_pool ?b)"
      "lc_b cf smod 256 = 0" "\<forall>b\<in>set (lk_posted l). off_arena (ctx_pool ?b) b" "tasks_ok (lc_b cf) False (length (lk_posted l)) (lk_receives l) ?b"
    using inv by (simp_all add: link_inv_def b_side_def)
  have T: "transfer_inv (cx_mem (lk_a l)) (lc_others cf) (xfer cf l)" using inv by (simp add: link_inv_def)
  obtain q' where push: "recv_push bs ?q = Inr (SHORT_SN (sec_fragment_id (rq_secondary_queue q')), 0, q')" "recv_inv q'"
      "rq_tail q' = rq_tail ?q" "rq_wnd_size q' = rq_wnd_size ?q" "recv_contents q' = recv_contents ?q @ map fresh_request (rx_fragments cf l bs)"
    using recv_push_contents[OF B(10) ok] by blast
  have rx: "rq_tail ?q = of_nat (lk_done l)" "lk_done l + length (recv_contents ?q) = length (lk_posted l)"
    using T by (simp_all add: transfer_inv_def rx_ok_def rx_matches_def xfer_def)
  have "rq_tail q' + of_nat (length (recv_contents q')) = of_nat ?n" using rx(1) push(3,5) by (simp flip: rx(2))
  then have sn: "SHORT_SN (sec_fragment_id (rq_secondary_queue q')) = SHORT_SN (of_nat ?n)" using recv_next_id[OF push(2)] by (simp only:)
  have "ctx_activate g (lc_b cf) ?b = Inr (0, ?b)" using B(2) by (simp add: ctx_activate_def)
  then have "ctx_receive g (lc_peer_a cf) bs ?b = Inr (ctx_new_task (task_of (lc_b cf) False ?n) (ctx_put_receive_queue (lc_b cf) q' ?b))"
    using S(1) B(1) push(1) sn by (simp add: ctx_receive_def known_from_def task_of_def Let_def)
  then have b: "b = snd (ctx_new_task (task_of (lc_b cf) False ?n) (ctx_put_receive_queue (lc_b cf) q' ?b))" "task_id = sint (cx_next_task_id ?b)"
    using receive by (simp_all add: ctx_new_task_def Let_def ctx_put_receive_queue_def)
  have v: "cx_sessions b = cx_sessions ?b" "ctl_view b = ctl_view ?b" "cx_mem b = cx_mem ?b" "ctx_pool b = ctx_pool ?b" "rx_queue cf b = q'"
      "pm_receive_queue (cx_packet_manager b) (lc_b cf) = Some q'" "cx_task_map b = (cx_task_map ?b)(task_id \<mapsto> task_of (lc_b cf) False ?n)"
      "pm_send_queue (cx_packet_manager b) = pm_send_queue (cx_packet_manager ?b)"
    by (simp_all add: b ctx_new_task_def Let_def ctx_put_receive_queue_def ctl_view_def ctx_pool_def rx_queue_def)
  show ?thesis
  proof (rule link_inv_update_b[OF inv, where k = "lk_done l"])
    have "xfer cf ?l = (xfer cf l)\<lparr>xf_rx := q', xf_posted := xf_posted (xfer cf l) @ rx_chunks (xfer cf l) bs\<rparr>"
      by (simp add: xfer_def v rx_chunks_def)
    then show "transfer_inv (cx_mem (lk_a l)) (lc_others cf) (xfer cf ?l)"
      using transfer_inv_push_rx[OF T, of bs _ 0 q'] ok sep push(1) by (simp add: xfer_def rx_chunks_def)
    have "b_session cf (sq_queue_capacity (tx_queue cf (lk_a l))) b"
      unfolding b_session_def using B v push(4) by (intro exI[of _ si] exI[of _ q'] exI[of _ sq]) simp
    moreover have "tasks_ok (lc_b cf) False ?n ((lk_receives l)(task_id \<mapsto> ?n)) b"
      using S(6) by (intro tasks_ok_new[where len = "length (lk_posted l)", OF _ _ v(7)]) simp_all
    ultimately show "b_side cf ?l"
      using S known_from_view[OF v(2)] off v(4) by (auto simp: b_side_def)
  qed simp
qed

lemma link_inv_free_a:
  assumes "link_inv cf l" "ctx_freeTask task_id (lk_a l) = (rc, a)"
  shows "link_inv cf (l\<lparr>lk_a := a, lk_sends := (lk_sends l)(task_id := None)\<rparr>)"
proof -
  have "a = (lk_a l)\<lparr>cx_task_map := (cx_task_map (lk_a l))(task_id := None)\<rparr>"
    using assms(2) by (auto simp: ctx_freeTask_def fun_upd_idem split: if_splits)
  then show ?thesis
    using assms(1)
    by (simp add: link_inv_def xfer_def a_side_def b_side_def wire_ok_def a_session_def tx_queue_def ctx_pool_def tasks_ok_def known_from_def)
qed

lemma link_inv_free_b:
  assumes "link_inv cf l" "ctx_freeTask task_id (lk_b l) = (rc, b)"
  shows "link_inv cf (l\<lparr>lk_b := b, lk_receives := (lk_receives l)(task_id := None)\<rparr>)"
proof -
  have "b = (lk_b l)\<lparr>cx_task_map := (cx_task_map (lk_b l))(task_id := None)\<rparr>"
    using assms(2) by (auto simp: ctx_freeTask_def fun_upd_idem split: if_splits)
  then show ?thesis
    using assms(1)
    by (simp add: link_inv_def xfer_def a_side_def b_side_def wire_ok_def b_session_def rx_queue_def ctx_pool_def tasks_ok_def known_from_def)
qed

end
