(* ===== verification/UnicastDelivery.thy ===== *)
theory UnicastDelivery
  imports UnicastLink
begin

text \<open>
  The steps of a link keep its invariant: \<open>sendDataPackets\<close>, \<open>sendAckPackets\<close> and the handling of completions
  by \<open>pollCompletedPackets\<close>, and what the devices do.  So data sent over the link arrives as it was sent, and
  the status of a task can be relied on.
\<close>

lemma xfer_fields [simp]:
  "xf_pool (xfer cf l) = ctx_pool (lk_a l)" "xf_tx (xfer cf l) = tx_queue cf (lk_a l)" "xf_rx (xfer cf l) = rx_queue cf (lk_b l)"
  "xf_mem (xfer cf l) = cx_mem (lk_b l)" "xf_sent (xfer cf l) = lk_sent l" "xf_posted (xfer cf l) = lk_posted l"
  "xf_acked (xfer cf l) = lk_acked l" "xf_done (xfer cf l) = lk_done l"
  "xf_data (xfer cf l) = (\<lambda>(i, imm, w). (i, SHORT_SN (of_nat i), drop 8 w)) ` lk_data l"
  "xf_acks (xfer cf l) = (\<lambda>(j, imm, w). (j, SHORT_SN (of_nat j))) ` lk_acks l"
  by (simp_all add: xfer_def)

lemma link_inv_transfer: "link_inv cf l \<Longrightarrow> transfer_inv (cx_mem (lk_a l)) (lc_others cf) (xfer cf l)"
  by (simp add: link_inv_def)

lemma link_pool_a:
  "link_inv cf l \<Longrightarrow> pool_inv (ctx_pool (lk_a l)) (cx_mem (lk_a l)) (queue_bufs (sq_handle (tx_queue cf (lk_a l))) @ lc_others cf)"
  by (simp add: link_inv_def transfer_inv_def tx_ok_def send_inv_def)

text \<open>The sender's buffers are never written.\<close>

definition sender_kept :: "unicast_context \<Rightarrow> unicast_context \<Rightarrow> bool" where
  "sender_kept c c' \<longleftrightarrow> pool_frame (ctx_pool c') = pool_frame (ctx_pool c)
     \<and> (\<forall>b. off_arena (ctx_pool c) b \<longrightarrow> buffer_bytes (cx_mem c') b = buffer_bytes (cx_mem c) b)"

lemma sender_kept_trans: "sender_kept c c' \<Longrightarrow> sender_kept c' c'' \<Longrightarrow> sender_kept c c''"
  using off_arena_frame[of "ctx_pool c'" "ctx_pool c"] by (simp add: sender_kept_def)

section \<open>Sending and acknowledging\<close>

lemma link_inv_data_a:
  assumes inv: "link_inv cf l" and d: "ctx_sendDataPackets post garbage now order (lk_a l) = Inr (rc, a)"
  shows "link_inv cf (l\<lparr>lk_a := a\<rparr>)" and "sender_kept (lk_a l) a"
proof -
  let ?a = "lk_a l" and ?q = "tx_queue cf (lk_a l)"
  obtain si where A: "ctx_send_queue (lc_a cf) ?a = Inr ?q" "cx_sessions ?a = [lc_a cf \<mapsto> si]" "si_setup si"
      "pm_send_queue (cx_packet_manager ?a) (lc_a cf) = Some ?q"
      "unat (cw_cwnd si) < unat (sq_queue_capacity ?q)" "si_recv_packets si \<le> si_ack_packets si"
      "send_inv (cx_mem ?a) (lc_others cf) (ctx_pool ?a, ?q)" "sq_session ?q = 0"
      "plain_handles ?q" "8 < unat (sq_queue_capacity ?q)" "unat (sec_fragment_size (sq_secondary_queue ?q)) + 48 < 2 ^ 32"
    using link_inv_a[OF inv] by blast
  have wf: "send_wf ?q" and pool: "pool_inv (ctx_pool ?a) (cx_mem ?a) (queue_bufs (sq_handle ?q) @ lc_others cf)"
    using A(7) by (simp_all add: send_inv_def)
  have "tx_ready (lc_a cf) (sq_queue_capacity ?q) ?a" using A wf by (simp add: tx_ready_def)
  note r = sendDataPackets_restamps[OF d A(2) this A(5)]
  obtain q' where q': "restamped ?q q'" "header_writes (queue_bufs (sq_handle ?q)) (cx_mem ?a) (cx_mem a)"
      "cx_packet_manager a = (cx_packet_manager ?a)\<lparr>pm_send_queue := (pm_send_queue (cx_packet_manager ?a))(lc_a cf \<mapsto> q')\<rparr>"
    using r A(4) unfolding restamps_def by (metis option.inject)
  have v: "cx_sessions a = cx_sessions ?a" "cx_task_map a = cx_task_map ?a" "ctl_view a = ctl_view ?a" "ctx_pool a = ctx_pool ?a" "tx_queue cf a = q'"
      "pm_send_queue (cx_packet_manager a) (lc_a cf) = Some q'"
    using r by (simp_all add: restamps_def q'(3) ctx_pool_def tx_queue_def)
  note R = restamped_wf[OF wf q'(1)]
  have P: "arena_ok (ctx_pool ?a)" "set (queue_bufs (sq_handle ?q)) \<subseteq> slots (ctx_pool ?a)" using pool_inv_arena[OF pool] by auto
  have w: "slot_writes (ctx_pool ?a) (queue_bufs (sq_handle ?q)) (cx_mem ?a) (cx_mem a)" by (rule header_slot_writes[OF q'(2) P(1)])
  show "sender_kept ?a a" unfolding sender_kept_def using slot_writes_off[OF w P(2)] buffer_bytes_cong v(4) by metis
  show "link_inv cf (l\<lparr>lk_a := a\<rparr>)"
  proof (rule link_inv_update_a[OF inv, where s = "lk_sent l" and k = "lk_acked l" and t = "lk_sends l"])
    have "slot_writes (ctx_pool ?a) (queue_bufs (sq_handle ?q) @ lc_others cf) (cx_mem ?a) (cx_mem a)"
      by (rule slot_writes_mono[OF w]) simp
    moreover have "\<forall>b\<in>set (lk_sent l). off_arena (ctx_pool ?a) b" using inv by (simp add: link_inv_def a_side_def sendable_def)
    ultimately have "transfer_inv (cx_mem a) (lc_others cf) (xfer cf l)"
      using transfer_inv_memory[OF link_inv_transfer[OF inv]] by simp
    from transfer_inv_restamped[OF this, of q'] q'(1) show "transfer_inv (cx_mem a) (lc_others cf) (xfer cf (l\<lparr>lk_a := a\<rparr>))"
      by (simp add: xfer_def v)
    have "a_session cf a"
      unfolding a_session_def using A v R restamped_bufs(2)[OF q'(1)] by (intro exI[of _ si] exI[of _ q']) simp
    then show "a_side cf (l\<lparr>lk_a := a\<rparr>)"
      using inv known_from_view[OF v(3)] v by (simp add: a_side_def link_inv_def tasks_ok_def)
  qed (use R v in simp_all)
qed

text \<open>The receiver has nothing to send, the sender nothing to acknowledge.\<close>

lemma sendDataPackets_idle:
  assumes "ctx_sendDataPackets post garbage now order c = Inr (rc, c')" "cx_sessions c = [sid \<mapsto> si]"
    and "pm_send_queue (cx_packet_manager c) sid = Some q" "sq_head q = sq_tail q"
  shows "c' = c"
  using assms(1)
proof (induction order)
  case (Cons s order)
  have "send_session post garbage now sid si c = Continue (si, [], None, c) \<or> send_session post garbage now sid si c = Fault NullDeref"
    using assms(2-4) by (simp add: send_session_def ctx_send_queue_def send_getIndexRange_def index_range_def)
  then show ?case using Cons assms(2) by (auto split: if_splits)
qed simp

lemma sendAckPackets_idle:
  assumes "ctx_sendAckPackets post garbage order c = Inr (rc, c')" "cx_sessions c = [sid \<mapsto> si]" "si_recv_packets si \<le> si_ack_packets si"
  shows "c' = c"
  using assms(1)
proof (induction order)
  case (Cons s order)
  have "send_ack post garbage sid si c = Inr (0, c)" using assms(3) by (simp add: send_ack_def)
  then show ?case using Cons assms(2) by (auto split: if_splits)
qed simp

text \<open>
  Acknowledging and the completion of requests change the entry of the session, apart from the buffer of the
  acknowledgement, and memory in that buffer.
\<close>

definition acks :: "int \<Rightarrow> unicast_context \<Rightarrow> unicast_context \<Rightarrow> bool" where
  "acks sid c c' \<longleftrightarrow> cx_packet_manager c' = cx_packet_manager c \<and> cx_task_map c' = cx_task_map c \<and> ctl_view c' = ctl_view c
     \<and> (\<exists>si si'. cx_sessions c = [sid \<mapsto> si] \<and> cx_sessions c' = [sid \<mapsto> si'] \<and> si_setup si' = si_setup si
          \<and> ph_packet_buf (si_ack_handle si') = ph_packet_buf (si_ack_handle si)
          \<and> ph_compacted (si_ack_handle si') = ph_compacted (si_ack_handle si)
          \<and> ph_data_len (si_ack_handle si') = ph_data_len (si_ack_handle si)
          \<and> header_writes [ph_packet_buf (si_ack_handle si)] (cx_mem c) (cx_mem c'))"

lemma acks_view: "same_view c c' \<Longrightarrow> cx_sessions c = [sid \<mapsto> si] \<Longrightarrow> acks sid c c'"
  unfolding acks_def by (intro conjI exI[of _ si]) (simp_all add: view_defs header_writes_def)

lemma acks_trans:
  assumes "acks sid c c'" "acks sid c' c''"
  shows "acks sid c c''"
proof -
  obtain si si' where 1: "cx_sessions c = [sid \<mapsto> si]" "cx_sessions c' = [sid \<mapsto> si']" "si_setup si' = si_setup si"
      "ph_packet_buf (si_ack_handle si') = ph_packet_buf (si_ack_handle si)" "ph_compacted (si_ack_handle si') = ph_compacted (si_ack_handle si)"
      "ph_data_len (si_ack_handle si') = ph_data_len (si_ack_handle si)" "header_writes [ph_packet_buf (si_ack_handle si)] (cx_mem c) (cx_mem c')"
    using assms(1) unfolding acks_def by blast
  obtain si1 si2 where 2: "cx_sessions c' = [sid \<mapsto> si1]" "cx_sessions c'' = [sid \<mapsto> si2]" "si_setup si2 = si_setup si1"
      "ph_packet_buf (si_ack_handle si2) = ph_packet_buf (si_ack_handle si1)" "ph_compacted (si_ack_handle si2) = ph_compacted (si_ack_handle si1)"
      "ph_data_len (si_ack_handle si2) = ph_data_len (si_ack_handle si1)" "header_writes [ph_packet_buf (si_ack_handle si1)] (cx_mem c') (cx_mem c'')"
    using assms(2) unfolding acks_def by blast
  have "si1 = si'" using fun_cong[OF 1(2), of sid] fun_cong[OF 2(1), of sid] by simp
  then have "header_writes [ph_packet_buf (si_ack_handle si)] (cx_mem c) (cx_mem c'')" using 1(4,7) 2(7) by (simp add: header_writes_def)
  then show ?thesis
    unfolding acks_def using assms 1 2 \<open>si1 = si'\<close> by (intro conjI exI[of _ si] exI[of _ si2]) (simp_all add: acks_def)
qed

lemma post_ack_acks:
  assumes "post_ack post garbage sid si s0 imm c = Inr (rc, c')" "cx_sessions c = [sid \<mapsto> si]"
  shows "acks sid c c'"
proof -
  define rq where "rq = Request_new\<lparr>rr_addr0 := buf_addr s0, rr_length0 := buf_length s0,
            rr_lkey0 := cx_local_arena_lkey c, rr_imm_data := imm, rr_context := Some sid\<rparr>"
  obtain r c1 where r: "ctx_new_request rq c = (r, c1)" by fastforce
  obtain ep c2 where e: "ctx_endpoint garbage sid c1 = (ep, c2)" by fastforce
  have c2: "same_view c c2" using same_view_request[OF r] same_view_endpoint[OF e] by (rule same_view_trans)
  have p: "post_ack post garbage sid si s0 imm c = (case ep of
           None \<Rightarrow> Inr (-1, c2)
         | Some name \<Rightarrow>
             obind (ctx_post_send post name [r] c2) (\<lambda>(ret, c3).
               if ret \<noteq> 1 then Inr (-1, c3)
               else Inr (0, (ctx_put_session sid (si\<lparr>si_ack_packets := si_recv_packets si\<rparr>) c3)\<lparr>cx_stats_ack := cx_stats_ack c3 + 1\<rparr>)))"
    unfolding post_ack_def by (simp add: r e Let_def flip: rq_def)
  show ?thesis
  proof (cases ep)
    case None
    then show ?thesis using p assms acks_view[OF c2] by simp
  next
    case (Some name)
    then obtain n c3 where c3: "ctx_post_send post name [r] c2 = Inr (n, c3)"
      using p assms(1) by (cases "ctx_post_send post name [r] c2") auto
    have v: "same_view c c3" using c2 same_view_post[OF c3] by (rule same_view_trans)
    show ?thesis
    proof (cases "n = 1")
      case True
      then have c': "c' = (ctx_put_session sid (si\<lparr>si_ack_packets := si_recv_packets si\<rparr>) c3)\<lparr>cx_stats_ack := cx_stats_ack c3 + 1\<rparr>"
        using p assms(1) Some c3 by simp
      show ?thesis
        unfolding acks_def using v assms(2)
        by (intro conjI exI[of _ si] exI[of _ "si\<lparr>si_ack_packets := si_recv_packets si\<rparr>"])
           (simp_all add: view_defs c' ctx_put_session_def header_writes_def)
    next
      case False
      then show ?thesis using p assms Some c3 acks_view[OF v] by simp
    qed
  qed
qed

lemma send_ack_acks:
  assumes s: "send_ack post garbage sid si c = Inr (rc, c')" "cx_sessions c = [sid \<mapsto> si]" "ph_packet_buf (si_ack_handle si) \<noteq> 0"
  shows "acks sid c c'"
proof (cases "si_ack_packets si \<ge> si_recv_packets si \<or> ph_inflight (si_ack_handle si)")
  case True
  then show ?thesis using s acks_view[OF same_view_refl s(2)] by (auto simp: send_ack_def)
next
  case False
  then obtain q where q: "ctx_receive_queue sid c = Inr q"
    using s(1) by (cases "ctx_receive_queue sid c") (simp_all add: send_ack_def)
  let ?h = "ack_packet sid q (si_ack_handle si)"
  have h: "ph_packet_buf ?h = ph_packet_buf (si_ack_handle si)" "ph_compacted ?h = ph_compacted (si_ack_handle si)"
    "ph_data_len ?h = ph_data_len (si_ack_handle si)" by (simp_all add: ack_packet_def recv_getIndexRange_def)
  obtain rc1 h1 m out where ser: "serialize (cx_mem c) ?h = (rc1, h1, m, out)" using prod_cases4 by blast
  define si1 where "si1 = si\<lparr>si_ack_handle := h1\<rparr>"
  define c1 where "c1 = (ctx_put_session sid si1 c)\<lparr>cx_mem := m\<rparr>"
  have h1: "same_packet ?h h1" using serialize_packet[OF ser] by simp
  have w: "header_writes [ph_packet_buf (si_ack_handle si)] (cx_mem c) m" using serialize_writes[OF ser] h(1) s(3) by simp
  have c1: "cx_sessions c1 = [sid \<mapsto> si1]" "acks sid c c1"
    unfolding acks_def using s(2) w same_packet_fields[OF h1] h
    by (simp add: c1_def ctx_put_session_def, intro conjI exI[of _ si] exI[of _ si1]) (simp_all add: c1_def si1_def ctx_put_session_def ctl_view_def)
  have r: "(case (if rc1 \<noteq> 0 then None else out) of
                 None \<Rightarrow> Inr (-1, c1)
               | Some (s0, _, imm) \<Rightarrow> post_ack post garbage sid si1 s0 imm c1) = Inr (rc, c')"
    unfolding c1_def si1_def using s(1) False q ser by (simp add: send_ack_def Let_def)
  show ?thesis
  proof (cases "if rc1 \<noteq> 0 then None else out")
    case None
    with r c1 show ?thesis by simp
  next
    case (Some x)
    with r obtain s0 imm where "post_ack post garbage sid si1 s0 imm c1 = Inr (rc, c')" by (auto split: prod.splits)
    from acks_trans[OF c1(2) post_ack_acks[OF this c1(1)]] show ?thesis .
  qed
qed

lemma sendAckPackets_acks:
  assumes "ctx_sendAckPackets post garbage order c = Inr (rc, c')" "cx_sessions c = [sid \<mapsto> si]" "ph_packet_buf (si_ack_handle si) \<noteq> 0"
  shows "acks sid c c'"
  using assms
proof (induction order arbitrary: c si)
  case Nil
  then show ?case using acks_view[OF same_view_refl Nil(2)] by simp
next
  case (Cons s order)
  show ?case
  proof (cases "s = sid")
    case False
    with Cons show ?thesis by simp
  next
    case True
    obtain n c1 where c1: "send_ack post garbage sid si c = Inr (n, c1)"
      using Cons.prems(1,2) True by (cases "send_ack post garbage sid si c") auto
    note a = send_ack_acks[OF c1 Cons.prems(2,3)]
    show ?thesis
    proof (cases "n = 0")
      case n: True
      obtain si0 si1 where s: "cx_sessions c = [sid \<mapsto> si0]" "cx_sessions c1 = [sid \<mapsto> si1]"
          "ph_packet_buf (si_ack_handle si1) = ph_packet_buf (si_ack_handle si0)" using a unfolding acks_def by blast
      have "si0 = si" using fun_cong[OF s(1), of sid] fun_cong[OF Cons.prems(2), of sid] by simp
      then have "ph_packet_buf (si_ack_handle si1) \<noteq> 0" using s(3) Cons.prems(3) by simp
      moreover have "ctx_sendAckPackets post garbage order c1 = Inr (rc, c')" using Cons.prems(1,2) True c1 n by simp
      ultimately have "acks sid c1 c'" using Cons.IH s(2) by blast
      with a show ?thesis by (rule acks_trans)
    next
      case False
      then show ?thesis using Cons.prems(1,2) True c1 a by simp
    qed
  qed
qed

text \<open>A completion that is handled.\<close>

lemma poll_process:
  assumes "poll_one post g now wc c = Inr c'"
  obtains c1 n c2 where "same_view c c1" "cx_heap c1 = cx_heap c" "ctx_processReceivedPacket post g now wc c1 = Inr (n, c2)"
    "c' = c2\<lparr>cx_request_cache := cache_deallocate (wc_wr_id wc) (cx_request_cache c2)\<rparr>"
proof -
  obtain d where d: "rr_qp_depth (cx_heap c (wc_wr_id wc)) = Some d"
    using assms by (cases "rr_qp_depth (cx_heap c (wc_wr_id wc))") (simp_all add: poll_one_def)
  let ?c = "ctx_put_store (ud_complete d (ctx_store c)) c"
  obtain n c2 where "ctx_processReceivedPacket post g now wc ?c = Inr (n, c2)"
      "c' = c2\<lparr>cx_request_cache := cache_deallocate (wc_wr_id wc) (cx_request_cache c2)\<rparr>"
    using assms d by (auto simp: poll_one_def Let_def obind_eq_Inr split: if_splits)
  with same_view_complete(1)[of c d] same_view_complete(2)[of d c] show thesis by (rule that)
qed

text \<open>The completion of a send request clears the mark of the acknowledgement.\<close>

lemma poll_sent:
  assumes "wc_opcode wc = IBV_WC_SEND" "poll_one post g now wc c = Inr c'" "cx_sessions c = [sid \<mapsto> si]"
  obtains h where "h = si_ack_handle si \<or> h = (si_ack_handle si)\<lparr>ph_inflight := False\<rparr>"
    "cx_sessions c' = [sid \<mapsto> si\<lparr>si_ack_handle := h\<rparr>]" "cx_packet_manager c' = cx_packet_manager c" "cx_task_map c' = cx_task_map c"
    "ctl_view c' = ctl_view c" "cx_mem c' = cx_mem c"
proof -
  obtain c1 n c2 where v: "same_view c c1" and c2: "ctx_processReceivedPacket post g now wc c1 = Inr (n, c2)"
      "c' = c2\<lparr>cx_request_cache := cache_deallocate (wc_wr_id wc) (cx_request_cache c2)\<rparr>"
    using poll_process[OF assms(2)] by blast
  then have s: "cx_sessions c1 = [sid \<mapsto> si]" using assms(3) by (simp add: view_defs)
  have "c2 = c1 \<or> c2 = ctx_put_session sid (si\<lparr>si_ack_handle := (si_ack_handle si)\<lparr>ph_inflight := False\<rparr>\<rparr>) c1"
    using c2(1) assms(1) s by (auto simp: ctx_processReceivedPacket_def Let_def split: option.splits if_splits)
  then show thesis
  proof
    assume "c2 = c1"
    then show thesis using v s c2(2) that[of "si_ack_handle si"] by (simp add: view_defs)
  next
    assume "c2 = ctx_put_session sid (si\<lparr>si_ack_handle := (si_ack_handle si)\<lparr>ph_inflight := False\<rparr>\<rparr>) c1"
    then show thesis using v s c2(2) that[of "(si_ack_handle si)\<lparr>ph_inflight := False\<rparr>"] by (simp add: view_defs ctx_put_session_def)
  qed
qed

lemma transfer_inv_rx_memory:
  assumes inv: "transfer_inv m others x" and m1: "\<forall>b\<in>set (xf_posted x). \<forall>a\<in>buffer_region b. m1 a = xf_mem x a"
  shows "transfer_inv m others (x\<lparr>xf_mem := m1\<rparr>)"
proof -
  have rx: "rx_ok m x" using inv by (simp add: transfer_inv_def)
  then have q: "recv_inv (xf_rx x)" "recv_stopped (xf_rx x)" by (simp_all add: rx_ok_def)
  have "rx_ok m (x\<lparr>xf_mem := m1\<rparr>)" using rx_ok_quiet[OF rx m1 q(1) refl refl q(2)] by simp
  moreover have "tx_ok m others (x\<lparr>xf_mem := m1\<rparr>)" using inv by (simp add: transfer_inv_def tx_ok_def)
  moreover have "net_ok m (x\<lparr>xf_mem := m1\<rparr>)" using inv by (simp add: transfer_inv_def net_ok_def xf_head_def)
  ultimately show ?thesis using inv by (simp add: transfer_inv_def)
qed

lemma link_inv_acks_b:
  assumes inv: "link_inv cf l" and a: "acks (lc_b cf) (lk_b l) b"
  shows "link_inv cf (l\<lparr>lk_b := b\<rparr>)"
proof -
  let ?b = "lk_b l" and ?q = "rx_queue cf (lk_b l)"
  obtain si sq where B: "ctx_receive_queue (lc_b cf) ?b = Inr ?q" "cx_sessions ?b = [lc_b cf \<mapsto> si]" "si_setup si"
      "pm_receive_queue (cx_packet_manager ?b) (lc_b cf) = Some ?q"
      "ph_packet_buf (si_ack_handle si) \<in> slots (ctx_pool ?b)" "\<not> ph_compacted (si_ack_handle si)" "ph_data_len (si_ack_handle si) = 0"
      "Suc (unat (rq_wnd_size ?q)) < unat (sq_queue_capacity (tx_queue cf (lk_a l)))"
      "pm_send_queue (cx_packet_manager ?b) (lc_b cf) = Some sq" "sq_head sq = sq_tail sq" "recv_inv ?q"
    using link_inv_b[OF inv] by blast
  have S: "known_from (lc_from_a cf) (lc_peer_a cf) (lc_b cf) ?b" "arena_ok (ctx_pool ?b)" "set (lc_slots_b cf) \<subseteq> slots (ctx_pool ?b)"
      "lc_b cf smod 256 = 0" "\<forall>b\<in>set (lk_posted l). off_arena (ctx_pool ?b) b" "tasks_ok (lc_b cf) False (length (lk_posted l)) (lk_receives l) ?b"
    using inv by (simp_all add: link_inv_def b_side_def)
  have v: "cx_packet_manager b = cx_packet_manager ?b" "cx_task_map b = cx_task_map ?b" "ctl_view b = ctl_view ?b"
    "ctx_pool b = ctx_pool ?b" "rx_queue cf b = ?q"
    using a by (simp_all add: acks_def ctx_pool_def rx_queue_def)
  obtain si0 si' where s: "cx_sessions ?b = [lc_b cf \<mapsto> si0]" "cx_sessions b = [lc_b cf \<mapsto> si']" "si_setup si' = si_setup si0"
      "ph_packet_buf (si_ack_handle si') = ph_packet_buf (si_ack_handle si0)" "ph_compacted (si_ack_handle si') = ph_compacted (si_ack_handle si0)"
      "ph_data_len (si_ack_handle si') = ph_data_len (si_ack_handle si0)" "header_writes [ph_packet_buf (si_ack_handle si0)] (cx_mem ?b) (cx_mem b)"
    using a unfolding acks_def by blast
  have eq: "si0 = si" using fun_cong[OF s(1), of "lc_b cf"] fun_cong[OF B(2), of "lc_b cf"] by simp
  show ?thesis
  proof (rule link_inv_update_b[OF inv, where ps = "lk_posted l" and k = "lk_done l" and t = "lk_receives l"])
    have "slot_writes (ctx_pool ?b) [ph_packet_buf (si_ack_handle si)] (cx_mem ?b) (cx_mem b)"
      using header_slot_writes[OF s(7) S(2)] eq by simp
    then have "\<forall>x\<in>set (lk_posted l). \<forall>y\<in>buffer_region x. cx_mem b y = cx_mem ?b y"
      by (intro ballI slot_writes_off[rule_format, of "ctx_pool ?b" "[ph_packet_buf (si_ack_handle si)]"]) (use B(5) S(5) in simp_all)
    then have "transfer_inv (cx_mem (lk_a l)) (lc_others cf) ((xfer cf l)\<lparr>xf_mem := cx_mem b\<rparr>)"
      by (intro transfer_inv_rx_memory[OF link_inv_transfer[OF inv]]) simp
    then show "transfer_inv (cx_mem (lk_a l)) (lc_others cf) (xfer cf (l\<lparr>lk_b := b\<rparr>))" by (simp add: xfer_def v)
    have "b_session cf (sq_queue_capacity (tx_queue cf (lk_a l))) b"
      unfolding b_session_def using B s(2-6) v eq by (intro exI[of _ si'] exI[of _ ?q] exI[of _ sq]) simp
    then show "b_side cf (l\<lparr>lk_b := b\<rparr>)"
      using S known_from_view[OF v(3)] v by (simp add: b_side_def tasks_ok_def)
  qed simp
qed

lemma link_inv_ack_b:
  assumes inv: "link_inv cf l" and s: "ctx_sendAckPackets post garbage order (lk_b l) = Inr (rc, b)"
  shows "link_inv cf (l\<lparr>lk_b := b\<rparr>)"
proof -
  obtain si where B: "cx_sessions (lk_b l) = [lc_b cf \<mapsto> si]" "ph_packet_buf (si_ack_handle si) \<in> slots (ctx_pool (lk_b l))"
    using link_inv_b[OF inv] by blast
  have "arena_ok (ctx_pool (lk_b l))" using inv by (simp add: link_inv_def b_side_def)
  then have "ph_packet_buf (si_ack_handle si) \<noteq> 0" using B(2) slot_nonzero by blast
  from link_inv_acks_b[OF inv sendAckPackets_acks[OF s B(1) this]] show ?thesis .
qed

lemma link_inv_sent_b:
  assumes inv: "link_inv cf l" and s: "wc_opcode wc = IBV_WC_SEND" "poll_one post g now wc (lk_b l) = Inr b"
  shows "link_inv cf (l\<lparr>lk_b := b\<rparr>)"
proof -
  obtain si where B: "cx_sessions (lk_b l) = [lc_b cf \<mapsto> si]" using link_inv_b[OF inv] by blast
  obtain h where h: "h = si_ack_handle si \<or> h = (si_ack_handle si)\<lparr>ph_inflight := False\<rparr>"
      "cx_sessions b = [lc_b cf \<mapsto> si\<lparr>si_ack_handle := h\<rparr>]" "cx_packet_manager b = cx_packet_manager (lk_b l)"
      "cx_task_map b = cx_task_map (lk_b l)" "ctl_view b = ctl_view (lk_b l)" "cx_mem b = cx_mem (lk_b l)"
    using poll_sent[OF s B] by blast
  have "acks (lc_b cf) (lk_b l) b"
    unfolding acks_def using B h by (intro conjI exI[of _ si] exI[of _ "si\<lparr>si_ack_handle := h\<rparr>"]) (auto simp: header_writes_def)
  from link_inv_acks_b[OF inv this] show ?thesis .
qed

lemma link_inv_sent_a:
  assumes inv: "link_inv cf l" and s: "wc_opcode wc = IBV_WC_SEND" "poll_one post g now wc (lk_a l) = Inr a"
  shows "link_inv cf (l\<lparr>lk_a := a\<rparr>)"
proof -
  obtain si where A: "cx_sessions (lk_a l) = [lc_a cf \<mapsto> si]" "si_setup si"
      "pm_send_queue (cx_packet_manager (lk_a l)) (lc_a cf) = Some (tx_queue cf (lk_a l))"
      "unat (cw_cwnd si) < unat (sq_queue_capacity (tx_queue cf (lk_a l)))" "si_recv_packets si \<le> si_ack_packets si"
      "sq_session (tx_queue cf (lk_a l)) = 0" "plain_handles (tx_queue cf (lk_a l))" "8 < unat (sq_queue_capacity (tx_queue cf (lk_a l)))"
      "unat (sec_fragment_size (sq_secondary_queue (tx_queue cf (lk_a l)))) + 48 < 2 ^ 32"
    using link_inv_a[OF inv] by blast
  obtain h where v: "cx_sessions a = [lc_a cf \<mapsto> si\<lparr>si_ack_handle := h\<rparr>]" "cx_packet_manager a = cx_packet_manager (lk_a l)"
      "cx_task_map a = cx_task_map (lk_a l)" "ctl_view a = ctl_view (lk_a l)" "cx_mem a = cx_mem (lk_a l)"
    using poll_sent[OF s A(1)] by blast
  have "a_session cf a"
    unfolding a_session_def using A v by (intro exI[of _ "si\<lparr>si_ack_handle := h\<rparr>"] exI[of _ "tx_queue cf (lk_a l)"]) simp
  with v show ?thesis
    using inv known_from_view[OF v(4)]
    by (simp add: link_inv_def xfer_def a_side_def b_side_def wire_ok_def tx_queue_def ctx_pool_def tasks_ok_def)
qed

section \<open>The network\<close>

lemma link_entry:
  assumes inv: "link_inv cf l" and k: "k < length (send_entries (tx_queue cf (lk_a l)))" and h: "h = send_entries (tx_queue cf (lk_a l)) ! k"
  shows "ph_packet_buf h \<noteq> 0" "ph_packet_buf h \<in> slots (ctx_pool (lk_a l))" "ph_session h = 0" "ph_cmd h = PKT_CMD_DATA"
    "ph_sn h = SHORT_SN (of_nat (lk_acked l + k))" "\<not> ph_with_grh h" "\<not> ph_compacted h"
    "handle_fragment h = lk_sent l ! (lk_acked l + k)" "sendable (ctx_pool (lk_a l)) (handle_fragment h)"
proof -
  let ?q = "tx_queue cf (lk_a l)"
  obtain A: "send_inv (cx_mem (lk_a l)) (lc_others cf) (ctx_pool (lk_a l), ?q)" "sq_session ?q = 0" "plain_handles ?q"
    using link_inv_a[OF inv] by blast
  have wf: "send_wf ?q" using A(1) by (simp add: send_inv_def)
  have tx: "tx_ok (cx_mem (lk_a l)) (lc_others cf) (xfer cf l)" using link_inv_transfer[OF inv] by (simp add: transfer_inv_def)
  have "h = sq_handle ?q ! unat ((sq_tail ?q + of_nat k) mod sq_queue_capacity ?q)" using k by (simp add: h send_entries_def ring_entries_nth)
  moreover have "unat ((sq_tail ?q + of_nat k) mod sq_queue_capacity ?q) < length (sq_handle ?q)"
    using ring.slot_less[of "sq_queue_capacity ?q"] wf by (simp add: send_wf_def ring_def)
  ultimately have mem: "h \<in> set (sq_handle ?q)" by simp
  have e: "entry_ok ?q k h" using wf k by (simp add: h send_wf_def)
  then show *: "ph_packet_buf h \<noteq> 0" "ph_session h = 0" "ph_cmd h = PKT_CMD_DATA" "ph_sn h = SHORT_SN (of_nat (lk_acked l + k))"
    using A(2) tx by (simp_all add: entry_ok_def tx_ok_def)
  show "ph_packet_buf h \<in> slots (ctx_pool (lk_a l))"
    using pool_inv_arena[OF link_pool_a[OF inv]] mem *(1) by (auto simp: queue_bufs_def)
  show "\<not> ph_with_grh h" "\<not> ph_compacted h" using A(3) mem *(1) by (auto simp: plain_handles_def)
  have "handle_fragment h = send_contents ?q ! k" using k by (simp add: h send_contents_def send_window_def nth_append)
  then show f: "handle_fragment h = lk_sent l ! (lk_acked l + k)" using tx by (simp add: tx_ok_def)
  have "lk_acked l + k < length (lk_sent l)" using tx_ok_head(1)[OF tx] k by (simp add: xf_head_def)
  then show "sendable (ctx_pool (lk_a l)) (handle_fragment h)" using inv f by (simp add: link_inv_def a_side_def)
qed

lemma link_inv_transmit_data:
  assumes inv: "link_inv cf l" and k: "k < length (send_entries (tx_queue cf (lk_a l)))"
    and ser: "serialize (cx_mem (lk_a l)) ((send_entries (tx_queue cf (lk_a l)) ! k)\<lparr>ph_ts := now\<rparr>) = (0, h', m, Some (s0, s1, imm))"
    and hdr: "length hdr = 8"
  shows "link_inv cf (l\<lparr>lk_data := insert (lk_acked l + k, imm, hdr @ drop 8 (wire_bytes m s0 s1)) (lk_data l)\<rparr>)"
proof -
  define h where "h = send_entries (tx_queue cf (lk_a l)) ! k"
  note E = link_entry[OF inv k h_def]
  let ?b = "handle_fragment h" and ?w = "hdr @ drop 8 (wire_bytes m s0 s1)" and ?p = "ctx_pool (lk_a l)"
  note S = serialize_success[OF ser[folded h_def]]
  have arena: "arena_ok ?p" using pool_inv_arena[OF link_pool_a[OF inv]] by simp
  have "header_writes [ph_packet_buf h] (cx_mem (lk_a l)) m" using serialize_writes[OF ser[folded h_def]] E(1) by simp
  then have "\<forall>x\<in>buffer_region ?b. m x = cx_mem (lk_a l) x"
    by (intro slot_writes_off[OF header_slot_writes[OF _ arena], of "[ph_packet_buf h]"]) (use E(2,9) in \<open>simp_all add: sendable_def\<close>)
  then have bytes: "buffer_bytes m ?b = buffer_bytes (cx_mem (lk_a l)) ?b" by (rule buffer_bytes_cong)
  have "ph_data_buf h \<noteq> 0" using E(9) by (simp add: sendable_def handle_fragment_def)
  then have w: "drop 8 ?w = buffer_bytes (cx_mem (lk_a l)) ?b"
    unfolding bytes[symmetric] using S(5) hdr by (simp add: payload_bytes_def buffer_bytes_def handle_fragment_def)
  have "length ?w = 8 + length (drop 8 ?w)" using hdr by simp
  also have "\<dots> = 8 + unat (buf_length ?b)" unfolding w by (simp add: buffer_bytes_def)
  finally have len: "8 \<le> length ?w" "length ?w + 40 < 2 ^ 32" using E(9) by (simp_all add: sendable_def)
  have imm: "imm_says PKT_CMD_DATA (SHORT_SN (of_nat (lk_acked l + k))) imm"
    using encode_says[of "h\<lparr>ph_ts := now\<rparr>" "cx_mem (lk_a l)"] S(4) E by (simp add: PKT_CMD_DATA_def)
  have "transfer_inv (cx_mem (lk_a l)) (lc_others cf) ((xfer cf l)\<lparr>xf_data := insert (lk_acked l + k, ph_sn h, buffer_bytes (cx_mem (lk_a l)) ?b) (xf_data (xfer cf l))\<rparr>)"
    using transfer_inv_transmit[OF link_inv_transfer[OF inv], of k h] k by (simp add: h_def)
  then have "transfer_inv (cx_mem (lk_a l)) (lc_others cf) (xfer cf (l\<lparr>lk_data := insert (lk_acked l + k, imm, ?w) (lk_data l)\<rparr>))"
    unfolding E(5) w[symmetric] by (simp add: xfer_def)
  then show ?thesis using inv imm len by (simp add: link_inv_def a_side_def b_side_def wire_ok_def)
qed

text \<open>An acknowledgement offers a window below the capacity of the sender's queue.\<close>

lemma unat_ucast_le64: "unat (ucast (x :: u64) :: u16) \<le> unat x"
  by (simp add: unsigned_ucast_eq take_bit_nat_less_eq_self)

lemma ack_window:
  assumes "recv_wf q" "Suc (unat (rq_wnd_size q)) < n" "8 < n"
  shows "unat (ph_wnd (ack_packet sid q h)) < n"
proof -
  have "unat (max (rq_head q - rq_tail q) kMinWindowSize) < n"
    using assms by (simp add: recv_wf_def max_def kMinWindowSize_def)
  then show ?thesis
    using unat_ucast_le64[of "max (rq_head q - rq_tail q) kMinWindowSize"] by (simp add: ack_packet_def recv_getIndexRange_def)
qed

lemma link_inv_transmit_ack:
  assumes inv: "link_inv cf l" and si: "cx_sessions (lk_b l) (lc_b cf) = Some si"
    and ser: "serialize (cx_mem (lk_b l)) (ack_packet (lc_b cf) (rx_queue cf (lk_b l)) (si_ack_handle si)) = (0, h', m, Some (s0, s1, imm))"
  shows "link_inv cf (l\<lparr>lk_acks := insert (lk_done l, imm, wire_bytes m s0 s1) (lk_acks l)\<rparr>)"
proof -
  let ?q = "rx_queue cf (lk_b l)" and ?w = "wire_bytes m s0 s1"
  let ?h = "ack_packet (lc_b cf) ?q (si_ack_handle si)"
  obtain si0 where B: "cx_sessions (lk_b l) = [lc_b cf \<mapsto> si0]" "\<not> ph_compacted (si_ack_handle si0)" "ph_data_len (si_ack_handle si0) = 0"
      "Suc (unat (rq_wnd_size ?q)) < unat (sq_queue_capacity (tx_queue cf (lk_a l)))" "recv_inv ?q"
    using link_inv_b[OF inv] by blast
  have eq: "si0 = si" using fun_cong[OF B(1), of "lc_b cf"] si by simp
  obtain "8 < unat (sq_queue_capacity (tx_queue cf (lk_a l)))" using link_inv_a[OF inv] by blast
  then have wnd: "unat (ph_wnd ?h) < unat (sq_queue_capacity (tx_queue cf (lk_a l)))"
    using ack_window[OF _ B(4)] B(5) by (simp add: recv_inv_def)
  have smod: "lc_b cf smod 256 = 0" using inv by (simp add: link_inv_def b_side_def)
  have rx: "rq_tail ?q = of_nat (lk_done l)" using link_inv_transfer[OF inv] by (simp add: transfer_inv_def rx_ok_def)
  have h: "ph_session ?h = 0" "ph_cmd ?h = PKT_CMD_ACK" "ph_sn ?h = SHORT_SN (of_nat (lk_done l))" "\<not> ph_compacted ?h" "ph_data_len ?h = 0"
    using B(2,3) smod rx eq by (simp_all add: ack_packet_def recv_getIndexRange_def recv_getAckSN_def)
  note S = serialize_success[OF ser]
  have "m = mem_write (cx_mem (lk_b l)) (ph_packet_buf ?h) (header_bytes ?h)" using S(3) encode_mem[OF S(1)] h(4) by simp
  then have w: "?w = header_bytes ?h"
    using S(5) h(5) mem_read_write_same[of "header_bytes ?h"] by (simp add: payload_bytes_def)
  have "take 2 ?w = bytes_of 2 (ph_wnd ?h)" unfolding w by (simp add: header_bytes_def)
  then have t: "of_bytes (take 2 ?w) = ph_wnd ?h" by simp
  have imm: "imm_says PKT_CMD_ACK (SHORT_SN (of_nat (lk_done l))) imm"
    using encode_says[OF S(1) h(4,1), of "cx_mem (lk_b l)"] S(4) h by (simp add: PKT_CMD_ACK_def)
  have "transfer_inv (cx_mem (lk_a l)) (lc_others cf) ((xfer cf l)\<lparr>xf_acks := insert (lk_done l, recv_getAckSN ?q) (xf_acks (xfer cf l))\<rparr>)"
    using transfer_step_inv[OF acknowledge link_inv_transfer[OF inv]] by simp
  then have "transfer_inv (cx_mem (lk_a l)) (lc_others cf) (xfer cf (l\<lparr>lk_acks := insert (lk_done l, imm, ?w) (lk_acks l)\<rparr>))"
    using rx by (simp add: xfer_def recv_getAckSN_def)
  moreover have "length ?w = 8" by (simp add: w)
  ultimately show ?thesis using inv imm wnd t by (simp add: link_inv_def a_side_def b_side_def wire_ok_def)
qed

section \<open>Arrivals\<close>

text \<open>What a context makes of a packet that was delivered.\<close>

lemma poll_received:
  assumes d: "delivers rs from_peer imm w c m1 wc" and poll: "poll_one post g now wc (c\<lparr>cx_mem := m1\<rparr>) = Inr c'"
    and known: "known_from from_peer peer sid c" and imm: "imm_says cmd sn imm" and len: "8 \<le> length w" "length w + 40 < 2 ^ 32"
    and rs: "set rs \<subseteq> slots (ctx_pool c)" "arena_ok (ctx_pool c)"
  obtains c1 h c2 where "same_view (c\<lparr>cx_mem := m1\<rparr>) c1" "process_packet now h sid c1 = Inr c2" "same_view c2 c'"
    "ph_cmd h = cmd" "ph_sn h = sn" "unat (ph_data_len h) = length w - 8" "mem_read m1 (getPayload h) (length w - 8) = drop 8 w"
    "ph_wnd h = of_bytes (take 2 w)"
proof -
  define s where "s = rr_addr0 (cx_heap c (wc_wr_id wc))"
  have D: "s \<in> set rs" "mem_read m1 (s + 40) (length w) = w" "(mem_read m1 (s + 8) 16, wc_src_qp wc) \<in> from_peer"
      "wc_opcode wc = IBV_WC_RECV" "wc_with_imm wc" "wc_imm_data wc = imm" "wc_byte_len wc = of_nat (40 + length w)"
    using d by (simp_all add: delivers_def Let_def s_def)
  obtain n where n: "length w = 8 + n" using len(1) le_Suc_ex by blast
  define dl where "dl = (of_nat n :: u32)"
  have dl: "unat dl = n" using len(2) n by (simp add: dl_def unat_of_nat)
  have bl: "wc_byte_len wc = of_nat (48 + unat dl)" unfolding D(7) n dl by simp
  have w: "take 2 w = mem_read m1 (s + 40) 2" "drop 8 w = mem_read m1 (s + 48) n"
  proof -
    have "w = mem_read m1 (s + 40) 8 @ mem_read m1 (s + 48) n" using D(2) n mem_read_append[of m1 "s + 40" 8 n] by (simp add: add.assoc)
    moreover have "mem_read m1 (s + 40) 8 = mem_read m1 (s + 40) 2 @ mem_read m1 (s + 40 + 2) 6" using mem_read_append[of m1 "s + 40" 2 6] by simp
    ultimately have "w = (mem_read m1 (s + 40) 2 @ mem_read m1 (s + 40 + 2) 6) @ mem_read m1 (s + 48) n" by simp
    then show "take 2 w = mem_read m1 (s + 40) 2" "drop 8 w = mem_read m1 (s + 48) n" by (metis append_assoc append_eq_conv_conj length_mem_read, simp)
  qed
  obtain c1 k c2 where v: "same_view (c\<lparr>cx_mem := m1\<rparr>) c1" "cx_heap c1 = cx_heap c" "ctx_processReceivedPacket post g now wc c1 = Inr (k, c2)"
      "c' = c2\<lparr>cx_request_cache := cache_deallocate (wc_wr_id wc) (cx_request_cache c2)\<rparr>"
    using poll_process[OF poll] by auto
  have m1: "cx_mem c1 = m1" "ctl_view c1 = ctl_view c" using v(1) by (simp_all add: same_view_def ctl_view_def)
  have s0: "s \<noteq> 0" using slot_nonzero[OF rs(2)] rs(1) D(1) by blast
  obtain h where h: "deserialize m1 imm (of_nat (48 + unat dl)) (setRawPacket s True (PacketHandle_new g)) = (0, h)" "ph_session h = 0" "ph_cmd h = cmd" "ph_sn h = sn"
      "ph_wnd h = load16 m1 (s + 40)" "ph_data_len h = dl" "dl \<noteq> 0 \<Longrightarrow> getPayload h = s + 48"
    using deserialize_says[OF imm s0, of dl m1 "PacketHandle_new g"] len(2) n dl by auto
  have "known_from from_peer peer sid c1" using known known_from_view[OF m1(2)] by simp
  then have f: "findSession_addr (mem_read m1 (s + 8) 16) (wc_src_qp wc) 0 (cx_controller c1) = Inr sid"
    using D(3) unfolding known_from_def by blast
  have "ctx_processReceivedPacket post g now wc c1 =
      obind (process_packet now h sid c1) (\<lambda>c2. Inr (submitNormalRecvWR post (ph_packet_buf h) c2))"
    unfolding ctx_processReceivedPacket_def v(2) Let_def s_def[symmetric] D(4) m1(1) bl
    by (simp only: wc_opcode.case D(5,6) if_True h(1,2) prod.case f) simp
  then have "obind (process_packet now h sid c1) (\<lambda>c2. Inr (submitNormalRecvWR post (ph_packet_buf h) c2)) = Inr (k, c2)" using v(3) by simp
  then obtain c3 where c3: "process_packet now h sid c1 = Inr c3" "submitNormalRecvWR post (ph_packet_buf h) c3 = (k, c2)"
    by (auto simp: obind_eq_Inr)
  have "same_view c3 c'" using same_view_recv[OF c3(2)] by (simp add: v(4) view_defs)
  moreover have "mem_read m1 (getPayload h) (length w - 8) = drop 8 w"
  proof (cases "n = 0")
    case False
    then have "dl \<noteq> 0" using dl by auto
    then show ?thesis using h(7) w(2) n by simp
  qed (use n in simp)
  moreover have "ph_wnd h = of_bytes (take 2 w)" using h(5) w(1) by (simp add: load16_def)
  ultimately show thesis using that[OF v(1) c3(1)] h dl n by simp
qed

lemma recv_round_wnd: "recv_fill_round q = Continue q' \<or> recv_fill_round q = Return rc q' \<Longrightarrow> rq_wnd_size q' = rq_wnd_size q"
  by (auto simp: recv_fill_round_def Let_def split: prod.splits if_splits)

lemma recv_fill_wnd: "recv_fillPrimaryQueue q = Inr (rc, q') \<Longrightarrow> rq_wnd_size q' = rq_wnd_size q"
proof (induction q arbitrary: q' rule: recv_fillPrimaryQueue.induct)
  case (1 q)
  show ?case
  proof (cases "recv_more q")
    case more: True
    show ?thesis
    proof (cases "recv_fill_round q")
      case (Continue q1)
      then have "recv_fillPrimaryQueue q1 = Inr (rc, q')" using 1(2) more by (simp add: recv_fillPrimaryQueue.simps[of q])
      from 1(1)[OF more Continue this] show ?thesis using recv_round_wnd[of q q1 0] Continue by simp
    next
      case (Return n q1)
      then show ?thesis using 1(2) more recv_round_wnd[of q q1 n] by (simp add: recv_fillPrimaryQueue.simps[of q])
    next
      case (Fault f)
      then show ?thesis using 1(2) more by (simp add: recv_fillPrimaryQueue.simps[of q])
    qed
  next
    case False
    then show ?thesis using 1(2) by (simp add: recv_fillPrimaryQueue.simps[of q])
  qed
qed

lemma recv_advance_wnd: "rq_wnd_size (recv_advance q) = rq_wnd_size q"
  by (induction q rule: recv_advance.induct) (subst recv_advance.simps, auto)

lemma recv_mark_wnd:
  assumes "recv_markCompleted m h q = Inr (rc, m', q')"
  shows "rq_wnd_size q' = rq_wnd_size q"
proof (cases "q' = q")
  case False
  then obtain q1 where "recv_fillPrimaryQueue (recv_advance q1) = Inr (rc, q')" "rq_wnd_size q1 = rq_wnd_size q"
    using assms by (force simp: recv_markCompleted_def Let_def split: if_splits sum.splits)
  then show ?thesis using recv_fill_wnd[of "recv_advance q1" rc q'] by (simp add: recv_advance_wnd)
qed simp

lemma process_data_result:
  assumes "process_data h sid c = Inr c'" "cx_sessions c = [sid \<mapsto> si]" "ctx_receive_queue sid c = Inr q"
  obtains rc m q' where "recv_markCompleted (cx_mem c) h q = Inr (rc, m, q')"
    "c' = ctx_put_session sid (si\<lparr>si_recv_packets := si_recv_packets si + 1\<rparr>)
       ((ctx_put_receive_queue sid q' c)\<lparr>cx_mem := m, cx_stats_recv := cx_stats_recv c + 1\<rparr>)"
  using assms by (auto simp: process_data_def obind_eq_Inr Let_def ctx_put_receive_queue_def split: prod.splits)

lemma link_inv_data_arrives:
  assumes inv: "link_inv cf l" and i: "(i, imm, w) \<in> lk_data l" and fresh: "lk_done l < i + (2 ^ 24 - 2 ^ 16)"
    and d: "delivers (lc_slots_b cf) (lc_from_a cf) imm w (lk_b l) m1 wc" and poll: "poll_one post g now wc ((lk_b l)\<lparr>cx_mem := m1\<rparr>) = Inr b"
  shows "link_inv cf (l\<lparr>lk_b := b, lk_done := lk_done l + unat (rq_tail (rx_queue cf b) - rq_tail (rx_queue cf (lk_b l)))\<rparr>)"
proof -
  let ?b = "lk_b l" and ?q = "rx_queue cf (lk_b l)" and ?s = "lc_b cf"
  obtain si sq where B: "ctx_receive_queue ?s ?b = Inr ?q" "cx_sessions ?b = [?s \<mapsto> si]" "si_setup si"
      "pm_receive_queue (cx_packet_manager ?b) ?s = Some ?q"
      "ph_packet_buf (si_ack_handle si) \<in> slots (ctx_pool ?b)" "\<not> ph_compacted (si_ack_handle si)" "ph_data_len (si_ack_handle si) = 0"
      "Suc (unat (rq_wnd_size ?q)) < unat (sq_queue_capacity (tx_queue cf (lk_a l)))"
      "pm_send_queue (cx_packet_manager ?b) ?s = Some sq" "sq_head sq = sq_tail sq" "recv_inv ?q"
    using link_inv_b[OF inv] by blast
  have S: "known_from (lc_from_a cf) (lc_peer_a cf) ?s ?b" "arena_ok (ctx_pool ?b)" "set (lc_slots_b cf) \<subseteq> slots (ctx_pool ?b)"
      "?s smod 256 = 0" "\<forall>b\<in>set (lk_posted l). off_arena (ctx_pool ?b) b" "tasks_ok ?s False (length (lk_posted l)) (lk_receives l) ?b"
    using inv by (simp_all add: link_inv_def b_side_def)
  have W: "imm_says PKT_CMD_DATA (SHORT_SN (of_nat i)) imm" "8 \<le> length w" "length w + 40 < 2 ^ 32"
    using inv i by (auto simp: link_inv_def wire_ok_def)
  have slots: "slot_writes (ctx_pool ?b) (lc_slots_b cf) (cx_mem ?b) m1" using d by (simp add: delivers_def Let_def)
  have m1: "\<forall>b\<in>set (lk_posted l). \<forall>a\<in>buffer_region b. m1 a = cx_mem ?b a"
    using slot_writes_off[OF slots S(3)] S(5) by blast
  obtain c1 h c2 where c: "same_view (?b\<lparr>cx_mem := m1\<rparr>) c1" "process_packet now h ?s c1 = Inr c2" "same_view c2 b" "ph_cmd h = PKT_CMD_DATA"
      "ph_sn h = SHORT_SN (of_nat i)" "unat (ph_data_len h) = length w - 8" "mem_read m1 (getPayload h) (length w - 8) = drop 8 w"
    using poll_received[OF d poll S(1) W S(3,2)] by blast
  have v1: "cx_sessions c1 = [?s \<mapsto> si]" "cx_packet_manager c1 = cx_packet_manager ?b" "cx_mem c1 = m1" "cx_task_map c1 = cx_task_map ?b"
      "ctl_view c1 = ctl_view ?b" using c(1) B(2) by (simp_all add: view_defs)
  have "process_data h ?s c1 = Inr c2" using c(2,4) v1(1) S(1) by (simp add: process_packet_def known_from_def split: if_splits)
  moreover have "ctx_receive_queue ?s c1 = Inr ?q" using v1(1,2) B(3,4) by (simp add: ctx_receive_queue_eq)
  ultimately obtain rc m2 q' where mark: "recv_markCompleted m1 h ?q = Inr (rc, m2, q')" and c2: "c2 = ctx_put_session ?s (si\<lparr>si_recv_packets := si_recv_packets si + 1\<rparr>)
       ((ctx_put_receive_queue ?s q' c1)\<lparr>cx_mem := m2, cx_stats_recv := cx_stats_recv c1 + 1\<rparr>)"
    using process_data_result[of h ?s c1 c2 si ?q] v1(1,3) by auto
  have v: "cx_sessions b = [?s \<mapsto> si\<lparr>si_recv_packets := si_recv_packets si + 1\<rparr>]" "ctl_view b = ctl_view ?b" "cx_mem b = m2" "ctx_pool b = ctx_pool ?b"
      "rx_queue cf b = q'" "pm_receive_queue (cx_packet_manager b) ?s = Some q'" "cx_task_map b = cx_task_map ?b"
      "pm_send_queue (cx_packet_manager b) = pm_send_queue (cx_packet_manager ?b)"
    using c(3) v1 by (simp_all add: c2 view_defs ctx_put_session_def ctx_put_receive_queue_def ctx_pool_def rx_queue_def)
  have data: "(i, SHORT_SN (of_nat i), drop 8 w) \<in> xf_data (xfer cf l)" using i by force
  let ?k = "lk_done l + unat (rq_tail q' - rq_tail ?q)"
  have "link_inv cf (l\<lparr>lk_b := b, lk_done := ?k\<rparr>)"
  proof (rule link_inv_update_b[OF inv, where ps = "lk_posted l" and k = ?k and t = "lk_receives l"])
    have "transfer_inv (cx_mem (lk_a l)) (lc_others cf) ((xfer cf l)\<lparr>xf_mem := m2, xf_rx := q', xf_done := ?k\<rparr>)"
      using transfer_inv_arrive[OF link_inv_transfer[OF inv] data, of m1 h rc m2 q'] fresh m1 c(5-7) mark by simp
    then show "transfer_inv (cx_mem (lk_a l)) (lc_others cf) (xfer cf (l\<lparr>lk_b := b, lk_done := ?k\<rparr>))" by (simp add: xfer_def v)
    have "b_session cf (sq_queue_capacity (tx_queue cf (lk_a l))) b"
      unfolding b_session_def using B v recv_mark_wnd[OF mark]
      by (intro exI[of _ "si\<lparr>si_recv_packets := si_recv_packets si + 1\<rparr>"] exI[of _ q'] exI[of _ sq]) simp
    then show "b_side cf (l\<lparr>lk_b := b, lk_done := ?k\<rparr>)" using S known_from_view[OF v(2)] v by (simp add: b_side_def tasks_ok_def)
  qed simp
  then show ?thesis by (simp only: v(5))
qed

lemma updateWnd_result:
  assumes "updateWnd mtu rwnd (si :: session_info) = Inr si'"
  shows "cw_cwnd si' \<le> rwnd" "si_setup si' = si_setup si" "si_recv_packets si' = si_recv_packets si" "si_ack_packets si' = si_ack_packets si"
  using assms by (auto simp: updateWnd_def Let_def split: if_splits sum.splits)

lemma setWndSize_restamped:
  assumes wf: "send_wf q" and w: "unat (cwnd :: u32) < unat (sq_queue_capacity q)"
  shows "restamped q (if b then send_setWndSize (ucast cwnd) q else q)"
proof -
  let ?w = "min (ucast cwnd) (ucast (sq_queue_capacity q)) :: u16"
  have "unat ?w \<le> unat (ucast cwnd :: u16)" by (simp add: min_def word_le_nat_alt)
  then have "unat ?w < unat (sq_queue_capacity q)" using unat_ucast_le[of cwnd] w by simp
  then have "restamped q (send_setWndSize (ucast cwnd) q)"
    unfolding restamped_def send_setWndSize_def
    by (intro exI[of _ ?w] exI[of _ "sq_handle q"]) (simp add: list_all2_refl same_packet_refl)
  then show ?thesis using restamped_refl[OF wf] by simp
qed

lemma process_ack_result:
  assumes "process_ack now h sid c = Inr c'" "cx_sessions c = [sid \<mapsto> si]" "si_setup si" "pm_send_queue (cx_packet_manager c) sid = Some q"
  obtains rc p q1 si' b q2 where "send_markCompleted (cx_mem c) (ph_sn h) (ctx_pool c, q) = Inr (rc, p, q1)"
    "updateWnd (cx_mtu_size c) (ucast (ph_wnd h)) si = Inr si'" "q2 = (if b then send_setWndSize (ucast (cw_cwnd si')) q1 else q1)"
    "cx_sessions c' = [sid \<mapsto> si']" "ctx_pool c' = p" "pm_send_queue (cx_packet_manager c') sid = Some q2" "cx_mem c' = cx_mem c"
    "cx_task_map c' = cx_task_map c" "ctl_view c' = ctl_view c"
proof -
  have q: "ctx_send_queue sid c = Inr q" using assms(2-4) by (simp add: ctx_send_queue_eq)
  then obtain rc p q1 where m: "send_markCompleted (cx_mem c) (ph_sn h) (ctx_pool c, q) = Inr (rc, p, q1)"
    using assms(1) by (cases "send_markCompleted (cx_mem c) (ph_sn h) (ctx_pool c, q)") (auto simp: process_ack_def)
  define c1 where "c1 = (ctx_put_send_queue sid (p, q1) c)\<lparr>cx_rto := updateRTO kMinRTO kMaxRTO (rtt_sample now (ph_ts h)) (cx_rto (ctx_put_send_queue sid (p, q1) c))\<rparr>"
  have v: "cx_sessions c1 = [sid \<mapsto> si]" "pm_send_queue (cx_packet_manager c1) sid = Some q1" "ctx_pool c1 = p" "cx_mtu_size c1 = cx_mtu_size c"
      "cx_mem c1 = cx_mem c" "cx_task_map c1 = cx_task_map c" "ctl_view c1 = ctl_view c"
    using assms(2) by (simp_all add: c1_def ctx_put_send_queue_def ctx_pool_def ctl_view_def)
  have u: "ctx_updateWndOnSuccess sid (ucast (ph_wnd h)) c1 = Inr c'"
    using assms(1) q m by (simp add: process_ack_def Let_def c1_def)
  have q1: "ctx_send_queue sid c1 = Inr q1" using v assms(3) by (simp add: ctx_send_queue_eq)
  obtain si' where si': "updateWnd (cx_mtu_size c) (ucast (ph_wnd h)) si = Inr si'"
    using u v by (cases "updateWnd (cx_mtu_size c) (ucast (ph_wnd h)) si") (simp_all add: ctx_updateWndOnSuccess_def)
  let ?b = "ucast (send_getWndSize q1) \<noteq> cw_cwnd si'"
  have "c' = ctx_put_send_queue sid (p, if ?b then send_setWndSize (ucast (cw_cwnd si')) q1 else q1) (ctx_put_session sid si' c1)"
    using u v q1 si' by (simp add: ctx_updateWndOnSuccess_def Let_def)
  then show thesis
    using that[OF m si' refl, of ?b] v by (simp add: ctx_put_send_queue_def ctx_put_session_def ctx_pool_def ctl_view_def)
qed

lemma link_inv_ack_arrives:
  assumes inv: "link_inv cf l" and j: "(j, imm, w) \<in> lk_acks l" and fresh: "xf_head (xfer cf l) < j + 2 ^ 24"
    and d: "delivers (lc_slots_a cf) (lc_from_b cf) imm w (lk_a l) m1 wc" and poll: "poll_one post g now wc ((lk_a l)\<lparr>cx_mem := m1\<rparr>) = Inr a"
  shows "link_inv cf (l\<lparr>lk_a := a, lk_acked := lk_acked l + unat (sq_tail (tx_queue cf a) - sq_tail (tx_queue cf (lk_a l)))\<rparr>)"
    and "sender_kept (lk_a l) a"
proof -
  let ?a = "lk_a l" and ?q = "tx_queue cf (lk_a l)" and ?s = "lc_a cf"
  obtain si where A: "cx_sessions ?a = [?s \<mapsto> si]" "si_setup si" "pm_send_queue (cx_packet_manager ?a) ?s = Some ?q"
      "unat (cw_cwnd si) < unat (sq_queue_capacity ?q)" "si_recv_packets si \<le> si_ack_packets si" "sq_session ?q = 0"
      "plain_handles ?q" "8 < unat (sq_queue_capacity ?q)" "unat (sec_fragment_size (sq_secondary_queue ?q)) + 48 < 2 ^ 32"
    using link_inv_a[OF inv] by blast
  have S: "known_from (lc_from_b cf) (lc_peer_b cf) ?s ?a" "\<forall>b\<in>set (lk_sent l). sendable (ctx_pool ?a) b" "set (lc_slots_a cf) \<subseteq> set (lc_others cf)"
      "tasks_ok ?s True (length (lk_sent l)) (lk_sends l) ?a"
    using inv by (simp_all add: link_inv_def a_side_def)
  have P: "arena_ok (ctx_pool ?a)" "set (lc_slots_a cf) \<subseteq> slots (ctx_pool ?a)" using pool_inv_arena[OF link_pool_a[OF inv]] S(3) by auto
  have W: "imm_says PKT_CMD_ACK (SHORT_SN (of_nat j)) imm" "length w = 8" "unat (of_bytes (take 2 w) :: u16) < unat (sq_queue_capacity ?q)"
    using inv j by (auto simp: link_inv_def wire_ok_def)
  have slots: "slot_writes (ctx_pool ?a) (lc_slots_a cf) (cx_mem ?a) m1" using d by (simp add: delivers_def Let_def)
  have T1: "transfer_inv m1 (lc_others cf) (xfer cf l)"
    by (rule transfer_inv_memory[OF link_inv_transfer[OF inv] slot_writes_mono[where bs = "lc_slots_a cf"]])
       (use slots S(2,3) in \<open>auto simp: sendable_def\<close>)
  obtain c1 h c2 where c: "same_view (?a\<lparr>cx_mem := m1\<rparr>) c1" "process_packet now h ?s c1 = Inr c2" "same_view c2 a" "ph_cmd h = PKT_CMD_ACK"
      "ph_sn h = SHORT_SN (of_nat j)" "ph_wnd h = of_bytes (take 2 w)"
  proof (rule poll_received[OF d poll S(1) W(1) _ _ P(2,1)])
    show "8 \<le> length w" "length w + 40 < 2 ^ 32" using W(2) by simp_all
  qed (use that in blast)
  have v1: "cx_sessions c1 = [?s \<mapsto> si]" "cx_packet_manager c1 = cx_packet_manager ?a" "cx_mem c1 = m1" "cx_task_map c1 = cx_task_map ?a"
      "ctl_view c1 = ctl_view ?a" "ctx_pool c1 = ctx_pool ?a" using c(1) A(1) by (simp_all add: view_defs ctx_pool_def)
  have "process_ack now h ?s c1 = Inr c2"
    using c(2,4) v1(1) S(1) by (simp add: process_packet_def known_from_def PKT_CMD_ACK_def PKT_CMD_DATA_def split: if_splits)
  moreover have "pm_send_queue (cx_packet_manager c1) ?s = Some ?q" using v1(2) A(3) by simp
  ultimately obtain rc p q1 si' b q2 where r: "send_markCompleted m1 (SHORT_SN (of_nat j)) (ctx_pool ?a, ?q) = Inr (rc, p, q1)"
      "updateWnd (cx_mtu_size c1) (ucast (ph_wnd h)) si = Inr si'" "q2 = (if b then send_setWndSize (ucast (cw_cwnd si')) q1 else q1)"
      "cx_sessions c2 = [?s \<mapsto> si']" "ctx_pool c2 = p" "pm_send_queue (cx_packet_manager c2) ?s = Some q2" "cx_mem c2 = m1"
      "cx_task_map c2 = cx_task_map ?a" "ctl_view c2 = ctl_view ?a"
    using process_ack_result[of now h ?s c1 c2 si ?q] v1 A(2) c(5) by metis
  have v: "cx_sessions a = [?s \<mapsto> si']" "ctl_view a = ctl_view ?a" "cx_mem a = m1" "ctx_pool a = p"
      "tx_queue cf a = q2" "pm_send_queue (cx_packet_manager a) ?s = Some q2" "cx_task_map a = cx_task_map ?a"
    using c(3) r(4-9) by (simp_all add: view_defs ctx_pool_def tx_queue_def)
  note U = updateWnd_result[OF r(2)]
  have k: "send_keeps ?q q1" "pool_frame p = pool_frame (ctx_pool ?a)" using send_mark_keeps[OF r(1)] send_mark_frame[OF r(1)] by simp_all
  have "unat (cw_cwnd si') \<le> unat (ucast (ph_wnd h) :: u32)" using U(1) by (simp add: word_le_nat_alt)
  then have cw: "unat (cw_cwnd si') < unat (sq_queue_capacity q1)" using W(3) c(6) k(1) by (simp add: send_keeps_def unsigned_ucast_eq)
  have si1: "send_inv m1 (lc_others cf) (ctx_pool ?a, ?q)" using T1 by (simp add: transfer_inv_def tx_ok_def)
  have si2: "send_inv m1 (lc_others cf) (p, q1)" "sec_fragment_size (sq_secondary_queue q1) = sec_fragment_size (sq_secondary_queue ?q)"
    using send_markCompleted_ok[OF si1, of "SHORT_SN (of_nat j)"] r(1) by auto
  have wf1: "send_wf q1" using si2(1) by (simp add: send_inv_def)
  have R: "restamped q1 q2" unfolding r(3) by (rule setWndSize_restamped[OF wf1 cw])
  note RW = restamped_wf[OF wf1 R] and RB = restamped_bufs(2)[OF R]
  have ack: "(j, SHORT_SN (of_nat j)) \<in> xf_acks (xfer cf l)" using j by force
  show "sender_kept ?a a"
    unfolding sender_kept_def using slot_writes_off[OF slots P(2)] buffer_bytes_cong v(3,4) k(2) by metis
  let ?k = "lk_acked l + unat (sq_tail q2 - sq_tail ?q)" and ?l = "l\<lparr>lk_a := a, lk_acked := lk_acked l + unat (sq_tail q2 - sq_tail (tx_queue cf (lk_a l)))\<rparr>"
  have "link_inv cf ?l"
  proof (rule link_inv_update_a[OF inv, where s = "lk_sent l" and k = ?k and t = "lk_sends l"])
    have "transfer_inv m1 (lc_others cf) ((xfer cf l)\<lparr>xf_pool := p, xf_tx := q1, xf_acked := ?k\<rparr>)"
      using transfer_inv_arrive_ack(1)[OF T1 ack fresh, of rc p q1] r(1) RW(4) by simp
    from transfer_inv_restamped[OF this, of q2] R show "transfer_inv (cx_mem a) (lc_others cf) (xfer cf ?l)" by (simp add: xfer_def v)
    have "a_session cf a"
      unfolding a_session_def using A v U k(1) cw RW RB si2(2) by (intro exI[of _ si'] exI[of _ q2]) (simp add: send_keeps_def)
    moreover have "\<forall>b\<in>set (lk_sent l). sendable p b" using S(2) off_arena_frame[OF k(2)] by (simp add: sendable_def)
    ultimately show "a_side cf ?l" using S known_from_view[OF v(2)] v by (simp add: a_side_def tasks_ok_def)
  qed (use RW k v in \<open>simp_all add: send_keeps_def\<close>)
  then show "link_inv cf (l\<lparr>lk_a := a, lk_acked := lk_acked l + unat (sq_tail (tx_queue cf a) - sq_tail (tx_queue cf (lk_a l)))\<rparr>)"
    by (simp only: v(5))
qed

section \<open>Every run\<close>

lemma sender_kept_same: "ctx_pool c' = ctx_pool c \<Longrightarrow> cx_mem c' = cx_mem c \<Longrightarrow> sender_kept c c'"
  by (simp add: sender_kept_def)

lemma send_kept:
  assumes "link_inv cf l" "ctx_send g (lc_peer_b cf) bs (lk_a l) = Inr (task_id, a)"
  shows "sender_kept (lk_a l) a"
proof -
  obtain q: "ctx_send_queue (lc_a cf) (lk_a l) = Inr (tx_queue cf (lk_a l))" using link_inv_a[OF assms(1)] by blast
  have "known_from (lc_from_b cf) (lc_peer_b cf) (lc_a cf) (lk_a l)" using assms(1) by (simp add: link_inv_def a_side_def)
  then obtain sn rc p q' where "send_push (cx_mem (lk_a l)) bs (ctx_pool (lk_a l), tx_queue cf (lk_a l)) = Inr (sn, rc, p, q')"
      "ctx_pool a = p" "cx_mem a = cx_mem (lk_a l)"
    using assms(2) q ctx_send_queue_active[OF q, of g]
    by (auto simp: ctx_send_def known_from_def Let_def obind_eq_Inr ctx_put_send_queue_def ctx_new_task_def ctx_pool_def split: if_splits)
  then show ?thesis using send_push_frame by (simp add: sender_kept_def)
qed

lemma sent_kept:
  assumes "link_inv cf l" "wc_opcode wc = IBV_WC_SEND" "poll_one post g now wc (lk_a l) = Inr a"
  shows "sender_kept (lk_a l) a"
proof -
  obtain si where "cx_sessions (lk_a l) = [lc_a cf \<mapsto> si]" using link_inv_a[OF assms(1)] by blast
  from poll_sent[OF assms(2,3) this] obtain "cx_packet_manager a = cx_packet_manager (lk_a l)" "cx_mem a = cx_mem (lk_a l)" by blast
  then show ?thesis by (simp add: sender_kept_same ctx_pool_def)
qed

lemma link_inv_idle_b: "link_inv cf l \<Longrightarrow> ctx_sendDataPackets post garbage now order (lk_b l) = Inr (rc, b) \<Longrightarrow> b = lk_b l"
  by (erule link_inv_b) (rule sendDataPackets_idle)

lemma link_inv_idle_a: "link_inv cf l \<Longrightarrow> ctx_sendAckPackets post garbage order (lk_a l) = Inr (rc, a) \<Longrightarrow> a = lk_a l"
  by (erule link_inv_a) (rule sendAckPackets_idle)

lemma link_step_inv:
  assumes "link_step cf l l'" "link_inv cf l"
  shows "link_inv cf l' \<and> sender_kept (lk_a l) (lk_a l')"
  using assms
proof (cases rule: link_step.cases)
  case (a_send g bs task_id a)
  then show ?thesis using link_inv_send[OF assms(2)] send_kept[OF assms(2)] by simp
next
  case (b_receive g bs task_id b)
  then show ?thesis using link_inv_receive[OF assms(2)] by (simp add: sender_kept_same)
next
  case (a_free task_id rc a)
  then have "sender_kept (lk_a l) a" by (intro sender_kept_same) (auto simp: ctx_freeTask_def ctx_pool_def split: if_splits)
  then show ?thesis using a_free link_inv_free_a[OF assms(2)] by simp
next
  case (b_free task_id rc b)
  then show ?thesis using link_inv_free_b[OF assms(2)] by (simp add: sender_kept_same)
next
  case (a_data post garbage now order rc a)
  then show ?thesis using link_inv_data_a[OF assms(2)] by simp
next
  case (b_data post garbage now order rc b)
  then have "b = lk_b l" by (intro link_inv_idle_b[OF assms(2)])
  then show ?thesis using b_data(1) assms(2) by (simp add: sender_kept_same)
next
  case (a_ack post garbage order rc a)
  then have "a = lk_a l" by (intro link_inv_idle_a[OF assms(2)])
  then show ?thesis using a_ack(1) assms(2) by (simp add: sender_kept_same)
next
  case (b_ack post garbage order rc b)
  then show ?thesis using link_inv_ack_b[OF assms(2)] by (simp add: sender_kept_same)
next
  case (a_sent wc post g now a)
  then show ?thesis using link_inv_sent_a[OF assms(2)] sent_kept[OF assms(2)] by simp
next
  case (b_sent wc post g now b)
  then show ?thesis using link_inv_sent_b[OF assms(2)] by (simp add: sender_kept_same)
next
  case (transmit_data k now h m s0 s1 imm hdr)
  then show ?thesis using link_inv_transmit_data[OF assms(2)] by (simp add: sender_kept_same)
next
  case (transmit_ack si h m s0 s1 imm)
  then show ?thesis using link_inv_transmit_ack[OF assms(2)] by (simp add: sender_kept_same)
next
  case (data_arrives i imm w m1 wc post g now b)
  then show ?thesis using link_inv_data_arrives[OF assms(2)] by (simp add: sender_kept_same)
next
  case (ack_arrives j imm w m1 wc post g now a)
  then show ?thesis using link_inv_ack_arrives[OF assms(2)] by simp
qed

text \<open>The start: connected contexts with empty queues, and nothing on the network.\<close>

definition link_init :: "link_config \<Rightarrow> link \<Rightarrow> bool" where
  "link_init cf l \<longleftrightarrow> transfer_init (cx_mem (lk_a l)) (lc_others cf) (xfer cf l) \<and> a_side cf l \<and> b_side cf l"

lemma link_init_inv: "link_init cf l \<Longrightarrow> link_inv cf l"
  using transfer_init_inv by (auto simp: link_init_def link_inv_def wire_ok_def transfer_init_def)

lemma link_run_inv:
  assumes "link_init cf l0" "(link_step cf)\<^sup>*\<^sup>* l0 l"
  shows "link_inv cf l \<and> sender_kept (lk_a l0) (lk_a l)"
  using assms(2)
proof (induction rule: rtranclp_induct)
  case base
  then show ?case using link_init_inv[OF assms(1)] by (simp add: sender_kept_same)
next
  case (step l1 l2)
  then show ?case using link_step_inv sender_kept_trans by blast
qed

end
