(* ===== verification/UnicastRun.thy ===== *)
theory UnicastRun
  imports UnicastDelivery
begin

text \<open>
  What a program that uses two contexts over a link can rely on: the data in the receive buffers and the
  status of the tasks; and a run of the link in which a buffer is transferred.
\<close>

section \<open>Delivery\<close>

lemma link_delivered:
  assumes "link_init cf l0" "(link_step cf)\<^sup>*\<^sup>* l0 l"
  shows "lk_acked l \<le> lk_done l" "lk_done l \<le> length (lk_sent l)" "lk_done l \<le> length (lk_posted l)"
    "n \<le> lk_done l \<Longrightarrow> map (buffer_bytes (cx_mem (lk_b l))) (take n (lk_posted l)) = map (buffer_bytes (cx_mem (lk_a l0))) (take n (lk_sent l))"
proof -
  have run: "link_inv cf l" "sender_kept (lk_a l0) (lk_a l)" using link_run_inv[OF assms] by simp_all
  let ?m = "cx_mem (lk_a l)"
  have inv: "tx_ok ?m (lc_others cf) (xfer cf l)" "rx_ok ?m (xfer cf l)" "net_ok ?m (xfer cf l)"
    using link_inv_transfer[OF run(1)] by (simp_all add: transfer_inv_def)
  have f: "i < xf_head (xfer cf l)" "i < length (lk_posted l)" "buffer_bytes (cx_mem (lk_b l)) (lk_posted l ! i) = buffer_bytes ?m (lk_sent l ! i)"
    if "i < lk_done l" for i using inv(2) that by (simp_all add: rx_ok_def filled_def)
  show "lk_acked l \<le> lk_done l" using inv(3) by (simp add: net_ok_def)
  have "lk_done l \<le> xf_head (xfer cf l)" using f(1) by (meson linorder_not_less order_less_irrefl)
  then show d: "lk_done l \<le> length (lk_sent l)" using tx_ok_head(1)[OF inv(1)] by simp
  show p: "lk_done l \<le> length (lk_posted l)" using f(2) by (meson linorder_not_less order_less_irrefl)
  have k: "buffer_bytes ?m b = buffer_bytes (cx_mem (lk_a l0)) b" if "b \<in> set (lk_sent l)" for b
  proof -
    have "off_arena (ctx_pool (lk_a l)) b" using run(1) that by (simp add: link_inv_def a_side_def sendable_def)
    then show ?thesis using run(2) off_arena_frame[of "ctx_pool (lk_a l)" "ctx_pool (lk_a l0)"] by (simp add: sender_kept_def)
  qed
  show "map (buffer_bytes (cx_mem (lk_b l))) (take n (lk_posted l)) = map (buffer_bytes (cx_mem (lk_a l0))) (take n (lk_sent l))" if "n \<le> lk_done l"
    using that d p f(3) k by (intro nth_equalityI) simp_all
qed

text \<open>
  C3.  Data sent over a link arrives.  In every state two connected contexts reach by \<open>send\<close>, \<open>receive\<close>, \<open>freeTask\<close>,
  \<open>sendDataPackets\<close>, \<open>sendAckPackets\<close> and \<open>pollCompletedPackets\<close>, whatever the network loses, repeats and reorders, and whatever
  the driver does with posted requests, the fragments the receiver has completed hold the bytes the sender's buffers held
  from the start, and fragments the sender believes acknowledged are among them.
\<close>

theorem unicast_delivery:
  assumes "link_init cf l0" "(link_step cf)\<^sup>*\<^sup>* l0 l"
  shows "lk_acked l \<le> lk_done l \<and> lk_done l \<le> length (lk_sent l) \<and> lk_done l \<le> length (lk_posted l)
    \<and> map (buffer_bytes (cx_mem (lk_b l))) (take (lk_done l) (lk_posted l)) = map (buffer_bytes (cx_mem (lk_a l0))) (take (lk_done l) (lk_sent l))"
  using link_delivered[OF assms] by simp

lemma unat_of_nat_24: "n < 2 ^ 24 \<Longrightarrow> unat (of_nat n :: u64) = n"
  by (simp add: unsigned_of_nat take_bit_nat_eq_self_iff)

lemma index_status:
  assumes "tail = of_nat k" "k + unat (head - tail) \<le> len" "n \<le> len" "len < 2 ^ 24"
  shows "task_status (SHORT_SN (of_nat n)) (SHORT_SN tail) (SHORT_SN head) = (if n \<le> k then SUCCESS else PENDING)"
proof -
  have h: "head = of_nat (k + unat (head - tail))" using assms(1) by (simp add: of_nat_unat)
  have u: "unat tail = k" "unat head = k + unat (head - tail)" "unat (of_nat n :: u64) = n"
    using assms unat_of_nat_24[of k] unat_of_nat_24[of "k + unat (head - tail)"] unat_of_nat_24[of n] h by simp_all
  then show ?thesis using task_status_iff[of tail head "of_nat n"] assms by (simp add: word_le_nat_alt)
qed

lemma link_status:
  assumes inv: "link_inv cf l" and small: "length (lk_sent l) < 2 ^ 24" "length (lk_posted l) < 2 ^ 24"
  shows "lk_sends l i = Some n \<Longrightarrow> ctx_getStatus i (lk_a l) = Inr (if n \<le> lk_acked l then SUCCESS else PENDING)"
    and "lk_receives l i = Some n \<Longrightarrow> ctx_getStatus i (lk_b l) = Inr (if n \<le> lk_done l then SUCCESS else PENDING)"
proof -
  have T: "tx_ok (cx_mem (lk_a l)) (lc_others cf) (xfer cf l)" "rx_ok (cx_mem (lk_a l)) (xfer cf l)"
    using link_inv_transfer[OF inv] by (simp_all add: transfer_inv_def)
  have "pm_send_queue (cx_packet_manager (lk_a l)) (lc_a cf) = Some (tx_queue cf (lk_a l))" using link_inv_a[OF inv] by blast
  moreover have "sq_tail (tx_queue cf (lk_a l)) = of_nat (lk_acked l)" using T(1) by (simp add: tx_ok_def)
  moreover have "lk_acked l + unat (sq_head (tx_queue cf (lk_a l)) - sq_tail (tx_queue cf (lk_a l))) \<le> length (lk_sent l)"
    using tx_ok_head(1)[OF T(1)] by (simp add: xf_head_def)
  ultimately show "ctx_getStatus i (lk_a l) = Inr (if n \<le> lk_acked l then SUCCESS else PENDING)" if "lk_sends l i = Some n"
    using inv small(1) that index_status[of _ "lk_acked l" "sq_head (tx_queue cf (lk_a l))" "length (lk_sent l)" n]
    by (simp add: link_inv_def a_side_def tasks_ok_def ctx_getStatus_def task_of_def send_getAckSN_def send_getNextSN_def)
  have "pm_receive_queue (cx_packet_manager (lk_b l)) (lc_b cf) = Some (rx_queue cf (lk_b l))" using link_inv_b[OF inv] by blast
  moreover have "rq_tail (rx_queue cf (lk_b l)) = of_nat (lk_done l)" using T(2) by (simp add: rx_ok_def)
  moreover have "unat (rq_head (rx_queue cf (lk_b l)) - rq_tail (rx_queue cf (lk_b l))) \<le> length (recv_contents (rx_queue cf (lk_b l)))"
    by (simp add: recv_contents_def)
  then have "lk_done l + unat (rq_head (rx_queue cf (lk_b l)) - rq_tail (rx_queue cf (lk_b l))) \<le> length (lk_posted l)"
    using T(2) by (simp add: rx_ok_def rx_matches_def)
  ultimately show "ctx_getStatus i (lk_b l) = Inr (if n \<le> lk_done l then SUCCESS else PENDING)" if "lk_receives l i = Some n"
    using inv small(2) that index_status[of _ "lk_done l" "rq_head (rx_queue cf (lk_b l))" "length (lk_posted l)" n]
    by (simp add: link_inv_def b_side_def tasks_ok_def ctx_getStatus_def task_of_def recv_getAckSN_def recv_getNextSN_def)
qed

text \<open>
  C4.  The status of a task can be relied on.  As long as fewer than \<open>2 ^ 24\<close> fragments were sent and posted, \<open>getStatus\<close> of a
  receive task is SUCCESS exactly when all fragments up to its last have been completed, and then they hold what was
  sent; \<open>getStatus\<close> of a send task is SUCCESS exactly when all fragments up to its last have been acknowledged, and then
  the receiver's buffers already hold them.
\<close>

theorem unicast_task_success:
  assumes "link_init cf l0" "(link_step cf)\<^sup>*\<^sup>* l0 l" "length (lk_sent l) < 2 ^ 24" "length (lk_posted l) < 2 ^ 24"
  shows "(\<forall>i n. lk_receives l i = Some n \<longrightarrow> ctx_getStatus i (lk_b l) = Inr (if n \<le> lk_done l then SUCCESS else PENDING))
    \<and> (\<forall>i n. lk_sends l i = Some n \<longrightarrow> ctx_getStatus i (lk_a l) = Inr (if n \<le> lk_acked l then SUCCESS else PENDING))
    \<and> (\<forall>i n. (lk_receives l i = Some n \<and> ctx_getStatus i (lk_b l) = Inr SUCCESS \<or> lk_sends l i = Some n \<and> ctx_getStatus i (lk_a l) = Inr SUCCESS) \<longrightarrow>
         map (buffer_bytes (cx_mem (lk_b l))) (take n (lk_posted l)) = map (buffer_bytes (cx_mem (lk_a l0))) (take n (lk_sent l)))"
proof -
  have inv: "link_inv cf l" using link_run_inv[OF assms(1,2)] by simp
  note S = link_status[OF inv assms(3,4)] and D = link_delivered[OF assms(1,2)]
  have "n \<le> lk_done l" if "lk_receives l i = Some n \<and> ctx_getStatus i (lk_b l) = Inr SUCCESS \<or> lk_sends l i = Some n \<and> ctx_getStatus i (lk_a l) = Inr SUCCESS" for i n
    using that S(1)[of i n] S(2)[of i n] D(1) by (auto split: if_splits)
  with S D(4) show ?thesis by blast
qed

text \<open>
  C12.  Contexts stay well-formed.  In every state a link reaches, each context has its one session with its queues; the
  send queue and the receive queue are well-formed, the congestion window is below the capacity of the ring, packets of the send
  queue have no routing header and are not compacted, and every slot of the sender's arena is held by exactly one of the send
  queue, the other holders and the free list.
\<close>

theorem unicast_well_formed:
  assumes "link_init cf l0" "(link_step cf)\<^sup>*\<^sup>* l0 l"
  shows "\<exists>si q si' q'. cx_sessions (lk_a l) = [lc_a cf \<mapsto> si] \<and> ctx_send_queue (lc_a cf) (lk_a l) = Inr q \<and> send_wf q
    \<and> unat (cw_cwnd si) < unat (sq_queue_capacity q) \<and> plain_handles q
    \<and> pool_inv (ctx_pool (lk_a l)) (cx_mem (lk_a l)) (queue_bufs (sq_handle q) @ lc_others cf)
    \<and> cx_sessions (lk_b l) = [lc_b cf \<mapsto> si'] \<and> ctx_receive_queue (lc_b cf) (lk_b l) = Inr q' \<and> recv_wf q'"
proof -
  have inv: "link_inv cf l" using link_run_inv[OF assms] by simp
  let ?q = "tx_queue cf (lk_a l)" and ?q' = "rx_queue cf (lk_b l)"
  obtain si where A: "ctx_send_queue (lc_a cf) (lk_a l) = Inr ?q" "cx_sessions (lk_a l) = [lc_a cf \<mapsto> si]"
      "unat (cw_cwnd si) < unat (sq_queue_capacity ?q)" "plain_handles ?q" "send_inv (cx_mem (lk_a l)) (lc_others cf) (ctx_pool (lk_a l), ?q)"
    using link_inv_a[OF inv] by blast
  obtain si' where B: "ctx_receive_queue (lc_b cf) (lk_b l) = Inr ?q'" "cx_sessions (lk_b l) = [lc_b cf \<mapsto> si']" "recv_inv ?q'"
    using link_inv_b[OF inv] by blast
  from A B show ?thesis
    by (intro exI[of _ si] exI[of _ ?q] exI[of _ si'] exI[of _ ?q']) (simp add: send_inv_def recv_inv_def)
qed

section \<open>A concrete run\<close>

text \<open>
  Two contexts with arenas of two packets.  The sender holds one of them for receiving, the receiver
  holds one for receiving and one for its acknowledgements.
\<close>

definition test_name :: "char \<Rightarrow> u32 \<Rightarrow> u32 \<Rightarrow> controller" where
  "test_name peer own qp = (test_controller own)\<lparr>ct_peer_name_map := [[peer] \<mapsto> 0], ct_peer_name_rev_map := [0 \<mapsto> [peer]],
     ct_endpoint_map := [[peer] \<mapsto> test_endpoint], ct_node_id_map := [((replicate 16 0, qp), 0)]\<rparr>"

definition test_heap :: req_heap where
  "test_heap = (\<lambda>_. Request_new)(5 := Request_new\<lparr>rr_addr0 := 4160, rr_qp_depth := Some (RecvDepth 0)\<rparr>)"

definition test_tx16 :: send_queue where
  "test_tx16 = (case SendQueue_new (\<lambda>_. test_handle) 64 16 2 0 of Inr q \<Rightarrow> q)"

definition test_rx16 :: receive_queue where
  "test_rx16 = (case ReceiveQueue_new 64 16 2 0 of Inr q \<Rightarrow> q)"

definition test_sender :: unicast_context where
  "test_sender = (Context_new 64 2 16 (test_name CHR ''b'' 17 21) 5 ((\<lambda>_. 0)(8192 := 72, 8193 := 105)) test_heap 7 1)
     \<lparr>cx_packet_manager := (PacketManager_new 64 2 16 2)\<lparr>pm_pool := test_full_pool\<lparr>pool_global_free_buffer := 4096\<rparr>, pm_send_queue := [0 \<mapsto> test_tx16]\<rparr>,
      cx_sessions := [0 \<mapsto> (SessionInfo_new test_handle)\<lparr>si_setup := True\<rparr>]\<rparr>"

definition test_receiver :: unicast_context where
  "test_receiver = (Context_new 64 2 16 (test_name CHR ''a'' 21 17) 5 (\<lambda>_. 0) test_heap 7 1)
     \<lparr>cx_packet_manager := (PacketManager_new 64 2 16 2)\<lparr>pm_pool := test_full_pool, pm_send_queue := [0 \<mapsto> test_tx16], pm_receive_queue := [0 \<mapsto> test_rx16]\<rparr>,
      cx_sessions := [0 \<mapsto> (SessionInfo_new test_handle)\<lparr>si_setup := True, si_ack_handle := setRawPacket 4096 False test_handle\<rparr>]\<rparr>"

definition test_config :: link_config where
  "test_config = \<lparr>lc_a = 0, lc_b = 0, lc_peer_a = ''a'', lc_peer_b = ''b'', lc_from_a = {(replicate 16 0, 17)}, lc_from_b = {(replicate 16 0, 21)},
     lc_slots_a = [4160], lc_slots_b = [4160], lc_others = [4160]\<rparr>"

text \<open>The states of the contexts: \<open>send\<close>, \<open>receive\<close>, arrival of the packet, arrival of the acknowledgement.\<close>

definition test_sent :: unicast_context where
  "test_sent = (case ctx_send (\<lambda>_. test_handle) ''b'' [\<lparr>buf_addr = 8192, buf_length = 16\<rparr>] test_sender of Inr (_, a) \<Rightarrow> a)"

definition test_posted :: unicast_context where
  "test_posted = (case ctx_receive (\<lambda>_. test_handle) ''a'' [\<lparr>buf_addr = 12288, buf_length = 16\<rparr>] test_receiver of Inr (_, b) \<Rightarrow> b)"

definition test_data :: "u32 \<times> u8 list" where
  "test_data = (0, [2, 0, 9, 0, 0, 0, 0, 0, 72, 105, 0, 0, 0, 0, 0, 0, 0, 0, 0, 0, 0, 0, 0, 0])"

definition test_wc :: "u32 \<Rightarrow> u32 \<times> u8 list \<Rightarrow> ibv_wc" where
  "test_wc qp = (\<lambda>(imm, w). \<lparr>wc_wr_id = 5, wc_success = True, wc_opcode = IBV_WC_RECV, wc_imm_data = imm, wc_with_imm = True,
     wc_byte_len = of_nat (40 + length w), wc_src_qp = qp\<rparr>)"

definition test_received :: unicast_context where
  "test_received = (case poll_one (\<lambda>_. (0, None)) test_handle 10 (test_wc 17 test_data)
     (test_posted\<lparr>cx_mem := mem_write (cx_mem test_posted) 4200 (snd test_data)\<rparr>) of Inr b \<Rightarrow> b)"

definition test_ack :: "u32 \<times> u8 list" where
  "test_ack = (320, [8, 0, 9, 0, 0, 0, 0, 0])"

definition test_acked :: unicast_context where
  "test_acked = (case poll_one (\<lambda>_. (0, None)) test_handle 12 (test_wc 21 test_ack)
     (test_sent\<lparr>cx_mem := mem_write (cx_mem test_sent) 4200 (snd test_ack)\<rparr>) of Inr a \<Rightarrow> a)"

lemma test_send_eval:
  "case ctx_send (\<lambda>_. test_handle) ''b'' [\<lparr>buf_addr = 8192, buf_length = 16\<rparr>] test_sender of
     Inr (i, a) \<Rightarrow> i = 0 \<and> rr_addr0 (cx_heap a 5) = 4160 \<and> mem_read (cx_mem a) 4168 16 = replicate 16 0
       \<and> sq_head (tx_queue test_config a) - sq_tail (tx_queue test_config a) = 1
       \<and> (case serialize (cx_mem a) ((send_entries (tx_queue test_config a) ! 0)\<lparr>ph_ts := 9\<rparr>) of
            (rc, _, m, Some (s0, s1, imm)) \<Rightarrow> rc = 0 \<and> (imm, wire_bytes m s0 s1) = test_data | _ \<Rightarrow> False)
   | Inl _ \<Rightarrow> False"
  by code_simp

lemma test_receive_eval:
  "case ctx_receive (\<lambda>_. test_handle) ''a'' [\<lparr>buf_addr = 12288, buf_length = 16\<rparr>] test_receiver of
     Inr (i, b) \<Rightarrow> i = 0 \<and> rr_addr0 (cx_heap b 5) = 4160 \<and> mem_read (cx_mem b) 4168 16 = replicate 16 0 | Inl _ \<Rightarrow> False"
  by code_simp

lemma test_arrival_eval:
  "case poll_one (\<lambda>_. (0, None)) test_handle 10 (test_wc 17 test_data)
     (test_posted\<lparr>cx_mem := mem_write (cx_mem test_posted) 4200 (snd test_data)\<rparr>) of
     Inr b \<Rightarrow> rq_tail (rx_queue test_config b) - rq_tail (rx_queue test_config test_posted) = 1
       \<and> (case cx_sessions b 0 of Some si \<Rightarrow>
            (case serialize (cx_mem b) (ack_packet 0 (rx_queue test_config b) (si_ack_handle si)) of
               (rc, _, m, Some (s0, s1, imm)) \<Rightarrow> rc = 0 \<and> (imm, wire_bytes m s0 s1) = test_ack | _ \<Rightarrow> False) | None \<Rightarrow> False)
   | Inl _ \<Rightarrow> False"
  by code_simp

lemma test_ack_eval:
  "case poll_one (\<lambda>_. (0, None)) test_handle 12 (test_wc 21 test_ack)
     (test_sent\<lparr>cx_mem := mem_write (cx_mem test_sent) 4200 (snd test_ack)\<rparr>) of
     Inr a \<Rightarrow> sq_tail (tx_queue test_config a) - sq_tail (tx_queue test_config test_sent) = 1 | Inl _ \<Rightarrow> False"
  by code_simp

lemma test_slots: "pool_frame p = pool_frame test_full_pool \<Longrightarrow> slots p = {4096, 4160} \<and> arena_ok p \<and> pool_mtu_size p = 64"
proof -
  assume f: "pool_frame p = pool_frame test_full_pool"
  have "{..<2 :: nat} = {0, 1}" by auto
  then have "slots test_full_pool = {4096, 4160}" by (simp add: slots_def test_full_pool_def slot_addr_def)
  then show ?thesis using slots_frame[OF f] f by (simp add: pool_frame_def arena_ok_def test_full_pool_def)
qed

lemma test_off_arena:
  assumes "pool_frame p = pool_frame test_full_pool" "4224 \<le> unat a" "unat a + 16 \<le> 2 ^ 64"
  shows "off_arena p \<lparr>buf_addr = a, buf_length = 16\<rparr>"
proof -
  have "x \<in> region a 16 \<Longrightarrow> x \<notin> region 4096 64 \<and> x \<notin> region 4160 64" for x
    using region_linear[of a 16 x] region_linear[of 4096 64 x] region_linear[of 4160 64 x] assms by simp
  then show ?thesis using test_slots[OF assms(1)] by (auto simp: off_arena_def buffer_region_def)
qed

definition test_link :: link where
  "test_link = \<lparr>lk_a = test_sender, lk_b = test_receiver, lk_sent = [], lk_posted = [], lk_acked = 0, lk_done = 0, lk_data = {}, lk_acks = {},
     lk_sends = Map.empty, lk_receives = Map.empty\<rparr>"

lemma dvd_16: "unat (16 :: u64) dvd 2 ^ 24"
proof -
  have "(2 ^ 24 :: nat) = unat (16 :: u64) * 1048576" by simp
  then show ?thesis by (rule dvdI)
qed

lemma test_config_fields:
  "lc_a test_config = 0" "lc_b test_config = 0" "lc_peer_a test_config = ''a''" "lc_peer_b test_config = ''b''"
  "lc_from_a test_config = {(replicate 16 0, 17)}" "lc_from_b test_config = {(replicate 16 0, 21)}" "lc_slots_a test_config = [4160]"
  "lc_slots_b test_config = [4160]" "lc_others test_config = [4160]"
  by (simp_all add: test_config_def)

lemma test_queue_fields:
  "tx_queue test_config test_sender = test_tx16" "rx_queue test_config test_receiver = test_rx16"
  "ctx_pool test_sender = test_full_pool\<lparr>pool_global_free_buffer := 4096\<rparr>" "ctx_pool test_receiver = test_full_pool"
  by (simp_all add: tx_queue_def rx_queue_def test_config_def test_sender_def test_receiver_def ctx_pool_def)

lemma test_tx16_fields:
  "sq_queue_capacity test_tx16 = 16" "sq_session test_tx16 = 0" "sec_fragment_size (sq_secondary_queue test_tx16) = 16"
  "sq_head test_tx16 = 0" "sq_tail test_tx16 = 0" "sec_fragment_size (rq_secondary_queue test_rx16) = 16" "rq_wnd_size test_rx16 = 2"
  "plain_handles test_tx16"
  by (auto simp: test_tx16_def test_rx16_def SendQueue_new_def ReceiveQueue_new_def SecondaryQueue_new_def sizeof_PktHdr_def kGRHSize_def
      plain_handles_def PacketHandle_new_def)

lemma test_link_init: "link_init test_config test_link"
proof -
  have fr: "pool_frame (test_full_pool\<lparr>pool_global_free_buffer := 4096\<rparr>) = pool_frame test_full_pool" by (simp add: pool_frame_def)
  have m: "load64 (cx_mem test_sender) 4096 = 0" by code_simp
  have pool: "pool_inv (test_full_pool\<lparr>pool_global_free_buffer := 4096\<rparr>) (cx_mem test_sender) [4160]"
    unfolding pool_inv_def pool_free_def using test_slots[OF fr] m by (intro exI[of _ "[4096]"]) simp
  obtain q where q: "SendQueue_new (\<lambda>_. test_handle) 64 16 2 0 = Inr q"
      "send_inv (cx_mem test_sender) [4160] (test_full_pool\<lparr>pool_global_free_buffer := 4096\<rparr>, q)" "send_contents q = []"
    using SendQueue_new_inv[OF pool dvd_16, of 2 64 "\<lambda>_. test_handle" 0] by auto
  obtain r where r: "ReceiveQueue_new 64 16 2 0 = Inr r" "recv_inv r" "recv_contents r = []" "rq_tail r = 0"
    using ReceiveQueue_new_inv[OF dvd_16, of 2 64 0] by auto
  have qr: "test_tx16 = q" "test_rx16 = r" using q(1) r(1) by (simp_all add: test_tx16_def test_rx16_def)
  have "transfer_init (cx_mem test_sender) [4160] (xfer test_config test_link)"
    using q r test_tx16_fields(5) qr by (simp add: transfer_init_def test_link_def test_queue_fields)
  moreover have "a_session test_config test_sender"
    unfolding a_session_def using test_tx16_fields
    by (intro exI[of _ "(SessionInfo_new test_handle)\<lparr>si_setup := True\<rparr>"] exI[of _ test_tx16])
       (simp add: test_sender_def test_config_def SessionInfo_new_def)
  moreover have "b_session test_config 16 test_receiver"
    unfolding b_session_def using test_tx16_fields test_slots[OF refl] test_queue_fields(4)
    by (intro exI[of _ "(SessionInfo_new test_handle)\<lparr>si_setup := True, si_ack_handle := setRawPacket 4096 False test_handle\<rparr>"]
        exI[of _ test_rx16] exI[of _ test_tx16])
       (simp add: test_receiver_def test_config_def SessionInfo_new_def setRawPacket_def)
  moreover have "known_from {(replicate 16 0, 21)} ''b'' 0 test_sender" "known_from {(replicate 16 0, 17)} ''a'' 0 test_receiver"
    by (simp_all add: known_from_def findSession_addr_def findSession_name_def test_sender_def test_receiver_def Context_new_def test_name_def
        test_controller_def Controller_new_def is_bond_def)
  ultimately show ?thesis
    using test_slots[OF refl] test_tx16_fields
    by (simp add: link_init_def a_side_def b_side_def tasks_ok_def test_link_def test_config_fields test_queue_fields)
qed


lemma test_steps:
  "ctx_send (\<lambda>_. test_handle) ''b'' [\<lparr>buf_addr = 8192, buf_length = 16\<rparr>] test_sender = Inr (0, test_sent)"
  "ctx_receive (\<lambda>_. test_handle) ''a'' [\<lparr>buf_addr = 12288, buf_length = 16\<rparr>] test_receiver = Inr (0, test_posted)"
  "poll_one (\<lambda>_. (0, None)) test_handle 10 (test_wc 17 test_data)
     (test_posted\<lparr>cx_mem := mem_write (cx_mem test_posted) 4200 (snd test_data)\<rparr>) = Inr test_received"
  "poll_one (\<lambda>_. (0, None)) test_handle 12 (test_wc 21 test_ack)
     (test_sent\<lparr>cx_mem := mem_write (cx_mem test_sent) 4200 (snd test_ack)\<rparr>) = Inr test_acked"
  using test_send_eval test_receive_eval test_arrival_eval test_ack_eval
  by (auto simp: test_sent_def test_posted_def test_received_def test_acked_def split: sum.splits)

text \<open>A packet written behind the routing header of the receive buffer is delivered.\<close>

lemma test_delivers:
  assumes f: "pool_frame (ctx_pool c) = pool_frame test_full_pool" and h: "rr_addr0 (cx_heap c 5) = 4160"
    and g: "mem_read (cx_mem c) 4168 16 = replicate 16 0" and w: "length w \<le> 24"
  shows "delivers [4160] {(replicate 16 0, qp)} imm w c (mem_write (cx_mem c) 4200 w) (test_wc qp (imm, w))"
proof -
  have sub: "x \<in> region 4200 (length w) \<Longrightarrow> x \<in> region 4160 64" for x
    using region_linear[of 4200 "length w" x] region_linear[of 4160 64 x] w by simp
  have dis: "x \<in> region 4168 16 \<Longrightarrow> x \<notin> region 4200 (length w)" for x
    using region_linear[of 4200 "length w" x] region_linear[of 4168 16 x] w by simp
  have "slot_writes (ctx_pool c) [4160] (cx_mem c) (mem_write (cx_mem c) 4200 w)"
    unfolding slot_writes_def using test_slots[OF f] sub by (auto intro!: mem_write_outside)
  moreover have "mem_read (mem_write (cx_mem c) 4200 w) 4168 16 = replicate 16 0"
    using mem_read_write_disjoint[of 4168 16 4200 w "cx_mem c"] dis g by auto
  moreover have "mem_read (mem_write (cx_mem c) 4200 w) 4200 (length w) = w" using w by (intro mem_read_write_same) simp
  ultimately show ?thesis using h by (simp add: delivers_def test_wc_def Let_def)
qed

text \<open>The states of the link; \<open>test_b1\<close> and \<open>test_b2\<close> are the buffers of the program.\<close>

abbreviation test_b1 :: buffer where "test_b1 \<equiv> \<lparr>buf_addr = 8192, buf_length = 16\<rparr>"
abbreviation test_b2 :: buffer where "test_b2 \<equiv> \<lparr>buf_addr = 12288, buf_length = 16\<rparr>"

definition test_link1 :: link where
  "test_link1 = test_link\<lparr>lk_a := test_sent, lk_sent := [test_b1], lk_sends := [0 \<mapsto> 1], lk_b := test_posted, lk_posted := [test_b2],
     lk_receives := [0 \<mapsto> 1]\<rparr>"

definition test_link2 :: link where
  "test_link2 = test_link1\<lparr>lk_data := {(0, test_data)}, lk_b := test_received, lk_done := 1\<rparr>"

definition test_link3 :: link where
  "test_link3 = test_link2\<lparr>lk_acks := {(1, test_ack)}, lk_a := test_acked, lk_acked := 1\<rparr>"

lemma test_run1: "(link_step test_config)\<^sup>*\<^sup>* test_link test_link1"
proof -
  let ?l = "test_link\<lparr>lk_a := test_sent, lk_sent := [test_b1], lk_sends := [0 \<mapsto> 1]\<rparr>"
  have c: "tx_fragments test_config test_link [test_b1] = [test_b1]" "rx_fragments test_config ?l [test_b2] = [test_b2]"
    by (simp_all add: test_link_def test_queue_fields test_tx16_fields test_chunk)
  have "pool_frame (ctx_pool test_sender) = pool_frame test_full_pool" "pool_frame (ctx_pool test_receiver) = pool_frame test_full_pool"
    by (simp_all add: test_queue_fields pool_frame_def)
  then have off: "off_arena (ctx_pool test_sender) test_b1" "off_arena (ctx_pool test_receiver) test_b2"
    by (simp_all add: test_off_arena)
  have "link_step test_config test_link ?l"
    using a_send[of "\<lambda>_. test_handle" test_config "[test_b1]" test_link 0 test_sent] test_steps(1) c(1) off(1)
    by (simp add: test_link_def test_config_fields test_queue_fields test_tx16_fields user_ok_def slice_ok_def)
  moreover have "link_step test_config ?l test_link1"
    using b_receive[of "\<lambda>_. test_handle" test_config "[test_b2]" ?l 0 test_posted] test_steps(2) c(2) off(2)
    by (simp add: test_link1_def test_link_def test_config_fields test_queue_fields test_tx16_fields slice_ok_def separate_def)
  ultimately show ?thesis by (meson converse_rtranclp_into_rtranclp r_into_rtranclp)
qed

lemmas test_facts = test_send_eval[unfolded test_steps(1) sum.case prod.case] test_receive_eval[unfolded test_steps(2) sum.case prod.case]
  test_arrival_eval[unfolded test_steps(3) sum.case] test_ack_eval[unfolded test_steps(4) sum.case]

lemma test_frames: "pool_frame (ctx_pool test_sent) = pool_frame test_full_pool" "pool_frame (ctx_pool test_posted) = pool_frame test_full_pool"
  by code_simp+

lemma test_serialized:
  assumes "case serialize m h of (rc, _, m', Some (s0, s1, imm)) \<Rightarrow> rc = 0 \<and> (imm, wire_bytes m' s0 s1) = d | _ \<Rightarrow> False"
  obtains h' m' s0 s1 where "serialize m h = (0, h', m', Some (s0, s1, fst d))" "wire_bytes m' s0 s1 = snd d"
proof -
  obtain rc h' m' out where s: "serialize m h = (rc, h', m', out)" using prod_cases4 by blast
  with assms show thesis using that by (cases out) auto
qed

lemma test_run2: "(link_step test_config)\<^sup>*\<^sup>* test_link1 test_link2"
proof -
  obtain imm w where d: "test_data = (imm, w)" "length w = 24" by (simp add: test_data_def)
  obtain h m s0 s1 where ser: "serialize (cx_mem test_sent) ((send_entries (tx_queue test_config test_sent) ! 0)\<lparr>ph_ts := 9\<rparr>) = (0, h, m, Some (s0, s1, imm))"
      "wire_bytes m s0 s1 = w"
    by (rule test_serialized[OF test_facts(1)[THEN conjunct2, THEN conjunct2, THEN conjunct2, THEN conjunct2]]) (simp add: d(1))
  have one: "sq_head (tx_queue test_config test_sent) - sq_tail (tx_queue test_config test_sent) = 1" using test_facts(1) by blast
  let ?l = "test_link1\<lparr>lk_data := {(0, imm, w)}\<rparr>"
  have "link_step test_config test_link1 ?l"
    using transmit_data[of 0 test_config test_link1 9 h m s0 s1 imm "take 8 w"] ser one d(2) by (simp add: test_link1_def test_link_def)
  moreover have "link_step test_config ?l test_link2"
  proof -
    have r: "rr_addr0 (cx_heap test_posted 5) = 4160" "mem_read (cx_mem test_posted) 4168 16 = replicate 16 0"
      using test_facts(2) by blast+
    have t: "rq_tail (rx_queue test_config test_received) - rq_tail (rx_queue test_config test_posted) = 1"
      using test_facts(3) by blast
    have del: "delivers (lc_slots_b test_config) (lc_from_a test_config) imm w (lk_b ?l) (mem_write (cx_mem test_posted) 4200 w) (test_wc 17 (imm, w))"
      using test_delivers[OF test_frames(2) r, of w 17 imm] d(2) by (simp add: test_link1_def test_config_fields)
    show ?thesis
      using data_arrives[OF _ _ del, of 0 "\<lambda>_. (0, None)" test_handle 10 test_received] test_steps(3)[unfolded d(1) snd_conv] d(1) t
      by (simp add: test_link2_def test_link1_def test_link_def)
  qed
  ultimately show ?thesis by (meson converse_rtranclp_into_rtranclp r_into_rtranclp)
qed

lemma test_run3: "(link_step test_config)\<^sup>*\<^sup>* test_link2 test_link3"
proof -
  obtain imm w where d: "test_ack = (imm, w)" "length w = 8" by (simp add: test_ack_def)
  obtain si where si: "cx_sessions test_received 0 = Some si" using test_facts(3) by (cases "cx_sessions test_received 0") simp_all
  obtain h m s0 s1 where ser: "serialize (cx_mem test_received) (ack_packet 0 (rx_queue test_config test_received) (si_ack_handle si)) = (0, h, m, Some (s0, s1, imm))"
      "wire_bytes m s0 s1 = w"
    by (rule test_serialized[OF test_facts(3)[THEN conjunct2, unfolded si option.case]]) (simp add: d(1))
  let ?l = "test_link2\<lparr>lk_acks := {(1, imm, w)}\<rparr>"
  have "link_step test_config test_link2 ?l"
    using transmit_ack[of test_link2 test_config si h m s0 s1 imm] si ser by (simp add: test_link2_def test_link1_def test_link_def test_config_fields)
  moreover have "link_step test_config ?l test_link3"
  proof -
    have r: "rr_addr0 (cx_heap test_sent 5) = 4160" "mem_read (cx_mem test_sent) 4168 16 = replicate 16 0"
      "sq_head (tx_queue test_config test_sent) - sq_tail (tx_queue test_config test_sent) = 1"
      using test_facts(1) by blast+
    have t: "sq_tail (tx_queue test_config test_acked) - sq_tail (tx_queue test_config test_sent) = 1"
      using test_facts(4) by blast
    have del: "delivers (lc_slots_a test_config) (lc_from_b test_config) imm w (lk_a ?l) (mem_write (cx_mem test_sent) 4200 w) (test_wc 21 (imm, w))"
      using test_delivers[OF test_frames(1) r(1,2), of w 21 imm] d(2) by (simp add: test_link2_def test_link1_def test_config_fields)
    show ?thesis
      using ack_arrives[OF _ _ del, of 1 "\<lambda>_. (0, None)" test_handle 12 test_acked] test_steps(4)[unfolded d(1) snd_conv] d(1) t r(3)
      by (simp add: test_link3_def test_link2_def test_link1_def test_link_def xf_head_def)
  qed
  ultimately show ?thesis by (meson converse_rtranclp_into_rtranclp r_into_rtranclp)
qed

lemma test_run: "(link_step test_config)\<^sup>*\<^sup>* test_link test_link3"
  using test_run1 test_run2 test_run3 by (meson rtranclp_trans)

lemma test_link3_fields:
  "lk_done test_link3 = 1" "lk_acked test_link3 = 1" "lk_sent test_link3 = [test_b1]" "lk_posted test_link3 = [test_b2]"
  "lk_sends test_link3 = [0 \<mapsto> 1]" "lk_receives test_link3 = [0 \<mapsto> 1]" "lk_a test_link3 = test_acked" "lk_b test_link3 = test_received"
  "cx_mem (lk_a test_link) = (\<lambda>_. 0)(8192 := 72, 8193 := 105)"
  by (simp_all add: test_link3_def test_link2_def test_link1_def test_link_def test_sender_def Context_new_def)

theorem unicast_delivery_witness:
  "(link_step test_config)\<^sup>*\<^sup>* test_link test_link3 \<and> lk_done test_link3 = 1 \<and> lk_acked test_link3 = 1
   \<and> buffer_bytes (cx_mem (lk_b test_link3)) test_b2 = [72, 105] @ replicate 14 0"
proof -
  have "buffer_bytes (cx_mem (lk_a test_link)) test_b1 = [72, 105] @ replicate 14 0"
    unfolding test_link3_fields(9) by code_simp
  then show ?thesis using unicast_delivery[OF test_link_init test_run] test_run by (simp add: test_link3_fields)
qed

theorem unicast_task_success_witness:
  "ctx_getStatus 0 (lk_b test_link3) = Inr SUCCESS \<and> ctx_getStatus 0 (lk_a test_link3) = Inr SUCCESS"
  using unicast_task_success[OF test_link_init test_run] by (simp add: test_link3_fields)

theorem unicast_well_formed_witness:
  "\<exists>q q'. ctx_send_queue 0 (lk_a test_link3) = Inr q \<and> send_wf q \<and> ctx_receive_queue 0 (lk_b test_link3) = Inr q' \<and> recv_wf q'"
  using unicast_well_formed[OF test_link_init test_run] unfolding test_config_fields by blast

end
