(* ===== verification/MulticastJoin.thy ===== *)
theory MulticastJoin
  imports Prelude
begin

text \<open>
  Joining a multicast group: \<open>construct\<close> of \<open>RdmaMulticastContext\<close>
  (\<open>src/src/protocols/common/rdma_multicast.cpp\<close>) and the event thread it starts.

  \<open>construct\<close> asks the connection manager to resolve the address for every connection and then
  waits until \<open>num_active_connections_\<close> has reached their number, while the thread handles the
  events of the connection manager.  The two run interleaved (\<open>join_step\<close>).  The answers of the
  verbs calls are arguments.  The connection manager is represented by what it has been asked and
  has not answered: it answers each request once, with the event of success or an error event.
\<close>

section \<open>The event handlers\<close>

record cm_connection =
  cc_pd :: bool
  cc_cq :: bool
  cc_qp_num :: "u32 option"
  cc_ah :: "nat option"
  cc_remote_qpn :: u32
  cc_remote_qkey :: u32

definition Connection_new :: cm_connection where
  "Connection_new = \<lparr>cc_pd = False, cc_cq = False, cc_qp_num = None, cc_ah = None, cc_remote_qpn = 0, cc_remote_qkey = 0\<rparr>"

record cm_driver =
  cd_alloc_pd :: bool
  cd_create_cq :: bool
  cd_create_qp :: "u32 option"
  cd_init_qp_hook :: int
  cd_join_multicast :: int
  cd_create_ah :: "nat option"

datatype cm_event =
    ADDR_RESOLVED nat
  | MULTICAST_JOIN nat u32 u32
  | ADDR_ERROR nat int
  | ROUTE_ERROR nat int
  | MULTICAST_ERROR nat int
  | DEVICE_REMOVAL
  | OTHER_EVENT

text \<open>\<open>cm_joining\<close> are the connections with an outstanding \<open>rdma_join_multicast\<close>.\<close>

record cm_state =
  cm_connections :: "cm_connection list"
  cm_num_active :: int
  cm_joining :: "nat set"

definition createQueuePair :: "cm_driver \<Rightarrow> cm_connection \<Rightarrow> int \<times> cm_connection" where
  "createQueuePair d c =
     (let c1 = c\<lparr>cc_pd := cd_alloc_pd d\<rparr> in
      if \<not> cd_alloc_pd d then (-1, c1)
      else
        let c2 = c1\<lparr>cc_cq := cd_create_cq d\<rparr> in
        if \<not> cd_create_cq d then (-1, c2)
        else case cd_create_qp d of
          None \<Rightarrow> (-1, c2)
        | Some n \<Rightarrow> (0, c2\<lparr>cc_qp_num := Some n\<rparr>))"

definition onAddressResolved :: "cm_driver \<Rightarrow> nat \<Rightarrow> cm_state \<Rightarrow> int \<times> cm_state" where
  "onAddressResolved d i s =
     (case createQueuePair d (cm_connections s ! i) of
        (ret, c) \<Rightarrow>
          let s1 = s\<lparr>cm_connections := (cm_connections s)[i := c]\<rparr> in
          if ret \<noteq> 0 then (ret, s1)
          else if cd_init_qp_hook d \<noteq> 0 then (cd_init_qp_hook d, s1)
          else if cd_join_multicast d \<noteq> 0 then (cd_join_multicast d, s1)
          else (0, s1\<lparr>cm_joining := insert i (cm_joining s1)\<rparr>))"

definition onMulticastJoin :: "cm_driver \<Rightarrow> nat \<Rightarrow> u32 \<Rightarrow> u32 \<Rightarrow> cm_state \<Rightarrow> int \<times> cm_state" where
  "onMulticastJoin d i qp_num qkey s =
     (let c = (cm_connections s ! i)\<lparr>cc_remote_qpn := qp_num, cc_remote_qkey := qkey, cc_ah := cd_create_ah d\<rparr>;
          s1 = s\<lparr>cm_connections := (cm_connections s)[i := c]\<rparr>
      in if cd_create_ah d = None then (-1, s1) else (0, s1\<lparr>cm_num_active := cm_num_active s1 + 1\<rparr>))"

text \<open>An error event only ends up in the return value, which the event thread ignores.\<close>

definition processEvents :: "cm_driver \<Rightarrow> cm_event \<Rightarrow> cm_state \<Rightarrow> int \<times> cm_state" where
  "processEvents d event s =
     (case event of
        ADDR_RESOLVED i \<Rightarrow> onAddressResolved d i s
      | MULTICAST_JOIN i qp_num qkey \<Rightarrow> onMulticastJoin d i qp_num qkey s
      | ADDR_ERROR i status \<Rightarrow> (status, s)
      | ROUTE_ERROR i status \<Rightarrow> (status, s)
      | MULTICAST_ERROR i status \<Rightarrow> (status, s)
      | DEVICE_REMOVAL \<Rightarrow> (0, s)
      | OTHER_EVENT \<Rightarrow> (0, s))"

section \<open>Construction and events interleaved\<close>

text \<open>
  \<open>js_issued\<close> counts the connections \<open>construct\<close> has started to resolve, \<open>js_resolving\<close> are
  those without an answer, and \<open>js_result\<close> is the return value once it has returned.
\<close>

record join_state =
  js_cm :: cm_state
  js_issued :: nat
  js_resolving :: "nat set"
  js_result :: "int option"

definition join_start :: "nat \<Rightarrow> join_state" where
  "join_start n = \<lparr>js_cm = \<lparr>cm_connections = replicate n Connection_new, cm_num_active = 0, cm_joining = {}\<rparr>,
     js_issued = 0, js_resolving = {}, js_result = None\<rparr>"

definition wait_over :: "join_state \<Rightarrow> bool" where
  "wait_over s \<longleftrightarrow> cm_num_active (js_cm s) \<ge> int (length (cm_connections (js_cm s)))"

inductive join_step :: "join_state \<Rightarrow> join_state \<Rightarrow> bool" where
  resolve_ok: "js_result s = None \<Longrightarrow> js_issued s < length (cm_connections (js_cm s)) \<Longrightarrow>
    join_step s (s\<lparr>js_issued := Suc (js_issued s), js_resolving := insert (js_issued s) (js_resolving s)\<rparr>)"
| resolve_fails: "js_result s = None \<Longrightarrow> js_issued s < length (cm_connections (js_cm s)) \<Longrightarrow> ret \<noteq> 0 \<Longrightarrow>
    join_step s (s\<lparr>js_result := Some ret\<rparr>)"
| returns: "js_result s = None \<Longrightarrow> js_issued s = length (cm_connections (js_cm s)) \<Longrightarrow> wait_over s \<Longrightarrow>
    join_step s (s\<lparr>js_result := Some 0\<rparr>)"
| resolved: "i \<in> js_resolving s \<Longrightarrow> processEvents d (ADDR_RESOLVED i) (js_cm s) = (ret, cm) \<Longrightarrow>
    join_step s (s\<lparr>js_cm := cm, js_resolving := js_resolving s - {i}\<rparr>)"
| resolve_error: "i \<in> js_resolving s \<Longrightarrow> event \<in> {ADDR_ERROR i status, ROUTE_ERROR i status} \<Longrightarrow>
    processEvents d event (js_cm s) = (ret, cm) \<Longrightarrow>
    join_step s (s\<lparr>js_cm := cm, js_resolving := js_resolving s - {i}\<rparr>)"
| joined: "i \<in> cm_joining (js_cm s) \<Longrightarrow>
    processEvents d (MULTICAST_JOIN i qp_num qkey) ((js_cm s)\<lparr>cm_joining := cm_joining (js_cm s) - {i}\<rparr>) = (ret, cm) \<Longrightarrow>
    join_step s (s\<lparr>js_cm := cm\<rparr>)"
| join_error: "i \<in> cm_joining (js_cm s) \<Longrightarrow>
    processEvents d (MULTICAST_ERROR i status) ((js_cm s)\<lparr>cm_joining := cm_joining (js_cm s) - {i}\<rparr>) = (ret, cm) \<Longrightarrow>
    join_step s (s\<lparr>js_cm := cm\<rparr>)"
| other: "event \<in> {DEVICE_REMOVAL, OTHER_EVENT} \<Longrightarrow> processEvents d event (js_cm s) = (ret, cm) \<Longrightarrow> join_step s (s\<lparr>js_cm := cm\<rparr>)"

section \<open>Properties\<close>

text \<open>The connections that have their address handle.\<close>

definition active_set :: "join_state \<Rightarrow> nat set" where
  "active_set s = {i. i < length (cm_connections (js_cm s)) \<and> cc_ah (cm_connections (js_cm s) ! i) \<noteq> None}"

text \<open>
  Each connection is in one phase: not yet started, resolving, joining, active or failed.  It has
  a queue pair from the joining phase on, and the active ones are counted.
\<close>

definition join_inv :: "nat \<Rightarrow> join_state \<Rightarrow> bool" where
  "join_inv n s \<longleftrightarrow> length (cm_connections (js_cm s)) = n \<and> js_issued s \<le> n
     \<and> js_resolving s \<subseteq> {..<js_issued s} \<and> cm_joining (js_cm s) \<subseteq> {..<js_issued s} \<and> active_set s \<subseteq> {..<js_issued s}
     \<and> js_resolving s \<inter> cm_joining (js_cm s) = {} \<and> js_resolving s \<inter> active_set s = {}
     \<and> cm_joining (js_cm s) \<inter> active_set s = {}
     \<and> (\<forall>i\<in>cm_joining (js_cm s) \<union> active_set s. cc_qp_num (cm_connections (js_cm s) ! i) \<noteq> None)
     \<and> cm_num_active (js_cm s) = int (card (active_set s))
     \<and> (js_result s = Some 0 \<longrightarrow> active_set s = {..<n})"

lemma finite_active [simp]: "finite (active_set s)"
  by (simp add: active_set_def)

lemma join_start_inv: "join_inv n (join_start n)"
  by (simp add: join_inv_def join_start_def active_set_def Connection_new_def)

lemma active_update:
  assumes "i < length (cm_connections (js_cm s))"
    and "cm_connections cm = (cm_connections (js_cm s))[i := c]"
  shows "active_set (s\<lparr>js_cm := cm\<rparr>) = (if cc_ah c \<noteq> None then insert i (active_set s) else active_set s - {i})"
  using assms by (auto simp: active_set_def nth_list_update)

lemma createQueuePair_ah: "createQueuePair d c = (ret, c') \<Longrightarrow> cc_ah c' = cc_ah c"
  by (auto simp: createQueuePair_def Let_def split: if_splits option.splits)

lemma createQueuePair_qp: "createQueuePair d c = (0, c') \<Longrightarrow> cc_qp_num c' \<noteq> None"
  by (auto simp: createQueuePair_def Let_def split: if_splits option.splits)

text \<open>What handling a resolved address and a completed join does to the connections.\<close>

lemma onAddressResolved_cases:
  assumes "onAddressResolved d i s = (ret, s')"
  obtains c where "cm_connections s' = (cm_connections s)[i := c]" "cc_ah c = cc_ah (cm_connections s ! i)"
      "cm_num_active s' = cm_num_active s" "cm_joining s' = cm_joining s" "ret \<noteq> 0"
  | c where "cm_connections s' = (cm_connections s)[i := c]" "cc_ah c = cc_ah (cm_connections s ! i)"
      "cm_num_active s' = cm_num_active s" "cm_joining s' = insert i (cm_joining s)" "cc_qp_num c \<noteq> None" "ret = 0"
proof -
  obtain r c where c: "createQueuePair d (cm_connections s ! i) = (r, c)"
    by (cases "createQueuePair d (cm_connections s ! i)")
  show thesis
    using assms that createQueuePair_ah [OF c] createQueuePair_qp [of d _ c] c
    by (auto simp: onAddressResolved_def Let_def split: if_splits)
qed

lemma onMulticastJoin_cases:
  assumes "onMulticastJoin d i qp_num qkey s = (ret, s')"
  obtains c where "cm_connections s' = (cm_connections s)[i := c]" "cc_ah c = None"
      "cm_num_active s' = cm_num_active s" "cm_joining s' = cm_joining s" "ret = -1"
  | c where "cm_connections s' = (cm_connections s)[i := c]" "cc_ah c \<noteq> None" "cc_qp_num c = cc_qp_num (cm_connections s ! i)"
      "cm_num_active s' = cm_num_active s + 1" "cm_joining s' = cm_joining s" "ret = 0"
  using assms that by (auto simp: onMulticastJoin_def Let_def split: if_splits)

text \<open>
  One step from the point of view of the connection it concerns: a connection that is not active
  and has no request outstanding stays like that, unless it is the next one to be started.
\<close>

definition idle :: "nat \<Rightarrow> join_state \<Rightarrow> bool" where
  "idle i s \<longleftrightarrow> i < js_issued s \<and> i \<notin> js_resolving s \<and> i \<notin> cm_joining (js_cm s) \<and> i \<notin> active_set s"

lemma active_set_frame [simp]:
  "active_set (s\<lparr>js_issued := a\<rparr>) = active_set s"
  "active_set (s\<lparr>js_resolving := b\<rparr>) = active_set s"
  "active_set (s\<lparr>js_result := r\<rparr>) = active_set s"
  by (simp_all add: active_set_def)

lemma active_same:
  "cm_connections cm = cm_connections (js_cm s) \<Longrightarrow> active_set (s\<lparr>js_cm := cm\<rparr>) = active_set s"
  by (simp add: active_set_def)

lemma full_set: "A \<subseteq> {..<n} \<Longrightarrow> n \<le> card A \<Longrightarrow> A = {..<n}"
  by (metis card_lessThan card_seteq finite_lessThan)

lemma active_below: "active_set s \<subseteq> {..<length (cm_connections (js_cm s))}"
  by (auto simp: active_set_def)

lemma resolved_inv:
  assumes inv: "join_inv n s" and i: "i \<in> js_resolving s"
    and e: "onAddressResolved d i (js_cm s) = (ret, cm)"
  shows "join_inv n (s\<lparr>js_cm := cm, js_resolving := js_resolving s - {i}\<rparr>)"
proof -
  have i': "i < length (cm_connections (js_cm s))" "i \<notin> active_set s" "i \<notin> cm_joining (js_cm s)" "i < js_issued s"
    using inv i by (auto simp: join_inv_def)
  have none: "cc_ah (cm_connections (js_cm s) ! i) = None"
    using i'(1,2) by (simp add: active_set_def)
  from e show ?thesis
  proof (cases rule: onAddressResolved_cases)
    case (1 c)
    have "active_set (s\<lparr>js_cm := cm\<rparr>) = active_set s"
      using active_update [OF i'(1) 1(1)] 1(2) none i'(2) by simp
    then show ?thesis
      using inv 1 i' by (auto simp: join_inv_def nth_list_update)
  next
    case (2 c)
    have "active_set (s\<lparr>js_cm := cm\<rparr>) = active_set s"
      using active_update [OF i'(1) 2(1)] 2(2) none i'(2) by simp
    then show ?thesis
      using inv 2 i' by (auto simp: join_inv_def nth_list_update)
  qed
qed

lemma joined_inv:
  assumes inv: "join_inv n s" and i: "i \<in> cm_joining (js_cm s)"
    and e: "onMulticastJoin d i qp_num qkey ((js_cm s)\<lparr>cm_joining := cm_joining (js_cm s) - {i}\<rparr>) = (ret, cm)"
  shows "join_inv n (s\<lparr>js_cm := cm\<rparr>)"
proof -
  have i': "i < length (cm_connections (js_cm s))" "i \<notin> active_set s" "i \<notin> js_resolving s" "i < js_issued s"
      "cc_qp_num (cm_connections (js_cm s) ! i) \<noteq> None"
    using inv i by (auto simp: join_inv_def)
  from e show ?thesis
  proof (cases rule: onMulticastJoin_cases)
    case (1 c)
    have "active_set (s\<lparr>js_cm := cm\<rparr>) = active_set s"
      using active_update [OF i'(1), of cm c] 1(1,2) i'(2) by simp
    then show ?thesis
      using inv 1 i' by (auto simp: join_inv_def nth_list_update)
  next
    case (2 c)
    have "active_set (s\<lparr>js_cm := cm\<rparr>) = insert i (active_set s)"
      using active_update [OF i'(1), of cm c] 2(1,2) by simp
    then show ?thesis
      using inv 2 i' by (auto simp: join_inv_def nth_list_update)
  qed
qed

lemma join_step_inv: "join_step s s' \<Longrightarrow> join_inv n s \<Longrightarrow> join_inv n s'"
proof (induction rule: join_step.induct)
  case (resolve_ok s)
  then show ?case by (fastforce simp: join_inv_def)
next
  case (resolve_fails s ret)
  then show ?case by (simp add: join_inv_def)
next
  case (returns s)
  have "active_set s = {..<n}"
    using returns active_below [of s] by (intro full_set) (auto simp: join_inv_def wait_over_def)
  then show ?case using returns by (auto simp: join_inv_def)
next
  case (resolved i s d ret cm)
  then show ?case using resolved_inv by (simp add: processEvents_def)
next
  case (resolve_error i s event status d ret cm)
  then have "cm = js_cm s" by (auto simp: processEvents_def)
  then show ?case using resolve_error by (auto simp: join_inv_def)
next
  case (joined i s d qp_num qkey ret cm)
  then show ?case using joined_inv by (simp add: processEvents_def)
next
  case (join_error i s d status ret cm)
  then have "cm = (js_cm s)\<lparr>cm_joining := cm_joining (js_cm s) - {i}\<rparr>" by (auto simp: processEvents_def)
  then show ?case using join_error by (auto simp: join_inv_def active_same)
next
  case (other event d s ret cm)
  then have "cm = js_cm s" by (auto simp: processEvents_def)
  then show ?case using other by simp
qed

lemma join_reachable_inv: "join_step\<^sup>*\<^sup>* (join_start n) s \<Longrightarrow> join_inv n s"
  by (induction rule: rtranclp_induct) (auto intro: join_start_inv join_step_inv)

lemma idle_step: "join_step s s' \<Longrightarrow> join_inv n s \<Longrightarrow> idle k s \<Longrightarrow> idle k s'"
proof (induction rule: join_step.induct)
  case (resolved i s d ret cm)
  then have i: "i < length (cm_connections (js_cm s))" "i \<noteq> k"
    by (auto simp: join_inv_def idle_def)
  have "onAddressResolved d i (js_cm s) = (ret, cm)"
    using resolved by (simp add: processEvents_def)
  then show ?case
    by (cases rule: onAddressResolved_cases)
      (use resolved i active_update [OF i(1)] in \<open>auto simp: idle_def split: if_splits\<close>)
next
  case (joined i s d qp_num qkey ret cm)
  then have i: "i < length (cm_connections (js_cm s))" "i \<noteq> k"
    by (auto simp: join_inv_def idle_def)
  have "onMulticastJoin d i qp_num qkey ((js_cm s)\<lparr>cm_joining := cm_joining (js_cm s) - {i}\<rparr>) = (ret, cm)"
    using joined by (simp add: processEvents_def)
  then show ?case
    by (cases rule: onMulticastJoin_cases)
      (use joined i active_update [OF i(1), of cm] in \<open>auto simp: idle_def split: if_splits\<close>)
qed (auto simp: idle_def processEvents_def active_same)

lemma idle_never_returns:
  assumes "join_step\<^sup>*\<^sup>* s s'" "join_inv n s" "idle k s"
  shows "join_inv n s' \<and> idle k s'"
  using assms by (induction rule: rtranclp_induct) (auto intro: join_step_inv idle_step)

lemma idle_not_over: "join_inv n s \<Longrightarrow> idle k s \<Longrightarrow> \<not> wait_over s \<and> js_result s \<noteq> Some 0"
proof -
  assume inv: "join_inv n s" and k: "idle k s"
  have k': "k < n" "k \<notin> active_set s"
    using inv k by (auto simp: join_inv_def idle_def)
  then have "active_set s \<noteq> {..<n}" by auto
  then show ?thesis
    using inv full_set [of "active_set s" n] active_below [of s] by (auto simp: join_inv_def wait_over_def)
qed

text \<open>The steps in which connection \<open>i\<close> fails: an error event, or a handler that gives up.\<close>

inductive failing_step :: "nat \<Rightarrow> join_state \<Rightarrow> join_state \<Rightarrow> bool" for i where
  resolve_error: "i \<in> js_resolving s \<Longrightarrow> event \<in> {ADDR_ERROR i status, ROUTE_ERROR i status} \<Longrightarrow>
    processEvents d event (js_cm s) = (ret, cm) \<Longrightarrow>
    failing_step i s (s\<lparr>js_cm := cm, js_resolving := js_resolving s - {i}\<rparr>)"
| resolved_fails: "i \<in> js_resolving s \<Longrightarrow> processEvents d (ADDR_RESOLVED i) (js_cm s) = (ret, cm) \<Longrightarrow> ret \<noteq> 0 \<Longrightarrow>
    failing_step i s (s\<lparr>js_cm := cm, js_resolving := js_resolving s - {i}\<rparr>)"
| join_error: "i \<in> cm_joining (js_cm s) \<Longrightarrow>
    processEvents d (MULTICAST_ERROR i status) ((js_cm s)\<lparr>cm_joining := cm_joining (js_cm s) - {i}\<rparr>) = (ret, cm) \<Longrightarrow>
    failing_step i s (s\<lparr>js_cm := cm\<rparr>)"
| joined_fails: "i \<in> cm_joining (js_cm s) \<Longrightarrow>
    processEvents d (MULTICAST_JOIN i qp_num qkey) ((js_cm s)\<lparr>cm_joining := cm_joining (js_cm s) - {i}\<rparr>) = (ret, cm) \<Longrightarrow>
    ret \<noteq> 0 \<Longrightarrow> failing_step i s (s\<lparr>js_cm := cm\<rparr>)"

lemma failing_step_is_step: "failing_step i s s' \<Longrightarrow> join_step s s'"
  by (induction rule: failing_step.induct) (auto intro: join_step.intros)

lemma failing_step_idle: "failing_step i s s' \<Longrightarrow> join_inv n s \<Longrightarrow> idle i s'"
proof (induction rule: failing_step.induct)
  case (resolve_error s event status d ret cm)
  then have "cm = js_cm s" by (auto simp: processEvents_def)
  then show ?case using resolve_error by (auto simp: idle_def join_inv_def)
next
  case (resolved_fails s d ret cm)
  then have i: "i < length (cm_connections (js_cm s))" by (auto simp: join_inv_def)
  have "onAddressResolved d i (js_cm s) = (ret, cm)"
    using resolved_fails by (simp add: processEvents_def)
  then show ?case
    by (cases rule: onAddressResolved_cases)
      (use resolved_fails i active_update [OF i, of cm] in \<open>auto simp: idle_def join_inv_def active_set_def\<close>)
next
  case (join_error s d status ret cm)
  then have "cm = (js_cm s)\<lparr>cm_joining := cm_joining (js_cm s) - {i}\<rparr>" by (auto simp: processEvents_def)
  then show ?case using join_error by (auto simp: idle_def join_inv_def active_same)
next
  case (joined_fails s d qp_num qkey ret cm)
  then have i: "i < length (cm_connections (js_cm s))" by (auto simp: join_inv_def)
  have "onMulticastJoin d i qp_num qkey ((js_cm s)\<lparr>cm_joining := cm_joining (js_cm s) - {i}\<rparr>) = (ret, cm)"
    using joined_fails by (simp add: processEvents_def)
  then show ?case
    by (cases rule: onMulticastJoin_cases)
      (use joined_fails i active_update [OF i, of cm] in \<open>auto simp: idle_def join_inv_def\<close>)
qed

text \<open>A driver whose calls all succeed, and the progress it allows.\<close>

definition working_driver :: cm_driver where
  "working_driver = \<lparr>cd_alloc_pd = True, cd_create_cq = True, cd_create_qp = Some 1, cd_init_qp_hook = 0,
     cd_join_multicast = 0, cd_create_ah = Some 1\<rparr>"

definition join_todo :: "nat \<Rightarrow> join_state \<Rightarrow> nat" where
  "join_todo n s = 3 * (n - js_issued s) + 2 * card (js_resolving s) + card (cm_joining (js_cm s))"

definition healthy :: "nat \<Rightarrow> join_state \<Rightarrow> bool" where
  "healthy n s \<longleftrightarrow> join_inv n s \<and> js_result s = None \<and> (\<forall>k. \<not> idle k s)"

lemma join_inv_finite: "join_inv n s \<Longrightarrow> finite (js_resolving s) \<and> finite (cm_joining (js_cm s))"
  by (auto simp: join_inv_def intro: finite_subset)

lemma start_progress:
  assumes "healthy n s" "js_issued s < n"
  shows "\<exists>s'. join_step s s' \<and> healthy n s' \<and> join_todo n s' < join_todo n s"
proof -
  let ?s = "s\<lparr>js_issued := Suc (js_issued s), js_resolving := insert (js_issued s) (js_resolving s)\<rparr>"
  have step: "join_step s ?s"
    using assms by (intro join_step.resolve_ok) (simp_all add: healthy_def join_inv_def)
  have "healthy n ?s"
    using assms join_step_inv [OF step] by (auto simp: healthy_def idle_def less_Suc_eq)
  moreover have "js_issued s \<notin> js_resolving s"
    using assms by (auto simp: healthy_def join_inv_def)
  then have "join_todo n ?s < join_todo n s"
    using assms join_inv_finite [of n s] by (simp add: join_todo_def healthy_def)
  ultimately show ?thesis using step by blast
qed

lemma resolved_progress:
  assumes h: "healthy n s" and i: "i \<in> js_resolving s"
  shows "\<exists>s'. join_step s s' \<and> healthy n s' \<and> join_todo n s' < join_todo n s"
proof -
  obtain ret cm where e: "onAddressResolved working_driver i (js_cm s) = (ret, cm)"
    by (cases "onAddressResolved working_driver i (js_cm s)")
  let ?s = "s\<lparr>js_cm := cm, js_resolving := js_resolving s - {i}\<rparr>"
  have step: "join_step s ?s"
    using i e by (intro join_step.resolved) (simp_all add: processEvents_def)
  have i': "i < length (cm_connections (js_cm s))" "i \<notin> active_set s" "i \<notin> cm_joining (js_cm s)"
    using h i by (auto simp: healthy_def join_inv_def)
  obtain c where cm: "cm_connections cm = (cm_connections (js_cm s))[i := c]"
      "cc_ah c = cc_ah (cm_connections (js_cm s) ! i)" "cm_joining cm = insert i (cm_joining (js_cm s))"
    using e by (rule onAddressResolved_cases)
      (use e in \<open>auto simp: onAddressResolved_def createQueuePair_def working_driver_def Let_def\<close>)
  have act: "active_set (s\<lparr>js_cm := cm\<rparr>) = active_set s"
    using active_update [OF i'(1) cm(1)] cm(2) i' by (auto simp: active_set_def)
  have "healthy n ?s"
    using h join_step_inv [OF step] act cm(3) by (auto simp: healthy_def idle_def)
  moreover have "0 < card (js_resolving s)"
    using h i join_inv_finite [of n s] by (auto simp: healthy_def card_gt_0_iff)
  then have "join_todo n ?s < join_todo n s"
    using h i i'(3) cm(3) join_inv_finite [of n s] by (auto simp: join_todo_def healthy_def)
  ultimately show ?thesis using step by blast
qed

lemma joined_progress:
  assumes h: "healthy n s" and i: "i \<in> cm_joining (js_cm s)"
  shows "\<exists>s'. join_step s s' \<and> healthy n s' \<and> join_todo n s' < join_todo n s"
proof -
  let ?c = "(js_cm s)\<lparr>cm_joining := cm_joining (js_cm s) - {i}\<rparr>"
  obtain ret cm where e: "onMulticastJoin working_driver i 0 0 ?c = (ret, cm)"
    by (cases "onMulticastJoin working_driver i 0 0 ?c")
  have step: "join_step s (s\<lparr>js_cm := cm\<rparr>)"
    using i e by (intro join_step.joined) (simp_all add: processEvents_def)
  have i': "i < length (cm_connections (js_cm s))"
    using h i by (auto simp: healthy_def join_inv_def)
  obtain c where cm: "cm_connections cm = (cm_connections (js_cm s))[i := c]"
      "cc_ah c \<noteq> None" "cm_joining cm = cm_joining (js_cm s) - {i}"
    using e by (rule onMulticastJoin_cases) (use e in \<open>auto simp: onMulticastJoin_def working_driver_def Let_def\<close>)
  have act: "active_set (s\<lparr>js_cm := cm\<rparr>) = insert i (active_set s)"
    using active_update [OF i' cm(1)] cm(2) by simp
  have "healthy n (s\<lparr>js_cm := cm\<rparr>)"
    using h join_step_inv [OF step] act cm(3) by (auto simp: healthy_def idle_def)
  moreover have "0 < card (cm_joining (js_cm s))"
    using h i join_inv_finite [of n s] by (auto simp: healthy_def card_gt_0_iff)
  then have "join_todo n (s\<lparr>js_cm := cm\<rparr>) < join_todo n s"
    using h i cm(3) join_inv_finite [of n s] by (auto simp: join_todo_def healthy_def)
  ultimately show ?thesis using step by blast
qed

lemma healthy_returns: "healthy n s \<Longrightarrow> \<exists>s'. join_step\<^sup>*\<^sup>* s s' \<and> js_result s' = Some 0"
proof (induction "join_todo n s" arbitrary: s rule: less_induct)
  case less
  show ?case
  proof (cases "js_issued s = n \<and> js_resolving s = {} \<and> cm_joining (js_cm s) = {}")
    case True
    then have "active_set s = {..<n}"
      using less.prems active_below [of s] by (auto simp: healthy_def idle_def join_inv_def)
    then have "join_step s (s\<lparr>js_result := Some 0\<rparr>)"
      using less.prems True by (intro join_step.returns) (auto simp: healthy_def join_inv_def wait_over_def)
    then show ?thesis by (intro exI [of _ "s\<lparr>js_result := Some 0\<rparr>"]) auto
  next
    case False
    moreover have "js_issued s \<le> n" using less.prems by (simp add: healthy_def join_inv_def)
    ultimately have "\<exists>s'. join_step s s' \<and> healthy n s' \<and> join_todo n s' < join_todo n s"
      using start_progress resolved_progress joined_progress less.prems by (metis all_not_in_conv le_neq_implies_less)
    then show ?thesis using less.hyps by (meson converse_rtranclp_into_rtranclp)
  qed
qed

text \<open>
  C28. In every interleaving of \<open>construct\<close> with the events: the waiting loop can be left exactly
  when every one of the \<open>n\<close> connections has its address handle, and once \<open>construct\<close> has
  returned 0 each of them has its queue pair and its address handle.
\<close>

theorem join_ready:
  assumes "join_step\<^sup>*\<^sup>* (join_start n) s"
  shows "(wait_over s \<longleftrightarrow> (\<forall>i<n. cc_ah (cm_connections (js_cm s) ! i) \<noteq> None))
    \<and> (js_result s = Some 0 \<longrightarrow>
        (\<forall>i<n. cc_qp_num (cm_connections (js_cm s) ! i) \<noteq> None \<and> cc_ah (cm_connections (js_cm s) ! i) \<noteq> None))"
proof -
  have inv: "join_inv n s" using join_reachable_inv assms .
  have "(\<forall>i<n. cc_ah (cm_connections (js_cm s) ! i) \<noteq> None) \<longleftrightarrow> active_set s = {..<n}"
    using inv by (auto simp: active_set_def join_inv_def)
  moreover have "wait_over s \<longleftrightarrow> active_set s = {..<n}"
    using inv full_set [of "active_set s" n] active_below [of s] by (auto simp: join_inv_def wait_over_def)
  moreover have "\<forall>i\<in>active_set s. cc_qp_num (cm_connections (js_cm s) ! i) \<noteq> None"
    using inv by (auto simp: join_inv_def)
  ultimately show ?thesis using inv by (auto simp: join_inv_def)
qed


section \<open>Witnesses\<close>

lemma join_start_healthy: "healthy n (join_start n)"
  using join_start_inv by (simp add: healthy_def idle_def join_start_def)

theorem join_ready_witness:
  "\<exists>s. join_step\<^sup>*\<^sup>* (join_start 2) s \<and> js_result s = Some 0 \<and> wait_over s
     \<and> cc_qp_num (cm_connections (js_cm s) ! 1) \<noteq> None \<and> cc_ah (cm_connections (js_cm s) ! 1) \<noteq> None"
proof -
  obtain s where s: "join_step\<^sup>*\<^sup>* (join_start 2) s" "js_result s = Some 0"
    using healthy_returns [OF join_start_healthy] by blast
  show ?thesis using s join_ready [OF s(1)] by (intro exI [of _ s]) auto
qed

definition test_resolving :: join_state where
  "test_resolving = (join_start 1)\<lparr>js_issued := 1, js_resolving := {0}\<rparr>"

lemma test_resolving_reached: "join_step\<^sup>*\<^sup>* (join_start 1) test_resolving"
  using join_step.resolve_ok [of "join_start 1"] by (auto simp: test_resolving_def join_start_def)

lemma test_resolving_fails: "failing_step 0 test_resolving (test_resolving\<lparr>js_resolving := {}\<rparr>)"
  using failing_step.resolve_error [of 0 test_resolving "ADDR_ERROR 0 (-110)" "-110" working_driver "-110" "js_cm test_resolving"]
  by (simp add: processEvents_def test_resolving_def)


end
