(* ===== verification/ContextMcast.thy ===== *)
theory ContextMcast
  imports Context
begin

text \<open>
  \<open>ContextMcast\<close> of \<open>src/src/protocols/rdma_unreliable/context_mcast.{h,cpp}\<close>: the multicast
  transport.

  Its members are those of \<open>Context\<close> (\<open>mx_base\<close>, whose request cache stays unused since
  requests are allocated with \<open>new\<close>), the receive buffers of the groups, and, for each group
  that was joined, the part of its \<open>RdmaMulticastContext\<close> the transport works on: the
  connections with their registered regions.  The completions of the polls, the time, the
  iteration order of the sessions and the driver are arguments.
\<close>

section \<open>State\<close>

record mcast_io =
  mi_connections :: "mcast_connection list"
  mi_regions :: "ibv_mr list list"
  mi_max_wr :: int
  mi_max_inline :: u64

record mcast_context =
  mx_base :: unicast_context
  mx_recv_info :: "string \<rightharpoonup> packet_handle list"
  mx_io :: "string \<rightharpoonup> mcast_io"

definition ContextMcast_new :: "u64 \<Rightarrow> u64 \<Rightarrow> u64 \<Rightarrow> controller \<Rightarrow> u32 \<Rightarrow> mem \<Rightarrow> req_heap \<Rightarrow> req \<Rightarrow> u32 \<Rightarrow> mcast_context" where
  "ContextMcast_new mtu_size max_packets queue_capacity ctl garbage m heap fresh rnd =
     \<lparr>mx_base = (Context_new mtu_size max_packets queue_capacity ctl garbage m heap fresh rnd)\<lparr>cx_rto := RTO_new mcast_kDefaultRTO\<rparr>,
      mx_recv_info = Map.empty, mx_io = Map.empty\<rparr>"

definition mx_put :: "unicast_context \<Rightarrow> mcast_context \<Rightarrow> mcast_context" where
  "mx_put b c = c\<lparr>mx_base := b\<rparr>"

text \<open>\<open>new Request\<close>.\<close>

definition new_request :: "rdma_request \<Rightarrow> unicast_context \<Rightarrow> req \<times> unicast_context" where
  "new_request rq b = (cx_fresh b, b\<lparr>cx_heap := (cx_heap b)(cx_fresh b := rq), cx_fresh := cx_fresh b + 1\<rparr>)"

definition ctx_put_mcast_queue :: "int \<Rightarrow> packet_buffer_pool \<times> mcast_send_queue \<Rightarrow> unicast_context \<Rightarrow> unicast_context" where
  "ctx_put_mcast_queue sid = (\<lambda>(p, q) c. c\<lparr>cx_packet_manager := (cx_packet_manager c)
     \<lparr>pm_pool := p, pm_mcast_send_queue := (pm_mcast_send_queue (cx_packet_manager c))(sid \<mapsto> q)\<rparr>\<rparr>)"

definition ctx_mcast_queue :: "int \<Rightarrow> unicast_context \<Rightarrow> mcast_send_queue outcome" where
  "ctx_mcast_queue sid c =
     (case (cx_sessions c sid, pm_mcast_send_queue (cx_packet_manager c) sid) of
        (Some si, Some q) \<Rightarrow> if si_setup si then Inr q else Inl NullDeref
      | _ \<Rightarrow> Inl NullDeref)"

section \<open>Receive buffers\<close>

definition mx_submitNormalRecvWR :: "ibv_post \<Rightarrow> addr \<Rightarrow> unicast_context \<Rightarrow> int \<times> unicast_context" where
  "mx_submitNormalRecvWR post raw c =
     (let index = (case cx_recv_qp_index c raw of Some i \<Rightarrow> i | None \<Rightarrow> 0);
          (request, c1) = new_request (Request_new\<lparr>rr_addr0 := raw, rr_length0 := pm_mtu_size (cx_packet_manager c),
                                                   rr_lkey0 := cx_local_arena_lkey c\<rparr>)
                            (c\<lparr>cx_recv_qp_index := (cx_recv_qp_index c)(raw \<mapsto> index)\<rparr>)
      in case ud_postReceiveRequest post (nat index) [request] (ctx_store c1) of
           (n, st, acc) \<Rightarrow> (n, ctx_put_store st c1))"

definition submitMulticastRecvWR :: "ibv_post \<Rightarrow> string \<Rightarrow> addr \<Rightarrow> mcast_context \<Rightarrow> int \<times> mcast_context" where
  "submitMulticastRecvWR post multicast_addr raw c =
     (case mx_io c multicast_addr of
        None \<Rightarrow> (-1, c)
      | Some io \<Rightarrow>
          let b = mx_base c;
              index = (case cx_recv_qp_index b raw of Some i \<Rightarrow> i | None \<Rightarrow> 0);
              (request, b1) = new_request (Request_new\<lparr>rr_addr0 := raw, rr_length0 := pm_mtu_size (cx_packet_manager b),
                                                       rr_lkey0 := fst (mcast_key (mi_regions io) raw 0)\<rparr>)
                                (b\<lparr>cx_recv_qp_index := (cx_recv_qp_index b)(raw \<mapsto> index)\<rparr>)
          in case mcast_postReceiveRequest post (mi_max_wr io) index [request] (mi_connections io, cx_heap b1) of
               (n, (cs, heap), acc) \<Rightarrow>
                 (n, c\<lparr>mx_base := b1\<lparr>cx_heap := heap\<rparr>, mx_io := (mx_io c)(multicast_addr \<mapsto> io\<lparr>mi_connections := cs\<rparr>)\<rparr>))"

fun mx_construct_recv_handles :: "ibv_post \<Rightarrow> nat list \<Rightarrow> unicast_context \<Rightarrow> (int \<times> unicast_context) outcome" where
  "mx_construct_recv_handles post [] c = Inr (0, c)"
| "mx_construct_recv_handles post (i # is) c =
     (case allocatePacket (cx_mem c) (ctx_pool c) (cx_recv_handles c ! i) True of
        (ret, p, h) \<Rightarrow>
          let c1 = (ctx_put_pool p c)\<lparr>cx_recv_handles := (cx_recv_handles c)[i := h]\<rparr>
          in if ret < 0 then Inr (ret, c1)
             else case mx_submitNormalRecvWR post (ph_packet_buf h) c1 of
               (ret, c2) \<Rightarrow>
                 if ret < 0 then Inr (ret, c2)
                 else let n = length (us_qp_num (ct_store (cx_controller c2)))
                      in if n = 0 then Inl DivByZero
                         else mx_construct_recv_handles post is
                                (c2\<lparr>cx_recv_qp_index := (cx_recv_qp_index c2)(ph_packet_buf h \<mapsto> int (i mod n))\<rparr>))"

definition mx_construct ::
  "int \<times> controller \<Rightarrow> addr \<Rightarrow> reg_mr \<Rightarrow> ibv_post \<Rightarrow> (nat \<Rightarrow> packet_handle) \<Rightarrow> mcast_context \<Rightarrow> (int \<times> mcast_context) outcome" where
  "mx_construct ctl arena reg_mr post g c =
     (let c0 = (mx_base c)\<lparr>cx_controller := snd ctl\<rparr> in
      if fst ctl < 0 then Inr (fst ctl, mx_put c0 c)
      else case manager_construct arena (cx_packet_manager c0) (cx_mem c0) of
        (ret, pm, m) \<Rightarrow>
          let c1 = c0\<lparr>cx_packet_manager := pm, cx_mem := m\<rparr> in
          if ret < 0 then Inr (ret, mx_put c1 c)
          else case registerMemoryRegion reg_mr (cx_regions c1) (pool_arena (ctx_pool c1)) (getCapacity (ctx_pool c1)) 1 of
            (ret, regions) \<Rightarrow>
              let c2 = c1\<lparr>cx_regions := regions\<rparr> in
              if ret \<noteq> 0 then Inr (ret, mx_put c2 c)
              else obind (mx_construct_recv_handles post [0..<kNumReceiveHandles]
                     (c2\<lparr>cx_local_arena_lkey := fst (mr_key regions (pool_arena (ctx_pool c2))),
                         cx_recv_handles := map (\<lambda>i. PacketHandle_new (g i)) [0..<kNumReceiveHandles]\<rparr>))
                   (\<lambda>(ret, b). Inr (ret, mx_put b c)))"

definition mx_deconstruct :: "int list \<Rightarrow> dereg_mr \<Rightarrow> mcast_context \<Rightarrow> int \<times> mcast_context" where
  "mx_deconstruct order dereg_mr c = (case ctx_deconstruct order dereg_mr (mx_base c) of (ret, b) \<Rightarrow> (ret, mx_put b c))"

section \<open>Groups\<close>

text \<open>The loop of \<open>joinMulticast\<close> over the receive handles of the group.\<close>

fun join_recv_handles :: "ibv_post \<Rightarrow> string \<Rightarrow> nat list \<Rightarrow> packet_handle list \<Rightarrow> mcast_context \<Rightarrow> int \<times> packet_handle list \<times> mcast_context" where
  "join_recv_handles post multicast_addr [] hs c = (0, hs, c)"
| "join_recv_handles post multicast_addr (i # is) hs c =
     (case allocatePacket (cx_mem (mx_base c)) (ctx_pool (mx_base c)) (hs ! i) True of
        (ret, p, h) \<Rightarrow>
          let c1 = mx_put (ctx_put_pool p (mx_base c)) c; hs1 = hs[i := h]
          in if ret < 0 then (ret, hs1, c1)
             else case submitMulticastRecvWR post multicast_addr (ph_packet_buf h) c1 of
               (ret, c2) \<Rightarrow>
                 if ret < 0 then (ret, hs1, c2)
                 else join_recv_handles post multicast_addr is hs1
                   (mx_put ((mx_base c2)\<lparr>cx_recv_qp_index := (cx_recv_qp_index (mx_base c2))(ph_packet_buf h \<mapsto> 0)\<rparr>) c2))"

text \<open>\<open>construct\<close> is the multicast context that joining constructs, with its queue pair numbers.\<close>

definition mx_joinMulticast ::
  "(u32 list \<times> mcast_io) option \<Rightarrow> (nat \<Rightarrow> reg_mr) \<Rightarrow> ibv_post \<Rightarrow> (nat \<Rightarrow> packet_handle) \<Rightarrow> string \<Rightarrow> mcast_context \<Rightarrow> int \<times> mcast_context" where
  "mx_joinMulticast construct reg_mr post g multicast_addr c =
     (case joinMulticast (map_option fst construct) multicast_addr (cx_controller (mx_base c)) of
        (ret, ctl) \<Rightarrow>
          let c1 = mx_put ((mx_base c)\<lparr>cx_controller := ctl\<rparr>) c
          in if ret \<noteq> 0 then (ret, c1)
             else
               let io = snd (the construct);
                   old = (case mx_recv_info c1 multicast_addr of Some hs \<Rightarrow> hs | None \<Rightarrow> []);
                   hs = take kNumReceiveHandles old @ map (\<lambda>i. PacketHandle_new (g i)) [length old..<kNumReceiveHandles];
                   pool = ctx_pool (mx_base c1)
               in case mcast_registerMemoryRegion reg_mr 0 (mi_regions io) (pool_arena pool) (getCapacity pool) 1 of
                    (ret, regions) \<Rightarrow>
                      let c2 = c1\<lparr>mx_recv_info := (mx_recv_info c1)(multicast_addr \<mapsto> hs),
                                  mx_io := (mx_io c1)(multicast_addr \<mapsto> io\<lparr>mi_regions := regions\<rparr>)\<rparr>
                      in if ret \<noteq> 0 then (ret, c2)
                         else case join_recv_handles post multicast_addr [0..<kNumReceiveHandles] hs c2 of
                           (ret, hs', c3) \<Rightarrow> (ret, c3\<lparr>mx_recv_info := (mx_recv_info c3)(multicast_addr \<mapsto> hs')\<rparr>))"

text \<open>
  \<open>free_handles\<close> is the loop of \<open>leaveMulticast\<close> that gives the receive buffers back.  The
  context of the group, with its connections and regions, is destroyed with its last reference.
\<close>

definition free_handles :: "packet_handle list \<Rightarrow> packet_buffer_pool \<times> mem \<Rightarrow> packet_buffer_pool \<times> mem" where
  "free_handles hs s = fold (\<lambda>h (p, m). snd (freePacket m p h)) hs s"

definition mx_leaveMulticast :: "string \<Rightarrow> mcast_context \<Rightarrow> (int \<times> mcast_context) outcome" where
  "mx_leaveMulticast multicast_addr c =
     (case getMulticastContext_addr multicast_addr (cx_controller (mx_base c)) of
        None \<Rightarrow> Inl NullDeref
      | Some _ \<Rightarrow>
          let b = mx_base c;
              (p, m) = (case mx_recv_info c multicast_addr of
                          Some hs \<Rightarrow> free_handles hs (ctx_pool b, cx_mem b) | None \<Rightarrow> (ctx_pool b, cx_mem b));
              (ret, ctl) = leaveMulticast multicast_addr (cx_controller b)
          in Inr (ret, c\<lparr>mx_base := (ctx_put_pool p b)\<lparr>cx_mem := m, cx_controller := ctl\<rparr>,
                        mx_recv_info := (mx_recv_info c)(multicast_addr := None), mx_io := (mx_io c)(multicast_addr := None)\<rparr>))"

definition mx_setMulticastReplicas :: "string \<Rightarrow> string list \<Rightarrow> mcast_context \<Rightarrow> int \<times> mcast_context" where
  "mx_setMulticastReplicas multicast_addr peer_name_list c =
     (let b = mx_base c in
      case getMulticastContext_addr multicast_addr (cx_controller b) of
        None \<Rightarrow> (-1, c)
      | Some grp \<Rightarrow>
          (case setMulticastReplicaNum (cx_packet_manager b) (mg_group_id grp) (of_nat (length peer_name_list)) of
             (ret, pm) \<Rightarrow>
               (ret, mx_put (b\<lparr>cx_controller := setReplicas multicast_addr peer_name_list (cx_controller b), cx_packet_manager := pm\<rparr>) c)))"

section \<open>Tasks\<close>

definition mx_send ::
  "(nat \<Rightarrow> packet_handle) \<Rightarrow> string \<Rightarrow> buffer list \<Rightarrow> mcast_context \<Rightarrow> (int \<times> mcast_context) outcome" where
  "mx_send g peer_name buffer_list c =
     (let b = mx_base c in
      if getMulticastContext_addr peer_name (cx_controller b) = None then Inr (-1, c)
      else
        let session = findSession_name peer_name 0 (cx_controller b) in
        if session < 0 then Inl AssertFailed
        else obind (ctx_activate g session b) (\<lambda>(ret, b1).
          if ret \<noteq> 0 then Inr (ret, mx_put b1 c)
          else obind (ctx_mcast_queue session b1) (\<lambda>q.
            obind (mcast_push (cx_mem b1) buffer_list (ctx_pool b1, q)) (\<lambda>(last_sn, ret, s).
              let b2 = ctx_put_mcast_queue session s b1
              in if ret \<noteq> 0 then Inr (ret, mx_put b2 c)
                 else case ctx_new_task \<lparr>tk_session = session, tk_last_sn = last_sn, tk_is_send = True\<rparr> b2 of
                        (task_id, b3) \<Rightarrow> Inr (task_id, mx_put b3 c)))))"

definition mx_receive ::
  "(nat \<Rightarrow> packet_handle) \<Rightarrow> string \<Rightarrow> buffer list \<Rightarrow> mcast_context \<Rightarrow> (int \<times> mcast_context) outcome" where
  "mx_receive g peer_name buffer_list c =
     (let b = mx_base c in
      if getMulticastContext_addr peer_name (cx_controller b) \<noteq> None then Inr (-1, c)
      else
        let session = findSession_name peer_name 0 (cx_controller b) in
        if session < 0 then Inr (-1, c)
        else obind (ctx_activate g session b) (\<lambda>(ret, b1).
          if ret \<noteq> 0 then Inr (ret, mx_put b1 c)
          else obind (ctx_receive_queue session b1) (\<lambda>q.
            obind (recv_push buffer_list q) (\<lambda>(last_sn, ret, q').
              let b2 = ctx_put_receive_queue session q' b1
              in if ret \<noteq> 0 then Inr (ret, mx_put b2 c)
                 else case ctx_new_task \<lparr>tk_session = session, tk_last_sn = last_sn, tk_is_send = False\<rparr> b2 of
                        (task_id, b3) \<Rightarrow> Inr (task_id, mx_put b3 c)))))"

text \<open>\<open>getAckSN ()\<close> with its default argument -1 is the slowest replica.\<close>

definition mx_getStatus :: "int \<Rightarrow> mcast_context \<Rightarrow> status outcome" where
  "mx_getStatus task_id c =
     (case cx_task_map (mx_base c) task_id of
        None \<Rightarrow> Inr UNKNOWN
      | Some t \<Rightarrow>
          if tk_is_send t
          then (case pm_mcast_send_queue (cx_packet_manager (mx_base c)) (tk_session t) of
                  Some q \<Rightarrow> Inr (task_status (tk_last_sn t) (mcast_getAckSN q (-1)) (mcast_getNextSN q))
                | None \<Rightarrow> Inl NullDeref)
          else (case pm_receive_queue (cx_packet_manager (mx_base c)) (tk_session t) of
                  Some q \<Rightarrow> Inr (task_status (tk_last_sn t) (recv_getAckSN q) (recv_getNextSN q))
                | None \<Rightarrow> Inl NullDeref))"

definition mx_freeTask :: "int \<Rightarrow> mcast_context \<Rightarrow> int \<times> mcast_context" where
  "mx_freeTask task_id c = (case ctx_freeTask task_id (mx_base c) of (ret, b) \<Rightarrow> (ret, mx_put b c))"

definition mx_prepareConnection :: "u16 \<Rightarrow> string \<Rightarrow> attributes \<Rightarrow> mcast_context \<Rightarrow> int \<times> attributes \<times> mcast_context" where
  "mx_prepareConnection garbage peer_addr local_attr c =
     (case ctx_prepareConnection garbage peer_addr local_attr (mx_base c) of (ret, a, b) \<Rightarrow> (ret, a, mx_put b c))"

definition mx_setupConnection ::
  "(ibv_ah_attr \<Rightarrow> nat option) \<Rightarrow> (nat \<Rightarrow> u32) \<Rightarrow> u16 \<Rightarrow> string \<Rightarrow> attributes \<Rightarrow> mcast_context \<Rightarrow> (int \<times> mcast_context) outcome" where
  "mx_setupConnection create_ah g garbage peer_addr peer c =
     obind (ctx_setupConnection create_ah g garbage peer_addr peer (mx_base c)) (\<lambda>(ret, b). Inr (ret, mx_put b c))"

section \<open>Memory\<close>

text \<open>Registration with the groups, in the order of the map; the first failure ends it.\<close>

fun register_groups :: "(nat \<Rightarrow> reg_mr) \<Rightarrow> addr \<Rightarrow> u64 \<Rightarrow> string list \<Rightarrow> (string \<rightharpoonup> mcast_io) \<Rightarrow> int \<times> (string \<rightharpoonup> mcast_io)" where
  "register_groups reg_mr a len [] ios = (0, ios)"
| "register_groups reg_mr a len (k # ks) ios =
     (case ios k of
        None \<Rightarrow> register_groups reg_mr a len ks ios
      | Some io \<Rightarrow>
          (case mcast_registerMemoryRegion reg_mr 0 (mi_regions io) a len 1 of
             (ret, regions) \<Rightarrow>
               if ret \<noteq> 0 then (ret, ios(k \<mapsto> io\<lparr>mi_regions := regions\<rparr>))
               else register_groups reg_mr a len ks (ios(k \<mapsto> io\<lparr>mi_regions := regions\<rparr>))))"

definition mx_registerLocalMemory :: "reg_mr \<Rightarrow> (nat \<Rightarrow> reg_mr) \<Rightarrow> addr \<Rightarrow> u64 \<Rightarrow> mcast_context \<Rightarrow> int \<times> mcast_context" where
  "mx_registerLocalMemory reg_mr group_reg_mr a len c =
     (case ctx_registerLocalMemory reg_mr a len (mx_base c) of
        (ret, b) \<Rightarrow>
          if ret \<noteq> 0 then (ret, mx_put b c)
          else case register_groups group_reg_mr a len (map fst (ct_multicast_context_map (cx_controller b))) (mx_io c) of
                 (ret, ios) \<Rightarrow> (ret, (mx_put b c)\<lparr>mx_io := ios\<rparr>))"

definition mx_unregisterLocalMemory :: "dereg_mr \<Rightarrow> addr \<Rightarrow> mcast_context \<Rightarrow> int \<times> mcast_context" where
  "mx_unregisterLocalMemory dereg_mr a c =
     (0, c\<lparr>mx_base := snd (ctx_unregisterLocalMemory dereg_mr a (mx_base c)),
          mx_io := (\<lambda>k. map_option (\<lambda>io. io\<lparr>mi_regions := snd (mcast_unregisterMemoryRegion dereg_mr (mi_regions io) a)\<rparr>) (mx_io c k))\<rparr>)"

section \<open>Sending\<close>

text \<open>
  The callback of \<open>forEach\<close> on the entry at an index: the copy of the session, the collected
  requests and the context are its state.  Its return value is not used.
\<close>

type_synonym mcast_locals = "session_info \<times> req list \<times> mcast_context"

definition mcast_flush :: "ibv_post \<Rightarrow> string \<Rightarrow> mcast_locals \<Rightarrow> mcast_locals outcome" where
  "mcast_flush post name = (\<lambda>(si, reqs, c).
     case mx_io c name of
       None \<Rightarrow> Inl NullDeref
     | Some io \<Rightarrow>
         obind (mcast_postSendRequest post (mi_max_wr io) (mi_max_inline io) 0 reqs (mi_connections io, cx_heap (mx_base c)))
           (\<lambda>(ret, (cs, heap), acc).
              let n = of_nat (length reqs)
              in Inr (si\<lparr>si_send_packets := si_send_packets si + n\<rparr>, [],
                      c\<lparr>mx_base := (mx_base c)\<lparr>cx_heap := heap, cx_stats_send := cx_stats_send (mx_base c) + n\<rparr>,
                        mx_io := (mx_io c)(name \<mapsto> io\<lparr>mi_connections := cs\<rparr>)\<rparr>)))"

text \<open>The request for the slices of a packet; nothing for another number of slices.\<close>

definition mcast_request :: "ibv_mr list list \<Rightarrow> buffer list \<Rightarrow> u32 \<Rightarrow> rdma_request option" where
  "mcast_request regions slices imm =
     (case slices of
        [s0] \<Rightarrow> Some (Request_new\<lparr>rr_addr0 := buf_addr s0, rr_length0 := buf_length s0,
                                   rr_lkey0 := fst (mcast_key regions (buf_addr s0) 0), rr_imm_data := imm\<rparr>)
      | [s0, s1] \<Rightarrow> Some (Request_new\<lparr>rr_addr0 := buf_addr s0, rr_addr1 := buf_addr s1,
                                       rr_length0 := buf_length s0, rr_length1 := buf_length s1,
                                       rr_lkey0 := fst (mcast_key regions (buf_addr s0) 0),
                                       rr_lkey1 := fst (mcast_key regions (buf_addr s1) 0), rr_imm_data := imm\<rparr>)
      | _ \<Rightarrow> None)"

definition mcast_stamp_packet :: "u64 \<Rightarrow> int \<Rightarrow> u64 \<Rightarrow> mcast_send_queue \<Rightarrow> session_info \<Rightarrow> unicast_context
  \<Rightarrow> (session_info \<times> unicast_context \<times> int \<times> (buffer list \<times> u32) option)" where
  "mcast_stamp_packet now session curr_idx q si c =
     (let handle = mcast_getMutableEntry q curr_idx;
          (si1, q1) = (if ph_ts handle \<noteq> 0
                       then let si1 = backoffWnd (\<lambda>_. 1) (cx_mtu_size c) si
                            in (si1, mcast_setWndSize (ucast (cw_cwnd si1)) q)
                       else (si, q))
      in case serialize_vector (cx_mem c) (handle\<lparr>ph_ts := now\<rparr>) of
           (rc, handle', m, out) \<Rightarrow>
             (si1, (ctx_put_mcast_queue session (ctx_pool c, mcast_updateEntry curr_idx (\<lambda>_. handle') q1) c)\<lparr>cx_mem := m\<rparr>, rc, out))"

definition mcast_packet_round ::
  "ibv_post \<Rightarrow> u64 \<Rightarrow> int \<Rightarrow> string \<Rightarrow> u64 \<Rightarrow> mcast_locals \<Rightarrow> mcast_locals outcome" where
  "mcast_packet_round post now session name curr_idx = (\<lambda>(si, reqs, c).
     obind (ctx_mcast_queue session (mx_base c)) (\<lambda>q.
       if mq_queue_capacity q = 0 then Inl DivByZero
       else if now - ph_ts (mcast_getMutableEntry q curr_idx) < rto_rto (cx_rto (mx_base c)) then Inr (si, reqs, c)
       else (case mcast_stamp_packet now session curr_idx q si (mx_base c) of
         (si1, b1, rc, out) \<Rightarrow>
           (case (if rc \<noteq> 0 then None else out) of
              None \<Rightarrow> Inr (si1, reqs, mx_put b1 c)
            | Some (slices, imm) \<Rightarrow>
                (case mx_io c name of
                   None \<Rightarrow> Inl NullDeref
                 | Some io \<Rightarrow>
                     (case mcast_request (mi_regions io) slices imm of
                        None \<Rightarrow> Inr (si1, reqs, mx_put b1 c)
                      | Some rq \<Rightarrow>
                          let (request, b2) = new_request rq b1; l = (si1, reqs @ [request], mx_put b2 c)
                          in if length (reqs @ [request]) = kRequestBatchSize then mcast_flush post name l else Inr l)))))
     )"

primrec mcast_packet_loop ::
  "ibv_post \<Rightarrow> u64 \<Rightarrow> int \<Rightarrow> string \<Rightarrow> u64 list \<Rightarrow> mcast_locals \<Rightarrow> mcast_locals outcome" where
  "mcast_packet_loop post now session name [] l = Inr l"
| "mcast_packet_loop post now session name (i # is) l =
     obind (mcast_packet_round post now session name i l) (mcast_packet_loop post now session name is)"

text \<open>The indices of \<open>forEach\<close>, from the slowest replica's tail up to the head.\<close>

definition mcast_range :: "mcast_send_queue \<Rightarrow> u64 list" where
  "mcast_range q = map (\<lambda>k. getMinTailIndex q + of_nat k) [0..<unat (mq_head q - getMinTailIndex q)]"

fun mx_sendDataPackets :: "ibv_post \<Rightarrow> u64 \<Rightarrow> int list \<Rightarrow> mcast_context \<Rightarrow> (int \<times> mcast_context) outcome" where
  "mx_sendDataPackets post now [] c = Inr (0, c)"
| "mx_sendDataPackets post now (session # order) c =
     (case (cx_sessions (mx_base c) session, ct_peer_name_rev_map (cx_controller (mx_base c)) (session sdiv 256)) of
        (Some si, Some name) \<Rightarrow>
          if getMulticastContext session (cx_controller (mx_base c)) = None then mx_sendDataPackets post now order c
          else obind (ctx_mcast_queue session (mx_base c)) (\<lambda>q.
            obind (mcast_packet_loop post now session name (mcast_range q) (si, [], c)) (\<lambda>(si', reqs, c').
              if reqs = [] then mx_sendDataPackets post now order c'
              else obind (mcast_flush post name (si', reqs, c')) (\<lambda>(_, _, c''). mx_sendDataPackets post now order c'')))
      | _ \<Rightarrow> mx_sendDataPackets post now order c)"

section \<open>Acknowledgements\<close>

definition mx_ack_packet :: "int \<Rightarrow> receive_queue \<Rightarrow> packet_handle \<Rightarrow> packet_handle" where
  "mx_ack_packet session q handle =
     handle\<lparr>ph_session := of_int (session smod 256), ph_cmd := PKT_CMD_ACK, ph_wnd := recv_getWndSize q,
            ph_sn := recv_getAckSN q, ph_ts := recv_getLastTS q, ph_inflight := True\<rparr>"

definition mx_post_ack ::
  "ibv_post \<Rightarrow> u16 \<Rightarrow> int \<Rightarrow> session_info \<Rightarrow> buffer \<Rightarrow> u32 \<Rightarrow> unicast_context \<Rightarrow> (int \<times> unicast_context) outcome" where
  "mx_post_ack post garbage session si s0 imm c =
     (let (request, c1) = new_request (Request_new\<lparr>rr_addr0 := buf_addr s0, rr_length0 := buf_length s0,
            rr_lkey0 := cx_local_arena_lkey c, rr_imm_data := imm, rr_context := Some session\<rparr>) c;
          (ep, c2) = ctx_endpoint garbage session c1
      in case ep of
           None \<Rightarrow> Inr (-1, c2)
         | Some name \<Rightarrow>
             obind (ctx_post_send post name [request] c2) (\<lambda>(ret, c3).
               if ret \<noteq> 1 then Inr (-1, c3)
               else Inr (0, (ctx_put_session session (si\<lparr>si_ack_packets := si_recv_packets si\<rparr>) c3)
                              \<lparr>cx_stats_ack := cx_stats_ack c3 + 1\<rparr>)))"

definition mx_send_ack ::
  "ibv_post \<Rightarrow> u16 \<Rightarrow> int \<Rightarrow> session_info \<Rightarrow> unicast_context \<Rightarrow> (int \<times> unicast_context) outcome" where
  "mx_send_ack post garbage session si c =
     (if si_ack_packets si \<ge> si_recv_packets si \<or> ph_inflight (si_ack_handle si) then Inr (0, c)
      else obind (ctx_receive_queue session c) (\<lambda>q.
        case serialize_vector (cx_mem c) (mx_ack_packet session q (si_ack_handle si)) of
          (rc, handle, m, out) \<Rightarrow>
            let si1 = si\<lparr>si_ack_handle := handle\<rparr>; c1 = (ctx_put_session session si1 c)\<lparr>cx_mem := m\<rparr>
            in case (if rc \<noteq> 0 then None else out) of
                 Some ([s0], imm) \<Rightarrow> mx_post_ack post garbage session si1 s0 imm c1
               | _ \<Rightarrow> Inr (-1, c1)))"

fun mx_sendAckPackets :: "ibv_post \<Rightarrow> u16 \<Rightarrow> int list \<Rightarrow> unicast_context \<Rightarrow> (int \<times> unicast_context) outcome" where
  "mx_sendAckPackets post garbage [] c = Inr (0, c)"
| "mx_sendAckPackets post garbage (session # order) c =
     (case cx_sessions c session of
        None \<Rightarrow> mx_sendAckPackets post garbage order c
      | Some si \<Rightarrow>
          obind (mx_send_ack post garbage session si c) (\<lambda>(ret, c').
            if ret \<noteq> 0 then Inr (ret, c') else mx_sendAckPackets post garbage order c'))"

section \<open>Completions\<close>

definition mx_updateWndOnSuccess :: "int \<Rightarrow> u32 \<Rightarrow> unicast_context \<Rightarrow> unicast_context outcome" where
  "mx_updateWndOnSuccess session rwnd c =
     (case cx_sessions c session of
        None \<Rightarrow> Inl NullDeref
      | Some si \<Rightarrow>
          obind (updateWnd (cx_mtu_size c) rwnd si) (\<lambda>si'.
            obind (ctx_mcast_queue session c) (\<lambda>q.
              let q' = (if ucast (mcast_getWndSize q) \<noteq> cw_cwnd si' then mcast_setWndSize (ucast (cw_cwnd si')) q else q)
              in Inr (ctx_put_mcast_queue session (ctx_pool c, q') (ctx_put_session session si' c)))))"

text \<open>A data packet is dropped without an answer when no receive buffer is posted.\<close>

definition mx_process_data :: "packet_handle \<Rightarrow> int \<Rightarrow> unicast_context \<Rightarrow> unicast_context outcome" where
  "mx_process_data handle session c =
     (if cx_sessions c session = None then Inl AssertFailed
      else obind (ctx_receive_queue session c) (\<lambda>q.
        let (_, head, tail) = recv_getIndexRange q
        in if head = tail then Inr c else process_data handle session c))"

definition mx_updateRTO :: "u64 \<Rightarrow> rto_state \<Rightarrow> rto_state" where
  "mx_updateRTO rtt = updateRTO mcast_kMinRTO mcast_kMaxRTO rtt"

text \<open>The acknowledgement of a replica counts for the group it belongs to.\<close>

definition mx_process_ack :: "u64 \<Rightarrow> packet_handle \<Rightarrow> int \<Rightarrow> unicast_context \<Rightarrow> unicast_context outcome" where
  "mx_process_ack now handle sid c =
     (case redirectMulticast sid 0 (cx_controller c) of
        (session, index, ctl) \<Rightarrow>
          let c0 = c\<lparr>cx_controller := ctl\<rparr> in
          if cx_sessions c0 session = None then Inl AssertFailed
          else obind (ctx_mcast_queue session c0) (\<lambda>q.
            obind (mcast_markCompleted (cx_mem c0) index (ph_sn handle) (ctx_pool c0, q)) (\<lambda>(_, s).
              let c1 = ctx_put_mcast_queue session s c0
              in mx_updateWndOnSuccess session (ucast (ph_wnd handle))
                   (c1\<lparr>cx_rto := mx_updateRTO (rtt_sample now (ph_ts handle)) (cx_rto c1)\<rparr>))))"

definition mx_process_packet :: "u64 \<Rightarrow> packet_handle \<Rightarrow> int \<Rightarrow> unicast_context \<Rightarrow> unicast_context outcome" where
  "mx_process_packet now handle session c =
     (if session < 0 then Inr c
      else if ph_cmd handle = PKT_CMD_DATA then mx_process_data handle session c
      else if ph_cmd handle = PKT_CMD_ACK then mx_process_ack now handle session c
      else Inr c)"

text \<open>\<open>multicast_addr\<close> is empty for the completions of the unicast queue pairs.\<close>

definition mx_processReceivedPacket ::
  "ibv_post \<Rightarrow> packet_handle \<Rightarrow> u64 \<Rightarrow> ibv_wc \<Rightarrow> string \<Rightarrow> mcast_context \<Rightarrow> (int \<times> mcast_context) outcome" where
  "mx_processReceivedPacket post g now wc multicast_addr c =
     (let b = mx_base c; request = cx_heap b (wc_wr_id wc) in
      case wc_opcode wc of
        IBV_WC_SEND \<Rightarrow>
          (case rr_context request of
             None \<Rightarrow> Inr (0, c)
           | Some session \<Rightarrow>
               (case cx_sessions b session of
                  None \<Rightarrow> Inl NullDeref
                | Some si \<Rightarrow>
                    if ph_cmd (si_ack_handle si) = PKT_CMD_ACK
                    then Inr (0, mx_put (ctx_put_session session
                                   (si\<lparr>si_ack_handle := (si_ack_handle si)\<lparr>ph_inflight := False\<rparr>\<rparr>) b) c)
                    else Inr (0, c)))
      | IBV_WC_RECV \<Rightarrow>
          (case deserialize (cx_mem b) (if wc_with_imm wc then wc_imm_data wc else 0) (wc_byte_len wc)
                  (setRawPacket (rr_addr0 request) True (PacketHandle_new g)) of
             (ret, handle) \<Rightarrow>
               if ret \<noteq> 0 then Inr (ret, c)
               else obind (findSession_addr (mem_read (cx_mem b) (rr_addr0 request + 8) 16) (wc_src_qp wc) (ph_session handle)
                             (cx_controller b))
                      (\<lambda>found. let session = (if found < 0 \<and> multicast_addr \<noteq> []
                                              then findSession_name multicast_addr (ph_session handle) (cx_controller b) else found)
                        in obind (mx_process_packet now handle session b)
                             (\<lambda>b1. if multicast_addr \<noteq> []
                                   then Inr (submitMulticastRecvWR post multicast_addr (ph_packet_buf handle) (mx_put b1 c))
                                   else case mx_submitNormalRecvWR post (ph_packet_buf handle) b1 of
                                          (ret, b2) \<Rightarrow> Inr (ret, mx_put b2 c))))
      | IBV_WC_OTHER \<Rightarrow> Inr (0, c))"

definition mx_poll_one :: "ibv_post \<Rightarrow> packet_handle \<Rightarrow> u64 \<Rightarrow> ibv_wc \<Rightarrow> mcast_context \<Rightarrow> mcast_context outcome" where
  "mx_poll_one post g now wc c =
     (case rr_qp_depth (cx_heap (mx_base c) (wc_wr_id wc)) of
        None \<Rightarrow> Inl NullDeref
      | Some d \<Rightarrow>
          if \<not> wc_success wc then Inl Abort
          else obind (mx_processReceivedPacket post g now wc []
                        (mx_put (ctx_put_store (ud_complete d (ctx_store (mx_base c))) (mx_base c)) c))
                 (\<lambda>(_, c'). Inr c'))"

primrec mx_poll_all :: "ibv_post \<Rightarrow> packet_handle \<Rightarrow> u64 \<Rightarrow> ibv_wc list \<Rightarrow> mcast_context \<Rightarrow> mcast_context outcome" where
  "mx_poll_all post g now [] c = Inr c"
| "mx_poll_all post g now (wc # wcs) c = obind (mx_poll_one post g now wc c) (mx_poll_all post g now wcs)"

definition mx_pollCompletedPackets ::
  "ibv_post \<Rightarrow> packet_handle \<Rightarrow> u64 \<Rightarrow> ibv_wc list option \<Rightarrow> mcast_context \<Rightarrow> (int \<times> mcast_context) outcome" where
  "mx_pollCompletedPackets post g now polled c =
     (case polled of
        None \<Rightarrow> Inr (-1, c)
      | Some wcs \<Rightarrow> obind (mx_poll_all post g now wcs c) (\<lambda>c'. Inr (int (length wcs), c')))"

text \<open>The depth counters of a group's connections.\<close>

definition mcast_complete :: "depth_ref \<Rightarrow> mcast_connection list \<Rightarrow> mcast_connection list" where
  "mcast_complete d cs = (case d of
     SendDepth i \<Rightarrow> cs[i := (cs ! i)\<lparr>mc_send_wr_depth := mc_send_wr_depth (cs ! i) - 1\<rparr>]
   | RecvDepth i \<Rightarrow> cs[i := (cs ! i)\<lparr>mc_recv_wr_depth := mc_recv_wr_depth (cs ! i) - 1\<rparr>])"

definition mx_poll_mcast_one :: "ibv_post \<Rightarrow> packet_handle \<Rightarrow> u64 \<Rightarrow> string \<Rightarrow> ibv_wc \<Rightarrow> mcast_context \<Rightarrow> mcast_context outcome" where
  "mx_poll_mcast_one post g now name wc c =
     (case (rr_qp_depth (cx_heap (mx_base c) (wc_wr_id wc)), mx_io c name) of
        (Some d, Some io) \<Rightarrow>
          if \<not> wc_success wc then Inl Abort
          else obind (mx_processReceivedPacket post g now wc name
                        (c\<lparr>mx_io := (mx_io c)(name \<mapsto> io\<lparr>mi_connections := mcast_complete d (mi_connections io)\<rparr>)\<rparr>))
                 (\<lambda>(_, c'). Inr c')
      | _ \<Rightarrow> Inl NullDeref)"

primrec mx_poll_mcast_all :: "ibv_post \<Rightarrow> packet_handle \<Rightarrow> u64 \<Rightarrow> string \<Rightarrow> ibv_wc list \<Rightarrow> mcast_context \<Rightarrow> mcast_context outcome" where
  "mx_poll_mcast_all post g now name [] c = Inr c"
| "mx_poll_mcast_all post g now name (wc # wcs) c = obind (mx_poll_mcast_one post g now name wc c) (mx_poll_mcast_all post g now name wcs)"

text \<open>\<open>polled\<close> has what the poll of each connection returns, in order.\<close>

fun mx_pollMcastCompletedPackets ::
  "ibv_post \<Rightarrow> packet_handle \<Rightarrow> u64 \<Rightarrow> string \<Rightarrow> ibv_wc list option list \<Rightarrow> int \<Rightarrow> mcast_context \<Rightarrow> (int \<times> mcast_context) outcome" where
  "mx_pollMcastCompletedPackets post g now name [] nr_total c = Inr (nr_total, c)"
| "mx_pollMcastCompletedPackets post g now name (None # rest) nr_total c = Inr (-1, c)"
| "mx_pollMcastCompletedPackets post g now name (Some wcs # rest) nr_total c =
     obind (mx_poll_mcast_all post g now name wcs c)
       (mx_pollMcastCompletedPackets post g now name rest (nr_total + int (length wcs)))"

primrec mx_poll_groups ::
  "ibv_post \<Rightarrow> packet_handle \<Rightarrow> u64 \<Rightarrow> (string \<times> ibv_wc list option list) list \<Rightarrow> mcast_context \<Rightarrow> (int \<times> mcast_context) outcome" where
  "mx_poll_groups post g now [] c = Inr (0, c)"
| "mx_poll_groups post g now (x # xs) c =
     obind (mx_pollMcastCompletedPackets post g now (fst x) (snd x) 0 c) (\<lambda>(ret, c').
       if ret < 0 then Inr (ret, c') else mx_poll_groups post g now xs c')"

text \<open>\<open>mcast_wcs\<close> lists the groups in the order of the map, with what their polls return.\<close>

definition mx_runStep ::
  "ibv_post \<Rightarrow> packet_handle \<Rightarrow> u16 \<Rightarrow> u64 \<Rightarrow> int list \<Rightarrow> ibv_wc list option \<Rightarrow> (string \<times> ibv_wc list option list) list
     \<Rightarrow> ibv_wc list option \<Rightarrow> mcast_context \<Rightarrow> (int \<times> mcast_context) outcome" where
  "mx_runStep post g garbage now order recv_wcs mcast_wcs send_wcs c =
     obind (mx_pollCompletedPackets post g now recv_wcs c) (\<lambda>(ret, c1).
       if ret < 0 then Inr (ret, c1)
       else obind (mx_poll_groups post g now mcast_wcs c1) (\<lambda>(ret, c2).
         if ret < 0 then Inr (ret, c2)
         else obind (mx_sendAckPackets post garbage order (mx_base c2)) (\<lambda>(_, b3).
           obind (mx_sendDataPackets post now order (mx_put b3 c2)) (\<lambda>(ret, c4).
             if ret \<noteq> 0 then Inr (ret, c4)
             else obind (mx_pollCompletedPackets post g now send_wcs c4) (\<lambda>(ret, c5).
               if ret < 0 then Inr (ret, c5) else Inr (0, c5))))))"

section \<open>Joining and leaving\<close>

lemma submitMulticastRecvWR_frame:
  assumes "submitMulticastRecvWR post a raw c = (ret, c')"
  shows "cx_packet_manager (mx_base c') = cx_packet_manager (mx_base c)" "cx_mem (mx_base c') = cx_mem (mx_base c)"
    "mx_recv_info c' = mx_recv_info c" "cx_controller (mx_base c') = cx_controller (mx_base c)"
  using assms by (auto simp: submitMulticastRecvWR_def new_request_def Let_def split: option.splits prod.splits)

lemma ctx_pool_put [simp]: "ctx_pool (ctx_put_pool p c) = p" "cx_mem (ctx_put_pool p c) = cx_mem c"
  "cx_controller (ctx_put_pool p c) = cx_controller c"
  by (simp_all add: ctx_pool_def ctx_put_pool_def)

text \<open>However the loop of \<open>joinMulticast\<close> ends, the handles hold the buffers it took.\<close>

lemma join_recv_handles_inv:
  assumes "join_recv_handles post a is hs c = (ret, hs', c')"
    and "pool_inv (ctx_pool (mx_base c)) (cx_mem (mx_base c)) (queue_bufs hs @ held)"
    and "distinct is" "\<forall>i\<in>set is. i < length hs \<and> ph_packet_buf (hs ! i) = 0"
  shows "pool_inv (ctx_pool (mx_base c')) (cx_mem (mx_base c')) (queue_bufs hs' @ held) \<and> mx_recv_info c' = mx_recv_info c
    \<and> cx_controller (mx_base c') = cx_controller (mx_base c)"
  using assms
proof (induction "is" arbitrary: hs c)
  case (Cons i "is")
  have i: "i < length hs" "ph_packet_buf (hs ! i) = 0" using Cons.prems(4) by auto
  from Cons.prems(2) show ?case
  proof (cases rule: pool_inv_allocate[where h = "hs ! i" and grh = True])
    case exhausted
    then show ?thesis using Cons.prems(1,2) by (auto simp: Let_def mx_put_def)
  next
    case (popped x p')
    define hs1 where "hs1 = hs[i := setRawPacket x True (hs ! i)]"
    define c1 where "c1 = mx_put (ctx_put_pool p' (mx_base c)) c"
    have "mset (queue_bufs hs1) = add_mset x (mset (queue_bufs hs))"
      using queue_bufs_update_new[OF i, of "setRawPacket x True (hs ! i)"] popped(3) by (simp add: hs1_def setRawPacket_def)
    then have "pool_inv p' (cx_mem (mx_base c)) (queue_bufs hs1 @ held)"
      using popped(2) by (subst pool_inv_mset[of _ "x # queue_bufs hs @ held"]) simp_all
    then have inv: "pool_inv (ctx_pool (mx_base c1)) (cx_mem (mx_base c1)) (queue_bufs hs1 @ held)"
      by (simp add: c1_def mx_put_def)
    obtain ret1 c2 where sub: "submitMulticastRecvWR post a x c1 = (ret1, c2)" by fastforce
    note fr = submitMulticastRecvWR_frame[OF sub]
    have c1: "mx_recv_info c1 = mx_recv_info c" "cx_controller (mx_base c1) = cx_controller (mx_base c)"
      by (simp_all add: c1_def mx_put_def)
    have run: "join_recv_handles post a (i # is) hs c =
        (if ret1 < 0 then (ret1, hs1, c2) else join_recv_handles post a is hs1
           (mx_put ((mx_base c2)\<lparr>cx_recv_qp_index := (cx_recv_qp_index (mx_base c2))(x \<mapsto> 0)\<rparr>) c2))"
      using popped(1) sub by (simp add: Let_def setRawPacket_def hs1_def c1_def)
    show ?thesis
    proof (cases "ret1 < 0")
      case True
      with run Cons.prems(1) inv fr c1 show ?thesis by (simp add: ctx_pool_def)
    next
      case False
      define c3 where "c3 = mx_put ((mx_base c2)\<lparr>cx_recv_qp_index := (cx_recv_qp_index (mx_base c2))(x \<mapsto> 0)\<rparr>) c2"
      have "pool_inv (ctx_pool (mx_base c3)) (cx_mem (mx_base c3)) (queue_bufs hs1 @ held)"
        "mx_recv_info c3 = mx_recv_info c" "cx_controller (mx_base c3) = cx_controller (mx_base c)"
        using inv fr c1 by (simp_all add: c3_def mx_put_def ctx_pool_def)
      moreover have "join_recv_handles post a is hs1 c3 = (ret, hs', c')"
        using run False Cons.prems(1) by (simp add: c3_def)
      moreover have "\<forall>j\<in>set is. j < length hs1 \<and> ph_packet_buf (hs1 ! j) = 0"
        using Cons.prems(3,4) by (simp add: hs1_def nth_list_update)
      ultimately show ?thesis using Cons.IH[of hs1 c3] Cons.prems(3) by auto
    qed
  qed
qed auto

lemma free_handles_inv:
  assumes "pool_inv p m (queue_bufs hs @ held)"
  shows "\<exists>p' m'. free_handles hs (p, m) = (p', m') \<and> pool_inv p' m' held"
  using assms
proof (induction hs arbitrary: p m)
  case (Cons h hs)
  show ?case
  proof (cases "ph_packet_buf h = 0")
    case True
    then have "snd (freePacket m p h) = (p, m)" "queue_bufs (h # hs) = queue_bufs hs"
      by (simp_all add: freePacket_def queue_bufs_def)
    with Cons show ?thesis by (simp add: free_handles_def)
  next
    case False
    then have "pool_inv p m (ph_packet_buf h # queue_bufs hs @ held)" using Cons.prems by (simp add: queue_bufs_def)
    then obtain p' m' where "freePacket m p h = (0, p', m')" "pool_inv p' m' (queue_bufs hs @ held)"
      by (rule pool_inv_release)
    with Cons.IH[of p' m'] show ?thesis by (simp add: free_handles_def)
  qed
qed (simp add: free_handles_def queue_bufs_def)

lemma map_of_ordered_insert [simp]: "map_of (ordered_insert k v xs) k = Some v"
  by (induction k v xs rule: ordered_insert.induct) auto

lemma join_holds_buffers:
  assumes inv: "pool_inv (ctx_pool (mx_base c)) (cx_mem (mx_base c)) held"
    and new: "getMulticastContext_addr a (cx_controller (mx_base c)) = None" "mx_recv_info c a = None"
    and join: "mx_joinMulticast (Some (qps, io)) reg post g a c = (ret, c1)"
  shows "\<exists>hs. mx_recv_info c1 a = Some hs \<and> map_of (ct_multicast_context_map (cx_controller (mx_base c1))) a \<noteq> None
    \<and> pool_inv (ctx_pool (mx_base c1)) (cx_mem (mx_base c1)) (queue_bufs hs @ held)"
proof -
  define ctl where "ctl = snd (joinMulticast (Some qps) a (cx_controller (mx_base c)))"
  have j: "joinMulticast (Some qps) a (cx_controller (mx_base c)) = (0, ctl)"
    and in_map: "map_of (ct_multicast_context_map ctl) a \<noteq> None"
    using new(1) by (simp_all add: ctl_def joinMulticast_def getMulticastContext_addr_def Let_def)
  define b1 where "b1 = (mx_base c)\<lparr>cx_controller := ctl\<rparr>"
  define hs where "hs = map (\<lambda>i. PacketHandle_new (g i)) [0..<kNumReceiveHandles]"
  obtain ret0 regions where reg: "mcast_registerMemoryRegion reg 0 (mi_regions io) (pool_arena (ctx_pool b1)) (getCapacity (ctx_pool b1)) 1
      = (ret0, regions)" by fastforce
  define c0 where "c0 = c\<lparr>mx_base := b1, mx_recv_info := (mx_recv_info c)(a \<mapsto> hs), mx_io := (mx_io c)(a \<mapsto> io\<lparr>mi_regions := regions\<rparr>)\<rparr>"
  have hs: "queue_bufs hs = []" "\<forall>i\<in>set [0..<kNumReceiveHandles]. i < length hs \<and> ph_packet_buf (hs ! i) = 0"
    by (auto simp: hs_def queue_bufs_def PacketHandle_new_def)
  have inv0: "pool_inv (ctx_pool (mx_base c0)) (cx_mem (mx_base c0)) (queue_bufs hs @ held)"
    using inv hs(1) by (simp add: c0_def b1_def ctx_pool_def)
  obtain ret1 hs' c' where loop: "join_recv_handles post a [0..<kNumReceiveHandles] hs c0 = (ret1, hs', c')" using prod_cases3 by blast
  note L = join_recv_handles_inv[OF loop inv0 distinct_upt hs(2)]
  have c1: "c1 = (if ret0 \<noteq> 0 then c0 else c'\<lparr>mx_recv_info := (mx_recv_info c')(a \<mapsto> hs')\<rparr>)"
    using join j new(2) reg loop
    by (auto simp: mx_joinMulticast_def Let_def mx_put_def c0_def b1_def hs_def split: if_splits prod.splits)
  show ?thesis
  proof (cases "ret0 \<noteq> 0")
    case True
    with inv0 in_map show ?thesis unfolding c1 by (simp add: c0_def b1_def)
  next
    case False
    moreover have "cx_controller (mx_base c0) = ctl" by (simp add: c0_def b1_def)
    ultimately show ?thesis using L in_map unfolding c1 by simp
  qed
qed


definition test_mcast_context :: mcast_context where
  "test_mcast_context = \<lparr>mx_base = test_context\<lparr>cx_packet_manager := (cx_packet_manager test_context)\<lparr>pm_pool := fst test_pool\<rparr>,
     cx_mem := snd test_pool\<rparr>, mx_recv_info = Map.empty, mx_io = Map.empty\<rparr>"

definition test_io :: mcast_io where
  "test_io = \<lparr>mi_connections = [\<lparr>mc_ah = Some 1, mc_remote_qpn = 9, mc_remote_qkey = 0, mc_send_wr_depth = 0, mc_recv_wr_depth = 0\<rparr>],
     mi_regions = [[]], mi_max_wr = 128, mi_max_inline = 64\<rparr>"



text \<open>A session whose two receive buffers are filled and acknowledged.\<close>

definition test_done_context :: unicast_context where
  "test_done_context = test_context\<lparr>
     cx_packet_manager := (cx_packet_manager test_context)\<lparr>pm_receive_queue := [0 \<mapsto> test_recv_queue\<lparr>rq_tail := 2\<rparr>]\<rparr>,
     cx_sessions := [0 \<mapsto> test_ack_session\<lparr>si_ack_packets := 1\<rparr>]\<rparr>"


section \<open>The status of a multicast task\<close>

text \<open>
  C30.  A multicast task succeeds exactly when every replica has acknowledged it, as long as the
  indices stay below \<open>2 ^ 24\<close>: \<open>getStatus\<close> of a send task reports SUCCESS if the index after
  its last packet is not beyond the tail of any replica, and PENDING otherwise.
\<close>

theorem mcast_status_all_replicas:
  assumes t: "cx_task_map (mx_base c) task_id = Some \<lparr>tk_session = sid, tk_last_sn = SHORT_SN l, tk_is_send = True\<rparr>"
    and q: "pm_mcast_send_queue (cx_packet_manager (mx_base c)) sid = Some q" "mq_tail_list q \<noteq> []"
    and small: "\<forall>i\<in>set (mq_tail_list q). i \<le> mq_head q" "unat (mq_head q) < 2 ^ 24" "unat l < 2 ^ 24"
  shows "mx_getStatus task_id c = Inr (if \<forall>i\<in>set (mq_tail_list q). l \<le> i then SUCCESS else PENDING)"
proof -
  obtain i where i: "i \<in> set (mq_tail_list q)" using q(2) by (cases "mq_tail_list q") auto
  then have h: "getMinTailIndex q \<le> mq_head q" using getMinTailIndex_le[OF i] small(1) by force
  have m: "getMinTailIndex q \<in> insert (- 1) (set (mq_tail_list q))"
    using foldl_min[of "- 1" "mq_tail_list q"] by (simp add: getMinTailIndex_def)
  have "l \<le> getMinTailIndex q \<longleftrightarrow> (\<forall>i\<in>set (mq_tail_list q). l \<le> i)"
  proof
    assume "l \<le> getMinTailIndex q"
    then show "\<forall>i\<in>set (mq_tail_list q). l \<le> i" using getMinTailIndex_le by (blast intro: order_trans)
  next
    assume "\<forall>i\<in>set (mq_tail_list q). l \<le> i"
    with m show "l \<le> getMinTailIndex q" by auto
  qed
  moreover have "task_status (SHORT_SN l) (SHORT_SN (getMinTailIndex q)) (SHORT_SN (mq_head q)) =
      (if l \<le> getMinTailIndex q then SUCCESS else PENDING)"
    using h small by (intro task_status_iff) (simp_all add: word_le_nat_alt)
  ultimately show ?thesis
    using t q(1) by (simp add: mx_getStatus_def mcast_getAckSN_def mcast_getNextSN_def)
qed

theorem mcast_status_all_replicas_witness:
  "mx_getStatus 4 \<lparr>mx_base = test_context\<lparr>cx_task_map := [4 \<mapsto> \<lparr>tk_session = 0, tk_last_sn = 1, tk_is_send = True\<rparr>],
       cx_packet_manager := (cx_packet_manager test_context)\<lparr>pm_mcast_send_queue := [0 \<mapsto> test_mcast_queue]\<rparr>\<rparr>,
     mx_recv_info = Map.empty, mx_io = Map.empty\<rparr> = Inr PENDING"
proof -
  have "SHORT_SN 1 = 1" by (simp add: SHORT_SN_def)
  then show ?thesis
    using mcast_status_all_replicas[of "\<lparr>mx_base = test_context\<lparr>cx_task_map := [4 \<mapsto> \<lparr>tk_session = 0, tk_last_sn = 1, tk_is_send = True\<rparr>],
       cx_packet_manager := (cx_packet_manager test_context)\<lparr>pm_mcast_send_queue := [0 \<mapsto> test_mcast_queue]\<rparr>\<rparr>,
     mx_recv_info = Map.empty, mx_io = Map.empty\<rparr>" 4 0 1 test_mcast_queue]
    by (simp add: test_mcast_queue_def)
qed

end
