(* ===== verification/Session.thy ===== *)
theory Session
  imports Controller
begin

text \<open>
  The out-of-band connection between two processes: \<open>SessionManager\<close> of
  \<open>src/src/session_manager.{h,cpp}\<close>.

  The JSON library and the remote procedure call are parameters.  \<open>js_read\<close> is None for a text that
  does not parse and an exception for a value that is no object of strings.  A call runs in the
  state \<open>'w\<close> of the remote side and gives the answer, or None when it fails.
\<close>

section \<open>Addresses\<close>

definition isValidPort :: "int \<Rightarrow> bool" where
  "isValidPort port \<longleftrightarrow> port \<ge> 0 \<and> port \<le> 65535"

text \<open>Host name and port; \<open>Inr None\<close> is the return value -1.\<close>

definition parseHostPort :: "string \<Rightarrow> (string \<times> u16) option outcome" where
  "parseHostPort address =
     (if CHR '':'' \<notin> set address then Inr None
      else
        let hostname = takeWhile (\<lambda>c. c \<noteq> CHR '':'') address;
            rest = tl (dropWhile (\<lambda>c. c \<noteq> CHR '':'') address)
        in obind (stoi rest) (\<lambda>port. Inr (Some (hostname, word_of_int port))))"

text \<open>
  \<open>while (std::getline (iss, token, d))\<close>: the tokens up to each delimiter; nothing follows a
  delimiter at the end.
\<close>

function getlines :: "char \<Rightarrow> string \<Rightarrow> string list" where
  "getlines d s =
     (if s = [] then [] else takeWhile (\<lambda>x. x \<noteq> d) s # getlines d (tl (dropWhile (\<lambda>x. x \<noteq> d) s)))"
  by pat_completeness auto
termination
proof (relation "measure (\<lambda>(d, s). length s)")
  fix d :: char and s :: string
  assume "s \<noteq> []"
  moreover have "length (dropWhile (\<lambda>x. x \<noteq> d) s) \<le> length s" by (rule length_dropWhile_le)
  ultimately show "((d, tl (dropWhile (\<lambda>x. x \<noteq> d) s)), d, s) \<in> measure (\<lambda>(d, s). length s)"
    by (cases s) auto
qed simp

declare getlines.simps [simp del]

fun stoi_all :: "string list \<Rightarrow> int list outcome" where
  "stoi_all [] = Inr []"
| "stoi_all (token # tokens) = obind (stoi token) (\<lambda>b. obind (stoi_all tokens) (\<lambda>bs. Inr (b # bs)))"

definition isMulticastAddress :: "string \<Rightarrow> bool outcome" where
  "isMulticastAddress address =
     (if CHR '':'' \<in> set address then Inr False
      else obind (stoi_all (getlines (CHR ''.'') address)) (\<lambda>bytes.
        if length bytes \<noteq> 4 then Inr False else Inr (bytes ! 0 \<ge> 224 \<and> bytes ! 0 \<le> 239)))"

section \<open>The session manager\<close>

text \<open>
  The callback of the listener works on the state \<open>'p\<close> of the process; it takes the name of the
  peer, the request and the response so far.
\<close>

type_synonym 'p accept_callback = "string \<Rightarrow> attributes \<Rightarrow> attributes \<Rightarrow> 'p \<Rightarrow> (int \<times> attributes \<times> 'p) outcome"

record 'p session_manager =
  sm_server :: "u16 option"
  sm_on_accept :: "'p accept_callback option"
  sm_sessions :: "string set"
  sm_uid :: u32

definition SessionManager_new :: "'p session_manager" where
  "SessionManager_new = \<lparr>sm_server = None, sm_on_accept = None, sm_sessions = {}, sm_uid = 0\<rparr>"

record json =
  js_write :: "attributes \<Rightarrow> string"
  js_read :: "string \<Rightarrow> attributes option outcome"

definition readAttributes :: "json \<Rightarrow> string \<Rightarrow> attributes \<Rightarrow> (int \<times> attributes) outcome" where
  "readAttributes js json_string attr =
     (if json_string = [] then Inr (-2, attr)
      else obind (js_read js json_string) (\<lambda>m. case m of None \<Rightarrow> Inr (-1, attr) | Some m \<Rightarrow> Inr (0, attr ++ m)))"

definition writeAttributes :: "json \<Rightarrow> attributes \<Rightarrow> int \<times> string" where
  "writeAttributes js attr = (0, js_write js attr)"

text \<open>The name \<open>"server/" + std::to_string (uid_.fetch_add (1))\<close> of a peer that connects.\<close>

definition show_int :: "int \<Rightarrow> string" where
  "show_int i = (if i < 0 then CHR ''-'' # show_digits 10 (nat (- i)) else show_digits 10 (nat i))"

definition accepted_name :: "u32 \<Rightarrow> string" where
  "accepted_name uid = ''server/'' @ show_int (sint uid)"

text \<open>An empty \<open>std::function\<close> throws when it is called.\<close>

definition exchangeMetadata :: "json \<Rightarrow> string \<Rightarrow> 'p session_manager \<Rightarrow> 'p \<Rightarrow> (string \<times> 'p session_manager \<times> 'p) outcome" where
  "exchangeMetadata js request_json sm p =
     obind (readAttributes js request_json Map.empty) (\<lambda>(ret, request).
       if ret \<noteq> 0 then Inr (''<error>'', sm, p)
       else case sm_on_accept sm of
         None \<Rightarrow> Inl Throw
       | Some on_accept \<Rightarrow>
           let sm1 = sm\<lparr>sm_uid := sm_uid sm + 1\<rparr> in
           obind (on_accept (accepted_name (sm_uid sm)) request Map.empty p) (\<lambda>(ret, response, p1).
             if ret \<noteq> 0 then Inr (''<error>'', sm1, p1)
             else case writeAttributes js response of
               (ret, response_json) \<Rightarrow> Inr (if ret \<noteq> 0 then ''<error>'' else response_json, sm1, p1)))"

text \<open>The callback for closed connections is not stored.\<close>

definition sm_startListener :: "string \<Rightarrow> 'p accept_callback \<Rightarrow> 'p session_manager \<Rightarrow> (int \<times> 'p session_manager) outcome" where
  "sm_startListener address on_accept sm =
     (let sm1 = sm\<lparr>sm_on_accept := Some on_accept\<rparr>
      in obind (parseHostPort address) (\<lambda>hp. case hp of
           None \<Rightarrow> Inr (-1, sm1)
         | Some (hostname, port) \<Rightarrow> Inr (0, sm1\<lparr>sm_server := Some port\<rparr>)))"

definition sm_shutdownListener :: "'p session_manager \<Rightarrow> int \<times> 'p session_manager" where
  "sm_shutdownListener sm = (0, sm\<lparr>sm_server := None\<rparr>)"

text \<open>\<open>connected\<close> is whether the client reached the address; a call that fails answers with the empty text.\<close>

type_synonym 'w rpc = "string \<Rightarrow> 'w \<Rightarrow> string option \<times> 'w"

definition sm_connect ::
  "json \<Rightarrow> bool \<Rightarrow> 'w rpc \<Rightarrow> string \<Rightarrow> attributes \<Rightarrow> attributes \<Rightarrow> 'p session_manager \<Rightarrow> 'w
     \<Rightarrow> (int \<times> attributes \<times> 'p session_manager \<times> 'w) outcome" where
  "sm_connect js connected call address request response sm w =
     (if \<not> connected then Inr (-1, response, sm, w)
      else case writeAttributes js request of
        (ret, request_json) \<Rightarrow>
          if ret \<noteq> 0 then Inr (-1, response, sm, w)
          else case call request_json w of
            (answer, w1) \<Rightarrow>
              obind (readAttributes js (case answer of Some text \<Rightarrow> text | None \<Rightarrow> []) response) (\<lambda>(ret, response1).
                if ret \<noteq> 0 then Inr (-1, response1, sm, w1)
                else Inr (0, response1, sm\<lparr>sm_sessions := insert address (sm_sessions sm)\<rparr>, w1)))"

definition sm_disconnect :: "string \<Rightarrow> 'p session_manager \<Rightarrow> int \<times> 'p session_manager" where
  "sm_disconnect address sm = (0, sm\<lparr>sm_sessions := sm_sessions sm - {address}\<rparr>)"

definition hasConnection :: "string \<Rightarrow> 'p session_manager \<Rightarrow> bool" where
  "hasConnection address sm \<longleftrightarrow> address \<in> sm_sessions sm"

section \<open>Tokens\<close>

lemma split_delimiter:
  assumes "d \<notin> set xs"
  shows "takeWhile (\<lambda>x. x \<noteq> d) (xs @ d # ys) = xs" "dropWhile (\<lambda>x. x \<noteq> d) (xs @ d # ys) = d # ys"
    "takeWhile (\<lambda>x. x \<noteq> d) xs = xs" "dropWhile (\<lambda>x. x \<noteq> d) xs = []"
  using assms by (induction xs) auto

lemma getlines_append: "d \<notin> set xs \<Longrightarrow> getlines d (xs @ d # ys) = xs # getlines d ys"
  by (subst getlines.simps) (simp add: split_delimiter)

lemma getlines_last: "xs \<noteq> [] \<Longrightarrow> d \<notin> set xs \<Longrightarrow> getlines d xs = [xs]"
  by (subst getlines.simps) (simp add: split_delimiter getlines.simps [of d "[]"])

lemma show_digits_chars: "CHR ''.'' \<notin> set (show_digits 10 n)" "CHR '':'' \<notin> set (show_digits 10 n)"
  using show_digits_are_digits [of 10 n] by (auto simp: list_all_iff is_digit_def digit_value_def)

definition dotted :: "nat \<Rightarrow> nat \<Rightarrow> nat \<Rightarrow> nat \<Rightarrow> string" where
  "dotted a b c d = show_digits 10 a @ CHR ''.'' # show_digits 10 b @ CHR ''.'' # show_digits 10 c @ CHR ''.'' # show_digits 10 d"

lemma getlines_dotted:
  "getlines (CHR ''.'') (dotted a b c d) = [show_digits 10 a, show_digits 10 b, show_digits 10 c, show_digits 10 d]"
  by (simp add: dotted_def getlines_append getlines_last show_digits_chars show_digits_not_Nil)

lemma stoi_letter: "stoi (''server/'' @ s) = Inl Throw"
  by (simp add: stoi_def scan_int_def take_sign_def take_prefix_def is_space_def is_digit_def digit_value_def)

lemma show_int_no_delimiter: "CHR ''.'' \<notin> set (show_int i)" "CHR '':'' \<notin> set (show_int i)"
  by (simp_all add: show_int_def show_digits_chars)

lemma show_digits_inject:
  assumes "show_digits 10 m = show_digits 10 n"
  shows "m = n"
proof -
  have "m = digits_value 10 (show_digits 10 m)" by (simp add: show_digits_value)
  also have "\<dots> = n" unfolding assms by (simp add: show_digits_value)
  finally show ?thesis .
qed

lemma show_int_inject: "show_int i = show_int j \<Longrightarrow> i = j"
proof -
  have minus: "hd (show_digits 10 n) \<noteq> CHR ''-''" for n
    using show_digits_are_digits [of 10 n] show_digits_not_Nil [of 10 n]
    by (cases "show_digits 10 n") (auto simp: is_digit_def digit_value_def)
  have sign: "hd (show_int k) = CHR ''-'' \<longleftrightarrow> k < 0" for k
    using minus by (simp add: show_int_def)
  assume eq: "show_int i = show_int j"
  then have s: "i < 0 \<longleftrightarrow> j < 0" using sign [of i] sign [of j] by simp
  show "i = j"
  proof (cases "i < 0")
    case True
    then have "show_digits 10 (nat (- i)) = show_digits 10 (nat (- j))" using eq s by (simp add: show_int_def)
    then have "nat (- i) = nat (- j)" by (rule show_digits_inject)
    then show ?thesis using True s by simp
  next
    case False
    then have "show_digits 10 (nat i) = show_digits 10 (nat j)" using eq s by (simp add: show_int_def)
    then have "nat i = nat j" by (rule show_digits_inject)
    then show ?thesis using False s by simp
  qed
qed

lemma accepted_name_inject: "accepted_name u = accepted_name v \<longleftrightarrow> u = v"
  using show_int_inject [of "sint u" "sint v"] by (auto simp: accepted_name_def intro: word_eq_iff_signed [THEN iffD2])

lemma accepted_name_throws: "isMulticastAddress (accepted_name u) = Inl Throw"
proof -
  have "getlines (CHR ''.'') (accepted_name u) = [accepted_name u]"
    by (intro getlines_last) (simp_all add: accepted_name_def show_int_no_delimiter)
  moreover have "stoi (accepted_name u) = Inl Throw"
    unfolding accepted_name_def by (rule stoi_letter)
  moreover have "CHR '':'' \<notin> set (accepted_name u)" by (simp add: accepted_name_def show_int_no_delimiter)
  ultimately show ?thesis by (simp add: isMulticastAddress_def)
qed

section \<open>Properties\<close>

text \<open>
  Peer names are told apart by their form.  The name of a host with a port is never taken for a multicast
  address and gives back the host and the port; four numbers with dots between them are a multicast
  address exactly when the first is in 224..239, the range of IPv4 multicast.
\<close>

lemma address_forms:
  assumes "CHR '':'' \<notin> set host" "port < 65536" "a < 2 ^ 31" "b < 2 ^ 31" "c < 2 ^ 31" "d < 2 ^ 31"
  shows "parseHostPort (host @ CHR '':'' # show_digits 10 port) = Inr (Some (host, of_nat port))
    \<and> isMulticastAddress (host @ CHR '':'' # show_digits 10 port) = Inr False
    \<and> isMulticastAddress (dotted a b c d) = Inr (224 \<le> a \<and> a \<le> 239)"
proof -
  have "stoi (show_digits 10 port) = Inr (int port)" using assms(2) by (simp add: stoi_show)
  then have "parseHostPort (host @ CHR '':'' # show_digits 10 port) = Inr (Some (host, of_nat port))"
    using assms(1) by (simp add: parseHostPort_def split_delimiter)
  moreover have "CHR '':'' \<notin> set (dotted a b c d)" by (simp add: dotted_def show_digits_chars)
  ultimately show ?thesis
    using assms(3-6) by (simp add: isMulticastAddress_def getlines_dotted stoi_show)
qed

lemma address_forms_witness:
  "parseHostPort (''node1'' @ CHR '':'' # show_digits 10 12345) = Inr (Some (''node1'', 12345))
   \<and> isMulticastAddress (dotted 239 1 1 1) = Inr True"
  using address_forms [of "''node1''" 12345 239 1 1 1] by simp

end
