(* ===== verification/Engine.thy ===== *)
theory Engine
  imports Session Endpoint
begin

text \<open>
  \<open>RapidTransfer\<close> of \<open>src/include/rapid_transfer.h\<close> and \<open>src/src/rapid_transfer.cpp\<close>, over the interface
  \<open>Protocol\<close> of \<open>src/src/protocol.h\<close>.

  The virtual functions are a record of operations on the state \<open>'p\<close> of a protocol.  What the
  engine relies on for a connection is the locale \<open>connection_protocol\<close>; the theories of the protocols
  interpret it.
\<close>

section \<open>The interface of a protocol\<close>

record 'p protocol =
  pr_construct :: "string \<Rightarrow> u8 \<Rightarrow> int \<Rightarrow> 'p \<Rightarrow> (int \<times> 'p) outcome"
  pr_deconstruct :: "'p \<Rightarrow> (int \<times> 'p) outcome"
  pr_joinMulticast :: "string \<Rightarrow> 'p \<Rightarrow> (int \<times> 'p) outcome"
  pr_leaveMulticast :: "string \<Rightarrow> 'p \<Rightarrow> (int \<times> 'p) outcome"
  pr_setMulticastReplicas :: "string \<Rightarrow> string list \<Rightarrow> 'p \<Rightarrow> (int \<times> 'p) outcome"
  pr_prepareConnection :: "string \<Rightarrow> attributes \<Rightarrow> 'p \<Rightarrow> (int \<times> attributes \<times> 'p) outcome"
  pr_setupConnection :: "string \<Rightarrow> attributes \<Rightarrow> 'p \<Rightarrow> (int \<times> 'p) outcome"
  pr_send :: "string \<Rightarrow> buffer list \<Rightarrow> 'p \<Rightarrow> (int \<times> 'p) outcome"
  pr_receive :: "string \<Rightarrow> buffer list \<Rightarrow> 'p \<Rightarrow> (int \<times> 'p) outcome"
  pr_getStatus :: "int \<Rightarrow> 'p \<Rightarrow> ((status \<times> u64 option) \<times> 'p) outcome"
  pr_freeTask :: "int \<Rightarrow> 'p \<Rightarrow> (int \<times> 'p) outcome"
  pr_registerLocalMemory :: "addr \<Rightarrow> u64 \<Rightarrow> 'p \<Rightarrow> (int \<times> 'p) outcome"
  pr_unregisterLocalMemory :: "addr \<Rightarrow> 'p \<Rightarrow> (int \<times> 'p) outcome"
  pr_runStep :: "'p \<Rightarrow> (int \<times> 'p) outcome"

text \<open>The default of the multicast operations.\<close>

definition not_implemented :: "'p \<Rightarrow> (int \<times> 'p) outcome" where
  "not_implemented p = Inr (-1, p)"

section \<open>The engine\<close>

record 'p engine =
  eg_session_manager :: "'p session_manager"
  eg_protocol :: 'p

datatype protocol_kind =
    RdmaReliable
  | RdmaUnreliable u64 u64 u64
  | RdmaUnreliableMcast u64 u64 u64

text \<open>\<open>std::atoi\<close>: the value as \<open>long\<close>, cut to \<open>int\<close>; 0 without digits.\<close>

definition atoi :: "string \<Rightarrow> int" where
  "atoi s = (case fst (scan_int 10 s) of
       None \<Rightarrow> 0
     | Some (neg, v) \<Rightarrow> sint (word_of_int (if neg then max (- (2 ^ 63)) (- int v) else min (2 ^ 63 - 1) (int v)) :: 32 word))"

text \<open>\<open>getenv\<close> gives the value of a variable that is set.\<close>

definition env_size :: "(string \<Rightarrow> string option) \<Rightarrow> string \<Rightarrow> u64 \<Rightarrow> u64" where
  "env_size getenv name otherwise = (case getenv name of Some v \<Rightarrow> word_of_int (atoi v) | None \<Rightarrow> otherwise)"

definition select_protocol :: "(string \<Rightarrow> string option) \<Rightarrow> string \<Rightarrow> protocol_kind option" where
  "select_protocol getenv protocol =
     (let mtu_size = env_size getenv ''RT_MTU_SIZE'' 1024;
          max_packets = env_size getenv ''RT_MAX_PACKETS'' (102400 div 4 * 6);
          queue_capacity = env_size getenv ''RT_QUEUE_CAPACITY'' 4096
      in if protocol = ''rdma_reliable'' then Some RdmaReliable
         else if protocol = ''rdma_unreliable'' then Some (RdmaUnreliable mtu_size max_packets queue_capacity)
         else if protocol = ''rdma_unreliable_mcast'' then Some (RdmaUnreliableMcast mtu_size max_packets queue_capacity)
         else None)"

text \<open>The destructor of a protocol runs its \<open>deconstruct\<close>; the one of the session manager stops the listener.\<close>

definition RapidTransfer_delete :: "'p protocol \<Rightarrow> 'p engine \<Rightarrow> 'p engine outcome" where
  "RapidTransfer_delete ops e =
     obind (pr_deconstruct ops (eg_protocol e)) (\<lambda>(_, p).
       Inr \<lparr>eg_session_manager = (snd (sm_shutdownListener (eg_session_manager e)))\<lparr>sm_sessions := {}\<rparr>, eg_protocol = p\<rparr>)"

text \<open>
  \<open>new_protocol\<close> and \<open>ops\<close> are the constructor and the operations of the selected protocol;
  None is a null pointer.
\<close>

definition Create ::
  "(string \<Rightarrow> string option) \<Rightarrow> (protocol_kind \<Rightarrow> 'p) \<Rightarrow> (protocol_kind \<Rightarrow> 'p protocol) \<Rightarrow> string \<Rightarrow> string \<Rightarrow> u8 \<Rightarrow> int
     \<Rightarrow> 'p engine option outcome" where
  "Create getenv new_protocol ops protocol device_name rdma_port gid_index =
     (case select_protocol getenv protocol of
        None \<Rightarrow> Inr None
      | Some kind \<Rightarrow>
          obind (pr_construct (ops kind) device_name rdma_port gid_index (new_protocol kind)) (\<lambda>(ret, p).
            let e = \<lparr>eg_session_manager = SessionManager_new, eg_protocol = p\<rparr> in
            if ret \<noteq> 0 then obind (RapidTransfer_delete (ops kind) e) (\<lambda>_. Inr None) else Inr (Some e)))"

definition lift_protocol :: "('p \<Rightarrow> ('r \<times> 'p) outcome) \<Rightarrow> 'p engine \<Rightarrow> ('r \<times> 'p engine) outcome" where
  "lift_protocol f e = obind (f (eg_protocol e)) (\<lambda>(ret, p). Inr (ret, e\<lparr>eg_protocol := p\<rparr>))"

definition eg_joinMulticast :: "'p protocol \<Rightarrow> string \<Rightarrow> 'p engine \<Rightarrow> (int \<times> 'p engine) outcome" where
  "eg_joinMulticast ops multicast_addr = lift_protocol (pr_joinMulticast ops multicast_addr)"

definition eg_leaveMulticast :: "'p protocol \<Rightarrow> string \<Rightarrow> 'p engine \<Rightarrow> (int \<times> 'p engine) outcome" where
  "eg_leaveMulticast ops multicast_addr = lift_protocol (pr_leaveMulticast ops multicast_addr)"

definition makeConnectionIfNeeded ::
  "'p protocol \<Rightarrow> json \<Rightarrow> bool \<Rightarrow> 'w rpc \<Rightarrow> string \<Rightarrow> 'p engine \<Rightarrow> 'w \<Rightarrow> (int \<times> 'p engine \<times> 'w) outcome" where
  "makeConnectionIfNeeded ops js connected call peer_name e w =
     obind (isMulticastAddress peer_name) (\<lambda>multicast.
       if multicast then Inr (0, e, w)
       else if hasConnection peer_name (eg_session_manager e) then Inr (0, e, w)
       else obind (pr_prepareConnection ops peer_name Map.empty (eg_protocol e)) (\<lambda>(ret, request, p1).
         let e1 = e\<lparr>eg_protocol := p1\<rparr> in
         if ret \<noteq> 0 then Inr (-1, e1, w)
         else obind (sm_connect js connected call peer_name request Map.empty (eg_session_manager e1) w) (\<lambda>(ret, response, sm, w1).
           let e2 = e1\<lparr>eg_session_manager := sm\<rparr> in
           if ret \<noteq> 0 then Inr (-1, e2, w1)
           else obind (pr_setupConnection ops peer_name response (eg_protocol e2)) (\<lambda>(ret, p2).
             let e3 = e2\<lparr>eg_protocol := p2\<rparr> in
             if ret \<noteq> 0
             then Inr (-1, e3\<lparr>eg_session_manager := snd (sm_disconnect peer_name (eg_session_manager e3))\<rparr>, w1)
             else Inr (0, e3, w1)))))"

text \<open>The first connection that fails ends the loop.\<close>

fun make_connections ::
  "'p protocol \<Rightarrow> json \<Rightarrow> (string \<Rightarrow> bool) \<Rightarrow> (string \<Rightarrow> 'w rpc) \<Rightarrow> string list \<Rightarrow> 'p engine \<Rightarrow> 'w \<Rightarrow> (int \<times> 'p engine \<times> 'w) outcome" where
  "make_connections ops js connected call [] e w = Inr (0, e, w)"
| "make_connections ops js connected call (entry # entries) e w =
     obind (makeConnectionIfNeeded ops js (connected entry) (call entry) entry e w) (\<lambda>(ret, e1, w1).
       if ret \<noteq> 0 then Inr (ret, e1, w1) else make_connections ops js connected call entries e1 w1)"

definition eg_setMulticastReplicas ::
  "'p protocol \<Rightarrow> json \<Rightarrow> (string \<Rightarrow> bool) \<Rightarrow> (string \<Rightarrow> 'w rpc) \<Rightarrow> string \<Rightarrow> string list \<Rightarrow> 'p engine \<Rightarrow> 'w \<Rightarrow> (int \<times> 'p engine \<times> 'w) outcome" where
  "eg_setMulticastReplicas ops js connected call multicast_addr peer_name_list e w =
     obind (make_connections ops js connected call peer_name_list e w) (\<lambda>(ret, e1, w1).
       if ret \<noteq> 0 then Inr (ret, e1, w1)
       else obind (lift_protocol (pr_setMulticastReplicas ops multicast_addr peer_name_list) e1) (\<lambda>(ret, e2). Inr (ret, e2, w1)))"

definition eg_send ::
  "'p protocol \<Rightarrow> json \<Rightarrow> bool \<Rightarrow> 'w rpc \<Rightarrow> string \<Rightarrow> buffer list \<Rightarrow> 'p engine \<Rightarrow> 'w \<Rightarrow> (int \<times> 'p engine \<times> 'w) outcome" where
  "eg_send ops js connected call peer_name buffer_list e w =
     obind (makeConnectionIfNeeded ops js connected call peer_name e w) (\<lambda>(ret, e1, w1).
       if ret \<noteq> 0 then Inr (ret, e1, w1)
       else obind (lift_protocol (pr_send ops peer_name buffer_list) e1) (\<lambda>(ret, e2).
         Inr (ret, if ret < 0 then e2\<lparr>eg_session_manager := snd (sm_disconnect peer_name (eg_session_manager e2))\<rparr> else e2, w1)))"

definition eg_receive :: "'p protocol \<Rightarrow> string \<Rightarrow> buffer list \<Rightarrow> 'p engine \<Rightarrow> (int \<times> 'p engine) outcome" where
  "eg_receive ops peer_name buffer_list = lift_protocol (pr_receive ops peer_name buffer_list)"

text \<open>The status, and what is stored to \<open>transferred_bytes\<close>, if anything is.\<close>

definition eg_getStatus :: "'p protocol \<Rightarrow> int \<Rightarrow> 'p engine \<Rightarrow> ((status \<times> u64 option) \<times> 'p engine) outcome" where
  "eg_getStatus ops task = lift_protocol (pr_getStatus ops task)"

definition eg_freeTask :: "'p protocol \<Rightarrow> int \<Rightarrow> 'p engine \<Rightarrow> (int \<times> 'p engine) outcome" where
  "eg_freeTask ops task_id = lift_protocol (pr_freeTask ops task_id)"

definition eg_registerLocalMemory :: "'p protocol \<Rightarrow> addr \<Rightarrow> u64 \<Rightarrow> 'p engine \<Rightarrow> (int \<times> 'p engine) outcome" where
  "eg_registerLocalMemory ops a len = lift_protocol (pr_registerLocalMemory ops a len)"

definition eg_unregisterLocalMemory :: "'p protocol \<Rightarrow> addr \<Rightarrow> 'p engine \<Rightarrow> (int \<times> 'p engine) outcome" where
  "eg_unregisterLocalMemory ops a = lift_protocol (pr_unregisterLocalMemory ops a)"

definition eg_runStep :: "'p protocol \<Rightarrow> 'p engine \<Rightarrow> (int \<times> 'p engine) outcome" where
  "eg_runStep ops = lift_protocol (pr_runStep ops)"

text \<open>The user's callback may be empty; it may use the protocol.\<close>

type_synonym 'p connection_callback = "(string \<Rightarrow> bool \<Rightarrow> 'p \<Rightarrow> 'p outcome) option"

definition run_callback :: "'p connection_callback \<Rightarrow> string \<Rightarrow> bool \<Rightarrow> 'p \<Rightarrow> 'p outcome" where
  "run_callback callback peer_name joins p = (case callback of None \<Rightarrow> Inr p | Some f \<Rightarrow> f peer_name joins p)"

definition on_accept :: "'p protocol \<Rightarrow> 'p connection_callback \<Rightarrow> 'p accept_callback" where
  "on_accept ops callback peer_name request response p =
     obind (pr_prepareConnection ops peer_name response p) (\<lambda>(ret, response1, p1).
       if ret \<noteq> 0 then Inr (-1, response1, p1)
       else obind (pr_setupConnection ops peer_name request p1) (\<lambda>(ret, p2).
         if ret \<noteq> 0 then Inr (-1, response1, p2)
         else obind (run_callback callback peer_name True p2) (\<lambda>p3. Inr (0, response1, p3))))"

definition eg_startListener :: "'p protocol \<Rightarrow> string \<Rightarrow> 'p connection_callback \<Rightarrow> 'p engine \<Rightarrow> (int \<times> 'p engine) outcome" where
  "eg_startListener ops listen_address callback e =
     obind (sm_startListener listen_address (on_accept ops callback) (eg_session_manager e)) (\<lambda>(ret, sm).
       Inr (ret, e\<lparr>eg_session_manager := sm\<rparr>))"

definition eg_shutdownListener :: "'p engine \<Rightarrow> int \<times> 'p engine" where
  "eg_shutdownListener e =
     (case sm_shutdownListener (eg_session_manager e) of (ret, sm) \<Rightarrow> (ret, e\<lparr>eg_session_manager := sm\<rparr>))"

section \<open>The table of sessions\<close>

lemma sm_connect_sessions:
  assumes "sm_connect js connected call address request response sm w = Inr (ret, response', sm', w')"
  shows "sm' = (if ret = 0 then sm\<lparr>sm_sessions := insert address (sm_sessions sm)\<rparr> else sm)"
  using assms by (auto simp: sm_connect_def writeAttributes_def obind_eq_Inr split: if_splits prod.splits)

lemma makeConnection_record:
  assumes "makeConnectionIfNeeded ops js connected call peer e w = Inr (ret, e', w')"
  shows "(if isMulticastAddress peer = Inr True then ret = 0 \<and> e' = e \<and> w' = w
          else (ret = 0 \<longleftrightarrow> hasConnection peer (eg_session_manager e')))
    \<and> (other \<noteq> peer \<longrightarrow> hasConnection other (eg_session_manager e') = hasConnection other (eg_session_manager e))"
proof -
  obtain multicast where m: "isMulticastAddress peer = Inr multicast"
    using assms by (auto simp: makeConnectionIfNeeded_def obind_eq_Inr)
  show ?thesis
  proof (cases "multicast \<or> hasConnection peer (eg_session_manager e)")
    case True
    then show ?thesis using assms m by (auto simp: makeConnectionIfNeeded_def)
  next
    case False
    then obtain ret1 request p1 where p: "pr_prepareConnection ops peer Map.empty (eg_protocol e) = Inr (ret1, request, p1)"
      using assms m by (auto simp: makeConnectionIfNeeded_def obind_eq_Inr)
    show ?thesis
    proof (cases "ret1 = 0")
      case True
      then obtain ret2 response sm w1 where
        c: "sm_connect js connected call peer request Map.empty (eg_session_manager e) w = Inr (ret2, response, sm, w1)"
        using assms m p False by (auto simp: makeConnectionIfNeeded_def obind_eq_Inr)
      note sm = sm_connect_sessions [OF c]
      show ?thesis
      proof (cases "ret2 = 0")
        case r2: True
        then obtain ret3 p2 where "pr_setupConnection ops peer response p1 = Inr (ret3, p2)"
          using assms m p False True c by (auto simp: makeConnectionIfNeeded_def obind_eq_Inr)
        then show ?thesis
          using assms m p False True c r2 sm
          by (auto simp: makeConnectionIfNeeded_def hasConnection_def sm_disconnect_def Let_def split: if_splits)
      next
        case r2: False
        then show ?thesis using assms m p False True c sm by (auto simp: makeConnectionIfNeeded_def hasConnection_def Let_def)
      qed
    next
      case r1: False
      then show ?thesis using assms m p False by (auto simp: makeConnectionIfNeeded_def hasConnection_def Let_def)
    qed
  qed
qed

lemma make_connections_record:
  assumes "make_connections ops js connected call peers e w = Inr (0, e', w')" "peer \<in> set peers \<or> hasConnection peer (eg_session_manager e)"
  shows "isMulticastAddress peer = Inr True \<or> hasConnection peer (eg_session_manager e')"
  using assms
proof (induction peers arbitrary: e w)
  case (Cons p peers)
  obtain ret e1 w1 where m: "makeConnectionIfNeeded ops js (connected p) (call p) p e w = Inr (ret, e1, w1)"
    using Cons.prems(1) by (auto simp: obind_eq_Inr)
  have r: "ret = 0" "make_connections ops js connected call peers e1 w1 = Inr (0, e', w')"
    using Cons.prems(1) m by (auto split: if_splits)
  show ?case
  proof (cases "peer \<in> set peers \<or> hasConnection peer (eg_session_manager e1)")
    case True
    then show ?thesis using Cons.IH [OF r(2)] by blast
  next
    case False
    then show ?thesis using makeConnection_record [OF m, of peer] Cons.prems(2) r(1) by (auto split: if_splits)
  qed
qed simp

text \<open>
  C23. A session is on record exactly when its connection stands.  When \<open>makeConnectionIfNeeded\<close> returns 0
  for an address that is no multicast group, the peer is on record; when it returns an error the peer is
  not on record, so that the next attempt connects again; the sessions with other peers stay as they are, and for a
  multicast group nothing happens.
\<close>

theorem connection_on_record:
  assumes "makeConnectionIfNeeded ops js connected call peer e w = Inr (ret, e', w')"
  shows "(if isMulticastAddress peer = Inr True then ret = 0 \<and> e' = e \<and> w' = w
          else (ret = 0 \<longleftrightarrow> hasConnection peer (eg_session_manager e')))
    \<and> (other \<noteq> peer \<longrightarrow> hasConnection other (eg_session_manager e') = hasConnection other (eg_session_manager e))"
  using assms by (rule makeConnection_record)

definition test_ops :: "unit protocol" where
  "test_ops = \<lparr>pr_construct = (\<lambda>_ _ _ p. Inr (0, p)), pr_deconstruct = (\<lambda>p. Inr (0, p)), pr_joinMulticast = (\<lambda>_. not_implemented), pr_leaveMulticast = (\<lambda>_. not_implemented),
     pr_setMulticastReplicas = (\<lambda>_ _. not_implemented), pr_prepareConnection = (\<lambda>_ a p. Inr (0, a, p)),
     pr_setupConnection = (\<lambda>_ _ p. Inr (0, p)), pr_send = (\<lambda>_ _ p. Inr (0, p)), pr_receive = (\<lambda>_ _ p. Inr (0, p)),
     pr_getStatus = (\<lambda>_ p. Inr ((UNKNOWN, None), p)), pr_freeTask = (\<lambda>_ p. Inr (0, p)), pr_registerLocalMemory = (\<lambda>_ _ p. Inr (0, p)),
     pr_unregisterLocalMemory = (\<lambda>_ p. Inr (0, p)), pr_runStep = (\<lambda>p. Inr (0, p))\<rparr>"

theorem connection_on_record_witness:
  "\<exists>e'. makeConnectionIfNeeded test_ops \<lparr>js_write = (\<lambda>_. ''{}''), js_read = (\<lambda>_. Inr (Some Map.empty))\<rparr> True (\<lambda>t w. (Some t, w)) ''b:1''
       \<lparr>eg_session_manager = SessionManager_new, eg_protocol = ()\<rparr> () = Inr (0, e', ()) \<and> hasConnection ''b:1'' (eg_session_manager e')"
proof -
  let ?js = "\<lparr>js_write = (\<lambda>_. ''{}''), js_read = (\<lambda>_. Inr (Some Map.empty))\<rparr>"
  let ?e = "\<lparr>eg_session_manager = SessionManager_new, eg_protocol = ()\<rparr>"
  obtain e' where r: "makeConnectionIfNeeded test_ops ?js True (\<lambda>t w. (Some t, w)) ''b:1'' ?e () = Inr (0, e', ())"
    by (simp add: makeConnectionIfNeeded_def isMulticastAddress_def hasConnection_def SessionManager_new_def test_ops_def
        sm_connect_def writeAttributes_def readAttributes_def)
  have "isMulticastAddress ''b:1'' = Inr False" by (simp add: isMulticastAddress_def)
  then show ?thesis using r connection_on_record [OF r] by auto
qed

text \<open>
  The names given to peers that connect are different for different peers, and a process can only receive from
  them: \<open>send\<close> to such a name throws \<open>std::invalid_argument\<close>, whatever the state and the protocol, because the test
  for a multicast address parses the name as a number.
\<close>

lemma accepted_peer_receive_only:
  "(accepted_name u = accepted_name w \<longleftrightarrow> u = w)
   \<and> eg_send ops js connected call (accepted_name u) buffer_list e rest = Inl Throw"
  by (simp add: accepted_name_inject eg_send_def makeConnectionIfNeeded_def accepted_name_throws)

section \<open>Connections between two engines\<close>

text \<open>The attributes the protocols exchange: known keys and ASCII text.\<close>

definition ascii :: "string \<Rightarrow> bool" where
  "ascii s \<longleftrightarrow> list_all (\<lambda>c. of_char c < (128 :: nat)) s"

definition attribute_keys :: "string list" where
  "attribute_keys = [''lid'', ''gid'', ''qp'', ''ext_qp'']"

definition json_safe :: "attributes \<Rightarrow> bool" where
  "json_safe a \<longleftrightarrow> dom a \<subseteq> set attribute_keys \<and> (\<forall>v\<in>ran a. ascii v)"

lemma ascii_simps [simp]: "ascii []" "ascii (c # s) \<longleftrightarrow> of_char c < (128 :: nat) \<and> ascii s" "ascii (s @ t) \<longleftrightarrow> ascii s \<and> ascii t"
  by (simp_all add: ascii_def)

lemma ascii_concat: "(\<And>s. s \<in> set ss \<Longrightarrow> ascii s) \<Longrightarrow> ascii (concat ss)"
  by (induction ss) auto

lemma ascii_digit: "b \<le> 16 \<Longrightarrow> is_digit b c \<Longrightarrow> of_char c < (128 :: nat)"
  by (auto simp: is_digit_def digit_value_def Let_def split: if_splits)

lemma ascii_show_digits: "ascii (show_digits 10 n)"
  using show_digits_are_digits [of 10 n] ascii_digit [of 10] by (auto simp: ascii_def list_all_iff)

lemma ascii_ToString: "ascii (ToString xs)"
  by (auto simp: ToString_def ascii_show_digits intro!: ascii_concat)

lemma ascii_gid_string: "ascii (gid_string raw)"
proof -
  have "of_char (digit_char d) < (128 :: nat)" if "d < 16" for d
    using ascii_digit [of 16 "digit_char d"] digit_value_char [OF that] that by (simp add: is_digit_def)
  moreover have "unat x < 256" for x :: u8 using unsigned_less [of x] by simp
  then have "unat x div 16 < 16" for x :: u8 by (simp add: less_mult_imp_div_less)
  ultimately have "ascii (hex2 x)" for x by (simp add: hex2_def)
  then show ?thesis by (auto simp: gid_string_def intro!: ascii_concat)
qed

lemmas ascii_attributes = ascii_show_digits ascii_ToString ascii_gid_string

text \<open>What is used of the JSON library: it reads back such attributes, and never writes an empty text.\<close>

definition json_ok :: "json \<Rightarrow> bool" where
  "json_ok js \<longleftrightarrow> (\<forall>a. json_safe a \<longrightarrow> js_write js a \<noteq> [] \<and> js_read js (js_write js a) = Inr (Some a))"

text \<open>The handler of the listener in the process that is called.\<close>

definition serve :: "json \<Rightarrow> string \<Rightarrow> 'p engine \<Rightarrow> (string \<times> 'p engine) outcome" where
  "serve js request_json e =
     obind (exchangeMetadata js request_json (eg_session_manager e) (eg_protocol e)) (\<lambda>(answer, sm, p).
       Inr (answer, \<lparr>eg_session_manager = sm, eg_protocol = p\<rparr>))"

text \<open>What is used of the call: a handler that returns answers it.\<close>

definition rpc_ok :: "json \<Rightarrow> 'p engine rpc \<Rightarrow> bool" where
  "rpc_ok js call \<longleftrightarrow> (\<forall>request e answer e'. serve js request e = Inr (answer, e') \<longrightarrow> call request e = (Some answer, e'))"

text \<open>
  A protocol that can connect.  \<open>able n p\<close>: \<open>p\<close> can connect to a new peer \<open>n\<close>; \<open>announced n a p\<close>: \<open>a\<close>
  describes the endpoint of \<open>p\<close> for \<open>n\<close>, which waits for its peer; \<open>accepts p q\<close>: \<open>p\<close> can reach \<open>q\<close>;
  \<open>linked n a b p\<close>: that endpoint is connected to the one \<open>b\<close> describes.
\<close>

locale connection_protocol =
  fixes ops :: "'p protocol"
    and able :: "string \<Rightarrow> 'p \<Rightarrow> bool"
    and announced :: "string \<Rightarrow> attributes \<Rightarrow> 'p \<Rightarrow> bool"
    and accepts :: "'p \<Rightarrow> 'p \<Rightarrow> bool"
    and linked :: "string \<Rightarrow> attributes \<Rightarrow> attributes \<Rightarrow> 'p \<Rightarrow> bool"
  assumes prepare_ok: "able n p \<Longrightarrow>
      \<exists>a p'. pr_prepareConnection ops n Map.empty p = Inr (0, a, p') \<and> announced n a p' \<and> json_safe a
        \<and> (\<forall>q. accepts p' q = accepts p q \<and> accepts q p' = accepts q p)"
    and setup_ok: "announced n a p \<Longrightarrow> announced m b q \<Longrightarrow> accepts p q \<Longrightarrow>
      \<exists>p'. pr_setupConnection ops n b p = Inr (0, p') \<and> linked n a b p'"
begin

lemma accept_links:
  assumes "able n q" "announced m a p" "accepts q p" "json_safe a" "json_ok js"
    "sm_on_accept sm = Some (on_accept ops callback)" "accepted_name (sm_uid sm) = n"
    "\<And>q'. \<exists>q''. run_callback callback n True q' = Inr q''"
  shows "\<exists>b q1 q2 q3. exchangeMetadata js (js_write js a) sm q = Inr (js_write js b, sm\<lparr>sm_uid := sm_uid sm + 1\<rparr>, q3)
    \<and> announced n b q1 \<and> (\<forall>p. accepts p q1 = accepts p q) \<and> linked n b a q2 \<and> run_callback callback n True q2 = Inr q3 \<and> json_safe b"
proof -
  obtain b q1 where b: "pr_prepareConnection ops n Map.empty q = Inr (0, b, q1)" "announced n b q1" "json_safe b"
      "\<forall>p. accepts q1 p = accepts q p \<and> accepts p q1 = accepts p q"
    using prepare_ok [OF assms(1)] by blast
  obtain q2 where q2: "pr_setupConnection ops n a q1 = Inr (0, q2)" "linked n b a q2"
    using setup_ok [OF b(2) assms(2)] b(4) assms(3) by blast
  obtain q3 where q3: "run_callback callback n True q2 = Inr q3" using assms(8) by blast
  have "readAttributes js (js_write js a) Map.empty = Inr (0, a)"
    using assms(4,5) by (simp add: json_ok_def readAttributes_def)
  then have "exchangeMetadata js (js_write js a) sm q = Inr (js_write js b, sm\<lparr>sm_uid := sm_uid sm + 1\<rparr>, q3)"
    using assms(6,7) b(1) q2(1) q3 by (simp add: exchangeMetadata_def on_accept_def writeAttributes_def Let_def)
  then show ?thesis using b q2 q3 by blast
qed

lemma handshake:
  assumes js: "json_ok js" and rpc: "rpc_ok js call"
    and peer: "isMulticastAddress peer = Inr False" "\<not> hasConnection peer (eg_session_manager e)"
    and able: "able peer (eg_protocol e)" "able (accepted_name (sm_uid (eg_session_manager r))) (eg_protocol r)"
    and accepts: "accepts (eg_protocol e) (eg_protocol r)" "accepts (eg_protocol r) (eg_protocol e)"
    and listens: "sm_on_accept (eg_session_manager r) = Some (on_accept ops callback)"
    and callback: "\<And>n q. \<exists>q'. run_callback callback n True q = Inr q'"
  shows "\<exists>e' r' a b q. makeConnectionIfNeeded ops js True call peer e r = Inr (0, e', r')
    \<and> hasConnection peer (eg_session_manager e') \<and> linked peer a b (eg_protocol e')
    \<and> linked (accepted_name (sm_uid (eg_session_manager r))) b a q
    \<and> run_callback callback (accepted_name (sm_uid (eg_session_manager r))) True q = Inr (eg_protocol r')"
proof -
  let ?n = "accepted_name (sm_uid (eg_session_manager r))"
  obtain a p1 where a: "pr_prepareConnection ops peer Map.empty (eg_protocol e) = Inr (0, a, p1)" "announced peer a p1" "json_safe a"
      "\<forall>q. accepts p1 q = accepts (eg_protocol e) q \<and> accepts q p1 = accepts q (eg_protocol e)"
    using prepare_ok [OF able(1)] by blast
  have "accepts (eg_protocol r) p1" using a(4) accepts(2) by simp
  from accept_links [OF able(2) a(2) this a(3) js listens refl callback] obtain b q1 q2 q3 where
    b: "exchangeMetadata js (js_write js a) (eg_session_manager r) (eg_protocol r)
          = Inr (js_write js b, (eg_session_manager r)\<lparr>sm_uid := sm_uid (eg_session_manager r) + 1\<rparr>, q3)"
      "announced ?n b q1" "\<forall>p. accepts p q1 = accepts p (eg_protocol r)" "linked ?n b a q2"
      "run_callback callback ?n True q2 = Inr q3" "json_safe b" by blast
  define r' where "r' = \<lparr>eg_session_manager = (eg_session_manager r)\<lparr>sm_uid := sm_uid (eg_session_manager r) + 1\<rparr>, eg_protocol = q3\<rparr>"
  have "serve js (js_write js a) r = Inr (js_write js b, r')" using b(1) by (simp add: serve_def r'_def)
  then have "call (js_write js a) r = (Some (js_write js b), r')" using rpc by (simp add: rpc_ok_def)
  moreover have "readAttributes js (js_write js b) Map.empty = Inr (0, b)"
    using js b(6) by (simp add: json_ok_def readAttributes_def)
  ultimately have c: "sm_connect js True call peer a Map.empty (eg_session_manager e) r
      = Inr (0, b, (eg_session_manager e)\<lparr>sm_sessions := insert peer (sm_sessions (eg_session_manager e))\<rparr>, r')"
    by (simp add: sm_connect_def writeAttributes_def)
  obtain p2 where p2: "pr_setupConnection ops peer b p1 = Inr (0, p2)" "linked peer a b p2"
    using setup_ok [OF a(2) b(2)] a(4) b(3) accepts(1) by blast
  let ?e' = "\<lparr>eg_session_manager = (eg_session_manager e)\<lparr>sm_sessions := insert peer (sm_sessions (eg_session_manager e))\<rparr>, eg_protocol = p2\<rparr>"
  have "makeConnectionIfNeeded ops js True call peer e r = Inr (0, ?e', r')"
    using peer a(1) c p2(1) by (simp add: makeConnectionIfNeeded_def Let_def)
  moreover have "hasConnection peer (eg_session_manager ?e')" by (simp add: hasConnection_def)
  ultimately show ?thesis using p2(2) b(4,5) by (intro exI [of _ ?e'] exI [of _ r'] exI [of _ a] exI [of _ b] exI [of _ q2]) (simp add: r'_def)
qed

end

section \<open>A codec for attributes\<close>

text \<open>An instance of what is assumed of the JSON library and of the call.\<close>

primrec encode_text :: "string \<Rightarrow> string" where
  "encode_text [] = ''.''"
| "encode_text (c # cs) = CHR ''c'' # c # encode_text cs"

fun decode_text :: "string \<Rightarrow> string \<times> string" where
  "decode_text (t # c # cs) = (if t = CHR ''c'' then case decode_text cs of (v, r) \<Rightarrow> (c # v, r) else ([], c # cs))"
| "decode_text cs = ([], [])"

primrec encode_keys :: "string list \<Rightarrow> attributes \<Rightarrow> string" where
  "encode_keys [] a = ''e''"
| "encode_keys (k # ks) a = (case a k of None \<Rightarrow> ''n'' | Some v \<Rightarrow> CHR ''s'' # encode_text v) @ encode_keys ks a"

primrec decode_keys :: "string list \<Rightarrow> string \<Rightarrow> attributes" where
  "decode_keys [] s = Map.empty"
| "decode_keys (k # ks) s =
     (if hd s = CHR ''s'' then case decode_text (tl s) of (v, r) \<Rightarrow> (decode_keys ks r)(k \<mapsto> v) else decode_keys ks (tl s))"

definition plain_json :: json where
  "plain_json = \<lparr>js_write = encode_keys attribute_keys, js_read = (\<lambda>s. Inr (Some (decode_keys attribute_keys s)))\<rparr>"

lemma encode_keys_not_Nil [simp]: "encode_keys ks a \<noteq> []"
  by (induction ks) (auto split: option.splits)

lemma decode_text_encode: "r \<noteq> [] \<Longrightarrow> decode_text (encode_text v @ r) = (v, r)"
  by (induction v) (auto simp: neq_Nil_conv)

lemma decode_keys_encode: "distinct ks \<Longrightarrow> decode_keys ks (encode_keys ks a) = a |` set ks"
proof (induction ks)
  case (Cons k ks)
  then show ?case
    by (cases "a k") (auto simp: decode_text_encode restrict_map_def fun_eq_iff)
qed simp

lemma map_restrict_superset: "dom a \<subseteq> A \<Longrightarrow> a |` A = a"
proof (rule ext)
  fix x
  assume "dom a \<subseteq> A"
  then show "(a |` A) x = a x" by (cases "a x") (auto simp: restrict_map_def)
qed

lemma plain_json_ok: "json_ok plain_json"
proof -
  have "distinct attribute_keys" by (simp add: attribute_keys_def)
  moreover have "a |` set attribute_keys = a" if "json_safe a" for a
    using that by (intro map_restrict_superset) (simp add: json_safe_def)
  ultimately show ?thesis by (simp add: json_ok_def plain_json_def decode_keys_encode)
qed

definition direct_call :: "json \<Rightarrow> 'p engine rpc" where
  "direct_call js request e = (case serve js request e of Inr (answer, e') \<Rightarrow> (Some answer, e') | Inl _ \<Rightarrow> (None, e))"

lemma direct_call_ok: "rpc_ok js (direct_call js)"
  by (simp add: rpc_ok_def direct_call_def)

end
