(* ===== verification/Unreliable.thy ===== *)
theory Unreliable
  imports Context ContextMcast Engine
begin

text \<open>
  The protocol objects on top of the unreliable contexts: \<open>RdmaUnreliableProtocol\<close> and
  \<open>RdmaUnreliableMcastProtocol\<close> of \<open>src/src/protocols/rdma_unreliable/impl.{h,cpp}\<close> and
  \<open>impl_mcast.{h,cpp}\<close>, as protocols of the engine.

  The two classes share their text up to the context \<open>'c\<close>.  The worker thread is
  represented by whether it runs; a round of it is an operation.  What the device, the clock and the
  order of a hash map answer comes from the state \<open>'e\<close> of the environment.
\<close>

section \<open>The wrappers\<close>

record 'c unreliable =
  un_context :: 'c
  un_spawn_worker :: bool
  un_worker_running :: bool
  un_worker_alive :: bool

definition kDefaultMTUSize :: u64 where
  "kDefaultMTUSize = 4096"

definition kMaxPackets :: u64 where
  "kMaxPackets = 102400"

definition kQueueCapacity :: u64 where
  "kQueueCapacity = 4096"

text \<open>\<open>worker_running_\<close> is left uninitialised.\<close>

definition RdmaUnreliableProtocol_new :: "'c \<Rightarrow> bool \<Rightarrow> bool \<Rightarrow> 'c unreliable" where
  "RdmaUnreliableProtocol_new ctx garbage spawn_worker =
     \<lparr>un_context = ctx, un_spawn_worker = spawn_worker, un_worker_running = garbage, un_worker_alive = False\<rparr>"

definition un_lift :: "('c \<Rightarrow> ('r \<times> 'c) outcome) \<Rightarrow> 'c unreliable \<Rightarrow> ('r \<times> 'c unreliable) outcome" where
  "un_lift f p = obind (f (un_context p)) (\<lambda>(ret, c). Inr (ret, p\<lparr>un_context := c\<rparr>))"

definition un_construct :: "('c \<Rightarrow> (int \<times> 'c) outcome) \<Rightarrow> 'c unreliable \<Rightarrow> (int \<times> 'c unreliable) outcome" where
  "un_construct construct p =
     obind (un_lift construct p) (\<lambda>(ret, p1).
       if ret \<noteq> 0 then Inr (ret, p1)
       else if \<not> un_spawn_worker p1 then Inr (0, p1)
       else Inr (0, p1\<lparr>un_worker_running := True, un_worker_alive := True\<rparr>))"

text \<open>A round of the worker; it ends on a step that fails, or when it is told to.\<close>

definition un_worker_round :: "('c \<Rightarrow> (int \<times> 'c) outcome) \<Rightarrow> 'c unreliable \<Rightarrow> 'c unreliable outcome" where
  "un_worker_round step p =
     (if \<not> un_worker_alive p then Inr p
      else if \<not> un_worker_running p then Inr (p\<lparr>un_worker_alive := False\<rparr>)
      else obind (un_lift step p) (\<lambda>(rc, p1). Inr (if rc \<noteq> 0 then p1\<lparr>un_worker_alive := False\<rparr> else p1)))"

text \<open>\<open>join\<close> returns once the worker has ended.\<close>

definition un_deconstruct :: "('c \<Rightarrow> (int \<times> 'c) outcome) \<Rightarrow> 'c unreliable \<Rightarrow> (int \<times> 'c unreliable) outcome" where
  "un_deconstruct deconstruct p =
     un_lift deconstruct (if un_spawn_worker p then p\<lparr>un_worker_running := False, un_worker_alive := False\<rparr> else p)"

definition un_runStep :: "('c \<Rightarrow> (int \<times> 'c) outcome) \<Rightarrow> 'c unreliable \<Rightarrow> (int \<times> 'c unreliable) outcome" where
  "un_runStep step p = (if \<not> un_spawn_worker p then un_lift step p else Inr (0, p))"

text \<open>The status is the one before the step.\<close>

definition un_getStatus ::
  "('c \<Rightarrow> status outcome) \<Rightarrow> ('c unreliable \<Rightarrow> (int \<times> 'c unreliable) outcome) \<Rightarrow> 'c unreliable \<Rightarrow> ((status \<times> u64 option) \<times> 'c unreliable) outcome" where
  "un_getStatus status step p =
     obind (status (un_context p)) (\<lambda>st.
       if st = PENDING \<and> \<not> un_spawn_worker p then obind (step p) (\<lambda>(_, p1). Inr ((st, None), p1)) else Inr ((st, None), p))"

definition kThreshold :: u64 where
  "kThreshold = 0"

text \<open>\<open>last_ts\<close> is local to the thread.\<close>

definition doEventLoop :: "('c \<Rightarrow> (int \<times> 'c) outcome) \<Rightarrow> u64 \<Rightarrow> u64 \<Rightarrow> 'c unreliable \<Rightarrow> (u64 \<times> int \<times> 'c unreliable) outcome" where
  "doEventLoop step current_ts last_ts p =
     (if current_ts - last_ts < kThreshold then Inr (last_ts, 0, p)
      else obind (un_lift step p) (\<lambda>(ret, p1). Inr (current_ts, ret, p1)))"

section \<open>The environment\<close>

record 'e ud_environment =
  uv_construct :: "string \<Rightarrow> u8 \<Rightarrow> int \<Rightarrow> 'e \<Rightarrow> (int \<times> controller) \<times> addr"
  uv_join :: "string \<Rightarrow> 'e \<Rightarrow> (u32 list \<times> mcast_io) option"
  uv_reg_mr :: reg_mr
  uv_group_reg_mr :: "nat \<Rightarrow> reg_mr"
  uv_dereg_mr :: dereg_mr
  uv_post :: "'e \<Rightarrow> ibv_post"
  uv_handles :: "nat \<Rightarrow> packet_handle"
  uv_value :: "nat \<Rightarrow> u32"
  uv_garbage :: u16
  uv_create_ah :: "ibv_ah_attr \<Rightarrow> nat option"
  uv_now :: "'e \<Rightarrow> u64"
  uv_order :: "'e \<Rightarrow> int list"
  uv_recv_wcs :: "'e \<Rightarrow> ibv_wc list option"
  uv_group_wcs :: "'e \<Rightarrow> (string \<times> ibv_wc list option list) list"
  uv_send_wcs :: "'e \<Rightarrow> ibv_wc list option"
  uv_next :: "'e \<Rightarrow> 'e"

text \<open>An operation of the process moves the environment on.\<close>

definition env_op :: "'e ud_environment \<Rightarrow> ('p \<Rightarrow> ('r \<times> 'p) outcome) \<Rightarrow> 'p \<times> 'e \<Rightarrow> ('r \<times> 'p \<times> 'e) outcome" where
  "env_op v f = (\<lambda>(p, e). obind (f p) (\<lambda>(ret, p1). Inr (ret, p1, uv_next v e)))"

definition ctx_step :: "'e ud_environment \<Rightarrow> 'e \<Rightarrow> unicast_context \<Rightarrow> (int \<times> unicast_context) outcome" where
  "ctx_step v e = ctx_runStep (uv_post v e) (uv_handles v 0) (uv_garbage v) (uv_now v e) (uv_order v e) (uv_recv_wcs v e) (uv_send_wcs v e)"

definition mx_step :: "'e ud_environment \<Rightarrow> 'e \<Rightarrow> mcast_context \<Rightarrow> (int \<times> mcast_context) outcome" where
  "mx_step v e = mx_runStep (uv_post v e) (uv_handles v 0) (uv_garbage v) (uv_now v e) (uv_order v e) (uv_recv_wcs v e)
     (uv_group_wcs v e) (uv_send_wcs v e)"

type_synonym 'e ud_process = "unicast_context unreliable \<times> 'e"
type_synonym 'e mcast_process = "mcast_context unreliable \<times> 'e"

definition unreliable_ops :: "'e ud_environment \<Rightarrow> 'e ud_process protocol" where
  "unreliable_ops v =
     \<lparr>pr_construct = (\<lambda>device_name rdma_port gid_index (p, e).
        case uv_construct v device_name rdma_port gid_index e of (ctl, arena) \<Rightarrow>
          env_op v (un_construct (ctx_construct ctl arena (uv_reg_mr v) (uv_post v e) (uv_handles v))) (p, e)),
      pr_deconstruct = (\<lambda>(p, e). env_op v (un_deconstruct (\<lambda>c. Inr (ctx_deconstruct (uv_order v e) (uv_dereg_mr v) c))) (p, e)),
      pr_joinMulticast = (\<lambda>_. not_implemented),
      pr_leaveMulticast = (\<lambda>_. not_implemented),
      pr_setMulticastReplicas = (\<lambda>_ _. not_implemented),
      pr_prepareConnection = (\<lambda>peer_name local_attr (p, e).
        case ctx_prepareConnection (uv_garbage v) peer_name local_attr (un_context p) of (ret, a, c) \<Rightarrow>
          Inr (ret, a, p\<lparr>un_context := c\<rparr>, uv_next v e)),
      pr_setupConnection = (\<lambda>peer_name peer.
        env_op v (un_lift (ctx_setupConnection (uv_create_ah v) (uv_value v) (uv_garbage v) peer_name peer))),
      pr_send = (\<lambda>peer_name buffer_list. env_op v (un_lift (ctx_send (uv_handles v) peer_name buffer_list))),
      pr_receive = (\<lambda>peer_name buffer_list. env_op v (un_lift (ctx_receive (uv_handles v) peer_name buffer_list))),
      pr_getStatus = (\<lambda>task_id (p, e). env_op v (un_getStatus (ctx_getStatus task_id) (un_runStep (ctx_step v e))) (p, e)),
      pr_freeTask = (\<lambda>task_id. env_op v (un_lift (\<lambda>c. Inr (ctx_freeTask task_id c)))),
      pr_registerLocalMemory = (\<lambda>a len. env_op v (un_lift (\<lambda>c. Inr (ctx_registerLocalMemory (uv_reg_mr v) a len c)))),
      pr_unregisterLocalMemory = (\<lambda>a. env_op v (un_lift (\<lambda>c. Inr (ctx_unregisterLocalMemory (uv_dereg_mr v) a c)))),
      pr_runStep = (\<lambda>(p, e). env_op v (un_runStep (ctx_step v e)) (p, e))\<rparr>"

text \<open>\<open>getStatus\<close> runs \<open>doEventLoop (0)\<close>; its state is the last time, a value of the environment.\<close>

definition mcast_ops :: "('e \<Rightarrow> u64) \<Rightarrow> 'e ud_environment \<Rightarrow> 'e mcast_process protocol" where
  "mcast_ops last_ts v =
     \<lparr>pr_construct = (\<lambda>device_name rdma_port gid_index (p, e).
        case uv_construct v device_name rdma_port gid_index e of (ctl, arena) \<Rightarrow>
          env_op v (un_construct (mx_construct ctl arena (uv_reg_mr v) (uv_post v e) (uv_handles v))) (p, e)),
      pr_deconstruct = (\<lambda>(p, e). env_op v (un_deconstruct (\<lambda>c. Inr (mx_deconstruct (uv_order v e) (uv_dereg_mr v) c))) (p, e)),
      pr_joinMulticast = (\<lambda>multicast_addr (p, e).
        env_op v (un_lift (\<lambda>c. Inr (mx_joinMulticast (uv_join v multicast_addr e) (uv_group_reg_mr v) (uv_post v e) (uv_handles v) multicast_addr c))) (p, e)),
      pr_leaveMulticast = (\<lambda>multicast_addr. env_op v (un_lift (mx_leaveMulticast multicast_addr))),
      pr_setMulticastReplicas = (\<lambda>multicast_addr peers. env_op v (un_lift (\<lambda>c. Inr (mx_setMulticastReplicas multicast_addr peers c)))),
      pr_prepareConnection = (\<lambda>peer_name local_attr (p, e).
        case mx_prepareConnection (uv_garbage v) peer_name local_attr (un_context p) of (ret, a, c) \<Rightarrow>
          Inr (ret, a, p\<lparr>un_context := c\<rparr>, uv_next v e)),
      pr_setupConnection = (\<lambda>peer_name peer.
        env_op v (un_lift (mx_setupConnection (uv_create_ah v) (uv_value v) (uv_garbage v) peer_name peer))),
      pr_send = (\<lambda>peer_name buffer_list. env_op v (un_lift (mx_send (uv_handles v) peer_name buffer_list))),
      pr_receive = (\<lambda>peer_name buffer_list. env_op v (un_lift (mx_receive (uv_handles v) peer_name buffer_list))),
      pr_getStatus = (\<lambda>task_id (p, e). env_op v (un_getStatus (mx_getStatus task_id)
        (\<lambda>p. obind (doEventLoop (mx_step v e) (uv_now v e) (last_ts e) p) (\<lambda>(_, ret, p1). Inr (ret, p1)))) (p, e)),
      pr_freeTask = (\<lambda>task_id. env_op v (un_lift (\<lambda>c. Inr (mx_freeTask task_id c)))),
      pr_registerLocalMemory = (\<lambda>a len. env_op v (un_lift (\<lambda>c. Inr (mx_registerLocalMemory (uv_reg_mr v) (uv_group_reg_mr v) a len c)))),
      pr_unregisterLocalMemory = (\<lambda>a. env_op v (un_lift (\<lambda>c. Inr (mx_unregisterLocalMemory (uv_dereg_mr v) a c)))),
      pr_runStep = (\<lambda>(p, e). env_op v (un_runStep (mx_step v e)) (p, e))\<rparr>"

section \<open>The connection contract\<close>

definition ud_able :: "string \<Rightarrow> controller \<Rightarrow> bool" where
  "ud_able n c \<longleftrightarrow> n \<noteq> [] \<and> length (ct_gid c) = 16 \<and> pred_option (\<lambda>ep. \<not> ue_connected ep) (ct_endpoint_map c n)"

definition ud_accepts :: "(ibv_ah_attr \<Rightarrow> nat option) \<Rightarrow> controller \<Rightarrow> controller \<Rightarrow> bool" where
  "ud_accepts create_ah c d \<longleftrightarrow> create_ah (peer_ah_attr (ct_gid_index c) (ct_port_num c) (ct_gid d) (ct_lid d)) \<noteq> None"

definition ud_announced :: "string \<Rightarrow> attributes \<Rightarrow> controller \<Rightarrow> bool" where
  "ud_announced n a c \<longleftrightarrow> ud_able n c \<and> a = ud_attributes c"

text \<open>
  The endpoint of the name is connected to the queue pairs of \<open>d\<close>, and the packets of each queue pair that
  \<open>d\<close> announced are filed under the session of the name.
\<close>

definition ud_towards :: "(ibv_ah_attr \<Rightarrow> nat option) \<Rightarrow> string \<Rightarrow> u8 list \<Rightarrow> u16 \<Rightarrow> u32 list \<Rightarrow> u32 list \<Rightarrow> controller \<Rightarrow> bool" where
  "ud_towards create_ah n gid lid qps ext c \<longleftrightarrow>
     (\<exists>ep. ct_endpoint_map c n = Some ep \<and> ue_connected ep \<and> ue_peer_qp_num_list ep = qps \<and> ue_peer_lid ep = lid
        \<and> ue_ah ep = create_ah (peer_ah_attr (ct_gid_index c) (ct_port_num c) gid lid) \<and> ue_ah ep \<noteq> None)
     \<and> (\<exists>node_id. ct_peer_name_map c n = Some node_id \<and> ct_peer_name_rev_map c node_id = Some n
          \<and> (\<forall>q\<in>set ext. map_of (ct_node_id_map c) (gid, q) = Some node_id))"

definition ud_linked :: "(ibv_ah_attr \<Rightarrow> nat option) \<Rightarrow> string \<Rightarrow> attributes \<Rightarrow> attributes \<Rightarrow> controller \<Rightarrow> bool" where
  "ud_linked create_ah n a b c \<longleftrightarrow> (\<exists>d. a = ud_attributes c \<and> b = ud_attributes d \<and> length (ct_gid c) = 16 \<and> length (ct_gid d) = 16
     \<and> ud_towards create_ah n (ct_gid d) (ct_lid d) (us_qp_num (ct_store d)) (ext_qp_list d) c)"

lemma ud_attributes_safe: "json_safe (ud_attributes c)"
  by (auto simp: json_safe_def ud_attributes_def attribute_keys_def ran_def ascii_attributes split: if_splits)

lemma ud_prepare:
  assumes "ud_able n c"
  shows "\<exists>c'. prepareConnection ga n Map.empty c = (0, ud_attributes c, c') \<and> ud_announced n (ud_attributes c) c'
    \<and> (\<forall>d. ud_accepts create_ah c' d = ud_accepts create_ah c d \<and> ud_accepts create_ah d c' = ud_accepts create_ah d c)"
  using assms by (auto simp: ud_able_def prepareConnection_new ud_announced_def ud_accepts_def ud_attributes_def ext_qp_list_def
      RdmaUDEndPoint_new_def pred_option_def)

lemma ud_setup:
  assumes "ud_announced n a c" "ud_announced m b d" "ud_accepts create_ah c d"
  shows "\<exists>c'. setupConnection create_ah g gb n b c = Inr (0, c') \<and> ud_linked create_ah n a b c'"
proof -
  obtain h where h: "create_ah (peer_ah_attr (ct_gid_index c) (ct_port_num c) (ct_gid d) (ct_lid d)) = Some h"
    using assms(3) by (auto simp: ud_accepts_def)
  have new: "\<And>ep. ct_endpoint_map c n = Some ep \<Longrightarrow> \<not> ue_connected ep" and n: "n \<noteq> []" and gid: "length (ct_gid c) = 16"
    and d: "length (ct_gid d) = 16" "b = ud_attributes d" "a = ud_attributes c"
    using assms(1,2) by (auto simp: ud_announced_def ud_able_def)
  obtain mp ep where r: "setupConnection create_ah g gb n b c = Inr (0, registerNode n (ct_gid d) (ext_qp_list d)
      (c\<lparr>ct_endpoint_map := mp(n \<mapsto> ud_connected_endpoint d h ep)\<rparr>))"
    using setupConnection_new [where create_ah = create_ah, OF d(1) n new h] d(2) by blast
  let ?c = "registerNode n (ct_gid d) (ext_qp_list d) (c\<lparr>ct_endpoint_map := mp(n \<mapsto> ud_connected_endpoint d h ep)\<rparr>)"
  have "ud_attributes ?c = a" by (simp add: registerNode_def Let_def d(3) ud_attributes_def ext_qp_list_def)
  moreover have "ud_towards create_ah n (ct_gid d) (ct_lid d) (us_qp_num (ct_store d)) (ext_qp_list d) ?c"
    using h by (simp add: ud_towards_def registerNode_def Let_def map_of_register ud_connected_endpoint_def)
  moreover have "length (ct_gid ?c) = 16" using gid by (simp add: registerNode_def Let_def)
  ultimately have "ud_linked create_ah n a b ?c" using d(1,2) by (auto simp: ud_linked_def)
  then show ?thesis using r by blast
qed

definition ud_controller :: "'e ud_process \<Rightarrow> controller" where
  "ud_controller p = cx_controller (un_context (fst p))"

definition mcast_controller :: "'e mcast_process \<Rightarrow> controller" where
  "mcast_controller p = cx_controller (mx_base (un_context (fst p)))"

lemma ud_prepare_step:
  "pr_prepareConnection (unreliable_ops v) n a p = (case prepareConnection (uv_garbage v) n a (ud_controller p) of (ret, a', c) \<Rightarrow>
     Inr (ret, a', (fst p)\<lparr>un_context := (un_context (fst p))\<lparr>cx_controller := c\<rparr>\<rparr>, uv_next v (snd p)))"
  by (cases p) (simp add: unreliable_ops_def ctx_prepareConnection_def ud_controller_def split: prod.splits)

lemma ud_setup_step:
  "pr_setupConnection (unreliable_ops v) n b p =
     obind (setupConnection (uv_create_ah v) (uv_value v) (uv_garbage v) n b (ud_controller p)) (\<lambda>(ret, c).
       Inr (ret, (fst p)\<lparr>un_context := (un_context (fst p))\<lparr>cx_controller := c\<rparr>\<rparr>, uv_next v (snd p)))"
  by (cases p; cases "setupConnection (uv_create_ah v) (uv_value v) (uv_garbage v) n b (ud_controller p)")
    (auto simp: unreliable_ops_def ctx_setupConnection_def ud_controller_def env_op_def un_lift_def split: prod.splits)

lemma mcast_prepare_step:
  "pr_prepareConnection (mcast_ops last_ts v) n a p = (case prepareConnection (uv_garbage v) n a (mcast_controller p) of (ret, a', c) \<Rightarrow>
     Inr (ret, a', (fst p)\<lparr>un_context := mx_put ((mx_base (un_context (fst p)))\<lparr>cx_controller := c\<rparr>) (un_context (fst p))\<rparr>, uv_next v (snd p)))"
  by (cases p) (simp add: mcast_ops_def mx_prepareConnection_def ctx_prepareConnection_def mcast_controller_def split: prod.splits)

lemma mcast_setup_step:
  "pr_setupConnection (mcast_ops last_ts v) n b p =
     obind (setupConnection (uv_create_ah v) (uv_value v) (uv_garbage v) n b (mcast_controller p)) (\<lambda>(ret, c).
       Inr (ret, (fst p)\<lparr>un_context := mx_put ((mx_base (un_context (fst p)))\<lparr>cx_controller := c\<rparr>) (un_context (fst p))\<rparr>, uv_next v (snd p)))"
  by (cases p; cases "setupConnection (uv_create_ah v) (uv_value v) (uv_garbage v) n b (mcast_controller p)")
    (auto simp: mcast_ops_def mx_setupConnection_def ctx_setupConnection_def mcast_controller_def env_op_def un_lift_def split: prod.splits)

interpretation ud: connection_protocol "unreliable_ops v" "\<lambda>n p. ud_able n (ud_controller p)" "\<lambda>n a p. ud_announced n a (ud_controller p)"
  "\<lambda>p q. ud_accepts (uv_create_ah v) (ud_controller p) (ud_controller q)" "\<lambda>n a b p. ud_linked (uv_create_ah v) n a b (ud_controller p)" for v
proof
  fix n and p :: "'a ud_process"
  assume "ud_able n (ud_controller p)"
  from ud_prepare [OF this, of "uv_garbage v" "uv_create_ah v"] obtain c where
    c: "prepareConnection (uv_garbage v) n Map.empty (ud_controller p) = (0, ud_attributes (ud_controller p), c)"
      "ud_announced n (ud_attributes (ud_controller p)) c"
      "\<forall>d. ud_accepts (uv_create_ah v) c d = ud_accepts (uv_create_ah v) (ud_controller p) d
        \<and> ud_accepts (uv_create_ah v) d c = ud_accepts (uv_create_ah v) d (ud_controller p)" by blast
  then show "\<exists>a p'. pr_prepareConnection (unreliable_ops v) n Map.empty p = Inr (0, a, p') \<and> ud_announced n a (ud_controller p') \<and> json_safe a
      \<and> (\<forall>q. ud_accepts (uv_create_ah v) (ud_controller p') (ud_controller q) = ud_accepts (uv_create_ah v) (ud_controller p) (ud_controller q)
           \<and> ud_accepts (uv_create_ah v) (ud_controller q) (ud_controller p') = ud_accepts (uv_create_ah v) (ud_controller q) (ud_controller p))"
    by (simp add: ud_prepare_step ud_attributes_safe) (simp add: ud_controller_def)
next
  fix n a m b and p q :: "'a ud_process"
  assume "ud_announced n a (ud_controller p)" "ud_announced m b (ud_controller q)" "ud_accepts (uv_create_ah v) (ud_controller p) (ud_controller q)"
  from ud_setup [OF this, of "uv_value v" "uv_garbage v"]
  show "\<exists>p'. pr_setupConnection (unreliable_ops v) n b p = Inr (0, p') \<and> ud_linked (uv_create_ah v) n a b (ud_controller p')"
    by (auto simp: ud_setup_step) (simp add: ud_controller_def)
qed

interpretation um: connection_protocol "mcast_ops last_ts v" "\<lambda>n p. ud_able n (mcast_controller p)" "\<lambda>n a p. ud_announced n a (mcast_controller p)"
  "\<lambda>p q. ud_accepts (uv_create_ah v) (mcast_controller p) (mcast_controller q)" "\<lambda>n a b p. ud_linked (uv_create_ah v) n a b (mcast_controller p)"
  for last_ts v
proof
  fix n and p :: "'a mcast_process"
  assume "ud_able n (mcast_controller p)"
  from ud_prepare [OF this, of "uv_garbage v" "uv_create_ah v"] obtain c where
    c: "prepareConnection (uv_garbage v) n Map.empty (mcast_controller p) = (0, ud_attributes (mcast_controller p), c)"
      "ud_announced n (ud_attributes (mcast_controller p)) c"
      "\<forall>d. ud_accepts (uv_create_ah v) c d = ud_accepts (uv_create_ah v) (mcast_controller p) d
        \<and> ud_accepts (uv_create_ah v) d c = ud_accepts (uv_create_ah v) d (mcast_controller p)" by blast
  then show "\<exists>a p'. pr_prepareConnection (mcast_ops last_ts v) n Map.empty p = Inr (0, a, p') \<and> ud_announced n a (mcast_controller p') \<and> json_safe a
      \<and> (\<forall>q. ud_accepts (uv_create_ah v) (mcast_controller p') (mcast_controller q) = ud_accepts (uv_create_ah v) (mcast_controller p) (mcast_controller q)
           \<and> ud_accepts (uv_create_ah v) (mcast_controller q) (mcast_controller p') = ud_accepts (uv_create_ah v) (mcast_controller q) (mcast_controller p))"
    by (simp add: mcast_prepare_step ud_attributes_safe) (simp add: mcast_controller_def mx_put_def)
next
  fix n a m b and p q :: "'a mcast_process"
  assume "ud_announced n a (mcast_controller p)" "ud_announced m b (mcast_controller q)" "ud_accepts (uv_create_ah v) (mcast_controller p) (mcast_controller q)"
  from ud_setup [OF this, of "uv_value v" "uv_garbage v"]
  show "\<exists>p'. pr_setupConnection (mcast_ops last_ts v) n b p = Inr (0, p') \<and> ud_linked (uv_create_ah v) n a b (mcast_controller p')"
    by (auto simp: mcast_setup_step) (simp add: mcast_controller_def mx_put_def)
qed

section \<open>Properties\<close>

lemma ud_attributes_inject:
  assumes "ud_attributes c = ud_attributes d" "length (ct_gid c) = 16" "length (ct_gid d) = 16"
  shows "us_qp_num (ct_store c) = us_qp_num (ct_store d)" "ext_qp_list c = ext_qp_list d" "ct_gid c = ct_gid d" "ct_lid c = ct_lid d"
proof -
  have eq: "ud_attributes c k = ud_attributes d k" for k using assms(1) by simp
  have "ToString (us_qp_num (ct_store c)) = ToString (us_qp_num (ct_store d))" using eq [of "''qp''"] by (simp add: ud_attributes_def)
  then show "us_qp_num (ct_store c) = us_qp_num (ct_store d)" by (metis from_stream_ToString)
  have "ToString (ext_qp_list c) = ToString (ext_qp_list d)" using eq [of "''ext_qp''"] by (simp add: ud_attributes_def)
  then show "ext_qp_list c = ext_qp_list d" by (metis from_stream_ToString)
  have "gid_string (ct_gid c) = gid_string (ct_gid d)" using eq [of "''gid''"] by (simp add: ud_attributes_def)
  then show "ct_gid c = ct_gid d" using assms(2,3) by (metis gid_string_join parse_gid_loop_join)
  have "show_digits 10 (unat (ct_lid c)) = show_digits 10 (unat (ct_lid d))" using eq [of "''lid''"] by (simp add: ud_attributes_def)
  then have "unat (ct_lid c) = unat (ct_lid d)" by (rule show_digits_inject)
  then show "ct_lid c = ct_lid d" by (rule word_unat_eq_iff [THEN iffD2])
qed

text \<open>
  C19. The handshake of the unreliable protocol connects two processes to each other.  When one side calls for the first
  time for an address and the other listens, and each can create an address handle for the other, the call returns 0; each
  side then has a connected endpoint with the other's LID, queue pairs and address handle, and files the packets
  of every queue pair the other announced under the session of this endpoint's name.
\<close>

theorem unreliable_engines_connect:
  assumes "json_ok js" "rpc_ok js call" "isMulticastAddress peer = Inr False" "\<not> hasConnection peer (eg_session_manager e)"
    "ud_able peer (ud_controller (eg_protocol e))"
    "ud_able (accepted_name (sm_uid (eg_session_manager r))) (ud_controller (eg_protocol r))"
    "ud_accepts (uv_create_ah v) (ud_controller (eg_protocol e)) (ud_controller (eg_protocol r))"
    "ud_accepts (uv_create_ah v) (ud_controller (eg_protocol r)) (ud_controller (eg_protocol e))"
    "sm_on_accept (eg_session_manager r) = Some (on_accept (unreliable_ops v) None)"
  shows "\<exists>e' r' c d. makeConnectionIfNeeded (unreliable_ops v) js True call peer e r = Inr (0, e', r')
    \<and> hasConnection peer (eg_session_manager e') \<and> c = ud_controller (eg_protocol e') \<and> d = ud_controller (eg_protocol r')
    \<and> ud_towards (uv_create_ah v) peer (ct_gid d) (ct_lid d) (us_qp_num (ct_store d)) (ext_qp_list d) c
    \<and> ud_towards (uv_create_ah v) (accepted_name (sm_uid (eg_session_manager r))) (ct_gid c) (ct_lid c) (us_qp_num (ct_store c)) (ext_qp_list c) d"
proof -
  let ?n = "accepted_name (sm_uid (eg_session_manager r))"
  have callback: "\<exists>q'. run_callback None n True q = Inr q'" for n and q :: "'a ud_process"
    by (intro exI [of _ q]) (simp add: run_callback_def)
  obtain e' r' a b where
    h: "makeConnectionIfNeeded (unreliable_ops v) js True call peer e r = Inr (0, e', r')"
      "hasConnection peer (eg_session_manager e')" "ud_linked (uv_create_ah v) peer a b (ud_controller (eg_protocol e'))"
      "ud_linked (uv_create_ah v) ?n b a (ud_controller (eg_protocol r'))"
    using ud.handshake [OF assms callback] by (auto simp: run_callback_def)
  let ?c = "ud_controller (eg_protocol e')" and ?d = "ud_controller (eg_protocol r')"
  obtain d where d: "a = ud_attributes ?c" "b = ud_attributes d" "length (ct_gid ?c) = 16" "length (ct_gid d) = 16"
      "ud_towards (uv_create_ah v) peer (ct_gid d) (ct_lid d) (us_qp_num (ct_store d)) (ext_qp_list d) ?c"
    using h(3) unfolding ud_linked_def by blast
  obtain c where c: "b = ud_attributes ?d" "a = ud_attributes c" "length (ct_gid ?d) = 16" "length (ct_gid c) = 16"
      "ud_towards (uv_create_ah v) ?n (ct_gid c) (ct_lid c) (us_qp_num (ct_store c)) (ext_qp_list c) ?d"
    using h(4) unfolding ud_linked_def by blast
  note i = ud_attributes_inject [OF trans [OF c(2) [symmetric] d(1)] c(4) d(3)]
  note j = ud_attributes_inject [OF trans [OF d(2) [symmetric] c(1)] d(4) c(3)]
  show ?thesis using h(1,2) d(5) c(5) unfolding i j by blast
qed

definition test_environment :: "unit ud_environment" where
  "test_environment = \<lparr>uv_construct = (\<lambda>_ _ _ _. ((0, test_controller 17), 0)), uv_join = (\<lambda>_ _. None), uv_reg_mr = (\<lambda>_ _ _. None),
     uv_group_reg_mr = (\<lambda>_ _ _ _. None), uv_dereg_mr = (\<lambda>_. 0), uv_post = (\<lambda>_ _. (0, None)), uv_handles = (\<lambda>_. test_handle),
     uv_value = (\<lambda>_. 0), uv_garbage = 0, uv_create_ah = (\<lambda>_. Some 5), uv_now = (\<lambda>_. 0), uv_order = (\<lambda>_. []), uv_recv_wcs = (\<lambda>_. None),
     uv_group_wcs = (\<lambda>_. []), uv_send_wcs = (\<lambda>_. None), uv_next = (\<lambda>e. e)\<rparr>"

definition test_ud_engine :: "u32 \<Rightarrow> unit ud_process engine" where
  "test_ud_engine q = \<lparr>eg_session_manager = SessionManager_new,
     eg_protocol = (RdmaUnreliableProtocol_new (Context_new 64 2 4 (test_controller q) 0 (\<lambda>_. 0) (\<lambda>_. Request_new) 0 0) False False, ())\<rparr>"

theorem unreliable_engines_connect_witness:
  "\<exists>r e' r'. eg_startListener (unreliable_ops test_environment) ''0.0.0.0:1'' None (test_ud_engine 21) = Inr (0, r)
    \<and> makeConnectionIfNeeded (unreliable_ops test_environment) plain_json True (direct_call plain_json) ''b:1'' (test_ud_engine 17) r = Inr (0, e', r')
    \<and> hasConnection ''b:1'' (eg_session_manager e')"
proof -
  let ?ops = "unreliable_ops test_environment"
  let ?e = "test_ud_engine 17"
  define r where "r = (test_ud_engine 21)\<lparr>eg_session_manager := SessionManager_new\<lparr>sm_on_accept := Some (on_accept ?ops None), sm_server := Some 1\<rparr>\<rparr>"
  have "stoi ''1'' = Inr 1" by code_simp
  then have listen: "eg_startListener ?ops ''0.0.0.0:1'' None (test_ud_engine 21) = Inr (0, r)"
    by (simp add: eg_startListener_def sm_startListener_def parseHostPort_def test_ud_engine_def r_def)
  have "isMulticastAddress ''b:1'' = Inr False" by (simp add: isMulticastAddress_def)
  moreover have "\<not> hasConnection ''b:1'' (eg_session_manager ?e)" "sm_on_accept (eg_session_manager r) = Some (on_accept ?ops None)"
    by (simp_all add: r_def test_ud_engine_def hasConnection_def SessionManager_new_def)
  moreover have "ud_able ''b:1'' (ud_controller (eg_protocol ?e))"
    "ud_able (accepted_name (sm_uid (eg_session_manager r))) (ud_controller (eg_protocol r))"
    by (simp_all add: r_def test_ud_engine_def ud_able_def ud_controller_def RdmaUnreliableProtocol_new_def Context_new_def test_controller_def
        Controller_new_def accepted_name_def)
  moreover have "ud_accepts (uv_create_ah test_environment) (ud_controller (eg_protocol ?e)) (ud_controller (eg_protocol r))"
    "ud_accepts (uv_create_ah test_environment) (ud_controller (eg_protocol r)) (ud_controller (eg_protocol ?e))"
    by (simp_all add: ud_accepts_def test_environment_def)
  ultimately show ?thesis
    using listen unreliable_engines_connect [OF plain_json_ok direct_call_ok, of "''b:1''" ?e r test_environment] by blast
qed

lemma mx_setMulticastReplicas_group:
  assumes "mx_setMulticastReplicas addr peers c = (0, c')"
  shows "\<exists>g. map_of (ct_multicast_context_map (cx_controller (mx_base c'))) addr = Some g \<and> mg_replicas g = peers"
proof -
  obtain g where g: "map_of (ct_multicast_context_map (cx_controller (mx_base c))) addr = Some g"
    using assms by (cases "getMulticastContext_addr addr (cx_controller (mx_base c))") (auto simp: mx_setMulticastReplicas_def getMulticastContext_addr_def)
  have "map_of (map (\<lambda>(k, g). if k = addr then (k, g\<lparr>mg_replicas := peers\<rparr>) else (k, g)) xs) addr
      = map_option (\<lambda>g. g\<lparr>mg_replicas := peers\<rparr>) (map_of xs addr)" for xs :: "(string \<times> mcast_group) list"
    by (induction xs) auto
  then show ?thesis
    using assms g by (auto simp: mx_setMulticastReplicas_def getMulticastContext_addr_def setReplicas_def mx_put_def Let_def split: prod.splits)
qed

text \<open>
  C24. A sender that has set its replicas is connected to all of them.  When \<open>setMulticastReplicas\<close> of the engine returns 0, every
  peer of the list that is not itself a group address is on record as connected, and the group has exactly these peers
  as its replicas, in this order.
\<close>

theorem replicas_connected:
  assumes "eg_setMulticastReplicas (mcast_ops last_ts v) js connected call addr peers e w = Inr (0, e', w')" "peer \<in> set peers"
  shows "(isMulticastAddress peer = Inr True \<or> hasConnection peer (eg_session_manager e'))
    \<and> (\<exists>g. map_of (ct_multicast_context_map (mcast_controller (eg_protocol e'))) addr = Some g \<and> mg_replicas g = peers)"
proof -
  obtain ret e1 w1 where m: "make_connections (mcast_ops last_ts v) js connected call peers e w = Inr (ret, e1, w1)"
    using assms(1) by (auto simp: eg_setMulticastReplicas_def obind_eq_Inr)
  have r: "ret = 0" using assms(1) m by (auto simp: eg_setMulticastReplicas_def split: if_splits)
  obtain p x where p: "eg_protocol e1 = (p, x)" by (cases "eg_protocol e1")
  obtain ret' c' where s: "mx_setMulticastReplicas addr peers (un_context p) = (ret', c')" by fastforce
  have e': "ret' = 0" "e' = e1\<lparr>eg_protocol := (p\<lparr>un_context := c'\<rparr>, uv_next v x)\<rparr>"
    using assms(1) m r p s by (auto simp: eg_setMulticastReplicas_def lift_protocol_def mcast_ops_def env_op_def un_lift_def)
  have "isMulticastAddress peer = Inr True \<or> hasConnection peer (eg_session_manager e')"
    using make_connections_record [OF m [unfolded r]] assms(2) e'(2) by simp
  then show ?thesis using mx_setMulticastReplicas_group [OF s [unfolded e'(1)]] e'(2) by (simp add: mcast_controller_def)
qed

definition test_mcast_engine :: "unit mcast_process engine" where
  "test_mcast_engine = \<lparr>eg_session_manager = SessionManager_new\<lparr>sm_sessions := {''b:1'', ''c:1''}\<rparr>,
     eg_protocol = (RdmaUnreliableProtocol_new (ContextMcast_new 64 2 4 ((test_controller 17)\<lparr>ct_multicast_context_map :=
        [(''239.0.0.1'', \<lparr>mg_group_id = 1, mg_replicas = [], mg_qp_num = [33]\<rparr>)]\<rparr>) 0 (\<lambda>_. 0) (\<lambda>_. Request_new) 0 0) False False, ())\<rparr>"

theorem replicas_connected_witness:
  "\<exists>e'. eg_setMulticastReplicas (mcast_ops (\<lambda>_. 0) test_environment) plain_json (\<lambda>_. False) (\<lambda>_ _ w. (None, w)) ''239.0.0.1'' [''b:1'', ''c:1'']
       test_mcast_engine () = Inr (0, e', ())
     \<and> hasConnection ''c:1'' (eg_session_manager e')
     \<and> (\<exists>g. map_of (ct_multicast_context_map (mcast_controller (eg_protocol e'))) ''239.0.0.1'' = Some g \<and> mg_replicas g = [''b:1'', ''c:1''])"
proof -
  let ?ops = "mcast_ops (\<lambda>_. 0) test_environment"
  let ?set = "eg_setMulticastReplicas ?ops plain_json (\<lambda>_. False) (\<lambda>_ _ w. (None, w)) ''239.0.0.1'' [''b:1'', ''c:1''] test_mcast_engine ()"
  have m: "isMulticastAddress ''b:1'' = Inr False" "isMulticastAddress ''c:1'' = Inr False" by (simp_all add: isMulticastAddress_def)
  have s: "hasConnection ''b:1'' (eg_session_manager test_mcast_engine)" "hasConnection ''c:1'' (eg_session_manager test_mcast_engine)"
    by (simp_all add: test_mcast_engine_def hasConnection_def SessionManager_new_def)
  have "\<exists>c. mx_setMulticastReplicas ''239.0.0.1'' [''b:1'', ''c:1''] (un_context (fst (eg_protocol test_mcast_engine))) = (0, c)"
    by (simp add: mx_setMulticastReplicas_def test_mcast_engine_def RdmaUnreliableProtocol_new_def ContextMcast_new_def Context_new_def
        getMulticastContext_addr_def setMulticastReplicaNum_def PacketManager_new_def)
  then obtain e' where r: "?set = Inr (0, e', ())"
    using m s by (cases "eg_protocol test_mcast_engine") (auto simp: eg_setMulticastReplicas_def makeConnectionIfNeeded_def lift_protocol_def mcast_ops_def env_op_def un_lift_def split: prod.splits)
  show ?thesis using r replicas_connected [OF r, of "''c:1''"] m by auto
qed

text \<open>With the threshold 0 no request to run a step is dropped.\<close>

lemma doEventLoop_steps: "doEventLoop step now last_ts p = obind (un_lift step p) (\<lambda>(ret, p1). Inr (now, ret, p1))"
  by (simp add: doEventLoop_def kThreshold_def)

end
