(* ===== verification/RCEndpoint.thy ===== *)
theory RCEndpoint
  imports UDEndpoint
begin

text \<open>
  The connected endpoints: construction, connection setup and destruction of \<open>RdmaRCEndPoint\<close>
  (\<open>src/src/protocols/common/rdma_rc_endpoint.cpp\<close>) and \<open>RdmaRCEndPointStore\<close>
  (\<open>rdma_rc_endpoint_store.h\<close>).

  The verbs calls are parameters with the state of the device: \<open>create_qp\<close> (the number of a
  new queue pair or None), \<open>modify_qp\<close> and \<open>destroy_qp\<close> (an error code).  A queue pair is
  identified by its number.
\<close>

section \<open>Construction and destruction\<close>

definition RdmaRCEndPoint_new :: "int \<Rightarrow> rc_endpoint" where
  "RdmaRCEndPoint_new garbage =
     \<lparr>re_send_wr_depth = [], re_recv_wr_depth = [], re_max_wr_depth = garbage, re_qp_list = [], re_status = INITIALIZING\<rparr>"

text \<open>
  The loop of \<open>construct\<close>; the first failure ends it and leaves the remaining pointers null
  and the remaining counters as \<open>new\<close> left them.
\<close>

fun rc_create_qps :: "('d \<Rightarrow> u32 option \<times> 'd) \<Rightarrow> nat \<Rightarrow> nat \<Rightarrow> rc_endpoint \<Rightarrow> 'd \<Rightarrow> int \<times> rc_endpoint \<times> 'd" where
  "rc_create_qps create_qp i 0 ep d = (0, ep, d)"
| "rc_create_qps create_qp i (Suc n) ep d =
     (let ep1 = ep\<lparr>re_send_wr_depth := (re_send_wr_depth ep)[i := 0], re_recv_wr_depth := (re_recv_wr_depth ep)[i := 0]\<rparr>;
          (qp, d1) = create_qp d;
          ep2 = ep1\<lparr>re_qp_list := (re_qp_list ep1)[i := qp]\<rparr>
      in if qp = None then (-1, ep2, d1) else rc_create_qps create_qp (Suc i) n ep2 d1)"

definition rcep_construct ::
  "('d \<Rightarrow> u32 option \<times> 'd) \<Rightarrow> (nat \<Rightarrow> int) \<Rightarrow> u64 \<Rightarrow> u64 \<Rightarrow> rc_endpoint \<Rightarrow> 'd \<Rightarrow> int \<times> rc_endpoint \<times> 'd" where
  "rcep_construct create_qp garbage num_qp_per_endpoint max_wr_depth ep d =
     (if re_status ep \<noteq> INITIALIZING then (-1, ep, d)
      else
        let n = unat num_qp_per_endpoint;
            ep1 = ep\<lparr>re_max_wr_depth := sint (ucast max_wr_depth :: 32 word),
                     re_qp_list := take n (re_qp_list ep) @ replicate (n - length (re_qp_list ep)) None,
                     re_send_wr_depth := map garbage [0..<n], re_recv_wr_depth := map garbage [0..<n]\<rparr>
        in case rc_create_qps create_qp 0 n ep1 d of
             (ret, ep2, d1) \<Rightarrow> if ret \<noteq> 0 then (-1, ep2, d1) else (0, ep2\<lparr>re_status := UNCONNECTED\<rparr>, d1))"

text \<open>\<open>ibv_destroy_qp\<close> reads the queue pair it is given.\<close>

fun destroy_qps :: "(u32 \<Rightarrow> 'd \<Rightarrow> int \<times> 'd) \<Rightarrow> u32 option list \<Rightarrow> 'd \<Rightarrow> (int \<times> 'd) outcome" where
  "destroy_qps destroy_qp [] d = Inr (0, d)"
| "destroy_qps destroy_qp (None # qps) d = Inl NullDeref"
| "destroy_qps destroy_qp (Some qp # qps) d =
     (let (err, d1) = destroy_qp qp d in if err \<noteq> 0 then Inr (-1, d1) else destroy_qps destroy_qp qps d1)"

definition rcep_deconstruct :: "(u32 \<Rightarrow> 'd \<Rightarrow> int \<times> 'd) \<Rightarrow> rc_endpoint \<Rightarrow> 'd \<Rightarrow> (int \<times> rc_endpoint \<times> 'd) outcome" where
  "rcep_deconstruct destroy_qp ep d =
     obind (destroy_qps destroy_qp (re_qp_list ep) d) (\<lambda>(ret, d1).
       if ret \<noteq> 0 then Inr (ret, ep, d1)
       else Inr (0, ep\<lparr>re_qp_list := [], re_send_wr_depth := [], re_recv_wr_depth := []\<rparr>, d1))"

definition rcep_delete :: "(u32 \<Rightarrow> 'd \<Rightarrow> int \<times> 'd) \<Rightarrow> rc_endpoint \<Rightarrow> 'd \<Rightarrow> 'd outcome" where
  "rcep_delete destroy_qp ep d =
     (if re_qp_list ep = [] then Inr d else obind (rcep_deconstruct destroy_qp ep d) (\<lambda>(_, _, d1). Inr d1))"

definition rcep_connected :: "rc_endpoint \<Rightarrow> bool" where
  "rcep_connected ep \<longleftrightarrow> re_status ep = CONNECTED"

fun rcep_qpNum :: "u32 option list \<Rightarrow> u32 list outcome" where
  "rcep_qpNum [] = Inr []"
| "rcep_qpNum (None # qps) = Inl NullDeref"
| "rcep_qpNum (Some qp # qps) = obind (rcep_qpNum qps) (\<lambda>nums. Inr (qp # nums))"

section \<open>Connection setup\<close>

datatype rc_attr_mask =
    RC_STATE | RC_PKEY_INDEX | RC_PORT | RC_ACCESS_FLAGS | RC_PATH_MTU | RC_MIN_RNR_TIMER | RC_AV
  | RC_MAX_DEST_RD_ATOMIC | RC_DEST_QPN | RC_RQ_PSN | RC_TIMEOUT | RC_RETRY_CNT | RC_RNR_RETRY | RC_SQ_PSN
  | RC_MAX_QP_RD_ATOMIC

record rc_qp_attr =
  ra_qp_state :: qp_state
  ra_port_num :: u8
  ra_pkey_index :: u16
  ra_access_flags :: u32
  ra_path_mtu :: nat
  ra_ah_attr :: "ibv_ah_attr option"
  ra_dest_qp_num :: u32
  ra_rq_psn :: u32
  ra_max_dest_rd_atomic :: u8
  ra_min_rnr_timer :: u8
  ra_timeout :: u8
  ra_retry_cnt :: u8
  ra_rnr_retry :: u8
  ra_sq_psn :: u32
  ra_max_rd_atomic :: u8

definition rc_zero_attr :: "qp_state \<Rightarrow> rc_qp_attr" where
  "rc_zero_attr s = \<lparr>ra_qp_state = s, ra_port_num = 0, ra_pkey_index = 0, ra_access_flags = 0, ra_path_mtu = 0, ra_ah_attr = None,
     ra_dest_qp_num = 0, ra_rq_psn = 0, ra_max_dest_rd_atomic = 0, ra_min_rnr_timer = 0, ra_timeout = 0, ra_retry_cnt = 0,
     ra_rnr_retry = 0, ra_sq_psn = 0, ra_max_rd_atomic = 0\<rparr>"

definition TIMEOUT :: u8 where
  "TIMEOUT = 14"

definition RETRY_CNT :: u8 where
  "RETRY_CNT = 7"

text \<open>\<open>IBV_ACCESS_LOCAL_WRITE | IBV_ACCESS_REMOTE_READ | IBV_ACCESS_REMOTE_WRITE | IBV_ACCESS_REMOTE_ATOMIC\<close>.\<close>

definition rc_access_flags :: u32 where
  "rc_access_flags = 1 + 4 + 2 + 8"

definition rc_init_attr :: "u8 \<Rightarrow> rc_qp_attr" where
  "rc_init_attr port_num = (rc_zero_attr IBV_QPS_INIT)\<lparr>ra_port_num := port_num, ra_pkey_index := 0, ra_access_flags := rc_access_flags\<rparr>"

definition rc_rtr_attr :: "nat \<Rightarrow> ibv_ah_attr \<Rightarrow> u32 \<Rightarrow> rc_qp_attr" where
  "rc_rtr_attr mtu ah peer_qp_num = (rc_zero_attr IBV_QPS_RTR)\<lparr>ra_path_mtu := mtu, ra_ah_attr := Some ah, ra_dest_qp_num := peer_qp_num,
     ra_rq_psn := 0, ra_max_dest_rd_atomic := 16, ra_min_rnr_timer := 12\<rparr>"

definition rc_rts_attr :: rc_qp_attr where
  "rc_rts_attr = (rc_zero_attr IBV_QPS_RTS)\<lparr>ra_timeout := TIMEOUT, ra_retry_cnt := RETRY_CNT, ra_rnr_retry := 7, ra_sq_psn := 0,
     ra_max_rd_atomic := 16\<rparr>"

text \<open>What the transitions take from the context.\<close>

record rc_port =
  rp_port_num :: u8
  rp_gid_index :: int
  rp_active_mtu :: nat

definition rc_transitions :: "rc_port \<Rightarrow> u8 list \<Rightarrow> u16 \<Rightarrow> u32 \<Rightarrow> (rc_qp_attr \<times> rc_attr_mask list) list" where
  "rc_transitions p peer_gid peer_lid peer_qp_num =
     [(rc_zero_attr IBV_QPS_RESET, [RC_STATE]),
      (rc_init_attr (rp_port_num p), [RC_STATE, RC_PKEY_INDEX, RC_PORT, RC_ACCESS_FLAGS]),
      (rc_rtr_attr (rp_active_mtu p) (peer_ah_attr (rp_gid_index p) (rp_port_num p) peer_gid peer_lid) peer_qp_num,
        [RC_STATE, RC_PATH_MTU, RC_MIN_RNR_TIMER, RC_AV, RC_MAX_DEST_RD_ATOMIC, RC_DEST_QPN, RC_RQ_PSN]),
      (rc_rts_attr, [RC_STATE, RC_TIMEOUT, RC_RETRY_CNT, RC_RNR_RETRY, RC_SQ_PSN, RC_MAX_QP_RD_ATOMIC])]"

type_synonym 'd rc_modify = "u32 \<Rightarrow> rc_qp_attr \<Rightarrow> rc_attr_mask list \<Rightarrow> 'd \<Rightarrow> int \<times> 'd"

text \<open>The test of the index admits the size of the list itself, which is out of range.\<close>

definition rcep_setup_qp ::
  "'d rc_modify \<Rightarrow> rc_port \<Rightarrow> int \<Rightarrow> u8 list \<Rightarrow> u16 \<Rightarrow> u32 \<Rightarrow> u32 option list \<Rightarrow> 'd \<Rightarrow> (int \<times> 'd) outcome" where
  "rcep_setup_qp modify_qp p qp_index peer_gid peer_lid peer_qp_num qp_list d =
     (if qp_index < 0 \<or> qp_index > int (length qp_list) then Inr (-1, d)
      else if nat qp_index < length qp_list
      then (case qp_list ! nat qp_index of
              None \<Rightarrow> Inl NullDeref
            | Some qp \<Rightarrow> Inr (modify_all modify_qp qp (rc_transitions p peer_gid peer_lid peer_qp_num) d))
      else Inl NullDeref)"

fun rcep_setup_qps ::
  "'d rc_modify \<Rightarrow> rc_port \<Rightarrow> u8 list \<Rightarrow> u16 \<Rightarrow> u32 list \<Rightarrow> u32 option list \<Rightarrow> nat list \<Rightarrow> 'd \<Rightarrow> (int \<times> 'd) outcome" where
  "rcep_setup_qps modify_qp p gid lid peers qps [] d = Inr (0, d)"
| "rcep_setup_qps modify_qp p gid lid peers qps (i # is) d =
     obind (rcep_setup_qp modify_qp p (int i) gid lid (peers ! i) qps d) (\<lambda>(ret, d1).
       if ret \<noteq> 0 then Inr (ret, d1) else rcep_setup_qps modify_qp p gid lid peers qps is d1)"

definition rcep_setupConnection ::
  "'d rc_modify \<Rightarrow> rc_port \<Rightarrow> (nat \<Rightarrow> u32) \<Rightarrow> string \<Rightarrow> u16 \<Rightarrow> u32 list \<Rightarrow> rc_endpoint \<Rightarrow> 'd \<Rightarrow> (int \<times> rc_endpoint \<times> 'd) outcome" where
  "rcep_setupConnection modify_qp p g peer_gid peer_lid peer_qp_num_list ep d =
     (if length (re_qp_list ep) \<noteq> length peer_qp_num_list then Inr (-1, ep, d)
      else obind (rcep_setup_qps modify_qp p (parse_gid g peer_gid) peer_lid peer_qp_num_list (re_qp_list ep)
                    [0..<length (re_qp_list ep)] d)
             (\<lambda>(ret, d1). if ret \<noteq> 0 then Inr (ret, ep, d1) else Inr (0, ep\<lparr>re_status := CONNECTED\<rparr>, d1)))"

section \<open>The endpoint store\<close>

text \<open>
  An endpoint is shared between the map and the tasks, so the map holds references into a heap of
  endpoints.  \<open>rs_fresh\<close> is the next reference.
\<close>

record rc_store =
  rs_endpoint_map :: "string \<rightharpoonup> nat"
  rs_endpoints :: "nat \<Rightarrow> rc_endpoint"
  rs_fresh :: nat

record rc_config =
  rf_num_qp_per_endpoint :: u64
  rf_max_wr_per_qp :: u64

text \<open>When \<open>construct\<close> fails, the new endpoint is destroyed on return.\<close>

definition rcst_getOrCreateEndpoint ::
  "('d \<Rightarrow> u32 option \<times> 'd) \<Rightarrow> (u32 \<Rightarrow> 'd \<Rightarrow> int \<times> 'd) \<Rightarrow> (nat \<Rightarrow> int) \<Rightarrow> int \<Rightarrow> rc_config \<Rightarrow> string \<Rightarrow> rc_store \<Rightarrow> 'd
     \<Rightarrow> (nat option \<times> rc_store \<times> 'd) outcome" where
  "rcst_getOrCreateEndpoint create_qp destroy_qp garbage garbage_depth config peer_nic_path st d =
     (if peer_nic_path = [] then Inr (None, st, d)
      else case rs_endpoint_map st peer_nic_path of
        Some e \<Rightarrow> Inr (Some e, st, d)
      | None \<Rightarrow>
          (case rcep_construct create_qp garbage (rf_num_qp_per_endpoint config) (rf_max_wr_per_qp config)
                  (RdmaRCEndPoint_new garbage_depth) d of
             (ret, ep, d1) \<Rightarrow>
               if ret \<noteq> 0 then obind (rcep_delete destroy_qp ep d1) (\<lambda>d2. Inr (None, st, d2))
               else Inr (Some (rs_fresh st),
                         st\<lparr>rs_endpoint_map := (rs_endpoint_map st)(peer_nic_path \<mapsto> rs_fresh st),
                            rs_endpoints := (rs_endpoints st)(rs_fresh st := ep), rs_fresh := rs_fresh st + 1\<rparr>, d1)))"

text \<open>
  Taking an endpoint out of the map destroys it when no task refers to it; its queue pairs are
  not followed beyond that point.
\<close>

definition rcst_deleteEndpoint :: "string \<Rightarrow> rc_store \<Rightarrow> int \<times> rc_store" where
  "rcst_deleteEndpoint peer_nic_path st = (0, st\<lparr>rs_endpoint_map := (rs_endpoint_map st)(peer_nic_path := None)\<rparr>)"

definition rcst_deconstruct :: "rc_store \<Rightarrow> rc_store" where
  "rcst_deconstruct st = st\<lparr>rs_endpoint_map := Map.empty\<rparr>"

section \<open>Construction\<close>

text \<open>The state of the loop: \<open>nums\<close> created, the rest still null.\<close>

definition rc_partial :: "u32 list \<Rightarrow> nat \<Rightarrow> rc_endpoint \<Rightarrow> bool" where
  "rc_partial nums n ep \<longleftrightarrow> re_qp_list ep = map Some nums @ replicate (n - length nums) None \<and> length nums \<le> n
     \<and> length (re_send_wr_depth ep) = n \<and> length (re_recv_wr_depth ep) = n
     \<and> take (length nums) (re_send_wr_depth ep) = replicate (length nums) 0
     \<and> take (length nums) (re_recv_wr_depth ep) = replicate (length nums) 0"

lemma take_list_update_next: "i < length xs \<Longrightarrow> take (Suc i) (xs[i := x]) = take i xs @ [x]"
  by (simp add: take_Suc_conv_app_nth)

lemma rc_partial_step:
  assumes "rc_partial nums n ep" "length nums < n"
  shows "rc_partial (nums @ [q]) n (ep\<lparr>re_send_wr_depth := (re_send_wr_depth ep)[length nums := 0],
     re_recv_wr_depth := (re_recv_wr_depth ep)[length nums := 0], re_qp_list := (re_qp_list ep)[length nums := Some q]\<rparr>)"
proof -
  obtain k where k: "n - length nums = Suc k" using assms(2) by (cases "n - length nums") auto
  then have "n - Suc (length nums) = k" by simp
  then show ?thesis
    using assms k by (simp add: rc_partial_def take_list_update_next list_update_append replicate_append_same)
qed

lemma rc_create_qps_result:
  assumes "rc_create_qps create_qp (length nums) k ep d = (ret, ep', d')" "rc_partial nums n ep" "length nums + k = n"
  shows "\<exists>nums'. rc_partial nums' n ep' \<and> (ret = 0 \<longrightarrow> length nums' = n) \<and> (ret \<noteq> 0 \<longrightarrow> length nums' < n)
     \<and> re_status ep' = re_status ep \<and> re_max_wr_depth ep' = re_max_wr_depth ep"
  using assms
proof (induction k arbitrary: nums ep d)
  case (Suc k)
  obtain qp d1 where q: "create_qp d = (qp, d1)" by (cases "create_qp d")
  show ?case
  proof (cases qp)
    case None
    have "(re_qp_list ep)[length nums := None] = re_qp_list ep"
      using Suc.prems by (auto simp: rc_partial_def list_update_append)
    moreover have "rc_partial nums n (ep\<lparr>re_send_wr_depth := (re_send_wr_depth ep)[length nums := 0],
        re_recv_wr_depth := (re_recv_wr_depth ep)[length nums := 0]\<rparr>)"
      using Suc.prems by (simp add: rc_partial_def)
    ultimately show ?thesis
      using Suc.prems q None by (intro exI [of _ nums]) (auto simp: Let_def)
  next
    case (Some v)
    let ?ep = "ep\<lparr>re_send_wr_depth := (re_send_wr_depth ep)[length nums := 0],
      re_recv_wr_depth := (re_recv_wr_depth ep)[length nums := 0], re_qp_list := (re_qp_list ep)[length nums := Some v]\<rparr>"
    have "rc_create_qps create_qp (length (nums @ [v])) k ?ep d1 = (ret, ep', d')"
      using Suc.prems(1) q Some by (simp add: Let_def)
    then show ?thesis
      using Suc.IH [of "nums @ [v]" ?ep d1] rc_partial_step [OF Suc.prems(2), of v] Suc.prems(3) by simp
  qed
qed auto

lemma rcep_construct_result:
  assumes "rcep_construct create_qp garbage n max_wr (RdmaRCEndPoint_new g) d = (ret, ep, d')"
  shows "(ret = 0 \<longrightarrow> (\<exists>nums. length nums = unat n \<and> ep = rc_construct nums max_wr))
    \<and> (ret \<noteq> 0 \<longrightarrow> (\<exists>nums. length nums < unat n \<and> re_qp_list ep = map Some nums @ replicate (unat n - length nums) None))"
proof -
  let ?ep = "(RdmaRCEndPoint_new g)\<lparr>re_max_wr_depth := sint (ucast max_wr :: 32 word), re_qp_list := replicate (unat n) None,
    re_send_wr_depth := map garbage [0..<unat n], re_recv_wr_depth := map garbage [0..<unat n]\<rparr>"
  obtain r ep2 d1 where r: "rc_create_qps create_qp 0 (unat n) ?ep d = (r, ep2, d1)" by (metis prod_cases3)
  have "rc_partial [] (unat n) ?ep" by (simp add: rc_partial_def)
  from rc_create_qps_result [of _ "[]", simplified, OF r this] obtain nums where
    p: "rc_partial nums (unat n) ep2" "r = 0 \<longrightarrow> length nums = unat n" "r \<noteq> 0 \<longrightarrow> length nums < unat n"
      "re_max_wr_depth ep2 = sint (ucast max_wr :: 32 word)" by auto
  have res: "ret = (if r \<noteq> 0 then -1 else 0)" "ep = (if r \<noteq> 0 then ep2 else ep2\<lparr>re_status := UNCONNECTED\<rparr>)"
    using assms r by (auto simp: rcep_construct_def RdmaRCEndPoint_new_def Let_def split: if_splits)
  show ?thesis
  proof (cases "r = 0")
    case True
    then have "ep2\<lparr>re_status := UNCONNECTED\<rparr> = rc_construct nums max_wr"
      using p by (cases ep2) (auto simp: rc_partial_def rc_construct_def)
    then show ?thesis using True res p by auto
  next
    case False
    then show ?thesis using res p by (auto simp: rc_partial_def)
  qed
qed

lemma destroy_qps_null:
  assumes "\<And>q d. fst (destroy_qp q d) = 0" "0 < k"
  shows "destroy_qps destroy_qp (map Some nums @ replicate k None) d = Inl NullDeref"
proof (induction nums arbitrary: d)
  case Nil
  then show ?case using assms(2) by (cases k) auto
next
  case (Cons q nums)
  then show ?case using assms(1) [of q d] by (auto split: prod.splits)
qed

section \<open>Properties\<close>

text \<open>A driver that also records what each queue pair is set to.\<close>

definition rc_traced :: "'d rc_modify \<Rightarrow> ('d \<times> (u32 \<times> rc_qp_attr) list) rc_modify" where
  "rc_traced modify_qp qp attr flags = (\<lambda>(d, tr).
     case modify_qp qp attr flags d of (err, d') \<Rightarrow> (err, (d', tr @ [(qp, attr)])))"

text \<open>The settings of a queue pair on its way to the state in which it can send.\<close>

definition rc_ready_trace :: "rc_port \<Rightarrow> u8 list \<Rightarrow> u16 \<Rightarrow> u32 \<Rightarrow> u32 \<Rightarrow> (u32 \<times> rc_qp_attr) list" where
  "rc_ready_trace p gid lid qp peer =
     [(qp, rc_zero_attr IBV_QPS_RESET), (qp, rc_init_attr (rp_port_num p)),
      (qp, rc_rtr_attr (rp_active_mtu p) (peer_ah_attr (rp_gid_index p) (rp_port_num p) gid lid) peer), (qp, rc_rts_attr)]"

lemma rc_traced_apply:
  "rc_traced f q attr flags (d, tr) = (fst (f q attr flags d), snd (f q attr flags d), tr @ [(q, attr)])"
  by (simp add: rc_traced_def split: prod.splits)

lemma rc_modify_all_trace:
  "modify_all (rc_traced f) q ts (d, tr) = (0, d', tr') \<Longrightarrow> tr' = tr @ map (\<lambda>t. (q, fst t)) ts"
  by (induction ts arbitrary: d tr) (fastforce simp: rc_traced_apply split: if_splits)+

lemma rcep_setup_qps_trace:
  assumes "rcep_setup_qps (rc_traced f) p gid lid peers (map Some qps) is (d, tr) = Inr (0, d', tr')"
    "\<forall>i\<in>set is. i < length qps"
  shows "tr' = tr @ concat (map (\<lambda>i. rc_ready_trace p gid lid (qps ! i) (peers ! i)) is)"
  using assms
proof (induction "is" arbitrary: d tr)
  case (Cons i "is")
  obtain ret d1 tr1 where m: "modify_all (rc_traced f) (qps ! i) (rc_transitions p gid lid (peers ! i)) (d, tr) = (ret, d1, tr1)"
    by (metis prod_cases3)
  have r: "ret = 0" "rcep_setup_qps (rc_traced f) p gid lid peers (map Some qps) is (d1, tr1) = Inr (0, d', tr')"
    using Cons.prems m by (auto simp: rcep_setup_qp_def split: if_splits)
  then have "tr1 = tr @ rc_ready_trace p gid lid (qps ! i) (peers ! i)"
    using rc_modify_all_trace m by (fastforce simp: rc_transitions_def rc_ready_trace_def)
  then show ?case using Cons.IH [OF r(2)] Cons.prems(2) by simp
qed simp

text \<open>No null pointer is met on an endpoint that was constructed.\<close>

lemma rcep_setup_qps_safe:
  "\<forall>i\<in>set is. i < length qps \<Longrightarrow> \<exists>r. rcep_setup_qps f p gid lid peers (map Some qps) is d = Inr r"
proof (induction "is" arbitrary: d)
  case (Cons i "is")
  obtain ret d1 where m: "modify_all f (qps ! i) (rc_transitions p gid lid (peers ! i)) d = (ret, d1)"
    by (cases "modify_all f (qps ! i) (rc_transitions p gid lid (peers ! i)) d")
  then show ?case using Cons by (auto simp: rcep_setup_qp_def)
qed simp

text \<open>
  An endpoint that was constructed can be connected without a fault.  When the setup returns 0
  the endpoint is connected, it has as many queue pairs as the peer announced, and each of them was
  moved through RESET, INIT, RTR and RTS in this order, towards the peer's queue pair of the same
  position; when it returns an error the endpoint is unchanged.
\<close>

lemma rc_connect_ready:
  assumes "re_qp_list ep = map Some qps"
  shows "\<exists>ret ep' d' tr. rcep_setupConnection (rc_traced modify_qp) p g peer_gid peer_lid peers ep (d, []) = Inr (ret, ep', d', tr)
    \<and> (ret = 0 \<longrightarrow> rcep_connected ep' \<and> length peers = length qps
         \<and> tr = concat (map2 (rc_ready_trace p (parse_gid g peer_gid) peer_lid) qps peers))
    \<and> (ret \<noteq> 0 \<longrightarrow> ep' = ep)"
proof (cases "length qps = length peers")
  case True
  let ?gid = "parse_gid g peer_gid"
  obtain ret d' tr where r: "rcep_setup_qps (rc_traced modify_qp) p ?gid peer_lid peers (map Some qps) [0..<length qps] (d, [])
      = Inr (ret, d', tr)"
    using rcep_setup_qps_safe [of "[0..<length qps]" qps "rc_traced modify_qp" p ?gid peer_lid peers "(d, [])"] by force
  have "tr = concat (map2 (rc_ready_trace p ?gid peer_lid) qps peers)" if "ret = 0"
  proof -
    have "map (\<lambda>i. rc_ready_trace p ?gid peer_lid (qps ! i) (peers ! i)) [0..<length qps]
        = map2 (rc_ready_trace p ?gid peer_lid) qps peers"
      using True by (intro nth_equalityI) auto
    then show ?thesis using rcep_setup_qps_trace [of modify_qp p ?gid peer_lid peers qps "[0..<length qps]" d "[]" d' tr] r that by simp
  qed
  then show ?thesis using True assms r by (auto simp: rcep_setupConnection_def rcep_connected_def)
next
  case False
  then show ?thesis using assms by (simp add: rcep_setupConnection_def)
qed

lemma rc_connect_ready_witness:
  "\<exists>ep' tr. rcep_setupConnection (rc_traced (\<lambda>_ _ _ d. (0, d))) \<lparr>rp_port_num = 1, rp_gid_index = 3, rp_active_mtu = 5\<rparr> (\<lambda>_. 0) [] 7 [30, 31]
       (rc_construct [20, 21] 128) ((), []) = Inr (0, ep', (), tr) \<and> rcep_connected ep' \<and> length tr = 8"
proof -
  let ?p = "\<lparr>rp_port_num = 1, rp_gid_index = 3, rp_active_mtu = 5\<rparr>"
  let ?ep = "rc_construct [20, 21] 128"
  have "re_qp_list ?ep = map Some [20, 21]" by (simp add: rc_construct_def)
  from rc_connect_ready [OF this, of "\<lambda>_ _ _ d. (0, d)" ?p "\<lambda>_. 0" "[]" 7 "[30, 31]" "()"] obtain ret ep' tr where
    r: "rcep_setupConnection (rc_traced (\<lambda>_ _ _ d. (0, d))) ?p (\<lambda>_. 0) [] 7 [30, 31] ?ep ((), []) = Inr (ret, ep', (), tr)"
      "ret = 0 \<longrightarrow> rcep_connected ep' \<and> tr = concat (map2 (rc_ready_trace ?p (parse_gid (\<lambda>_. 0) []) 7) [20, 21] [30, 31])"
    by auto
  have "ret = 0"
    using r(1) by (simp add: rcep_setupConnection_def rc_construct_def rcep_setup_qp_def rc_transitions_def rc_traced_apply upt_rec)
  then show ?thesis using r by (auto simp: rc_ready_trace_def)
qed

text \<open>
  The store constructs an endpoint for a peer it does not know: when all queue pairs can be created
  the map refers to a new endpoint that is ready to be connected, with counters at zero.  When the
  device refuses one of them, the destructor of the partly built endpoint hands the null
  pointers in its list to \<open>ibv_destroy_qp\<close>: instead of returning an error, the process is killed.
\<close>

lemma rc_store_construct:
  assumes new: "peer \<noteq> []" "rs_endpoint_map st peer = None"
    and destroy: "\<And>q d. fst (destroy_qp q d) = 0"
    and res: "rcep_construct create_qp garbage (rf_num_qp_per_endpoint config) (rf_max_wr_per_qp config) (RdmaRCEndPoint_new g) d = (ret, ep, d')"
  shows "if ret = 0
    then \<exists>nums st'. rcst_getOrCreateEndpoint create_qp destroy_qp garbage g config peer st d = Inr (Some (rs_fresh st), st', d')
           \<and> rs_endpoint_map st' peer = Some (rs_fresh st)
           \<and> rs_endpoints st' (rs_fresh st) = rc_construct nums (rf_max_wr_per_qp config)
           \<and> length nums = unat (rf_num_qp_per_endpoint config)
    else rcst_getOrCreateEndpoint create_qp destroy_qp garbage g config peer st d = Inl NullDeref"
proof (cases "ret = 0")
  case True
  then show ?thesis
    using rcep_construct_result [OF res] new res by (auto simp: rcst_getOrCreateEndpoint_def)
next
  case False
  then obtain nums where n: "length nums < unat (rf_num_qp_per_endpoint config)"
      "re_qp_list ep = map Some nums @ replicate (unat (rf_num_qp_per_endpoint config) - length nums) None"
    using rcep_construct_result [OF res] by auto
  have "destroy_qps destroy_qp (re_qp_list ep) d' = Inl NullDeref"
    unfolding n(2) using n(1) by (intro destroy_qps_null destroy) simp
  then have "rcep_delete destroy_qp ep d' = Inl NullDeref"
    using n by (simp add: rcep_delete_def rcep_deconstruct_def)
  then show ?thesis using False new res by (simp add: rcst_getOrCreateEndpoint_def)
qed

definition test_rc_store :: rc_store where
  "test_rc_store = \<lparr>rs_endpoint_map = Map.empty, rs_endpoints = (\<lambda>_. RdmaRCEndPoint_new 0), rs_fresh = 0\<rparr>"

definition test_create_qp :: "nat \<Rightarrow> u32 option \<times> nat" where
  "test_create_qp d = (if d < 1 then (Some (of_nat d), d + 1) else (None, d))"

lemma rc_store_construct_witness:
  "rcst_getOrCreateEndpoint test_create_qp (\<lambda>_ d. (0, d)) (\<lambda>_. 0) 0 \<lparr>rf_num_qp_per_endpoint = 2, rf_max_wr_per_qp = 128\<rparr>
     ''b:12345'' test_rc_store 0 = Inl NullDeref"
proof -
  let ?config = "\<lparr>rf_num_qp_per_endpoint = 2, rf_max_wr_per_qp = 128\<rparr>"
  obtain ret ep d' where res: "rcep_construct test_create_qp (\<lambda>_. 0) 2 128 (RdmaRCEndPoint_new 0) 0 = (ret, ep, d')"
    by (metis prod_cases3)
  have "fst (rcep_construct test_create_qp (\<lambda>_. 0) 2 128 (RdmaRCEndPoint_new 0) 0) \<noteq> 0" by code_simp
  then have "ret \<noteq> 0" using res by simp
  then show ?thesis
    using rc_store_construct [of "''b:12345''" test_rc_store "\<lambda>_ d. (0, d)" test_create_qp "\<lambda>_. 0" ?config 0 0 ret ep d'] res
    by (simp add: test_rc_store_def)
qed

end
