(* ===== verification/Reliable.thy ===== *)
theory Reliable
  imports RCEndpoint MemoryRegions Controller
begin

text \<open>
  \<open>RdmaReliableProtocol\<close> of \<open>src/src/protocols/rdma_reliable/impl.{h,cpp}\<close>: tasks over connected
  endpoints.

  Requests live in a heap; \<open>rl_live\<close> are those that exist, so that a completion of a deleted request
  is a fault.  \<open>qp_depth\<close> of a request points into the counters of an endpoint: \<open>rl_depth_owner\<close>
  says of which.  The local variables of the background worker are part of the state.  The results
  of polling a completion queue, the device and uninitialised memory are arguments.
\<close>

section \<open>State\<close>

datatype request_type = SEND | RECEIVE

record rl_task =
  rt_type :: request_type
  rt_id :: int
  rt_endpoint :: "nat option"
  rt_request_list :: "req list"

text \<open>An entry None of the task map is a null pointer.\<close>

record reliable =
  rl_valid :: bool
  rl_spawn_worker :: bool
  rl_next_task_id :: u32
  rl_task_map :: "int \<rightharpoonup> rl_task option"
  rl_pending_task :: "int list"
  rl_regions :: "ibv_mr list"
  rl_store :: rc_store
  rl_heap :: req_heap
  rl_live :: "req set"
  rl_fresh :: req
  rl_depth_owner :: "req \<Rightarrow> nat"
  rl_lid :: u16
  rl_gid :: "u8 list"
  rl_port :: rc_port
  rl_config :: rc_config
  rl_background_running :: bool
  rl_inflight_requests :: u64
  rl_worker_task :: "rl_task option"

record 'd rc_driver =
  rd_create_qp :: "'d \<Rightarrow> u32 option \<times> 'd"
  rd_destroy_qp :: "u32 \<Rightarrow> 'd \<Rightarrow> int \<times> 'd"
  rd_modify_qp :: "'d rc_modify"

text \<open>Uninitialised memory: counters, the member \<open>max_wr_depth_\<close> and the variable of the GID parser.\<close>

record garbage =
  gb_counters :: "nat \<Rightarrow> int"
  gb_depth :: int
  gb_value :: "nat \<Rightarrow> u32"

text \<open>The constructor leaves \<open>next_task_id_\<close> as it is.\<close>

definition RdmaReliableProtocol_new ::
  "bool \<Rightarrow> u32 \<Rightarrow> req_heap \<Rightarrow> (nat \<Rightarrow> rc_endpoint) \<Rightarrow> u16 \<Rightarrow> u8 list \<Rightarrow> rc_port \<Rightarrow> rc_config \<Rightarrow> reliable" where
  "RdmaReliableProtocol_new spawn_worker garbage_id heap endpoints lid gid prt config =
     \<lparr>rl_valid = False, rl_spawn_worker = spawn_worker, rl_next_task_id = garbage_id, rl_task_map = Map.empty, rl_pending_task = [],
      rl_regions = [], rl_store = \<lparr>rs_endpoint_map = Map.empty, rs_endpoints = endpoints, rs_fresh = 0\<rparr>, rl_heap = heap, rl_live = {},
      rl_fresh = 0, rl_depth_owner = (\<lambda>_. 0), rl_lid = lid, rl_gid = gid, rl_port = prt, rl_config = config,
      rl_background_running = False, rl_inflight_requests = 0, rl_worker_task = None\<rparr>"

section \<open>Tasks\<close>

text \<open>A task goes away with its last reference, and its requests with it; the worker may hold one.\<close>

definition release_task :: "rl_task option \<Rightarrow> reliable \<Rightarrow> reliable" where
  "release_task task s =
     (case task of
        None \<Rightarrow> s
      | Some t \<Rightarrow>
          if rl_worker_task s = Some t \<or> rl_task_map s (rt_id t) = Some (Some t) then s
          else s\<lparr>rl_live := rl_live s - set (rt_request_list t)\<rparr>)"

definition rl_freeTask :: "int \<Rightarrow> reliable \<Rightarrow> int \<times> reliable" where
  "rl_freeTask task_id s =
     (let s1 = s\<lparr>rl_task_map := (rl_task_map s)(task_id := None)\<rparr>
      in (0, case rl_task_map s task_id of Some t \<Rightarrow> release_task t s1 | None \<Rightarrow> s1))"

definition rl_put_task :: "rl_task \<Rightarrow> reliable \<Rightarrow> reliable" where
  "rl_put_task t s = s\<lparr>rl_task_map := (rl_task_map s)(rt_id t \<mapsto> Some t)\<rparr>"

text \<open>A task that still has the identifier is replaced.\<close>

definition allocateTask :: "request_type \<Rightarrow> reliable \<Rightarrow> rl_task \<times> reliable" where
  "allocateTask type s =
     (let task = \<lparr>rt_type = type, rt_id = sint (rl_next_task_id s), rt_endpoint = None, rt_request_list = []\<rparr>;
          s1 = rl_put_task task (s\<lparr>rl_next_task_id := rl_next_task_id s + 1\<rparr>)
      in (task, case rl_task_map s (rt_id task) of Some old \<Rightarrow> release_task old s1 | None \<Rightarrow> s1))"

definition getTaskById :: "int \<Rightarrow> reliable \<Rightarrow> rl_task option" where
  "getTaskById task_id s = (case rl_task_map s task_id of Some t \<Rightarrow> t | None \<Rightarrow> None)"

definition rl_new_request :: "buffer \<Rightarrow> u32 \<Rightarrow> rdma_request" where
  "rl_new_request b lkey = Request_new\<lparr>rr_addr0 := buf_addr b, rr_length0 := buf_length b, rr_lkey0 := lkey, rr_status := PENDING\<rparr>"

text \<open>The loop over the buffers; False when one is not registered.\<close>

fun rl_add_requests :: "buffer list \<Rightarrow> rl_task \<Rightarrow> reliable \<Rightarrow> bool \<times> rl_task \<times> reliable" where
  "rl_add_requests [] task s = (True, task, s)"
| "rl_add_requests (b # bs) task s =
     (let lkey = fst (mr_key (rl_regions s) (buf_addr b)) in
      if lkey = 0 then (False, task, s)
      else
        let request = rl_fresh s;
            task' = task\<lparr>rt_request_list := rt_request_list task @ [request]\<rparr>
        in rl_add_requests bs task' (rl_put_task task' (s\<lparr>rl_heap := (rl_heap s)(request := rl_new_request b lkey),
             rl_live := insert request (rl_live s), rl_fresh := request + 1\<rparr>)))"

definition rl_getOrCreateEndpoint ::
  "'d rc_driver \<Rightarrow> garbage \<Rightarrow> string \<Rightarrow> reliable \<Rightarrow> 'd \<Rightarrow> (nat option \<times> reliable \<times> 'd) outcome" where
  "rl_getOrCreateEndpoint drv g peer_name s d =
     obind (rcst_getOrCreateEndpoint (rd_create_qp drv) (rd_destroy_qp drv) (gb_counters g) (gb_depth g) (rl_config s) peer_name (rl_store s) d)
       (\<lambda>(e, st, d1). Inr (e, s\<lparr>rl_store := st\<rparr>, d1))"

definition rl_fail_task :: "rl_task \<Rightarrow> reliable \<Rightarrow> int \<times> reliable" where
  "rl_fail_task task s = (-1, snd (rl_freeTask (rt_id task) s))"

text \<open>\<open>send\<close> and \<open>receive\<close> differ in the type of the task only.\<close>

definition rl_submit ::
  "request_type \<Rightarrow> 'd rc_driver \<Rightarrow> garbage \<Rightarrow> string \<Rightarrow> buffer list \<Rightarrow> reliable \<Rightarrow> 'd \<Rightarrow> (int \<times> reliable \<times> 'd) outcome" where
  "rl_submit type drv g peer_name buffer_list s d =
     (let (task0, s0) = allocateTask type s; (ok, task, s1) = rl_add_requests buffer_list task0 s0 in
      if \<not> ok then (case rl_fail_task task s1 of (ret, s2) \<Rightarrow> Inr (ret, s2, d))
      else obind (rl_getOrCreateEndpoint drv g peer_name s1 d) (\<lambda>(endpoint, s2, d1).
        case endpoint of
          None \<Rightarrow> (case rl_fail_task task s2 of (ret, s3) \<Rightarrow> Inr (ret, s3, d1))
        | Some e \<Rightarrow>
            if \<not> rcep_connected (rs_endpoints (rl_store s2) e)
            then (case rl_fail_task task s2 of (ret, s3) \<Rightarrow> Inr (ret, s3, d1))
            else Inr (rt_id task, (rl_put_task (task\<lparr>rt_endpoint := Some e\<rparr>) s2)
                                    \<lparr>rl_pending_task := rl_pending_task s2 @ [rt_id task]\<rparr>, d1)))"

definition rl_send :: "'d rc_driver \<Rightarrow> garbage \<Rightarrow> string \<Rightarrow> buffer list \<Rightarrow> reliable \<Rightarrow> 'd \<Rightarrow> (int \<times> reliable \<times> 'd) outcome" where
  "rl_send = rl_submit SEND"

definition rl_receive :: "'d rc_driver \<Rightarrow> garbage \<Rightarrow> string \<Rightarrow> buffer list \<Rightarrow> reliable \<Rightarrow> 'd \<Rightarrow> (int \<times> reliable \<times> 'd) outcome" where
  "rl_receive = rl_submit RECEIVE"

text \<open>The loop of \<open>getStatus\<close> over the requests: transferred bytes and summary.\<close>

fun status_loop :: "rdma_request list \<Rightarrow> u64 \<times> status \<Rightarrow> u64 \<times> status" where
  "status_loop [] acc = acc"
| "status_loop (entry # es) (n, summary) =
     (let n' = (if rr_status entry = SUCCESS then n + rr_length0 entry + rr_length1 entry else n);
          s1 = (if rr_status entry = PENDING \<and> summary = SUCCESS then PENDING else summary);
          s2 = (if rr_status entry = FAILED then FAILED else s1)
      in status_loop es (n', s2))"

text \<open>The bytes are stored on success only, when the task exists.\<close>

definition rl_getStatus :: "int \<Rightarrow> reliable \<Rightarrow> status \<times> u64 option" where
  "rl_getStatus task_id s =
     (case getTaskById task_id s of
        None \<Rightarrow> (UNKNOWN, None)
      | Some t \<Rightarrow> (case status_loop (map (rl_heap s) (rt_request_list t)) (0, SUCCESS) of (n, summary) \<Rightarrow> (summary, Some n)))"

definition rl_registerLocalMemory :: "reg_mr \<Rightarrow> addr \<Rightarrow> u64 \<Rightarrow> reliable \<Rightarrow> int \<times> reliable" where
  "rl_registerLocalMemory reg addr len s =
     (case registerMemoryRegion reg (rl_regions s) addr len 1 of (ret, rs) \<Rightarrow> (ret, s\<lparr>rl_regions := rs\<rparr>))"

definition rl_unregisterLocalMemory :: "dereg_mr \<Rightarrow> addr \<Rightarrow> reliable \<Rightarrow> int \<times> reliable" where
  "rl_unregisterLocalMemory dereg addr s =
     (case unregisterMemoryRegion dereg (rl_regions s) addr of (ret, rs) \<Rightarrow> (ret, s\<lparr>rl_regions := rs\<rparr>))"

section \<open>Connections\<close>

definition rl_prepareConnection ::
  "'d rc_driver \<Rightarrow> garbage \<Rightarrow> string \<Rightarrow> attributes \<Rightarrow> reliable \<Rightarrow> 'd \<Rightarrow> (int \<times> attributes \<times> reliable \<times> 'd) outcome" where
  "rl_prepareConnection drv g peer_name local_attr s d =
     obind (rl_getOrCreateEndpoint drv g peer_name s d) (\<lambda>(endpoint, s1, d1).
       case endpoint of
         None \<Rightarrow> Inr (-1, local_attr, s1, d1)
       | Some e \<Rightarrow>
           obind (rcep_qpNum (re_qp_list (rs_endpoints (rl_store s1) e))) (\<lambda>nums.
             Inr (0, local_attr(''lid'' \<mapsto> show_digits 10 (unat (rl_lid s1)), ''gid'' \<mapsto> gid_string (rl_gid s1),
                                ''qp'' \<mapsto> ToString nums), s1, d1)))"

definition rl_setupConnection ::
  "'d rc_driver \<Rightarrow> garbage \<Rightarrow> string \<Rightarrow> attributes \<Rightarrow> reliable \<Rightarrow> 'd \<Rightarrow> (int \<times> reliable \<times> 'd) outcome" where
  "rl_setupConnection drv g peer_name peer s d =
     obind (rl_getOrCreateEndpoint drv g peer_name s d) (\<lambda>(endpoint, s1, d1).
       case endpoint of
         None \<Rightarrow> Inr (-1, s1, d1)
       | Some e \<Rightarrow>
           (case (peer ''lid'', peer ''gid'', peer ''qp'') of
              (Some lid_s, Some gid, Some qp) \<Rightarrow>
                obind (stoi_u16 lid_s) (\<lambda>lid.
                  obind (rcep_setupConnection (rd_modify_qp drv) (rl_port s1) (gb_value g) gid lid (FromString qp)
                           (rs_endpoints (rl_store s1) e) d1)
                    (\<lambda>(ret, ep, d2). Inr (ret, s1\<lparr>rl_store := (rl_store s1)
                        \<lparr>rs_endpoints := (rs_endpoints (rl_store s1))(e := ep)\<rparr>\<rparr>, d2)))
            | _ \<Rightarrow> Inr (-1, s1, d1)))"

definition rl_construct :: "int \<Rightarrow> reliable \<Rightarrow> int \<times> reliable" where
  "rl_construct context_ret s =
     (if context_ret \<noteq> 0 then (context_ret, s)
      else if rl_spawn_worker s
      then (0, s\<lparr>rl_background_running := True, rl_inflight_requests := 0, rl_worker_task := None, rl_valid := True\<rparr>)
      else (0, s\<lparr>rl_valid := True\<rparr>))"

text \<open>The worker has ended, and every task and the endpoints are gone.\<close>

definition rl_deconstruct :: "reliable \<Rightarrow> int \<times> reliable" where
  "rl_deconstruct s =
     (if \<not> rl_valid s then (0, s)
      else (0, s\<lparr>rl_background_running := (rl_background_running s \<and> \<not> rl_spawn_worker s), rl_worker_task := None,
                 rl_task_map := Map.empty, rl_live := {}, rl_pending_task := [], rl_store := rcst_deconstruct (rl_store s),
                 rl_valid := False\<rparr>))"

section \<open>Progress\<close>

text \<open>Taking the next task: \<open>operator []\<close> inserts a null pointer for an identifier that is gone.\<close>

definition take_pending :: "reliable \<Rightarrow> rl_task option \<times> reliable" where
  "take_pending s =
     (case rl_pending_task s of
        [] \<Rightarrow> (None, s)
      | task_id # rest \<Rightarrow>
          (getTaskById task_id s,
           s\<lparr>rl_pending_task := rest,
             rl_task_map := (if rl_task_map s task_id = None then (rl_task_map s)(task_id \<mapsto> None) else rl_task_map s)\<rparr>))"

definition rl_endpoint_post ::
  "ibv_post \<Rightarrow> request_type \<Rightarrow> req list \<Rightarrow> rc_endpoint \<times> req_heap \<Rightarrow> int \<times> (rc_endpoint \<times> req_heap) \<times> req list" where
  "rl_endpoint_post post type = (case type of SEND \<Rightarrow> rc_postSendRequest post | RECEIVE \<Rightarrow> rc_postReceiveRequest post)"

text \<open>
  Posting a task: what its endpoint did not take is marked as failed.  The result has the
  returned count and the requests the device accepted.
\<close>

definition post_task :: "ibv_post \<Rightarrow> rl_task \<Rightarrow> reliable \<Rightarrow> (int \<times> req list \<times> reliable) outcome" where
  "post_task post task s =
     (case rt_endpoint task of
        None \<Rightarrow> Inl NullDeref
      | Some e \<Rightarrow>
          (case rl_endpoint_post post (rt_type task) (rt_request_list task) (rs_endpoints (rl_store s) e, rl_heap s) of
             (ret, (ep, heap), acc) \<Rightarrow>
               Inr (ret, acc, s\<lparr>rl_store := (rl_store s)\<lparr>rs_endpoints := (rs_endpoints (rl_store s))(e := ep)\<rparr>,
                 rl_heap := set_failed (if ret < 0 then rt_request_list task else drop (nat ret) (rt_request_list task)) heap,
                 rl_depth_owner := (\<lambda>r. if r \<in> set (rt_request_list task) then e else rl_depth_owner s r)\<rparr>)))"

text \<open>\<open>inflight_requests + task->request_list.size () <= max_inflight_requests\<close>\<close>

definition task_fits :: "u64 \<Rightarrow> rl_task \<Rightarrow> reliable \<Rightarrow> bool" where
  "task_fits inflight_requests task s \<longleftrightarrow>
     inflight_requests + of_nat (length (rt_request_list task)) \<le> rf_max_wr_per_qp (rl_config s)"

text \<open>A completion: the request and whether it succeeded.\<close>

definition rl_poll_one :: "req \<times> bool \<Rightarrow> reliable \<Rightarrow> reliable outcome" where
  "rl_poll_one = (\<lambda>(request, success) s.
     if request \<notin> rl_live s then Inl UseAfterFree
     else case rr_qp_depth (rl_heap s request) of
       None \<Rightarrow> Inl NullDeref
     | Some depth \<Rightarrow>
         let e = rl_depth_owner s request;
             (ep, heap) = rc_complete depth (rs_endpoints (rl_store s) e, rl_heap s)
         in Inr (s\<lparr>rl_store := (rl_store s)\<lparr>rs_endpoints := (rs_endpoints (rl_store s))(e := ep)\<rparr>,
                   rl_heap := heap(request := (heap request)\<lparr>rr_status := (if success then SUCCESS else FAILED)\<rparr>)\<rparr>))"

primrec rl_poll_all :: "(req \<times> bool) list \<Rightarrow> reliable \<Rightarrow> reliable outcome" where
  "rl_poll_all [] s = Inr s"
| "rl_poll_all (wc # wcs) s = obind (rl_poll_one wc s) (rl_poll_all wcs)"

definition rl_poll :: "(req \<times> bool) list option \<Rightarrow> reliable \<Rightarrow> (int \<times> reliable) outcome" where
  "rl_poll polled s =
     (case polled of
        None \<Rightarrow> Inr (-1, s)
      | Some wcs \<Rightarrow> obind (rl_poll_all wcs s) (\<lambda>s'. Inr (int (length wcs), s')))"

text \<open>The part \<open>runStep\<close> shares with the worker, on the number of requests in flight: post a task that fits.\<close>

definition post_if_fits :: "ibv_post \<Rightarrow> rl_task option \<Rightarrow> u64 \<Rightarrow> reliable \<Rightarrow> (bool \<times> u64 \<times> req list \<times> reliable) outcome" where
  "post_if_fits post task inflight s =
     (case task of
        None \<Rightarrow> Inr (False, inflight, [], s)
      | Some t \<Rightarrow>
          if \<not> task_fits inflight t s then Inr (False, inflight, [], s)
          else obind (post_task post t s) (\<lambda>(ret, acc, s1).
            Inr (True, if ret < 0 then inflight else inflight + of_int ret, acc, s1)))"

text \<open>A task that was taken and does not fit is not put back.\<close>

definition rl_runStep ::
  "ibv_post \<Rightarrow> (req \<times> bool) list option \<Rightarrow> (req \<times> bool) list option \<Rightarrow> reliable \<Rightarrow> (int \<times> req list \<times> reliable) outcome" where
  "rl_runStep post send_wcs recv_wcs s =
     (if rl_spawn_worker s then Inr (0, [], s)
      else case take_pending s of
        (task, s1) \<Rightarrow>
          obind (post_if_fits post task 0 s1) (\<lambda>(_, _, acc, s2).
            obind (rl_poll send_wcs s2) (\<lambda>(_, s3).
              obind (rl_poll recv_wcs s3) (\<lambda>(_, s4). Inr (0, acc, s4)))))"

text \<open>One round of the loop of \<open>runBackgroundWorker\<close>.\<close>

definition discount :: "int \<Rightarrow> reliable \<Rightarrow> reliable" where
  "discount ret s = (if ret > 0 then s\<lparr>rl_inflight_requests := rl_inflight_requests s - of_int ret\<rparr> else s)"

definition worker_round ::
  "ibv_post \<Rightarrow> (req \<times> bool) list option \<Rightarrow> (req \<times> bool) list option \<Rightarrow> reliable \<Rightarrow> (req list \<times> reliable) outcome" where
  "worker_round post send_wcs recv_wcs s =
     (let s1 = (if rl_worker_task s = None then case take_pending s of (t, s') \<Rightarrow> s'\<lparr>rl_worker_task := t\<rparr> else s)
      in obind (post_if_fits post (rl_worker_task s1) (rl_inflight_requests s1) s1) (\<lambda>(posted, inflight, acc, s2).
           let s3 = (if posted then release_task (rl_worker_task s2) (s2\<lparr>rl_inflight_requests := inflight, rl_worker_task := None\<rparr>) else s2)
           in obind (rl_poll send_wcs s3) (\<lambda>(n, s4).
                obind (rl_poll recv_wcs (discount n s4)) (\<lambda>(n', s5). Inr (acc, discount n' s5)))))"

section \<open>The summary of a task\<close>

lemma status_loop_eq:
  "status_loop es (n, st) =
     (n + sum_list (map (\<lambda>e. rr_length0 e + rr_length1 e) (filter (\<lambda>e. rr_status e = SUCCESS) es)),
      if \<exists>e\<in>set es. rr_status e = FAILED then FAILED
      else if st = SUCCESS \<and> (\<exists>e\<in>set es. rr_status e = PENDING) then PENDING else st)"
proof (induction es arbitrary: n st)
  case (Cons e es)
  show ?case by (cases "rr_status e") (simp_all add: Cons.IH algebra_simps)
qed simp

lemma status_success_iff:
  "rl_task_map s i = Some (Some t) \<Longrightarrow>
     fst (rl_getStatus i s) = SUCCESS \<longleftrightarrow> (\<forall>r\<in>set (rt_request_list t). rr_status (rl_heap s r) \<notin> {PENDING, FAILED})"
  by (auto simp: rl_getStatus_def getTaskById_def status_loop_eq)

section \<open>Invariant\<close>

text \<open>
  \<open>out\<close> are the requests the device has accepted and not completed.  Each of them is pending and
  belongs to a task that was taken from the queue; the requests of a task that waits in the queue
  are all pending and none of them is with the device.
\<close>

definition task_ok :: "reliable \<Rightarrow> int \<Rightarrow> rl_task \<Rightarrow> bool" where
  "task_ok s i t \<longleftrightarrow> rt_id t = i \<and> distinct (rt_request_list t) \<and> set (rt_request_list t) \<subseteq> rl_live s
     \<and> (\<forall>j u. rl_task_map s j = Some (Some u) \<longrightarrow> j \<noteq> i \<longrightarrow> set (rt_request_list t) \<inter> set (rt_request_list u) = {})
     \<and> (i \<in> set (rl_pending_task s) \<longrightarrow>
          rt_endpoint t \<noteq> None \<and> (\<forall>r\<in>set (rt_request_list t). rr_status (rl_heap s r) = PENDING))"

definition out_ok :: "reliable \<Rightarrow> req \<Rightarrow> bool" where
  "out_ok s r \<longleftrightarrow> rr_status (rl_heap s r) = PENDING \<and> rr_qp_depth (rl_heap s r) \<noteq> None
     \<and> (\<exists>i t. rl_task_map s i = Some (Some t) \<and> i \<notin> set (rl_pending_task s) \<and> r \<in> set (rt_request_list t))"

definition rl_inv :: "reliable \<Rightarrow> req list \<Rightarrow> bool" where
  "rl_inv s out \<longleftrightarrow> \<not> rl_spawn_worker s \<and> rl_worker_task s = None \<and> distinct (rl_pending_task s) \<and> rl_live s \<subseteq> {..<rl_fresh s}
     \<and> (\<forall>i t. rl_task_map s i = Some (Some t) \<longrightarrow> task_ok s i t) \<and> distinct out \<and> (\<forall>r\<in>set out. out_ok s r)"

lemma rl_invD:
  assumes "rl_inv s out"
  shows "\<not> rl_spawn_worker s" "rl_worker_task s = None" "distinct (rl_pending_task s)" "rl_live s \<subseteq> {..<rl_fresh s}"
    "rl_task_map s i = Some (Some t) \<Longrightarrow> task_ok s i t" "distinct out" "r \<in> set out \<Longrightarrow> out_ok s r"
  using assms by (auto simp: rl_inv_def)

lemma out_live: "rl_inv s out \<Longrightarrow> r \<in> set out \<Longrightarrow> r \<in> rl_live s"
  unfolding rl_inv_def out_ok_def task_ok_def by blast

lemma tasks_disjoint:
  "rl_inv s out \<Longrightarrow> rl_task_map s i = Some (Some t) \<Longrightarrow> rl_task_map s j = Some (Some u) \<Longrightarrow> i \<noteq> j \<Longrightarrow>
     set (rt_request_list t) \<inter> set (rt_request_list u) = {}"
  unfolding rl_inv_def task_ok_def by blast

text \<open>A task in the queue has nothing with the device.\<close>

lemma queued_not_out:
  assumes "rl_inv s out" "rl_task_map s i = Some (Some t)" "i \<in> set (rl_pending_task s)"
  shows "set (rt_request_list t) \<inter> set out = {}"
proof (rule ccontr)
  assume "set (rt_request_list t) \<inter> set out \<noteq> {}"
  then obtain r where r: "r \<in> set (rt_request_list t)" "r \<in> set out" by auto
  then obtain j u where "rl_task_map s j = Some (Some u)" "j \<notin> set (rl_pending_task s)" "r \<in> set (rt_request_list u)"
    using rl_invD(7) [OF assms(1) r(2)] unfolding out_ok_def by blast
  then show False
    using rl_invD(5) [OF assms(1,2)] assms(3) r by (auto simp: task_ok_def)
qed

section \<open>Submitting\<close>

lemma rl_add_requests_effect:
  assumes "rl_add_requests bs t s = (ok, t', s')" "rl_task_map s (rt_id t) = Some (Some t)"
  shows "\<exists>heap'. t' = t\<lparr>rt_request_list := rt_request_list t @ [rl_fresh s..<rl_fresh s']\<rparr>
     \<and> s' = s\<lparr>rl_heap := heap', rl_live := rl_live s \<union> {rl_fresh s..<rl_fresh s'}, rl_fresh := rl_fresh s',
              rl_task_map := (rl_task_map s)(rt_id t \<mapsto> Some t')\<rparr>
     \<and> rl_fresh s \<le> rl_fresh s' \<and> (\<forall>r<rl_fresh s. heap' r = rl_heap s r)
     \<and> (\<forall>r\<in>{rl_fresh s..<rl_fresh s'}. rr_status (heap' r) = PENDING)
     \<and> (ok \<longrightarrow> map (\<lambda>r. rr_length0 (heap' r) + rr_length1 (heap' r)) [rl_fresh s..<rl_fresh s'] = map buf_length bs)"
  using assms
proof (induction bs arbitrary: t s)
  case Nil
  then show ?case by (intro exI [of _ "rl_heap s"]) (auto simp: fun_upd_idem)
next
  case (Cons b bs)
  define lkey where "lkey = fst (mr_key (rl_regions s) (buf_addr b))"
  show ?case
  proof (cases "lkey = 0")
    case True
    then show ?thesis using Cons.prems by (intro exI [of _ "rl_heap s"]) (auto simp: fun_upd_idem lkey_def)
  next
    case False
    define t1 where "t1 = t\<lparr>rt_request_list := rt_request_list t @ [rl_fresh s]\<rparr>"
    define s1 where "s1 = rl_put_task t1 (s\<lparr>rl_heap := (rl_heap s)(rl_fresh s := rl_new_request b lkey),
             rl_live := insert (rl_fresh s) (rl_live s), rl_fresh := rl_fresh s + 1\<rparr>)"
    have "rl_add_requests bs t1 s1 = (ok, t', s')"
      using Cons.prems(1) False by (simp add: t1_def s1_def lkey_def Let_def)
    moreover have "rl_task_map s1 (rt_id t1) = Some (Some t1)" by (simp add: s1_def rl_put_task_def)
    ultimately obtain heap' where h: "t' = t1\<lparr>rt_request_list := rt_request_list t1 @ [rl_fresh s1..<rl_fresh s']\<rparr>"
        "s' = s1\<lparr>rl_heap := heap', rl_live := rl_live s1 \<union> {rl_fresh s1..<rl_fresh s'}, rl_fresh := rl_fresh s',
              rl_task_map := (rl_task_map s1)(rt_id t1 \<mapsto> Some t')\<rparr>"
        "rl_fresh s1 \<le> rl_fresh s'" "\<forall>r<rl_fresh s1. heap' r = rl_heap s1 r"
        "\<forall>r\<in>{rl_fresh s1..<rl_fresh s'}. rr_status (heap' r) = PENDING"
        "ok \<longrightarrow> map (\<lambda>r. rr_length0 (heap' r) + rr_length1 (heap' r)) [rl_fresh s1..<rl_fresh s'] = map buf_length bs"
      using Cons.IH by blast
    have f: "rl_fresh s1 = Suc (rl_fresh s)" "rl_live s1 = insert (rl_fresh s) (rl_live s)" "rt_id t1 = rt_id t"
        "rl_heap s1 (rl_fresh s) = rl_new_request b lkey" "\<And>r. r < rl_fresh s \<Longrightarrow> rl_heap s1 r = rl_heap s r"
      by (auto simp: s1_def t1_def rl_put_task_def)
    have up: "[rl_fresh s..<rl_fresh s'] = rl_fresh s # [Suc (rl_fresh s)..<rl_fresh s']"
      using h(3) f(1) by (simp add: upt_conv_Cons)
    have iv: "{rl_fresh s..<rl_fresh s'} = insert (rl_fresh s) {Suc (rl_fresh s)..<rl_fresh s'}"
      using h(3) f(1) by auto
    have new: "heap' (rl_fresh s) = rl_new_request b lkey" using h(4) f by simp
    have "t' = t\<lparr>rt_request_list := rt_request_list t @ [rl_fresh s..<rl_fresh s']\<rparr>"
      using h(1) f up by (simp add: t1_def)
    moreover have "s' = s\<lparr>rl_heap := heap', rl_live := rl_live s \<union> {rl_fresh s..<rl_fresh s'}, rl_fresh := rl_fresh s',
              rl_task_map := (rl_task_map s)(rt_id t \<mapsto> Some t')\<rparr>"
      by (subst h(2)) (simp add: s1_def rl_put_task_def t1_def iv)
    moreover have "rl_fresh s \<le> rl_fresh s' \<and> (\<forall>r<rl_fresh s. heap' r = rl_heap s r)"
      using h(3,4) f(1,5) by auto
    moreover have "\<forall>r\<in>{rl_fresh s..<rl_fresh s'}. rr_status (heap' r) = PENDING"
      unfolding iv using h(5) f(1) new by (simp add: rl_new_request_def)
    moreover have "ok \<longrightarrow> map (\<lambda>r. rr_length0 (heap' r) + rr_length1 (heap' r)) [rl_fresh s..<rl_fresh s'] = map buf_length (b # bs)"
      unfolding up using h(6) f(1) new by (simp add: rl_new_request_def Request_new_def)
    ultimately show ?thesis by blast
  qed
qed

text \<open>The state after the loop over the buffers, and after the task was given up.\<close>

definition submitted :: "req_heap \<Rightarrow> nat \<Rightarrow> rl_task \<Rightarrow> reliable \<Rightarrow> reliable" where
  "submitted heap' f' t s = s\<lparr>rl_next_task_id := rl_next_task_id s + 1, rl_heap := heap', rl_live := rl_live s \<union> {rl_fresh s..<f'},
     rl_fresh := f', rl_task_map := (rl_task_map s)(rt_id t \<mapsto> Some t)\<rparr>"

definition given_up :: "req_heap \<Rightarrow> nat \<Rightarrow> rc_store \<Rightarrow> reliable \<Rightarrow> reliable" where
  "given_up heap' f' st' s = s\<lparr>rl_next_task_id := rl_next_task_id s + 1, rl_heap := heap', rl_fresh := f', rl_store := st'\<rparr>"

lemma allocate_requests:
  assumes free: "rl_task_map s (sint (rl_next_task_id s)) = None"
    and al: "allocateTask type s = (t0, s0)" and ad: "rl_add_requests bs t0 s0 = (ok, t, s1)"
  obtains heap' f' where "rl_fresh s \<le> f'" "\<forall>r<rl_fresh s. heap' r = rl_heap s r"
    "\<forall>r\<in>{rl_fresh s..<f'}. rr_status (heap' r) = PENDING"
    "t = \<lparr>rt_type = type, rt_id = sint (rl_next_task_id s), rt_endpoint = None, rt_request_list = [rl_fresh s..<f']\<rparr>"
    "s1 = submitted heap' f' t s"
proof -
  have s0: "t0 = \<lparr>rt_type = type, rt_id = sint (rl_next_task_id s), rt_endpoint = None, rt_request_list = []\<rparr>"
      "s0 = rl_put_task t0 (s\<lparr>rl_next_task_id := rl_next_task_id s + 1\<rparr>)"
    using free al by (auto simp: allocateTask_def Let_def)
  have "rl_task_map s0 (rt_id t0) = Some (Some t0)" by (simp add: s0(2) rl_put_task_def)
  from rl_add_requests_effect [OF ad this] obtain heap' where h:
      "t = t0\<lparr>rt_request_list := rt_request_list t0 @ [rl_fresh s0..<rl_fresh s1]\<rparr>"
      "s1 = s0\<lparr>rl_heap := heap', rl_live := rl_live s0 \<union> {rl_fresh s0..<rl_fresh s1}, rl_fresh := rl_fresh s1,
              rl_task_map := (rl_task_map s0)(rt_id t0 \<mapsto> Some t)\<rparr>"
      "rl_fresh s0 \<le> rl_fresh s1" "\<forall>r<rl_fresh s0. heap' r = rl_heap s0 r"
      "\<forall>r\<in>{rl_fresh s0..<rl_fresh s1}. rr_status (heap' r) = PENDING" by blast
  define f' where "f' = rl_fresh s1"
  have t: "t = \<lparr>rt_type = type, rt_id = sint (rl_next_task_id s), rt_endpoint = None, rt_request_list = [rl_fresh s..<f']\<rparr>"
    using h(1) by (simp add: s0 rl_put_task_def f'_def)
  have "rl_fresh s \<le> f'" "\<forall>r<rl_fresh s. heap' r = rl_heap s r" "\<forall>r\<in>{rl_fresh s..<f'}. rr_status (heap' r) = PENDING"
    using h(3-5) by (simp_all add: s0 rl_put_task_def f'_def)
  moreover have "s1 = submitted heap' f' t s"
    by (subst h(2)) (simp add: s0 rl_put_task_def f'_def [symmetric] submitted_def t)
  ultimately show thesis using that t by blast
qed

lemma fail_effect:
  assumes "rl_task_map s (rt_id t) = None" "rl_worker_task s = None" "rl_live s \<subseteq> {..<rl_fresh s}"
    and "set (rt_request_list t) = {rl_fresh s..<f'}"
  shows "rl_fail_task t ((submitted heap' f' t s)\<lparr>rl_store := st'\<rparr>) = (-1, given_up heap' f' st' s)"
proof -
  have "rl_live s \<union> {rl_fresh s..<f'} - {rl_fresh s..<f'} = rl_live s" using assms(3) by auto
  then show ?thesis using assms
    by (simp add: rl_fail_task_def rl_freeTask_def release_task_def submitted_def given_up_def fun_upd_idem)
qed

text \<open>The two ways \<open>send\<close> and \<open>receive\<close> end when the identifier is not in use.\<close>

lemma rl_submit_effect:
  assumes sub: "rl_submit type drv g peer bs s d = Inr (ret, s', d')"
    and free: "rl_task_map s (sint (rl_next_task_id s)) = None" and worker: "rl_worker_task s = None"
    and live: "rl_live s \<subseteq> {..<rl_fresh s}"
  obtains heap' f' st' where "rl_fresh s \<le> f'" "\<forall>r<rl_fresh s. heap' r = rl_heap s r" "ret = -1" "s' = given_up heap' f' st' s"
  | heap' f' st' t where "rl_fresh s \<le> f'" "\<forall>r<rl_fresh s. heap' r = rl_heap s r"
      "\<forall>r\<in>{rl_fresh s..<f'}. rr_status (heap' r) = PENDING" "ret = sint (rl_next_task_id s)"
      "rt_id t = ret" "rt_endpoint t \<noteq> None" "rt_request_list t = [rl_fresh s..<f']"
      "s' = (submitted heap' f' t s)\<lparr>rl_store := st', rl_pending_task := rl_pending_task s @ [ret]\<rparr>"
proof -
  obtain t0 s0 where al: "allocateTask type s = (t0, s0)" by (cases "allocateTask type s")
  obtain ok t s1 where ad: "rl_add_requests bs t0 s0 = (ok, t, s1)" by (metis prod_cases3)
  from free al ad obtain heap' f' where h: "rl_fresh s \<le> f'" "\<forall>r<rl_fresh s. heap' r = rl_heap s r"
    "\<forall>r\<in>{rl_fresh s..<f'}. rr_status (heap' r) = PENDING"
    "t = \<lparr>rt_type = type, rt_id = sint (rl_next_task_id s), rt_endpoint = None, rt_request_list = [rl_fresh s..<f']\<rparr>"
    "s1 = submitted heap' f' t s" by (rule allocate_requests)
  have fail: "rl_fail_task t (s1\<lparr>rl_store := st\<rparr>) = (-1, given_up heap' f' st s)" for st
    unfolding h(5) using free worker live h(4) by (intro fail_effect) simp_all
  show thesis
  proof (cases ok)
    case False
    then have "ret = -1 \<and> s' = given_up heap' f' (rl_store s1) s"
      using sub fail [of "rl_store s1"] by (simp add: rl_submit_def al ad)
    then show thesis using that(1) [OF h(1,2)] by blast
  next
    case True
    then obtain e s2 d1 where e: "rl_getOrCreateEndpoint drv g peer s1 d = Inr (e, s2, d1)"
      using sub by (auto simp: rl_submit_def al ad obind_def split: sum.splits)
    then obtain st' where s2: "s2 = s1\<lparr>rl_store := st'\<rparr>" by (auto simp: rl_getOrCreateEndpoint_def obind_eq_Inr)
    consider "e = None \<or> (\<exists>x. e = Some x \<and> \<not> rcep_connected (rs_endpoints st' x))"
      | x where "e = Some x" "rcep_connected (rs_endpoints st' x)" by (cases e) auto
    then show thesis
    proof cases
      case 1
      then have "ret = -1 \<and> s' = given_up heap' f' st' s"
        using sub True e fail [of st'] by (auto simp: rl_submit_def al ad s2)
      then show thesis using that(1) [OF h(1,2)] by blast
    next
      case 2
      let ?t = "t\<lparr>rt_endpoint := Some x\<rparr>"
      have "ret = rt_id t" "s' = (submitted heap' f' ?t s)\<lparr>rl_store := st', rl_pending_task := rl_pending_task s @ [ret]\<rparr>"
        using sub True e 2 by (auto simp: rl_submit_def al ad s2 h(5) submitted_def rl_put_task_def)
      then show thesis using that(2) [where t = ?t and st' = st', OF h(1-3)] h(4) by simp
    qed
  qed
qed

lemma submit_inv:
  assumes inv: "rl_inv s out" and sub: "rl_submit type drv g peer bs s d = Inr (ret, s', d')"
    and free: "rl_task_map s (sint (rl_next_task_id s)) = None" "sint (rl_next_task_id s) \<notin> set (rl_pending_task s)"
  shows "rl_inv s' out"
proof -
  note i = rl_invD [OF inv]
  have below: "r < rl_fresh s" if "rl_task_map s k = Some (Some t)" "r \<in> set (rt_request_list t)" for k t r
    using i(4) i(5) [OF that(1)] that(2) by (auto simp: task_ok_def)
  from sub free(1) i(2) i(4) show ?thesis
  proof (cases rule: rl_submit_effect)
    case (1 heap' f' st')
    note 1 = 1 [unfolded given_up_def]
    have "task_ok s' k t" if "rl_task_map s' k = Some (Some t)" for k t
      using i(5) [of k t] below [of k t] that 1 by (auto simp: task_ok_def)
    moreover have "out_ok s' r" if "r \<in> set out" for r
      using i(7) [OF that] below 1 by (auto simp: out_ok_def)
    ultimately show ?thesis using i(1-4,6) 1 by (auto simp: rl_inv_def)
  next
    case (2 heap' f' st' u)
    note 2 = 2 [unfolded submitted_def]
    have old: "task_ok s' k t" if "rl_task_map s k = Some (Some t)" "k \<noteq> ret" for k t
      using i(5) [OF that(1)] below [OF that(1)] that(2) 2 by (fastforce simp: task_ok_def)
    have "task_ok s' k t" if "rl_task_map s' k = Some (Some t)" for k t
    proof (cases "k = ret")
      case True
      then show ?thesis using that 2 below by (fastforce simp: task_ok_def)
    next
      case False
      then show ?thesis using that old 2 by simp
    qed
    moreover have "out_ok s' r" if "r \<in> set out" for r
    proof -
      obtain k t where k: "rl_task_map s k = Some (Some t)" "k \<notin> set (rl_pending_task s)" "r \<in> set (rt_request_list t)"
          "rr_status (rl_heap s r) = PENDING" "rr_qp_depth (rl_heap s r) \<noteq> None"
        using i(7) [OF \<open>r \<in> set out\<close>] unfolding out_ok_def by blast
      have "k \<noteq> ret" using k(1) free(1) 2(4) by auto
      then show ?thesis using k below [OF k(1,3)] 2 unfolding out_ok_def by (intro conjI exI [of _ k] exI [of _ t]) auto
    qed
    ultimately show ?thesis using i(1-4,6) 2 free(2) by (auto simp: rl_inv_def)
  qed
qed

section \<open>Freeing\<close>

lemma success_not_out:
  assumes "rl_inv s out" "rl_task_map s i = Some (Some t)" "fst (rl_getStatus i s) = SUCCESS"
  shows "set (rt_request_list t) \<inter> set out = {}"
  using assms(3) rl_invD(7) [OF assms(1)] unfolding status_success_iff [OF assms(2)] out_ok_def by fastforce

lemma free_eq:
  assumes "rl_inv s out" "rl_task_map s i = Some (Some t)"
  shows "snd (rl_freeTask i s) = s\<lparr>rl_task_map := (rl_task_map s)(i := None), rl_live := rl_live s - set (rt_request_list t)\<rparr>"
  using assms rl_invD(2,5) [OF assms(1)] by (auto simp: rl_freeTask_def release_task_def task_ok_def)

lemma free_inv:
  assumes inv: "rl_inv s out" and t: "rl_task_map s i = Some (Some t)" and ok: "fst (rl_getStatus i s) = SUCCESS"
  shows "rl_inv (snd (rl_freeTask i s)) out"
proof -
  note f = free_eq [OF inv t]
  note v = rl_invD [OF inv]
  have "task_ok (snd (rl_freeTask i s)) k u" if "rl_task_map s k = Some (Some u)" "k \<noteq> i" for k u
    using v(5) [OF that(1)] tasks_disjoint [OF inv that(1) t that(2)] unfolding task_ok_def f by auto
  moreover have "out_ok (snd (rl_freeTask i s)) r" if r: "r \<in> set out" for r
  proof -
    obtain k u where k: "rl_task_map s k = Some (Some u)" "k \<notin> set (rl_pending_task s)" "r \<in> set (rt_request_list u)"
        "rr_status (rl_heap s r) = PENDING" "rr_qp_depth (rl_heap s r) \<noteq> None"
      using v(7) [OF r] unfolding out_ok_def by blast
    then have "k \<noteq> i" using success_not_out [OF inv t ok] r t by auto
    then show ?thesis using k unfolding out_ok_def f by (intro conjI exI [of _ k] exI [of _ u]) auto
  qed
  ultimately show ?thesis using v by (auto simp: rl_inv_def f split: if_splits)
qed

section \<open>Posting\<close>

text \<open>What posting does to distinct requests: the accepted ones only get their counter.\<close>

lemma post_requests_effect:
  assumes p: "post_requests post mk dref lim d rs heap = (n, d', heap', acc)" and dist: "distinct rs"
  shows "set acc \<subseteq> set rs - set (if n < 0 then rs else drop (nat n) rs)" "distinct acc"
    "\<forall>r\<in>set acc. heap' r = (heap r)\<lparr>rr_qp_depth := Some dref\<rparr>"
    "\<forall>r. r \<notin> set rs \<longrightarrow> heap' r = heap r"
proof -
  define wr where "wr = min (lim - d) (int (length rs))"
  define used where "used = take (nat wr) rs"
  define bad where "bad = bad_chain (post (map (mk heap) used)) used"
  have "\<exists>k. bad = drop k used"
    unfolding bad_def bad_chain_def by (metis drop_all order_refl option.case_eq_if)
  then obtain k0 where "bad = drop k0 used" by blast
  moreover define k where "k = min k0 (length used)"
  ultimately have bad: "bad = drop k used" "k \<le> length used" by (simp_all add: min_def)
  have res: "n = wr" "wr \<noteq> 0 \<longrightarrow> heap' = set_failed bad (set_depth_ref dref used heap) \<and> acc = take (length used - length bad) used"
      "wr = 0 \<longrightarrow> heap' = heap \<and> acc = []"
    using p by (auto simp: post_requests_def Let_def wr_def used_def bad_def split: if_splits)
  have acc: "acc = (if wr = 0 then [] else take k used)" using res bad by auto
  have du: "distinct used" using dist by (simp add: used_def)
  have "set (take k used) \<inter> set bad = {}"
    unfolding bad(1) by (rule set_take_disj_set_drop_if_distinct [OF du order_refl])
  then show "\<forall>r\<in>set acc. heap' r = (heap r)\<lparr>rr_qp_depth := Some dref\<rparr>"
    using res acc by (auto simp: set_failed_def set_depth_ref_def dest: in_set_takeD)
  have sub: "set acc \<subseteq> set used" "set used \<subseteq> set rs" "set bad \<subseteq> set used"
    unfolding acc bad(1) using set_take_subset [of k used] set_take_subset [of "nat wr" rs] set_drop_subset [of k used]
    by (simp_all add: used_def [symmetric])
  have "set used \<inter> set (drop (nat wr) rs) = {}" "wr < 0 \<longrightarrow> used = []"
    using dist by (simp_all add: used_def set_take_disj_set_drop_if_distinct)
  then show "set acc \<subseteq> set rs - set (if n < 0 then rs else drop (nat n) rs)"
    unfolding res(1) using sub by (cases "wr < 0") auto
  show "distinct acc" using acc du by simp
  show "\<forall>r. r \<notin> set rs \<longrightarrow> heap' r = heap r"
    using res sub by (cases "wr = 0") (auto simp: set_failed_def set_depth_ref_def)
qed

lemma rl_endpoint_post_effect:
  assumes p: "rl_endpoint_post post ty rs (ep, heap) = (n, (ep', heap'), acc)" and dist: "distinct rs"
  shows "set acc \<subseteq> set rs - set (if n < 0 then rs else drop (nat n) rs) \<and> distinct acc
    \<and> (\<forall>r\<in>set acc. rr_status (heap' r) = rr_status (heap r) \<and> rr_qp_depth (heap' r) \<noteq> None)
    \<and> (\<forall>r. r \<notin> set rs \<longrightarrow> heap' r = heap r)"
proof (cases ty)
  case SEND
  then obtain d' where q: "post_requests post rc_make_wr (SendDepth 0) (re_max_wr_depth ep) (re_send_wr_depth ep ! 0) rs heap = (n, d', heap', acc)"
    using p by (auto simp: rl_endpoint_post_def rc_postSendRequest_def split: prod.splits)
  show ?thesis using post_requests_effect [OF q dist] by simp
next
  case RECEIVE
  then obtain d' where q: "post_requests post rc_make_wr (RecvDepth 0) (re_max_wr_depth ep) (re_recv_wr_depth ep ! 0) rs heap = (n, d', heap', acc)"
    using p by (auto simp: rl_endpoint_post_def rc_postReceiveRequest_def split: prod.splits)
  show ?thesis using post_requests_effect [OF q dist] by simp
qed

lemma post_task_effect:
  assumes "rt_endpoint t \<noteq> None" "distinct (rt_request_list t)"
  obtains ret acc heap' st' ow' where "post_task post t s = Inr (ret, acc, s\<lparr>rl_store := st', rl_heap := heap', rl_depth_owner := ow'\<rparr>)"
    "set acc \<subseteq> set (rt_request_list t)" "distinct acc"
    "\<forall>r\<in>set acc. rr_status (heap' r) = rr_status (rl_heap s r) \<and> rr_qp_depth (heap' r) \<noteq> None"
    "\<forall>r. r \<notin> set (rt_request_list t) \<longrightarrow> heap' r = rl_heap s r"
proof -
  obtain e where e: "rt_endpoint t = Some e" using assms(1) by auto
  obtain ret ep heap acc where p: "rl_endpoint_post post (rt_type t) (rt_request_list t) (rs_endpoints (rl_store s) e, rl_heap s)
      = (ret, (ep, heap), acc)" by (metis prod_cases4 surj_pair)
  define bad where "bad = (if ret < 0 then rt_request_list t else drop (nat ret) (rt_request_list t))"
  note f = rl_endpoint_post_effect [OF p assms(2), folded bad_def]
  have bad: "set bad \<subseteq> set (rt_request_list t)" by (auto simp: bad_def dest: in_set_dropD)
  show thesis
  proof (rule that)
    show "post_task post t s = Inr (ret, acc, s\<lparr>rl_store := (rl_store s)\<lparr>rs_endpoints := (rs_endpoints (rl_store s))(e := ep)\<rparr>,
        rl_heap := set_failed bad heap, rl_depth_owner := (\<lambda>r. if r \<in> set (rt_request_list t) then e else rl_depth_owner s r)\<rparr>)"
      using e p by (simp add: post_task_def bad_def)
  qed (use f bad in \<open>auto simp: set_failed_def\<close>)
qed

lemma getTask_Some: "getTaskById i s = Some t \<longleftrightarrow> rl_task_map s i = Some (Some t)"
  by (auto simp: getTaskById_def split: option.splits)

text \<open>Taking a task from the queue, and posting it when it fits.\<close>

definition post_phase :: "ibv_post \<Rightarrow> reliable \<Rightarrow> (req list \<times> reliable) outcome" where
  "post_phase post s = (case take_pending s of (task, s1) \<Rightarrow>
     obind (post_if_fits post task 0 s1) (\<lambda>(_, _, acc, s2). Inr (acc, s2)))"

lemma rl_runStep_phases:
  "\<not> rl_spawn_worker s \<Longrightarrow> rl_runStep post swcs rwcs s =
     obind (post_phase post s) (\<lambda>(acc, s2). obind (rl_poll swcs s2) (\<lambda>(_, s3).
       obind (rl_poll rwcs s3) (\<lambda>(_, s4). Inr (0, acc, s4))))"
  by (auto simp: rl_runStep_def post_phase_def obind_def split: prod.splits sum.splits)

text \<open>A task that was just taken from the queue: pending, and nothing of it with the device.\<close>

definition task_taken :: "reliable \<Rightarrow> req list \<Rightarrow> rl_task \<Rightarrow> bool" where
  "task_taken s out t \<longleftrightarrow> rl_task_map s (rt_id t) = Some (Some t) \<and> rt_id t \<notin> set (rl_pending_task s) \<and> rt_endpoint t \<noteq> None
     \<and> (\<forall>r\<in>set (rt_request_list t). rr_status (rl_heap s r) = PENDING) \<and> set (rt_request_list t) \<inter> set out = {}"

lemma take_inv:
  assumes inv: "rl_inv s out" and t: "take_pending s = (task, s1)"
  shows "rl_inv s1 out" "task = Some u \<Longrightarrow> task_taken s1 out u"
proof -
  have same: "rl_task_map s1 i = Some (Some x) \<longleftrightarrow> rl_task_map s i = Some (Some x)" for i x
    using t by (auto simp: take_pending_def split: list.splits if_splits)
  have s1: "rl_heap s1 = rl_heap s" "rl_live s1 = rl_live s" "rl_spawn_worker s1 = rl_spawn_worker s" "rl_worker_task s1 = rl_worker_task s"
      "rl_fresh s1 = rl_fresh s" "rl_pending_task s1 = tl (rl_pending_task s)"
    using t by (auto simp: take_pending_def split: list.splits if_splits)
  have tl: "set (tl (rl_pending_task s)) \<subseteq> set (rl_pending_task s)" by (cases "rl_pending_task s") auto
  have "task_ok s1 i x" if "rl_task_map s1 i = Some (Some x)" for i x
    using rl_invD(5) [OF inv, of i x] that tl unfolding task_ok_def s1 same by auto
  moreover have "out_ok s1 r" if "r \<in> set out" for r
    using rl_invD(7) [OF inv that] tl unfolding out_ok_def s1 same by blast
  ultimately show "rl_inv s1 out"
    using rl_invD [OF inv] by (simp add: rl_inv_def s1 distinct_tl)
  assume u: "task = Some u"
  then obtain i rest where p: "rl_pending_task s = i # rest" "getTaskById i s = Some u"
    using t by (auto simp: take_pending_def split: list.splits)
  then have m: "rl_task_map s i = Some (Some u)" by (simp add: getTask_Some)
  have "set (rt_request_list u) \<inter> set out = {}" using queued_not_out [OF inv m] p by simp
  then show "task_taken s1 out u"
    using rl_invD(5) [OF inv m] rl_invD(3) [OF inv] p m by (auto simp: task_taken_def task_ok_def s1 same)
qed

lemma post_task_inv:
  assumes inv: "rl_inv s out" and t: "task_taken s out t"
  shows "\<exists>ret acc s'. post_task post t s = Inr (ret, acc, s') \<and> rl_inv s' (out @ acc) \<and> set acc \<subseteq> set (rt_request_list t)
    \<and> rl_pending_task s' = rl_pending_task s \<and> rl_task_map s' = rl_task_map s
    \<and> (\<forall>r. r \<notin> set (rt_request_list t) \<longrightarrow> rl_heap s' r = rl_heap s r)"
proof -
  have m: "rl_task_map s (rt_id t) = Some (Some t)" and ep: "rt_endpoint t \<noteq> None" and np: "rt_id t \<notin> set (rl_pending_task s)"
    and pend: "\<forall>r\<in>set (rt_request_list t). rr_status (rl_heap s r) = PENDING" and dis: "set (rt_request_list t) \<inter> set out = {}"
    using t by (auto simp: task_taken_def)
  have "distinct (rt_request_list t)" using rl_invD(5) [OF inv m] by (simp add: task_ok_def)
  from ep this obtain ret acc heap' st' ow' where
    p: "post_task post t s = Inr (ret, acc, s\<lparr>rl_store := st', rl_heap := heap', rl_depth_owner := ow'\<rparr>)"
      "set acc \<subseteq> set (rt_request_list t)" "distinct acc"
      "\<forall>r\<in>set acc. rr_status (heap' r) = rr_status (rl_heap s r) \<and> rr_qp_depth (heap' r) \<noteq> None"
      "\<forall>r. r \<notin> set (rt_request_list t) \<longrightarrow> heap' r = rl_heap s r"
    by (rule post_task_effect)
  let ?s = "s\<lparr>rl_store := st', rl_heap := heap', rl_depth_owner := ow'\<rparr>"
  have "task_ok ?s i u" if u: "rl_task_map s i = Some (Some u)" for i u
  proof (cases "i = rt_id t")
    case True
    then show ?thesis using rl_invD(5) [OF inv u] np by (simp add: task_ok_def)
  next
    case False
    then have "\<forall>r\<in>set (rt_request_list u). heap' r = rl_heap s r"
      using tasks_disjoint [OF inv u m] p(5) by blast
    then show ?thesis using rl_invD(5) [OF inv u] by (simp add: task_ok_def)
  qed
  moreover have "out_ok ?s r" if "r \<in> set out" for r
    using rl_invD(7) [OF inv that] p(5) dis that by (auto simp: out_ok_def)
  moreover have "out_ok ?s r" if "r \<in> set acc" for r
    using p(2,4) pend m np that unfolding out_ok_def by (intro conjI exI [of _ "rt_id t"] exI [of _ t]) auto
  ultimately have "rl_inv ?s (out @ acc)"
    using rl_invD [OF inv] p(2,3) dis unfolding rl_inv_def by auto
  then show ?thesis using p(1,2,5) by (intro exI [of _ ret] exI [of _ acc] exI [of _ ?s]) simp
qed

text \<open>The requests of the tasks that wait in the queue.\<close>

definition queued_requests :: "reliable \<Rightarrow> req set" where
  "queued_requests s = {r. \<exists>i t. i \<in> set (rl_pending_task s) \<and> rl_task_map s i = Some (Some t) \<and> r \<in> set (rt_request_list t)}"

lemma take_pending_frame:
  assumes "take_pending s = (task, s1)"
  shows "rl_pending_task s1 = tl (rl_pending_task s)" "rl_heap s1 = rl_heap s"
    "rl_task_map s1 i = Some (Some x) \<longleftrightarrow> rl_task_map s i = Some (Some x)"
    "task = Some u \<Longrightarrow> set (rt_request_list u) \<subseteq> queued_requests s"
  using assms by (auto simp: take_pending_def queued_requests_def getTask_Some split: list.splits if_splits)

lemma post_phase_inv:
  assumes inv: "rl_inv s out"
  shows "\<exists>acc s'. post_phase post s = Inr (acc, s') \<and> rl_inv s' (out @ acc) \<and> set acc \<subseteq> queued_requests s
    \<and> rl_pending_task s' = tl (rl_pending_task s)
    \<and> (\<forall>i u. rl_task_map s' i = Some (Some u) \<longleftrightarrow> rl_task_map s i = Some (Some u))
    \<and> (\<forall>r. r \<notin> queued_requests s \<longrightarrow> rl_heap s' r = rl_heap s r)"
proof -
  obtain task s1 where t: "take_pending s = (task, s1)" by (cases "take_pending s")
  note inv1 = take_inv(1) [OF inv t]
  note fr = take_pending_frame [OF t]
  show ?thesis
  proof (cases "\<exists>u. task = Some u \<and> task_fits 0 u s1")
    case True
    then obtain u where u: "task = Some u" "task_fits 0 u s1" by blast
    obtain ret acc s' where p: "post_task post u s1 = Inr (ret, acc, s')" "rl_inv s' (out @ acc)"
        "set acc \<subseteq> set (rt_request_list u)" "rl_pending_task s' = rl_pending_task s1" "rl_task_map s' = rl_task_map s1"
        "\<forall>r. r \<notin> set (rt_request_list u) \<longrightarrow> rl_heap s' r = rl_heap s1 r"
      using post_task_inv [OF inv1 take_inv(2) [OF inv t u(1)]] by blast
    have "post_phase post s = Inr (acc, s')" using t u p(1) by (simp add: post_phase_def post_if_fits_def)
    then show ?thesis using p(2-6) fr(1-3) fr(4) [OF u(1)] by (intro exI [of _ acc] exI [of _ s']) auto
  next
    case False
    then have "post_phase post s = Inr ([], s1)"
      using t by (auto simp: post_phase_def post_if_fits_def split: option.splits)
    then show ?thesis using inv1 fr(1-3) by simp
  qed
qed

section \<open>Completions\<close>

definition completed :: "bool \<Rightarrow> rdma_request \<Rightarrow> rdma_request" where
  "completed success r = r\<lparr>rr_status := (if success then SUCCESS else FAILED)\<rparr>"

lemma rc_complete_heap: "snd (rc_complete d (ep, heap)) = heap"
  by (simp add: rc_complete_def split: depth_ref.splits)

lemma poll_one_inv:
  assumes inv: "rl_inv s out" and r: "r \<in> set out"
  shows "\<exists>st'. rl_poll_one (r, b) s = Inr (s\<lparr>rl_store := st', rl_heap := (rl_heap s)(r := completed b (rl_heap s r))\<rparr>)
    \<and> rl_inv (s\<lparr>rl_store := st', rl_heap := (rl_heap s)(r := completed b (rl_heap s r))\<rparr>) (removeAll r out)"
proof -
  obtain d where d: "rr_qp_depth (rl_heap s r) = Some d" using rl_invD(7) [OF inv r] by (auto simp: out_ok_def)
  obtain ep where c: "rc_complete d (rs_endpoints (rl_store s) (rl_depth_owner s r), rl_heap s) = (ep, rl_heap s)"
    by (metis prod.collapse rc_complete_heap)
  define st' where "st' = (rl_store s)\<lparr>rs_endpoints := (rs_endpoints (rl_store s))(rl_depth_owner s r := ep)\<rparr>"
  let ?s = "s\<lparr>rl_store := st', rl_heap := (rl_heap s)(r := completed b (rl_heap s r))\<rparr>"
  have "rl_poll_one (r, b) s = Inr ?s"
    using out_live [OF inv r] d c by (simp add: rl_poll_one_def st'_def completed_def)
  moreover have "task_ok ?s i u" if u: "rl_task_map s i = Some (Some u)" for i u
    using rl_invD(5) [OF inv u] queued_not_out [OF inv u] r unfolding task_ok_def by auto
  moreover have "out_ok ?s q" if "q \<in> set (removeAll r out)" for q
    using rl_invD(7) [OF inv, of q] that by (auto simp: out_ok_def)
  ultimately show ?thesis
    using rl_invD [OF inv] unfolding rl_inv_def by (intro exI [of _ st']) (auto simp: distinct_removeAll)
qed

lemma poll_all_inv:
  assumes "rl_inv s out" "distinct (map fst wcs)" "fst ` set wcs \<subseteq> set out"
  shows "\<exists>st' heap'. rl_poll_all wcs s = Inr (s\<lparr>rl_store := st', rl_heap := heap'\<rparr>)
    \<and> rl_inv (s\<lparr>rl_store := st', rl_heap := heap'\<rparr>) (filter (\<lambda>r. r \<notin> fst ` set wcs) out)
    \<and> (\<forall>r. heap' r = (case map_of wcs r of Some b \<Rightarrow> completed b (rl_heap s r) | None \<Rightarrow> rl_heap s r))"
  using assms
proof (induction wcs arbitrary: s out)
  case Nil
  then show ?case by (intro exI [of _ "rl_store s"] exI [of _ "rl_heap s"]) simp
next
  case (Cons wc wcs)
  obtain r b where wc: "wc = (r, b)" by (cases wc)
  obtain st1 where one: "rl_poll_one (r, b) s = Inr (s\<lparr>rl_store := st1, rl_heap := (rl_heap s)(r := completed b (rl_heap s r))\<rparr>)"
      "rl_inv (s\<lparr>rl_store := st1, rl_heap := (rl_heap s)(r := completed b (rl_heap s r))\<rparr>) (removeAll r out)"
    using poll_one_inv [OF Cons.prems(1), of r b] Cons.prems(3) wc by auto
  define s1 where "s1 = s\<lparr>rl_store := st1, rl_heap := (rl_heap s)(r := completed b (rl_heap s r))\<rparr>"
  have "fst ` set wcs \<subseteq> set (removeAll r out)" "distinct (map fst wcs)" using Cons.prems(2,3) wc by auto
  then obtain st2 heap2 where two: "rl_poll_all wcs s1 = Inr (s1\<lparr>rl_store := st2, rl_heap := heap2\<rparr>)"
      "rl_inv (s1\<lparr>rl_store := st2, rl_heap := heap2\<rparr>) (filter (\<lambda>x. x \<notin> fst ` set wcs) (removeAll r out))"
      "\<forall>x. heap2 x = (case map_of wcs x of Some b' \<Rightarrow> completed b' (rl_heap s1 x) | None \<Rightarrow> rl_heap s1 x)"
    using Cons.IH [OF one(2) [folded s1_def]] by blast
  have s1: "s1\<lparr>rl_store := st2, rl_heap := heap2\<rparr> = s\<lparr>rl_store := st2, rl_heap := heap2\<rparr>"
      "rl_heap s1 = (rl_heap s)(r := completed b (rl_heap s r))"
    by (simp_all add: s1_def)
  have out: "filter (\<lambda>x. x \<notin> fst ` set wcs) (removeAll r out) = filter (\<lambda>x. x \<notin> fst ` set (wc # wcs)) out"
    by (auto simp: removeAll_filter_not_eq wc intro!: filter_cong)
  have "map_of wcs r = None" using Cons.prems(2) wc by (simp add: map_of_eq_None_iff)
  then have "heap2 x = (case map_of (wc # wcs) x of Some b \<Rightarrow> completed b (rl_heap s x) | None \<Rightarrow> rl_heap s x)" for x
    using two(3) wc unfolding s1(2) by (auto split: option.splits)
  moreover have "rl_poll_all (wc # wcs) s = Inr (s\<lparr>rl_store := st2, rl_heap := heap2\<rparr>)"
    using one(1) two(1) wc unfolding s1(1) by (simp add: s1_def)
  ultimately show ?case using two(2) unfolding s1(1) out by blast
qed

section \<open>Steps of the client and of the device\<close>

definition completions :: "(req \<times> bool) list option \<Rightarrow> (req \<times> bool) list" where
  "completions polled = (case polled of Some wcs \<Rightarrow> wcs | None \<Rightarrow> [])"

definition both :: "(req \<times> bool) list option \<Rightarrow> (req \<times> bool) list option \<Rightarrow> (req \<times> bool) list" where
  "both swcs rwcs = completions swcs @ completions rwcs"

text \<open>The device completes requests it has accepted, each of them once.\<close>

definition device_completes :: "(req \<times> bool) list option \<Rightarrow> (req \<times> bool) list option \<Rightarrow> req list \<Rightarrow> bool" where
  "device_completes swcs rwcs out \<longleftrightarrow>
     distinct (map fst (both swcs rwcs)) \<and> fst ` set (both swcs rwcs) \<subseteq> set out"

lemma rl_poll_all_append: "rl_poll_all (xs @ ys) s = obind (rl_poll_all xs s) (rl_poll_all ys)"
  by (induction xs arbitrary: s) (auto simp: obind_def split: sum.splits)

lemma rl_polls:
  "obind (rl_poll swcs s) (\<lambda>(_, s3). obind (rl_poll rwcs s3) (\<lambda>(_, s4). Inr (0, acc, s4)))
     = obind (rl_poll_all (both swcs rwcs) s) (\<lambda>s4. Inr (0, acc, s4))"
  by (auto simp: rl_poll_def both_def completions_def rl_poll_all_append obind_def split: option.splits sum.splits)

lemma rl_runStep_inv:
  assumes inv: "rl_inv s out"
  obtains acc s1 where "post_phase post s = Inr (acc, s1)" "set acc \<subseteq> queued_requests s"
    "rl_pending_task s1 = tl (rl_pending_task s)" "\<And>i u. rl_task_map s1 i = Some (Some u) \<longleftrightarrow> rl_task_map s i = Some (Some u)"
    "\<And>r. r \<notin> queued_requests s \<Longrightarrow> rl_heap s1 r = rl_heap s r"
    "\<And>swcs rwcs. device_completes swcs rwcs (out @ acc) \<Longrightarrow>
       \<exists>st' heap'. rl_runStep post swcs rwcs s = Inr (0, acc, s1\<lparr>rl_store := st', rl_heap := heap'\<rparr>)
         \<and> rl_inv (s1\<lparr>rl_store := st', rl_heap := heap'\<rparr>)
              (filter (\<lambda>r. r \<notin> fst ` set (both swcs rwcs)) (out @ acc))
         \<and> (\<forall>r. heap' r = (case map_of (both swcs rwcs) r of
                             Some b \<Rightarrow> completed b (rl_heap s1 r) | None \<Rightarrow> rl_heap s1 r))"
proof -
  obtain acc s1 where p: "post_phase post s = Inr (acc, s1)" "rl_inv s1 (out @ acc)" "set acc \<subseteq> queued_requests s"
      "rl_pending_task s1 = tl (rl_pending_task s)" "\<forall>i u. rl_task_map s1 i = Some (Some u) \<longleftrightarrow> rl_task_map s i = Some (Some u)"
      "\<forall>r. r \<notin> queued_requests s \<longrightarrow> rl_heap s1 r = rl_heap s r"
    using post_phase_inv [OF inv] by blast
  show thesis
  proof (rule that [OF p(1,3,4)])
    fix swcs rwcs assume "device_completes swcs rwcs (out @ acc)"
    then show "\<exists>st' heap'. rl_runStep post swcs rwcs s = Inr (0, acc, s1\<lparr>rl_store := st', rl_heap := heap'\<rparr>)
         \<and> rl_inv (s1\<lparr>rl_store := st', rl_heap := heap'\<rparr>)
              (filter (\<lambda>r. r \<notin> fst ` set (both swcs rwcs)) (out @ acc))
         \<and> (\<forall>r. heap' r = (case map_of (both swcs rwcs) r of
                             Some b \<Rightarrow> completed b (rl_heap s1 r) | None \<Rightarrow> rl_heap s1 r))"
      using poll_all_inv [OF p(2), of "both swcs rwcs"] rl_invD(1) [OF inv] p(1)
      unfolding device_completes_def rl_runStep_phases [OF rl_invD(1) [OF inv]] rl_polls p(1) by fastforce
  qed (use p in auto)
qed

text \<open>
  The protocol driven by \<open>runStep\<close>.  A client does not reuse an identifier that is in use and
  frees a task once its status is \<open>SUCCESS\<close>.
\<close>

inductive rl_step :: "'d rc_driver \<Rightarrow> reliable \<times> req list \<Rightarrow> reliable \<times> req list \<Rightarrow> bool" for drv where
  submit: "rl_submit type drv g peer bs s d = Inr (ret, s', d') \<Longrightarrow> rl_task_map s (sint (rl_next_task_id s)) = None \<Longrightarrow>
    sint (rl_next_task_id s) \<notin> set (rl_pending_task s) \<Longrightarrow> rl_step drv (s, out) (s', out)"
| free: "rl_task_map s i = Some (Some t) \<Longrightarrow> fst (rl_getStatus i s) = SUCCESS \<Longrightarrow> rl_freeTask i s = (ret, s') \<Longrightarrow>
    rl_step drv (s, out) (s', out)"
| run: "rl_runStep post swcs rwcs s = Inr (ret, acc, s') \<Longrightarrow> device_completes swcs rwcs (out @ acc) \<Longrightarrow>
    rl_step drv (s, out) (s', filter (\<lambda>r. r \<notin> fst ` set (both swcs rwcs)) (out @ acc))"
| register: "rl_registerLocalMemory reg a len s = (ret, s') \<Longrightarrow> rl_step drv (s, out) (s', out)"
| unregister: "rl_unregisterLocalMemory dereg a s = (ret, s') \<Longrightarrow> rl_step drv (s, out) (s', out)"
| prepare: "rl_prepareConnection drv g peer at s d = Inr (ret, at', s', d') \<Longrightarrow> rl_step drv (s, out) (s', out)"
| connect: "rl_setupConnection drv g peer at s d = Inr (ret, s', d') \<Longrightarrow> rl_step drv (s, out) (s', out)"

text \<open>The remaining operations change the regions and the endpoints only.\<close>

lemma getOrCreate_store: "rl_getOrCreateEndpoint drv g peer s d = Inr (e, s1, d1) \<Longrightarrow> \<exists>st. s1 = s\<lparr>rl_store := st\<rparr>"
  by (auto simp: rl_getOrCreateEndpoint_def obind_eq_Inr)

lemma prepare_store:
  assumes "rl_prepareConnection drv g peer at s d = Inr (ret, at', s', d')"
  shows "\<exists>st. s' = s\<lparr>rl_store := st\<rparr>"
proof -
  obtain e s1 d1 where e: "rl_getOrCreateEndpoint drv g peer s d = Inr (e, s1, d1)"
    using assms by (auto simp: rl_prepareConnection_def obind_eq_Inr)
  then have "s' = s1" using assms by (cases e) (auto simp: rl_prepareConnection_def obind_eq_Inr)
  then show ?thesis using getOrCreate_store [OF e] by simp
qed

lemma setup_store:
  assumes "rl_setupConnection drv g peer at s d = Inr (ret, s', d')"
  shows "\<exists>st. s' = s\<lparr>rl_store := st\<rparr>"
proof -
  obtain e s1 d1 where e: "rl_getOrCreateEndpoint drv g peer s d = Inr (e, s1, d1)"
    using assms by (auto simp: rl_setupConnection_def obind_eq_Inr)
  obtain st where s1: "s1 = s\<lparr>rl_store := st\<rparr>" using getOrCreate_store [OF e] by blast
  show ?thesis
  proof (cases "e = None \<or> at ''lid'' = None \<or> at ''gid'' = None \<or> at ''qp'' = None")
    case True
    then have "s' = s1" using assms e by (auto simp: rl_setupConnection_def split: option.splits)
    then show ?thesis using s1 by blast
  next
    case False
    then show ?thesis using assms e s1 by (auto simp: rl_setupConnection_def obind_eq_Inr)
  qed
qed

lemma inv_store: "rl_inv (s\<lparr>rl_store := st\<rparr>) out \<longleftrightarrow> rl_inv s out" "rl_inv (s\<lparr>rl_regions := rs\<rparr>) out \<longleftrightarrow> rl_inv s out"
  by (simp_all add: rl_inv_def task_ok_def out_ok_def)

lemma memory_regions:
  "rl_registerLocalMemory reg a len s = (ret, s') \<Longrightarrow> \<exists>rs. s' = s\<lparr>rl_regions := rs\<rparr>"
  "rl_unregisterLocalMemory dereg a s = (ret, s') \<Longrightarrow> \<exists>rs. s' = s\<lparr>rl_regions := rs\<rparr>"
  by (auto simp: rl_registerLocalMemory_def rl_unregisterLocalMemory_def split: prod.splits)

lemmas frame_ops = memory_regions prepare_store setup_store

lemma rl_runStep_acc:
  assumes "rl_runStep post swcs rwcs s = Inr (ret, acc, s')" "post_phase post s = Inr (acc', s1)" "\<not> rl_spawn_worker s"
  shows "acc = acc'"
  using assms by (auto simp: rl_runStep_phases obind_eq_Inr)

lemma rl_step_inv: "rl_step drv (s, out) (s', out') \<Longrightarrow> rl_inv s out \<Longrightarrow> rl_inv s' out'"
proof (induction "(s, out)" "(s', out')" arbitrary: s out s' out' rule: rl_step.induct)
  case (run post swcs rwcs s ret acc s' out)
  from run.prems obtain acc' s1 where p: "post_phase post s = Inr (acc', s1)"
      "\<And>swcs rwcs. device_completes swcs rwcs (out @ acc') \<Longrightarrow>
       \<exists>st' heap'. rl_runStep post swcs rwcs s = Inr (0, acc', s1\<lparr>rl_store := st', rl_heap := heap'\<rparr>)
         \<and> rl_inv (s1\<lparr>rl_store := st', rl_heap := heap'\<rparr>) (filter (\<lambda>r. r \<notin> fst ` set (both swcs rwcs)) (out @ acc'))"
    by (rule rl_runStep_inv [where post = post]) blast
  have "acc = acc'" using rl_runStep_acc [OF run.hyps(1) p(1) rl_invD(1) [OF run.prems]] .
  then show ?case using p(2) [of swcs rwcs] run.hyps by auto
next
  case (submit type g peer bs s d ret s' d' out)
  show ?case using submit_inv [OF submit.prems submit.hyps] .
next
  case (free s i t ret s' out)
  then show ?case using free_inv [of s out i t] by simp
qed (auto dest!: frame_ops simp: inv_store)

definition rl_reach :: "'d rc_driver \<Rightarrow> reliable \<Rightarrow> req list \<Rightarrow> bool" where
  "rl_reach drv s out \<longleftrightarrow> (\<exists>first_id heap endpoints lid gid prt config.
     (rl_step drv)\<^sup>*\<^sup>* (RdmaReliableProtocol_new False first_id heap endpoints lid gid prt config, []) (s, out))"

lemma rl_steps_inv: "(rl_step drv)\<^sup>*\<^sup>* x y \<Longrightarrow> rl_inv (fst x) (snd x) \<Longrightarrow> rl_inv (fst y) (snd y)"
proof (induction rule: rtranclp_induct)
  case (step y z)
  then show ?case using rl_step_inv [of drv "fst y" "snd y" "fst z" "snd z"] by simp
qed simp

lemma rl_reach_inv: "rl_reach drv s out \<Longrightarrow> rl_inv s out"
  using rl_steps_inv by (fastforce simp: rl_reach_def RdmaReliableProtocol_new_def rl_inv_def)

section \<open>Properties\<close>

text \<open>
  C16. Whatever a client submits, whatever the device accepts and in whatever order it completes the
  accepted requests, a step of the protocol never touches a deleted request or a null pointer, as
  long as the client frees tasks with status \<open>SUCCESS\<close> only.  Such a task has no request left with
  the device.
\<close>

theorem reliable_no_fault:
  assumes "rl_reach drv s out"
  shows "\<exists>acc. \<forall>swcs rwcs. device_completes swcs rwcs (out @ acc) \<longrightarrow> (\<exists>s'. rl_runStep post swcs rwcs s = Inr (0, acc, s')
      \<and> (\<forall>i t. rl_task_map s' i = Some (Some t) \<longrightarrow> fst (rl_getStatus i s') = SUCCESS \<longrightarrow>
           (\<forall>r\<in>set (rt_request_list t). r \<in> set (out @ acc) \<longrightarrow> r \<in> fst ` set (both swcs rwcs))))"
proof -
  from rl_reach_inv [OF assms] obtain acc s1 where p: "\<And>swcs rwcs. device_completes swcs rwcs (out @ acc) \<Longrightarrow>
       \<exists>st' heap'. rl_runStep post swcs rwcs s = Inr (0, acc, s1\<lparr>rl_store := st', rl_heap := heap'\<rparr>)
         \<and> rl_inv (s1\<lparr>rl_store := st', rl_heap := heap'\<rparr>) (filter (\<lambda>r. r \<notin> fst ` set (both swcs rwcs)) (out @ acc))"
    by (rule rl_runStep_inv [where post = post]) blast
  have "\<exists>s'. rl_runStep post swcs rwcs s = Inr (0, acc, s')
      \<and> (\<forall>i t. rl_task_map s' i = Some (Some t) \<longrightarrow> fst (rl_getStatus i s') = SUCCESS \<longrightarrow>
           (\<forall>r\<in>set (rt_request_list t). r \<in> set (out @ acc) \<longrightarrow> r \<in> fst ` set (both swcs rwcs)))"
    if c: "device_completes swcs rwcs (out @ acc)" for swcs rwcs
  proof -
    obtain s' where r: "rl_runStep post swcs rwcs s = Inr (0, acc, s')"
        "rl_inv s' (filter (\<lambda>r. r \<notin> fst ` set (both swcs rwcs)) (out @ acc))" using p [OF c] by blast
    show ?thesis
      using r(1) success_not_out [OF r(2)] by (intro exI [of _ s']) fastforce
  qed
  then show ?thesis by blast
qed

text \<open>A driver that takes every request.\<close>

lemma post_requests_accept_all:
  assumes "\<And>wrs. fst (post wrs) = 0" "0 \<le> lim - d - int (length rs)"
  shows "\<exists>d' heap'. post_requests post mk dref lim d rs heap = (int (length rs), d', heap', rs)
    \<and> (\<forall>r\<in>set rs. heap' r = (heap r)\<lparr>rr_qp_depth := Some dref\<rparr>)"
  using assms by (auto simp: post_requests_def Let_def bad_chain_def set_failed_def set_depth_ref_def min_def)

definition depth_of :: "request_type \<Rightarrow> rc_endpoint \<Rightarrow> int" where
  "depth_of type ep = (case type of SEND \<Rightarrow> re_send_wr_depth ep ! 0 | RECEIVE \<Rightarrow> re_recv_wr_depth ep ! 0)"

lemma post_task_accept_all:
  assumes "\<And>wrs. fst (post wrs) = 0" "rt_endpoint t = Some e"
    and "int (length (rt_request_list t)) \<le> re_max_wr_depth (rs_endpoints (rl_store s) e) - depth_of (rt_type t) (rs_endpoints (rl_store s) e)"
  shows "\<exists>ret s'. post_task post t s = Inr (ret, rt_request_list t, s')
    \<and> (\<forall>r\<in>set (rt_request_list t). rr_length0 (rl_heap s' r) = rr_length0 (rl_heap s r) \<and> rr_length1 (rl_heap s' r) = rr_length1 (rl_heap s r))"
proof -
  let ?ep = "rs_endpoints (rl_store s) e"
  define dref where "dref = (case rt_type t of SEND \<Rightarrow> SendDepth 0 | RECEIVE \<Rightarrow> RecvDepth 0)"
  have room: "0 \<le> re_max_wr_depth ?ep - depth_of (rt_type t) ?ep - int (length (rt_request_list t))" using assms(3) by simp
  obtain d' heap' where p: "post_requests post rc_make_wr dref (re_max_wr_depth ?ep) (depth_of (rt_type t) ?ep) (rt_request_list t) (rl_heap s)
      = (int (length (rt_request_list t)), d', heap', rt_request_list t)"
      "\<forall>r\<in>set (rt_request_list t). heap' r = (rl_heap s r)\<lparr>rr_qp_depth := Some dref\<rparr>"
    using post_requests_accept_all [where post = post and mk = rc_make_wr and dref = dref and heap = "rl_heap s", OF assms(1) room] by blast
  have "\<exists>ep'. rl_endpoint_post post (rt_type t) (rt_request_list t) (?ep, rl_heap s)
      = (int (length (rt_request_list t)), (ep', heap'), rt_request_list t)"
    using p(1) by (cases "rt_type t")
      (simp_all add: rl_endpoint_post_def rc_postSendRequest_def rc_postReceiveRequest_def depth_of_def dref_def)
  then show ?thesis using p(2) assms(2) by (auto simp: post_task_def set_failed_def)
qed


text \<open>A task that is out of the queue, with nothing at the device, and pending.\<close>

definition task_lost :: "int \<Rightarrow> rl_task \<Rightarrow> reliable \<Rightarrow> req list \<Rightarrow> bool" where
  "task_lost i t s out \<longleftrightarrow> rl_task_map s i = Some (Some t) \<and> i \<notin> set (rl_pending_task s) \<and> rt_request_list t \<noteq> []
     \<and> (\<forall>r\<in>set (rt_request_list t). rr_status (rl_heap s r) = PENDING \<and> r \<notin> set out)"

lemma task_lost_status: "task_lost i t s out \<Longrightarrow> rl_getStatus i s = (PENDING, Some 0)"
proof -
  assume l: "task_lost i t s out"
  then obtain r where "r \<in> set (rt_request_list t)" by (metis task_lost_def last_in_set)
  then show ?thesis using l by (auto simp: rl_getStatus_def getTaskById_def status_loop_eq task_lost_def filter_empty_conv)
qed

lemma task_lost_not_queued:
  assumes "rl_inv s out" "rl_task_map s i = Some (Some t)" "i \<notin> set (rl_pending_task s)"
  shows "set (rt_request_list t) \<inter> queued_requests s = {}"
  using tasks_disjoint [OF assms(1,2)] assms(3) unfolding queued_requests_def by blast

lemma task_lost_run:
  assumes inv: "rl_inv s out" and lost: "task_lost i t s out"
    and run: "rl_runStep post swcs rwcs s = Inr (ret, acc, s')" and c: "device_completes swcs rwcs (out @ acc)"
  shows "task_lost i t s' (filter (\<lambda>r. r \<notin> fst ` set (both swcs rwcs)) (out @ acc))"
proof -
  from inv obtain acc' s1 where p: "post_phase post s = Inr (acc', s1)" "set acc' \<subseteq> queued_requests s"
    "rl_pending_task s1 = tl (rl_pending_task s)" "\<And>i u. rl_task_map s1 i = Some (Some u) \<longleftrightarrow> rl_task_map s i = Some (Some u)"
    "\<And>r. r \<notin> queued_requests s \<Longrightarrow> rl_heap s1 r = rl_heap s r"
    "\<And>swcs rwcs. device_completes swcs rwcs (out @ acc') \<Longrightarrow>
       \<exists>st' heap'. rl_runStep post swcs rwcs s = Inr (0, acc', s1\<lparr>rl_store := st', rl_heap := heap'\<rparr>)
         \<and> (\<forall>r. heap' r = (case map_of (both swcs rwcs) r of Some b \<Rightarrow> completed b (rl_heap s1 r) | None \<Rightarrow> rl_heap s1 r))"
    by (rule rl_runStep_inv [where post = post]) blast
  have acc: "acc = acc'" using rl_runStep_acc [OF run p(1) rl_invD(1) [OF inv]] .
  obtain st' heap' where s': "s' = s1\<lparr>rl_store := st', rl_heap := heap'\<rparr>"
      "\<forall>r. heap' r = (case map_of (both swcs rwcs) r of Some b \<Rightarrow> completed b (rl_heap s1 r) | None \<Rightarrow> rl_heap s1 r)"
    using p(6) [OF c [unfolded acc]] run by auto
  have dis: "set (rt_request_list t) \<inter> queued_requests s = {}"
    using task_lost_not_queued [OF inv, of i t] lost by (simp add: task_lost_def)
  have "heap' r = rl_heap s r \<and> r \<notin> set (out @ acc)" if r: "r \<in> set (rt_request_list t)" for r
  proof -
    have out: "r \<notin> set (out @ acc)" using r lost dis p(2) acc by (auto simp: task_lost_def)
    then have "map_of (both swcs rwcs) r = None"
      using c by (force simp: device_completes_def map_of_eq_None_iff)
    then show ?thesis using s'(2) p(5) [of r] r dis out by auto
  qed
  moreover have "i \<notin> set (tl (rl_pending_task s))" using lost by (cases "rl_pending_task s") (auto simp: task_lost_def)
  ultimately show ?thesis using lost p(3,4) by (auto simp: task_lost_def s'(1))
qed

lemma task_lost_step: "rl_step drv (s, out) (s', out') \<Longrightarrow> rl_inv s out \<Longrightarrow> task_lost i t s out \<Longrightarrow> task_lost i t s' out'"
proof (induction "(s, out)" "(s', out')" arbitrary: s out s' out' rule: rl_step.induct)
  case (submit type g peer bs s d ret s' d' out)
  have below: "\<forall>r\<in>set (rt_request_list t). r < rl_fresh s"
    using rl_invD(4) [OF submit.prems(1)] rl_invD(5) [OF submit.prems(1), of i t] submit.prems(2)
    by (auto simp: task_lost_def task_ok_def)
  have ne: "sint (rl_next_task_id s) \<noteq> i" using submit by (auto simp: task_lost_def)
  from submit.hyps(1,2) rl_invD(2,4) [OF submit.prems(1)] show ?case
    by (cases rule: rl_submit_effect) (use submit.prems(2) below ne in \<open>auto simp: task_lost_def given_up_def submitted_def\<close>)
next
  case (free s k u ret s' out)
  have "k \<noteq> i" using task_lost_status [OF free.prems(2)] free.hyps(2) by auto
  then show ?case using free free_eq [OF free.prems(1) free.hyps(1)] by (auto simp: task_lost_def)
next
  case (run post swcs rwcs s ret acc s' out)
  then show ?case using task_lost_run by blast
qed (auto dest!: frame_ops simp: task_lost_def)

lemma task_lost_forever:
  assumes "(rl_step drv)\<^sup>*\<^sup>* x y" "rl_inv (fst x) (snd x)" "task_lost i t (fst x) (snd x)"
  shows "rl_inv (fst y) (snd y) \<and> task_lost i t (fst y) (snd y)"
  using assms
proof (induction rule: rtranclp_induct)
  case (step y z)
  then show ?case
    using rl_step_inv [of drv "fst y" "snd y" "fst z" "snd z"] task_lost_step [of drv "fst y" "snd y" "fst z" "snd z"] by simp
qed simp

text \<open>
  C36. A task with more requests than \<open>max_wr_per_qp\<close> is lost: the step that takes it from the queue does
  not post it and does not put it back, so from then on its status is \<open>PENDING\<close> with no byte
  transferred, whatever happens afterwards.
\<close>

theorem oversized_task_lost:
  assumes reach: "rl_reach drv s out"
    and task: "rl_pending_task s = i # rest" "rl_task_map s i = Some (Some t)"
    and size: "unat (rf_max_wr_per_qp (rl_config s)) < length (rt_request_list t)" "length (rt_request_list t) < 2 ^ 64"
    and run: "rl_runStep post swcs rwcs s = Inr (ret, acc, s1)" "device_completes swcs rwcs (out @ acc)"
    and rest: "(rl_step drv)\<^sup>*\<^sup>* (s1, filter (\<lambda>r. r \<notin> fst ` set (both swcs rwcs)) (out @ acc)) (s', out')"
  shows "acc = [] \<and> rl_getStatus i s' = (PENDING, Some 0)"
proof -
  note inv = rl_reach_inv [OF reach]
  obtain s0 where tk: "take_pending s = (Some t, s0)" "rl_config s0 = rl_config s"
    using task by (auto simp: take_pending_def getTaskById_def)
  have "\<not> task_fits 0 t s0"
    using size tk(2) by (simp add: task_fits_def word_le_nat_alt unat_of_nat)
  then have phase: "post_phase post s = Inr ([], s0)" using tk by (simp add: post_phase_def post_if_fits_def)
  then have acc: "acc = []" using rl_runStep_acc [OF run(1) _ rl_invD(1) [OF inv]] by simp
  have taken: "task_taken s0 out t" using take_inv(2) [OF inv tk(1)] by simp
  have id: "rt_id t = i" using rl_invD(5) [OF inv task(2)] by (simp add: task_ok_def)
  have lost0: "task_lost i t s0 out"
    using taken size(1) id by (auto simp: task_lost_def task_taken_def)
  have step: "rl_step drv (s, out) (s1, filter (\<lambda>r. r \<notin> fst ` set (both swcs rwcs)) (out @ acc))"
    by (rule rl_step.run [OF run])
  obtain st' heap' where s1: "s1 = s0\<lparr>rl_store := st', rl_heap := heap'\<rparr>"
      "\<forall>r. heap' r = (case map_of (both swcs rwcs) r of Some b \<Rightarrow> completed b (rl_heap s0 r) | None \<Rightarrow> rl_heap s0 r)"
    using poll_all_inv [OF take_inv(1) [OF inv tk(1)], of "both swcs rwcs"] run phase
    unfolding acc device_completes_def rl_runStep_phases [OF rl_invD(1) [OF inv]] rl_polls by auto
  have "map_of (both swcs rwcs) r = None" if "r \<in> set (rt_request_list t)" for r
    using lost0 that run(2) by (force simp: acc device_completes_def task_lost_def map_of_eq_None_iff)
  then have "task_lost i t s1 (filter (\<lambda>r. r \<notin> fst ` set (both swcs rwcs)) (out @ acc))"
    using lost0 s1 by (auto simp: task_lost_def acc)
  then have "task_lost i t s' out'"
    using task_lost_forever [OF rest] rl_step_inv [OF step inv] by simp
  then show ?thesis using acc task_lost_status by blast
qed

text \<open>
  C37. The destructor of a task deletes its requests while the device still works on them: if a task is
  freed with a request in flight, the completion of that request touches a deleted object.  The
  status \<open>FAILED\<close> does not exclude requests in flight, because one failed request decides it.
\<close>

theorem free_in_flight_faults:
  assumes reach: "rl_reach drv s out" and task: "rl_task_map s i = Some (Some t)"
    and r: "r \<in> set out" "r \<in> set (rt_request_list t)"
  shows "rl_poll (Some [(r, ok)]) (snd (rl_freeTask i s)) = Inl UseAfterFree \<and> fst (rl_getStatus i s) \<noteq> SUCCESS
    \<and> (fst (rl_getStatus i s) = FAILED \<longleftrightarrow> (\<exists>q\<in>set (rt_request_list t). rr_status (rl_heap s q) = FAILED))"
proof -
  note inv = rl_reach_inv [OF reach]
  have "rl_poll (Some [(r, ok)]) (snd (rl_freeTask i s)) = Inl UseAfterFree"
    using r(2) by (simp add: free_eq [OF inv task] rl_poll_def rl_poll_one_def)
  moreover have "fst (rl_getStatus i s) \<noteq> SUCCESS" using success_not_out [OF inv task] r by auto
  ultimately show ?thesis
    using task by (auto simp: rl_getStatus_def getTaskById_def status_loop_eq)
qed

section \<open>Witnesses\<close>

definition test_driver :: "unit rc_driver" where
  "test_driver = \<lparr>rd_create_qp = (\<lambda>d. (Some 7, d)), rd_destroy_qp = (\<lambda>_ d. (0, d)), rd_modify_qp = (\<lambda>_ _ _ d. (0, d))\<rparr>"

definition test_garbage :: garbage where
  "test_garbage = \<lparr>gb_counters = (\<lambda>_. 0), gb_depth = 0, gb_value = (\<lambda>_. 0)\<rparr>"

definition test_start :: reliable where
  "test_start = RdmaReliableProtocol_new False 5 (\<lambda>_. Request_new) (\<lambda>_. RdmaRCEndPoint_new 0) 0 []
     \<lparr>rp_port_num = 1, rp_gid_index = 0, rp_active_mtu = 5\<rparr> \<lparr>rf_num_qp_per_endpoint = 1, rf_max_wr_per_qp = 2\<rparr>"

definition test_registered :: reliable where
  "test_registered = test_start\<lparr>rl_regions := [\<lparr>mr_addr = 4096, mr_length = 8192, mr_lkey = 7, mr_rkey = 8\<rparr>]\<rparr>"

definition test_store :: "rc_endpoint \<Rightarrow> rc_store" where
  "test_store ep = \<lparr>rs_endpoint_map = [''b'' \<mapsto> 0], rs_endpoints = (\<lambda>_. RdmaRCEndPoint_new 0)(0 := ep), rs_fresh = 1\<rparr>"

definition test_rc_endpoint :: rc_endpoint where
  "test_rc_endpoint = (rc_construct [7] 2)\<lparr>re_status := CONNECTED\<rparr>"

definition test_connected :: reliable where
  "test_connected = test_registered\<lparr>rl_store := test_store test_rc_endpoint\<rparr>"

definition test_attributes :: attributes where
  "test_attributes = [''lid'' \<mapsto> show_digits 10 0, ''gid'' \<mapsto> '''', ''qp'' \<mapsto> ToString [9]]"

lemma test_registers: "rl_registerLocalMemory test_reg 4096 8192 test_start = (0, test_registered)"
  by (simp add: rl_registerLocalMemory_def registerMemoryRegion_def test_reg_def test_start_def test_registered_def
      RdmaReliableProtocol_new_def)

lemma test_new_endpoint:
  "rl_getOrCreateEndpoint test_driver test_garbage ''b'' test_registered () = Inr (Some 0, test_registered\<lparr>rl_store := test_store (rc_construct [7] 2)\<rparr>, ())"
  by (simp add: rl_getOrCreateEndpoint_def rcst_getOrCreateEndpoint_def rcep_construct_def RdmaRCEndPoint_new_def test_registered_def
      test_start_def RdmaReliableProtocol_new_def test_driver_def test_garbage_def test_store_def rc_construct_def Let_def)

lemma test_sets_up:
  "rcep_setupConnection (rd_modify_qp test_driver) p v gid lid [9] (rc_construct [7] 2) () = Inr (0, test_rc_endpoint, ())"
  by (simp add: rcep_setupConnection_def rcep_setup_qp_def rc_transitions_def test_driver_def rc_construct_def test_rc_endpoint_def)

lemma test_connects: "rl_setupConnection test_driver test_garbage ''b'' test_attributes test_registered () = Inr (0, test_connected, ())"
  using stoi_u16_show [of 0] from_stream_ToString
  by (simp add: rl_setupConnection_def test_new_endpoint test_attributes_def FromString_def istream_of_def test_sets_up test_store_def test_connected_def)

definition test_buffer :: buffer where
  "test_buffer = \<lparr>buf_addr = 5000, buf_length = 100\<rparr>"

definition test_heap :: "req list \<Rightarrow> req_heap" where
  "test_heap rs = (\<lambda>r. if r \<in> set rs then rl_new_request test_buffer 7 else Request_new)"

definition test_task :: "req list \<Rightarrow> rl_task" where
  "test_task rs = \<lparr>rt_type = SEND, rt_id = 5, rt_endpoint = Some 0, rt_request_list = rs\<rparr>"

definition test_sent :: "req list \<Rightarrow> reliable" where
  "test_sent rs = test_connected\<lparr>rl_next_task_id := 6, rl_heap := test_heap rs, rl_live := set rs, rl_fresh := length rs,
     rl_task_map := [5 \<mapsto> Some (test_task rs)], rl_pending_task := [5]\<rparr>"

lemma test_key: "mr_key [\<lparr>mr_addr = 4096, mr_length = 8192, mr_lkey = 7, mr_rkey = 8\<rparr>] 5000 = (7, 8)"
  by (simp add: mr_key_def mr_contains_def)

lemmas test_defs = test_connected_def test_registered_def test_start_def RdmaReliableProtocol_new_def test_store_def
  test_rc_endpoint_def rc_construct_def test_task_def test_sent_def test_heap_def

lemmas submit_defs = rl_submit_def allocateTask_def rl_put_task_def Let_def test_buffer_def test_key
  rl_getOrCreateEndpoint_def rcst_getOrCreateEndpoint_def rcep_connected_def

lemma test_sends2: "rl_submit SEND test_driver test_garbage ''b'' [test_buffer, test_buffer] test_connected () = Inr (5, test_sent [0, 1], ())"
  by (simp add: submit_defs test_defs insert_commute) (auto simp: fun_eq_iff test_buffer_def)

lemma test_sends3:
  "rl_submit SEND test_driver test_garbage ''b'' [test_buffer, test_buffer, test_buffer] test_connected () = Inr (5, test_sent [0, 1, 2], ())"
  by (simp add: submit_defs test_defs insert_commute) (auto simp: fun_eq_iff test_buffer_def numeral_2_eq_2)

lemma test_reach:
  assumes "rl_submit SEND test_driver test_garbage ''b'' bs test_connected () = Inr (5, test_sent rs, ())"
  shows "rl_reach test_driver (test_sent rs) []"
proof -
  have "rl_step test_driver (test_start, []) (test_registered, [])" using rl_step.register [OF test_registers] .
  moreover have "rl_step test_driver (test_registered, []) (test_connected, [])" using rl_step.connect [OF test_connects] .
  moreover have "rl_step test_driver (test_connected, []) (test_sent rs, [])"
    by (rule rl_step.submit [OF assms]) (simp_all add: test_defs)
  ultimately have "(rl_step test_driver)\<^sup>*\<^sup>* (test_start, []) (test_sent rs, [])" by simp
  then show ?thesis unfolding rl_reach_def test_start_def by blast
qed

lemmas run_defs = rl_runStep_def take_pending_def getTaskById_def post_if_fits_def task_fits_def post_task_def rl_endpoint_post_def
  rc_postSendRequest_def post_requests_def bad_chain_def set_failed_def set_depth_ref_def rl_poll_def Let_def

theorem reliable_no_fault_witness:
  "\<exists>acc s'. rl_runStep (\<lambda>_. (12, Some 1)) (Some []) (Some []) (test_sent [0, 1]) = Inr (0, acc, s')"
proof -
  have "device_completes (Some []) (Some []) out" for out by (simp add: device_completes_def both_def completions_def)
  then show ?thesis using reliable_no_fault [OF test_reach [OF test_sends2], of "\<lambda>_. (12, Some 1)"] by blast
qed


theorem oversized_task_lost_witness:
  "\<exists>s1. rl_runStep (\<lambda>_. (0, None)) (Some []) (Some []) (test_sent [0, 1, 2]) = Inr (0, [], s1) \<and> rl_getStatus 5 s1 = (PENDING, Some 0)"
proof -
  let ?s = "test_sent [0, 1, 2]"
  obtain s1 where r: "rl_runStep (\<lambda>_. (0, None)) (Some []) (Some []) ?s = Inr (0, [], s1)"
    by (auto simp: run_defs test_defs)
  have m: "rl_pending_task ?s = [5]" "rl_task_map ?s 5 = Some (Some (test_task [0, 1, 2]))" "rt_request_list (test_task [0, 1, 2]) = [0, 1, 2]"
      "rf_max_wr_per_qp (rl_config ?s) = 2"
    by (simp_all add: test_defs)
  have c: "device_completes (Some []) (Some []) out" for out by (simp add: device_completes_def both_def completions_def)
  show ?thesis
    using oversized_task_lost [OF test_reach [OF test_sends3] m(1,2) _ _ r c rtranclp.rtrancl_refl] r m by auto
qed

theorem free_in_flight_faults_witness:
  "\<exists>s1. rl_runStep (\<lambda>_. (12, Some 1)) (Some []) (Some []) (test_sent [0, 1]) = Inr (0, [0], s1)
     \<and> fst (rl_getStatus 5 s1) = FAILED \<and> rl_poll (Some [(0, True)]) (snd (rl_freeTask 5 s1)) = Inl UseAfterFree"
proof -
  let ?s = "test_sent [0, 1]"
  obtain s1 where r: "rl_runStep (\<lambda>_. (12, Some 1)) (Some []) (Some []) ?s = Inr (0, [0], s1)"
      "rl_task_map s1 5 = Some (Some (test_task [0, 1]))" "rr_status (rl_heap s1 1) = FAILED"
    by (auto simp: run_defs test_defs)
  have "device_completes (Some []) (Some []) ([] @ [0])" by (simp add: device_completes_def both_def completions_def)
  from rl_step.run [OF r(1) this, of test_driver] have "rl_step test_driver (?s, []) (s1, [0])"
    by (simp add: both_def completions_def)
  then have "rl_reach test_driver s1 [0]"
    using test_reach [OF test_sends2] unfolding rl_reach_def by (meson rtranclp.rtrancl_into_rtrancl)
  from free_in_flight_faults [OF this r(2), of 0 True] r show ?thesis by (auto simp: test_task_def)
qed

end
