(* ===== verification/ReliableEngine.thy ===== *)
theory ReliableEngine
  imports Reliable Engine
begin

text \<open>
  The engine on the reliable protocol: the virtual functions of \<open>RdmaReliableProtocol\<close>
  (\<open>src/src/protocols/rdma_reliable/impl.{h,cpp}\<close>), and the connection of two engines.

  The process is the protocol with the state \<open>'d\<close> of its device; the answers of the device come from
  this state.
\<close>

section \<open>Virtual functions\<close>

record 'd rl_environment =
  rv_driver :: "'d rc_driver"
  rv_garbage :: garbage
  rv_context_construct :: "string \<Rightarrow> u8 \<Rightarrow> int \<Rightarrow> 'd \<Rightarrow> int \<times> 'd"
  rv_reg_mr :: reg_mr
  rv_dereg_mr :: dereg_mr
  rv_post :: "'d \<Rightarrow> ibv_post"
  rv_poll :: "'d \<Rightarrow> (req \<times> bool) list option \<times> (req \<times> bool) list option \<times> 'd"

definition reliable_ops :: "'d rl_environment \<Rightarrow> (reliable \<times> 'd) protocol" where
  "reliable_ops v =
     \<lparr>pr_construct = (\<lambda>device_name rdma_port gid_index (s, d).
        case rv_context_construct v device_name rdma_port gid_index d of (ret, d1) \<Rightarrow>
          case rl_construct ret s of (ret, s1) \<Rightarrow> Inr (ret, s1, d1)),
      pr_deconstruct = (\<lambda>(s, d). case rl_deconstruct s of (ret, s1) \<Rightarrow> Inr (ret, s1, d)),
      pr_joinMulticast = (\<lambda>_. not_implemented),
      pr_leaveMulticast = (\<lambda>_. not_implemented),
      pr_setMulticastReplicas = (\<lambda>_ _. not_implemented),
      pr_prepareConnection = (\<lambda>peer_name local_attr (s, d). rl_prepareConnection (rv_driver v) (rv_garbage v) peer_name local_attr s d),
      pr_setupConnection = (\<lambda>peer_name peer (s, d). rl_setupConnection (rv_driver v) (rv_garbage v) peer_name peer s d),
      pr_send = (\<lambda>peer_name buffer_list (s, d). rl_send (rv_driver v) (rv_garbage v) peer_name buffer_list s d),
      pr_receive = (\<lambda>peer_name buffer_list (s, d). rl_receive (rv_driver v) (rv_garbage v) peer_name buffer_list s d),
      pr_getStatus = (\<lambda>task_id (s, d). Inr (rl_getStatus task_id s, s, d)),
      pr_freeTask = (\<lambda>task_id (s, d). case rl_freeTask task_id s of (ret, s1) \<Rightarrow> Inr (ret, s1, d)),
      pr_registerLocalMemory = (\<lambda>a len (s, d). case rl_registerLocalMemory (rv_reg_mr v) a len s of (ret, s1) \<Rightarrow> Inr (ret, s1, d)),
      pr_unregisterLocalMemory = (\<lambda>a (s, d). case rl_unregisterLocalMemory (rv_dereg_mr v) a s of (ret, s1) \<Rightarrow> Inr (ret, s1, d)),
      pr_runStep = (\<lambda>(s, d). case rv_poll v d of (send_wcs, recv_wcs, d1) \<Rightarrow>
        obind (rl_runStep (rv_post v d) send_wcs recv_wcs s) (\<lambda>(ret, _, s1). Inr (ret, s1, d1)))\<rparr>"

section \<open>The connection contract\<close>

text \<open>A device that grants every request of a connection setup, and records what the queue pairs are set to.\<close>

definition rc_grants :: "'d rc_driver \<Rightarrow> bool" where
  "rc_grants drv \<longleftrightarrow> (\<forall>d. fst (rd_create_qp drv d) \<noteq> None) \<and> (\<forall>q attr flags d. fst (rd_modify_qp drv q attr flags d) = 0)"

definition rc_recording :: "'d rc_driver \<Rightarrow> ('d \<times> (u32 \<times> rc_qp_attr) list) rc_driver" where
  "rc_recording drv = \<lparr>rd_create_qp = (\<lambda>(d, tr). case rd_create_qp drv d of (q, d1) \<Rightarrow> (q, d1, tr)),
     rd_destroy_qp = (\<lambda>q (d, tr). case rd_destroy_qp drv q d of (err, d1) \<Rightarrow> (err, d1, tr)),
     rd_modify_qp = rc_traced (rd_modify_qp drv)\<rparr>"

definition recording :: "'d rc_driver \<Rightarrow> garbage \<Rightarrow> ('d \<times> (u32 \<times> rc_qp_attr) list) rl_environment" where
  "recording drv g = \<lparr>rv_driver = rc_recording drv, rv_garbage = g, rv_context_construct = (\<lambda>_ _ _ d. (0, d)),
     rv_reg_mr = (\<lambda>_ _ _. None), rv_dereg_mr = (\<lambda>_. 0), rv_post = (\<lambda>_ _. (0, None)), rv_poll = (\<lambda>d. (None, None, d))\<rparr>"

type_synonym 'd rl_process = "reliable \<times> 'd \<times> (u32 \<times> rc_qp_attr) list"

definition rl_able :: "'d rc_driver \<Rightarrow> string \<Rightarrow> 'd rl_process \<Rightarrow> bool" where
  "rl_able drv n p \<longleftrightarrow> rc_grants drv \<and> n \<noteq> [] \<and> rs_endpoint_map (rl_store (fst p)) n = None \<and> length (rl_gid (fst p)) = 16"

text \<open>The queue pairs of the endpoint of a name.\<close>

definition rl_queue_pairs :: "string \<Rightarrow> reliable \<Rightarrow> u32 list \<Rightarrow> bool" where
  "rl_queue_pairs n s nums \<longleftrightarrow> (\<exists>e. rs_endpoint_map (rl_store s) n = Some e
     \<and> re_qp_list (rs_endpoints (rl_store s) e) = map Some nums)"

definition rl_attributes :: "reliable \<Rightarrow> u32 list \<Rightarrow> attributes" where
  "rl_attributes s nums = [''lid'' \<mapsto> show_digits 10 (unat (rl_lid s)), ''gid'' \<mapsto> gid_string (rl_gid s), ''qp'' \<mapsto> ToString nums]"

definition rl_announced :: "'d rc_driver \<Rightarrow> string \<Rightarrow> attributes \<Rightarrow> 'd rl_process \<Rightarrow> bool" where
  "rl_announced drv n a p \<longleftrightarrow> rc_grants drv \<and> n \<noteq> [] \<and> length (rl_gid (fst p)) = 16
     \<and> (\<exists>nums. rl_queue_pairs n (fst p) nums \<and> length nums = unat (rf_num_qp_per_endpoint (rl_config (fst p)))
          \<and> a = rl_attributes (fst p) nums)"

definition rl_accepts :: "'d rl_process \<Rightarrow> 'd rl_process \<Rightarrow> bool" where
  "rl_accepts p q \<longleftrightarrow> rf_num_qp_per_endpoint (rl_config (fst p)) = rf_num_qp_per_endpoint (rl_config (fst q))"

text \<open>The endpoint is connected, and the last settings led its queue pairs to those of the peer.\<close>

definition rl_towards :: "string \<Rightarrow> u32 list \<Rightarrow> u8 list \<Rightarrow> u16 \<Rightarrow> u32 list \<Rightarrow> 'd rl_process \<Rightarrow> bool" where
  "rl_towards n nums peer_gid peer_lid peers = (\<lambda>(s, d, tr).
     length nums = length peers
     \<and> (\<exists>e. rs_endpoint_map (rl_store s) n = Some e \<and> rcep_connected (rs_endpoints (rl_store s) e)
          \<and> re_qp_list (rs_endpoints (rl_store s) e) = map Some nums)
     \<and> (\<exists>tr0. tr = tr0 @ concat (map2 (rc_ready_trace (rl_port s) peer_gid peer_lid) nums peers)))"

definition rl_linked :: "'d rc_driver \<Rightarrow> string \<Rightarrow> attributes \<Rightarrow> attributes \<Rightarrow> 'd rl_process \<Rightarrow> bool" where
  "rl_linked drv n a b p \<longleftrightarrow> (\<exists>q nums peers. a = rl_attributes (fst p) nums \<and> b = rl_attributes q peers
     \<and> length (rl_gid (fst p)) = 16 \<and> length (rl_gid q) = 16 \<and> rl_towards n nums (rl_gid q) (rl_lid q) peers p)"

lemma rc_create_granted:
  assumes "\<And>d. fst (create_qp d) \<noteq> None"
  shows "fst (rc_create_qps create_qp i k ep d) = 0"
proof (induction k arbitrary: i ep d)
  case (Suc k)
  obtain q d1 where "create_qp d = (Some q, d1)" using assms [of d] by (metis option.exhaust prod.collapse)
  then show ?case using Suc by (simp add: Let_def)
qed simp

lemma rcep_construct_granted:
  assumes "\<And>d. fst (create_qp d) \<noteq> None"
  obtains nums d' where "length nums = unat n"
    "rcep_construct create_qp garbage n max_wr (RdmaRCEndPoint_new g) d = (0, rc_construct nums max_wr, d')"
proof -
  obtain ret ep d' where r: "rcep_construct create_qp garbage n max_wr (RdmaRCEndPoint_new g) d = (ret, ep, d')" by (metis prod_cases3)
  have "ret = 0"
    using r rc_create_granted [where create_qp = create_qp and i = 0 and k = "unat n", OF assms]
    by (auto simp: rcep_construct_def RdmaRCEndPoint_new_def Let_def split: prod.splits if_splits) (metis fst_conv)
  then show thesis using that rcep_construct_result [OF r] r by blast
qed

lemma modify_all_granted:
  assumes "\<And>q attr flags d. fst (f q attr flags d) = 0"
  shows "\<exists>d'. modify_all (rc_traced f) q ts (d, tr) = (0, d')"
proof (induction ts arbitrary: d tr)
  case (Cons t ts)
  obtain attr flags where t: "t = (attr, flags)" by (cases t)
  obtain d1 where "f q attr flags d = (0, d1)" using assms [of q attr flags d] by (cases "f q attr flags d") auto
  then show ?case using Cons by (simp add: t rc_traced_apply)
qed simp

lemma setup_qps_granted:
  assumes "\<And>q attr flags d. fst (f q attr flags d) = 0" "\<forall>i\<in>set is. i < length qps"
  shows "\<exists>d'. rcep_setup_qps (rc_traced f) p gid lid peers (map Some qps) is (d, tr) = Inr (0, d')"
  using assms(2)
proof (induction "is" arbitrary: d tr)
  case (Cons i "is")
  obtain d1 tr1 where "modify_all (rc_traced f) (qps ! i) (rc_transitions p gid lid (peers ! i)) (d, tr) = (0, d1, tr1)"
    using modify_all_granted [of f "qps ! i", OF assms(1)] by (metis prod.collapse)
  then show ?case using Cons by (simp add: rcep_setup_qp_def)
qed simp

lemma rcep_setup_granted:
  assumes "\<And>q attr flags d. fst (f q attr flags d) = 0" "re_qp_list ep = map Some nums" "length nums = length peers"
  shows "\<exists>d'. rcep_setupConnection (rc_traced f) p g gid lid peers ep (d, tr)
    = Inr (0, ep\<lparr>re_status := CONNECTED\<rparr>, d', tr @ concat (map2 (rc_ready_trace p (parse_gid g gid) lid) nums peers))"
proof -
  obtain d' tr' where r: "rcep_setup_qps (rc_traced f) p (parse_gid g gid) lid peers (map Some nums) [0..<length nums] (d, tr) = Inr (0, d', tr')"
    using setup_qps_granted [OF assms(1), of "[0..<length nums]" nums] by force
  have "tr' = tr @ concat (map (\<lambda>i. rc_ready_trace p (parse_gid g gid) lid (nums ! i) (peers ! i)) [0..<length nums])"
    using rcep_setup_qps_trace [OF r] by simp
  also have "map (\<lambda>i. rc_ready_trace p (parse_gid g gid) lid (nums ! i) (peers ! i)) [0..<length nums]
      = map2 (rc_ready_trace p (parse_gid g gid) lid) nums peers"
    using assms(3) by (intro nth_equalityI) auto
  finally show ?thesis using r assms(2,3) by (simp add: rcep_setupConnection_def)
qed

lemma qpNum_map_Some: "rcep_qpNum (map Some nums) = Inr nums"
  by (induction nums) auto

lemma rl_prepare_new:
  assumes "rl_able drv n (s, d)"
  obtains nums s1 d1 where "rl_prepareConnection (rc_recording drv) g n Map.empty s d = Inr (0, rl_attributes s nums, s1, d1)"
    "rl_queue_pairs n s1 nums" "length nums = unat (rf_num_qp_per_endpoint (rl_config s))" "\<exists>st. s1 = s\<lparr>rl_store := st\<rparr>"
proof -
  have grant: "fst (rd_create_qp (rc_recording drv) d) \<noteq> None" for d
    using assms by (cases d; cases "rd_create_qp drv (fst d)") (auto simp: rl_able_def rc_grants_def rc_recording_def, metis fst_conv option.distinct(1))
  obtain nums d1 where c: "length nums = unat (rf_num_qp_per_endpoint (rl_config s))"
      "rcep_construct (rd_create_qp (rc_recording drv)) (gb_counters g) (rf_num_qp_per_endpoint (rl_config s)) (rf_max_wr_per_qp (rl_config s))
         (RdmaRCEndPoint_new (gb_depth g)) d = (0, rc_construct nums (rf_max_wr_per_qp (rl_config s)), d1)"
    by (rule rcep_construct_granted [where create_qp = "rd_create_qp (rc_recording drv)", OF grant])
  let ?st = "(rl_store s)\<lparr>rs_endpoint_map := (rs_endpoint_map (rl_store s))(n \<mapsto> rs_fresh (rl_store s)),
    rs_endpoints := (rs_endpoints (rl_store s))(rs_fresh (rl_store s) := rc_construct nums (rf_max_wr_per_qp (rl_config s))),
    rs_fresh := rs_fresh (rl_store s) + 1\<rparr>"
  have "rl_getOrCreateEndpoint (rc_recording drv) g n s d = Inr (Some (rs_fresh (rl_store s)), s\<lparr>rl_store := ?st\<rparr>, d1)"
    using assms c(2) by (simp add: rl_able_def rl_getOrCreateEndpoint_def rcst_getOrCreateEndpoint_def)
  then have "rl_prepareConnection (rc_recording drv) g n Map.empty s d = Inr (0, rl_attributes s nums, s\<lparr>rl_store := ?st\<rparr>, d1)"
    by (simp add: rl_prepareConnection_def rc_construct_def qpNum_map_Some rl_attributes_def)
  then show thesis using that [of nums "s\<lparr>rl_store := ?st\<rparr>" d1] c(1) by (auto simp: rl_queue_pairs_def rc_construct_def)
qed

lemma rl_setup_announced:
  assumes "rl_announced drv n a (s, d, tr)" "rl_announced drv m b q" "rl_accepts (s, d, tr) q"
  shows "\<exists>s' d' tr'. rl_setupConnection (rc_recording drv) g n b s (d, tr) = Inr (0, s', d', tr') \<and> rl_linked drv n a b (s', d', tr')"
proof -
  obtain nums where n: "rl_queue_pairs n s nums" "length nums = unat (rf_num_qp_per_endpoint (rl_config s))" "a = rl_attributes s nums"
    using assms(1) by (auto simp: rl_announced_def)
  obtain peers where b: "length peers = unat (rf_num_qp_per_endpoint (rl_config (fst q)))" "b = rl_attributes (fst q) peers" "length (rl_gid (fst q)) = 16"
    using assms(2) by (auto simp: rl_announced_def)
  obtain e where e: "rs_endpoint_map (rl_store s) n = Some e" "re_qp_list (rs_endpoints (rl_store s) e) = map Some nums"
    using n(1) by (auto simp: rl_queue_pairs_def)
  have len: "length nums = length peers" using assms(3) n(2) b(1) by (simp add: rl_accepts_def)
  have ep: "rl_getOrCreateEndpoint (rc_recording drv) g n s (d, tr) = Inr (Some e, s, d, tr)"
    using assms(1) e by (simp add: rl_announced_def rl_getOrCreateEndpoint_def rcst_getOrCreateEndpoint_def)
  have lid: "stoi_u16 (show_digits 10 (unat (rl_lid (fst q)))) = Inr (rl_lid (fst q))"
    using stoi_u16_show [of "unat (rl_lid (fst q))"] order_less_trans [OF unat_u16_less, of "2 ^ 31" "rl_lid (fst q)"] by simp
  have gid: "parse_gid (gb_value g) (gid_string (rl_gid (fst q))) = rl_gid (fst q)"
    using b(3) by (simp add: parse_gid_def istream_of_def gid_string_join parse_gid_loop_join)
  have qp: "FromString (ToString peers) = peers" by (simp add: FromString_def istream_of_def from_stream_ToString)
  have grant: "fst (rd_modify_qp drv q attr flags d) = 0" for q attr flags d using assms(1) by (simp add: rl_announced_def rc_grants_def)
  let ?ep = "(rs_endpoints (rl_store s) e)\<lparr>re_status := CONNECTED\<rparr>"
  let ?s = "s\<lparr>rl_store := (rl_store s)\<lparr>rs_endpoints := (rs_endpoints (rl_store s))(e := ?ep)\<rparr>\<rparr>"
  let ?tr = "tr @ concat (map2 (rc_ready_trace (rl_port s) (rl_gid (fst q)) (rl_lid (fst q))) nums peers)"
  obtain d' where "rcep_setupConnection (rc_traced (rd_modify_qp drv)) (rl_port s) (gb_value g) (gid_string (rl_gid (fst q))) (rl_lid (fst q)) peers
      (rs_endpoints (rl_store s) e) (d, tr) = Inr (0, ?ep, d', ?tr)"
    using rcep_setup_granted [where f = "rd_modify_qp drv", OF grant e(2) len, where p = "rl_port s" and g = "gb_value g" and gid = "gid_string (rl_gid (fst q))" and lid = "rl_lid (fst q)" and d = d and tr = tr] gid by auto
  then have "rl_setupConnection (rc_recording drv) g n b s (d, tr) = Inr (0, ?s, d', ?tr)"
    using ep lid qp by (simp add: rl_setupConnection_def b(2) rl_attributes_def rc_recording_def)
  moreover have "rl_linked drv n a b (?s, d', ?tr)"
    unfolding rl_linked_def rl_towards_def
    using assms(1) by (intro exI [of _ "fst q"] exI [of _ nums] exI [of _ peers]) (auto simp: n(3) b(2,3) rl_attributes_def len e rcep_connected_def rl_announced_def)
  ultimately show ?thesis by blast
qed

interpretation rc: connection_protocol "reliable_ops (recording drv g)" "rl_able drv" "rl_announced drv" rl_accepts "rl_linked drv" for drv g
proof
  fix n and p :: "'a rl_process"
  assume a: "rl_able drv n p"
  obtain s d where p: "p = (s, d)" by (cases p)
  obtain nums s1 d1 where r: "rl_prepareConnection (rc_recording drv) g n Map.empty s d = Inr (0, rl_attributes s nums, s1, d1)"
      "rl_queue_pairs n s1 nums" "length nums = unat (rf_num_qp_per_endpoint (rl_config s))" "\<exists>st. s1 = s\<lparr>rl_store := st\<rparr>"
    using rl_prepare_new [OF a [unfolded p]] by blast
  have "json_safe (rl_attributes s nums)"
    by (auto simp: json_safe_def rl_attributes_def attribute_keys_def ran_def ascii_attributes split: if_splits)
  then show "\<exists>a p'. pr_prepareConnection (reliable_ops (recording drv g)) n Map.empty p = Inr (0, a, p') \<and> rl_announced drv n a p' \<and> json_safe a
        \<and> (\<forall>q. rl_accepts p' q = rl_accepts p q \<and> rl_accepts q p' = rl_accepts q p)"
    using r a p by (auto simp: reliable_ops_def recording_def rl_announced_def rl_able_def rl_accepts_def rl_attributes_def)
next
  fix n a m b and p q :: "'a rl_process"
  assume asm: "rl_announced drv n a p" "rl_announced drv m b q" "rl_accepts p q"
  obtain s d tr where p: "p = (s, d, tr)" by (cases p)
  show "\<exists>p'. pr_setupConnection (reliable_ops (recording drv g)) n b p = Inr (0, p') \<and> rl_linked drv n a b p'"
    using rl_setup_announced [OF asm [unfolded p], of g] by (auto simp: reliable_ops_def recording_def p)
qed

section \<open>Properties\<close>

lemma rl_attributes_inject:
  assumes "rl_attributes s xs = rl_attributes t ys" "length (rl_gid s) = 16" "length (rl_gid t) = 16"
  shows "xs = ys" "rl_gid s = rl_gid t" "rl_lid s = rl_lid t"
proof -
  have eq: "rl_attributes s xs k = rl_attributes t ys k" for k using assms(1) by simp
  have "ToString xs = ToString ys" using eq [of "''qp''"] by (simp add: rl_attributes_def)
  then show "xs = ys" by (metis from_stream_ToString)
  have "gid_string (rl_gid s) = gid_string (rl_gid t)" using eq [of "''gid''"] by (simp add: rl_attributes_def)
  then show "rl_gid s = rl_gid t" using assms(2,3) by (metis gid_string_join parse_gid_loop_join)
  have "show_digits 10 (unat (rl_lid s)) = show_digits 10 (unat (rl_lid t))" using eq [of "''lid''"] by (simp add: rl_attributes_def)
  then have "unat (rl_lid s) = unat (rl_lid t)" by (rule show_digits_inject)
  then show "rl_lid s = rl_lid t" by (rule word_unat_eq_iff [THEN iffD2])
qed

text \<open>
  C18. The handshake connects two processes to each other.  One side calls for the first time for an address, the other listens;
  the device grants the calls, and both are configured with the same number of queue pairs.  Then the call returns
  0, both sides have a connected endpoint - under the address on one side, under the name for accepted
  peers on the other - and queue pair by queue pair each was led through RESET, INIT, RTR and RTS towards the one of
  the same position of the other side, with its GID and LID.
\<close>

theorem reliable_engines_connect:
  assumes "json_ok js" "rpc_ok js call" "rc_grants drv" "peer \<noteq> []" "isMulticastAddress peer = Inr False"
    "\<not> hasConnection peer (eg_session_manager e)"
    "rs_endpoint_map (rl_store (fst (eg_protocol e))) peer = None"
    "rs_endpoint_map (rl_store (fst (eg_protocol r))) (accepted_name (sm_uid (eg_session_manager r))) = None"
    "length (rl_gid (fst (eg_protocol e))) = 16" "length (rl_gid (fst (eg_protocol r))) = 16"
    "rf_num_qp_per_endpoint (rl_config (fst (eg_protocol e))) = rf_num_qp_per_endpoint (rl_config (fst (eg_protocol r)))"
    "sm_on_accept (eg_session_manager r) = Some (on_accept (reliable_ops (recording drv g)) None)"
  shows "\<exists>e' r' xs ys. makeConnectionIfNeeded (reliable_ops (recording drv g)) js True call peer e r = Inr (0, e', r')
    \<and> hasConnection peer (eg_session_manager e')
    \<and> rl_towards peer xs (rl_gid (fst (eg_protocol r'))) (rl_lid (fst (eg_protocol r'))) ys (eg_protocol e')
    \<and> rl_towards (accepted_name (sm_uid (eg_session_manager r))) ys
         (rl_gid (fst (eg_protocol e'))) (rl_lid (fst (eg_protocol e'))) xs (eg_protocol r')"
proof -
  let ?n = "accepted_name (sm_uid (eg_session_manager r))"
  have able: "rl_able drv peer (eg_protocol e)" "rl_able drv ?n (eg_protocol r)"
    using assms(3,4,7-10) by (simp_all add: rl_able_def accepted_name_def)
  have acc: "rl_accepts (eg_protocol e) (eg_protocol r)" "rl_accepts (eg_protocol r) (eg_protocol e)"
    using assms(11) by (simp_all add: rl_accepts_def)
  have callback: "\<exists>q'. run_callback None n True q = Inr q'" for n and q :: "'a rl_process" by (intro exI [of _ q]) (simp add: run_callback_def)
  obtain e' r' a b where
    h: "makeConnectionIfNeeded (reliable_ops (recording drv g)) js True call peer e r = Inr (0, e', r')"
      "hasConnection peer (eg_session_manager e')" "rl_linked drv peer a b (eg_protocol e')" "rl_linked drv ?n b a (eg_protocol r')"
    using rc.handshake [OF assms(1,2,5,6) able acc assms(12) callback] by (auto simp: run_callback_def)
  obtain q xs ys where l: "a = rl_attributes (fst (eg_protocol e')) xs" "b = rl_attributes q ys" "length (rl_gid (fst (eg_protocol e'))) = 16"
      "length (rl_gid q) = 16" "rl_towards peer xs (rl_gid q) (rl_lid q) ys (eg_protocol e')"
    using h(3) unfolding rl_linked_def by blast
  obtain q' xs' ys' where l': "b = rl_attributes (fst (eg_protocol r')) ys'" "a = rl_attributes q' xs'" "length (rl_gid (fst (eg_protocol r'))) = 16"
      "length (rl_gid q') = 16" "rl_towards ?n ys' (rl_gid q') (rl_lid q') xs' (eg_protocol r')"
    using h(4) unfolding rl_linked_def by blast
  note i = rl_attributes_inject [OF trans [OF l(1) [symmetric] l'(2)] l(3) l'(4)]
  note j = rl_attributes_inject [OF trans [OF l(2) [symmetric] l'(1)] l(4) l'(3)]
  show ?thesis using h(1,2) l(5) l'(5) unfolding i [symmetric] j [symmetric] unfolding j by blast
qed

definition test_engine :: "unit rl_process engine" where
  "test_engine = \<lparr>eg_session_manager = SessionManager_new, eg_protocol = (test_start\<lparr>rl_gid := replicate 16 254\<rparr>, (), [])\<rparr>"

theorem reliable_engines_connect_witness:
  "\<exists>r e' r' xs ys. eg_startListener (reliable_ops (recording test_driver test_garbage)) ''0.0.0.0:1'' None test_engine = Inr (0, r)
    \<and> makeConnectionIfNeeded (reliable_ops (recording test_driver test_garbage)) plain_json True (direct_call plain_json) ''b:1''
        test_engine r = Inr (0, e', r')
    \<and> rl_towards ''b:1'' xs (rl_gid (fst (eg_protocol r'))) (rl_lid (fst (eg_protocol r'))) ys (eg_protocol e')
    \<and> rl_towards (accepted_name 0) ys (rl_gid (fst (eg_protocol e'))) (rl_lid (fst (eg_protocol e'))) xs (eg_protocol r')"
proof -
  let ?ops = "reliable_ops (recording test_driver test_garbage)"
  let ?e = "test_engine"
  define r where "r = ?e\<lparr>eg_session_manager := SessionManager_new\<lparr>sm_on_accept := Some (on_accept ?ops None), sm_server := Some 1\<rparr>\<rparr>"
  have "stoi ''1'' = Inr 1" by code_simp
  then have listen: "eg_startListener ?ops ''0.0.0.0:1'' None ?e = Inr (0, r)"
    by (simp add: eg_startListener_def sm_startListener_def parseHostPort_def test_engine_def r_def)
  have "rc_grants test_driver" by (simp add: rc_grants_def test_driver_def)
  moreover have "isMulticastAddress ''b:1'' = Inr False" by (simp add: isMulticastAddress_def)
  moreover have "\<not> hasConnection ''b:1'' (eg_session_manager ?e)" "sm_uid (eg_session_manager r) = 0"
    "rs_endpoint_map (rl_store (fst (eg_protocol ?e))) ''b:1'' = None"
    "rs_endpoint_map (rl_store (fst (eg_protocol r))) (accepted_name (sm_uid (eg_session_manager r))) = None"
    "length (rl_gid (fst (eg_protocol ?e))) = 16" "length (rl_gid (fst (eg_protocol r))) = 16"
    "rf_num_qp_per_endpoint (rl_config (fst (eg_protocol ?e))) = rf_num_qp_per_endpoint (rl_config (fst (eg_protocol r)))"
    "sm_on_accept (eg_session_manager r) = Some (on_accept ?ops None)"
    by (simp_all add: r_def test_engine_def hasConnection_def SessionManager_new_def test_start_def RdmaReliableProtocol_new_def)
  ultimately show ?thesis
    using listen reliable_engines_connect [OF plain_json_ok direct_call_ok, of test_driver "''b:1''" ?e r test_garbage] by auto
qed

end
