(* ===== verification/FileTransfer.thy ===== *)
theory FileTransfer
  imports ReliableEngine
begin

text \<open>
  The sample program \<open>src/example/file_transfer.cpp\<close>: a file is sent as its size followed by chunks of at
  most one buffer, and written out by the receiver.

  The kernel answers \<open>read\<close> and \<open>write\<close> from a list of answers, one per call; a run that uses
  them up has not returned (None).  The outcomes of the waits for completion are a function of their
  position.  Sizes are below \<open>2 ^ 63\<close>, where unsigned arithmetic is that of the natural numbers.
\<close>

section \<open>Reading and writing fully\<close>

text \<open>
  The call was interrupted, failed with a code, returned zero, or moved up to that many bytes
  and at least one, if there is one to move.
\<close>

datatype io_answer = Interrupted | IoError int | ZeroBytes | UpTo nat

text \<open>The result, the bytes put into the buffer, the rest of the file and the answers left.\<close>

fun readFully :: "io_answer list \<Rightarrow> nat \<Rightarrow> nat \<Rightarrow> u8 list \<Rightarrow> (int \<times> u8 list \<times> u8 list \<times> io_answer list) option" where
  "readFully answers len 0 data = Some (int len, [], data, answers)"
| "readFully [] len (Suc n) data = None"
| "readFully (Interrupted # answers) len (Suc n) data = readFully answers len (Suc n) data"
| "readFully (IoError e # answers) len (Suc n) data = Some (e, [], data, answers)"
| "readFully (ZeroBytes # answers) len (Suc n) data = Some (int (len - Suc n), [], data, answers)"
| "readFully (UpTo k # answers) len (Suc n) data =
     (let rc = min (Suc k) (min (Suc n) (length data))
      in if rc = 0 then Some (int (len - Suc n), [], data, answers)
         else map_option (\<lambda>(ret, bytes, rest). (ret, take rc data @ bytes, rest)) (readFully answers len (Suc n - rc) (drop rc data)))"

text \<open>The result, the bytes that reached the file, and the answers left.\<close>

fun writeFully :: "io_answer list \<Rightarrow> nat \<Rightarrow> u8 list \<Rightarrow> (int \<times> u8 list \<times> io_answer list) option" where
  "writeFully answers len [] = Some (int len, [], answers)"
| "writeFully [] len (b # bs) = None"
| "writeFully (Interrupted # answers) len (b # bs) = writeFully answers len (b # bs)"
| "writeFully (IoError e # answers) len (b # bs) = Some (e, [], answers)"
| "writeFully (ZeroBytes # answers) len (b # bs) = Some (int (len - length (b # bs)), [], answers)"
| "writeFully (UpTo k # answers) len (b # bs) =
     (let rc = min (Suc k) (length (b # bs))
      in map_option (\<lambda>(ret, bytes, rest). (ret, take rc (b # bs) @ bytes, rest)) (writeFully answers len (drop rc (b # bs))))"

text \<open>The kernel keeps moving bytes: calls are interrupted at most, and \<open>n\<close> of them are not.\<close>

definition progresses :: "nat \<Rightarrow> io_answer list \<Rightarrow> bool" where
  "progresses n answers \<longleftrightarrow> (\<forall>a\<in>set answers. a = Interrupted \<or> (\<exists>k. a = UpTo k)) \<and> n \<le> length (filter (\<lambda>a. a \<noteq> Interrupted) answers)"

lemma progresses_simps [simp]:
  "progresses n (Interrupted # as) = progresses n as" "progresses (Suc n) (UpTo k # as) = progresses n as"
  "progresses n (IoError e # as) = False" "progresses n (ZeroBytes # as) = False" "progresses (Suc n) [] = False"
  by (auto simp: progresses_def)

lemma progresses_mono: "progresses n as \<Longrightarrow> m \<le> n \<Longrightarrow> progresses m as"
  by (auto simp: progresses_def)

lemma readFully_progress:
  assumes "n \<le> length data" "progresses (n + m) answers"
  shows "\<exists>answers'. readFully answers len n data = Some (int len, take n data, drop n data, answers') \<and> progresses m answers'"
  using assms
proof (induction answers len n data rule: readFully.induct)
  case (6 k answers len n data)
  let ?rc = "min (Suc k) (min (Suc n) (length data))"
  have rc: "0 < ?rc" "?rc \<le> Suc n" "?rc \<le> length data" using "6.prems"(1) by auto
  have le: "Suc n - ?rc + m \<le> n + m" using rc(1) by linarith
  have len: "Suc n - ?rc \<le> length (drop ?rc data)" using "6.prems"(1) by (simp add: diff_le_mono)
  have "progresses (n + m) answers" using "6.prems"(2) by simp
  then have "progresses (Suc n - ?rc + m) answers" by (rule progresses_mono [OF _ le])
  then obtain as where "readFully answers len (Suc n - ?rc) (drop ?rc data)
      = Some (int len, take (Suc n - ?rc) (drop ?rc data), drop (Suc n - ?rc) (drop ?rc data), as)" "progresses m as"
    using "6.IH" [OF refl _ len] rc(1) by blast
  moreover have "take ?rc data @ take (Suc n - ?rc) (drop ?rc data) = take (Suc n) data"
    using rc(2) by (metis le_add_diff_inverse take_add)
  ultimately show ?case using rc by (auto simp: Let_def)
qed auto

lemma writeFully_progress:
  assumes "progresses (length bytes + m) answers"
  shows "\<exists>answers'. writeFully answers len bytes = Some (int len, bytes, answers') \<and> progresses m answers'"
  using assms
proof (induction answers len bytes rule: writeFully.induct)
  case (6 k answers len b bs)
  let ?rc = "min (Suc k) (length (b # bs))"
  have "progresses (length (drop ?rc (b # bs)) + m) answers"
    using "6.prems" by (auto intro: progresses_mono [where n = "length bs + m"])
  then obtain as where "writeFully answers len (drop ?rc (b # bs)) = Some (int len, drop ?rc (b # bs), as)" "progresses m as"
    using "6.IH" [OF refl] by auto
  then show ?case by (auto simp: Let_def)
qed auto

section \<open>Waiting\<close>

text \<open>\<open>wait_for_completion\<close> of both roles; None when it never returns.\<close>

partial_function (option) wait_for_completion :: "'p protocol \<Rightarrow> int \<Rightarrow> 'p engine \<Rightarrow> (int \<times> 'p engine) outcome option" where
  "wait_for_completion ops task_id e =
     (case eg_getStatus ops task_id e of
        Inl f \<Rightarrow> Some (Inl f)
      | Inr ((st, _), e1) \<Rightarrow>
          if st = FAILED then Some (Inr (-1, e1))
          else if st = SUCCESS then Some (Inr (0, e1))
          else wait_for_completion ops task_id e1)"

text \<open>The first loops over the targets: the results of \<open>send\<close> are collected, whatever they are.\<close>

fun send_all ::
  "'p protocol \<Rightarrow> json \<Rightarrow> (string \<Rightarrow> bool) \<Rightarrow> (string \<Rightarrow> 'w rpc) \<Rightarrow> string list \<Rightarrow> buffer \<Rightarrow> 'p engine \<Rightarrow> 'w \<Rightarrow> (int list \<times> 'p engine \<times> 'w) outcome" where
  "send_all ops js connected call [] b e w = Inr ([], e, w)"
| "send_all ops js connected call (target # targets) b e w =
     obind (eg_send ops js (connected target) (call target) target [b] e w) (\<lambda>(task_id, e1, w1).
       obind (send_all ops js connected call targets b e1 w1) (\<lambda>(ids, e2, w2). Inr (task_id # ids, e2, w2)))"

fun wait_all :: "'p protocol \<Rightarrow> int list \<Rightarrow> 'p engine \<Rightarrow> (int \<times> 'p engine) outcome option" where
  "wait_all ops [] e = Some (Inr (0, e))"
| "wait_all ops (task_id # ids) e =
     (case wait_for_completion ops task_id e of
        None \<Rightarrow> None
      | Some (Inl f) \<Rightarrow> Some (Inl f)
      | Some (Inr (ret, e1)) \<Rightarrow> if ret \<noteq> 0 then Some (Inr (-1, e1)) else wait_all ops ids e1)"

text \<open>The tokens of a list of targets.\<close>

definition split :: "string \<Rightarrow> char \<Rightarrow> string list" where
  "split s delimiter = getlines delimiter s"

text \<open>A status that stays unknown is waited for without end.\<close>

lemma wait_stuck:
  assumes "\<And>e. P e \<Longrightarrow> \<exists>n e1. eg_getStatus ops task e = Inr ((UNKNOWN, n), e1) \<and> P e1" "P e"
  shows "wait_for_completion ops task e = None"
proof (rule ccontr)
  assume "wait_for_completion ops task e \<noteq> None"
  then obtain y where "wait_for_completion ops task e = Some y" by auto
  moreover have "ops' = ops \<longrightarrow> task' = task \<longrightarrow> \<not> P e" if "wait_for_completion ops' task' e = Some y" for ops' task' e y
  proof (rule wait_for_completion.raw_induct [where P = "\<lambda>ops' task' e y. ops' = ops \<longrightarrow> task' = task \<longrightarrow> \<not> P e", OF _ that], goal_cases)
    case (1 wait ops' task' e y)
    show ?case
    proof (intro impI notI)
      assume eq: "ops' = ops" "task' = task" and "P e"
      then obtain n e1 where "eg_getStatus ops task e = Inr ((UNKNOWN, n), e1)" "P e1" using assms(1) by blast
      then show False using 1(1) [of ops task e1 y] 1(2) eq by simp
    qed
  qed
  ultimately show False using assms(2) by blast
qed

lemma wait_returns:
  assumes "eg_getStatus ops task e = Inr ((SUCCESS, n), e1)"
  shows "wait_for_completion ops task e = Some (Inr (0, e1))"
  by (subst wait_for_completion.simps) (simp add: assms)

lemma reliable_status_unknown:
  "rl_task_map (fst (eg_protocol e)) task = None \<Longrightarrow> eg_getStatus (reliable_ops v) task e = Inr ((UNKNOWN, None), e)"
  by (cases "eg_protocol e") (simp add: eg_getStatus_def lift_protocol_def reliable_ops_def rl_getStatus_def getTaskById_def)

lemma release_task_map [simp]: "rl_task_map (release_task t s) = rl_task_map s"
  by (simp add: release_task_def split: option.splits)

lemma rl_send_unregistered:
  assumes "fst (mr_key (rl_regions s) (buf_addr b)) = 0"
  shows "\<exists>s'. rl_send drv g peer [b] s d = Inr (-1, s', d) \<and> rl_task_map s' = (rl_task_map s)(sint (rl_next_task_id s) := None)"
proof -
  obtain t0 s0 where a: "allocateTask SEND s = (t0, s0)" by fastforce
  have s0: "rt_id t0 = sint (rl_next_task_id s)" "rl_regions s0 = rl_regions s" "rl_task_map s0 = (rl_task_map s)(rt_id t0 \<mapsto> Some t0)"
    using a by (auto simp: allocateTask_def Let_def rl_put_task_def release_task_def split: option.splits)
  have "rl_add_requests [b] t0 s0 = (False, t0, s0)" using assms s0(2) by simp
  then have "rl_send drv g peer [b] s d = Inr (-1, snd (rl_freeTask (rt_id t0) s0), d)"
    using a by (simp add: rl_send_def rl_submit_def rl_fail_task_def)
  moreover have "rl_task_map (snd (rl_freeTask (rt_id t0) s0)) = (rl_task_map s)(sint (rl_next_task_id s) := None)"
    using s0 by (simp add: rl_freeTask_def Let_def split: option.splits)
  ultimately show ?thesis by blast
qed



section \<open>Sender and receiver\<close>

definition dram_buffer_size :: nat where
  "dram_buffer_size = 2 ^ 30"

text \<open>
  The loop of the sender over the chunks, from \<open>offset\<close>.  \<open>ok i\<close> is whether the waits of round \<open>i\<close> succeed, \<open>data\<close> what is left of the
  file, \<open>a\<close> the buffer; the result has the messages handed to \<open>send\<close>, the same for each target.
\<close>

function sender_loop ::
  "(nat \<Rightarrow> bool) \<Rightarrow> bool \<Rightarrow> addr \<Rightarrow> nat \<Rightarrow> nat \<Rightarrow> nat \<Rightarrow> io_answer list \<Rightarrow> u8 list \<Rightarrow> mem \<Rightarrow> (int \<times> u8 list list) option" where
  "sender_loop ok has_fd a file_size offset i answers data m =
     (if \<not> offset < file_size then Some (0, [])
      else
        let chunk_size = min dram_buffer_size (file_size - offset)
        in case (if has_fd then readFully answers chunk_size chunk_size data else Some (int chunk_size, [], data, answers)) of
             None \<Rightarrow> None
           | Some (ret, bytes, data1, answers1) \<Rightarrow>
               if int chunk_size \<noteq> ret then Some (-1, [])
               else
                 let m1 = mem_write m a bytes; message = mem_read m1 a chunk_size
                 in if \<not> ok i then Some (-1, [message])
                    else map_option (\<lambda>(ret, messages). (ret, message # messages))
                           (sender_loop ok has_fd a file_size (offset + dram_buffer_size) (Suc i) answers1 data1 m1))"
  by pat_completeness auto

termination
  by (relation "measure (\<lambda>(ok, has_fd, a, file_size, offset, i, answers, data, m). file_size - offset)") (auto simp: dram_buffer_size_def)

declare sender_loop.simps [simp del]

text \<open>The sender from the header on; without a file it sends the buffer as it is.\<close>

definition sender_run :: "(nat \<Rightarrow> bool) \<Rightarrow> bool \<Rightarrow> addr \<Rightarrow> nat \<Rightarrow> io_answer list \<Rightarrow> u8 list \<Rightarrow> mem \<Rightarrow> (int \<times> u8 list list) option" where
  "sender_run ok has_fd a st_size answers data m =
     (let file_size = (if has_fd then st_size else dram_buffer_size);
          m1 = store64 m a (of_nat file_size);
          header = mem_read m1 a 8
      in if \<not> ok 0 then Some (-1, [header])
         else map_option (\<lambda>(ret, messages). (ret, header # messages)) (sender_loop ok has_fd a file_size 0 1 answers data m1))"

text \<open>
  A receive completes when the message that arrives next fills its buffer; it waits without end when there is none.
  The result has what was written to the file.
\<close>

function receiver_loop ::
  "(nat \<Rightarrow> bool) \<Rightarrow> nat \<Rightarrow> addr \<Rightarrow> nat \<Rightarrow> nat \<Rightarrow> nat \<Rightarrow> io_answer list \<Rightarrow> u8 list list \<Rightarrow> mem \<Rightarrow> (int \<times> u8 list) option" where
  "receiver_loop ok transferred_size a file_size offset i answers inbox m =
     (if \<not> offset < file_size then Some (0, [])
      else if transferred_size = 0 then None
      else
        let chunk_size = min transferred_size (file_size - offset)
        in case inbox of
             [] \<Rightarrow> None
           | message # inbox1 \<Rightarrow>
               if length message \<noteq> chunk_size then None
               else if \<not> ok i then Some (-1, [])
               else
                 let m1 = mem_write m a message
                 in case writeFully answers chunk_size (mem_read m1 a chunk_size) of
                      None \<Rightarrow> None
                    | Some (ret, bytes, answers1) \<Rightarrow>
                        if int chunk_size \<noteq> ret then Some (-1, bytes)
                        else map_option (\<lambda>(ret, rest). (ret, bytes @ rest))
                               (receiver_loop ok transferred_size a file_size (offset + transferred_size) (Suc i) answers1 inbox1 m1))"
  by pat_completeness auto

termination
  by (relation "measure (\<lambda>(ok, ts, a, file_size, offset, i, answers, inbox, m). file_size - offset)") auto

declare receiver_loop.simps [simp del]

definition receiver_path :: "string \<Rightarrow> int \<Rightarrow> string" where
  "receiver_path flag receiver_index =
     (let path = (if flag = [] then ''/tmp/received'' else flag)
      in if receiver_index \<noteq> 0 then path @ ''.'' @ show_int receiver_index else path)"

definition transferred_size :: "u32 \<Rightarrow> u64 outcome" where
  "transferred_size num_recv_files =
     (if num_recv_files = 0 then Inl DivByZero else Inr ((push_bit 30 1 * ucast num_recv_files) div ucast num_recv_files))"

text \<open>The receiver thread for one connection, from the receive of the header on.\<close>

definition receiver_run ::
  "(nat \<Rightarrow> bool) \<Rightarrow> u32 \<Rightarrow> addr \<Rightarrow> u64 \<Rightarrow> io_answer list \<Rightarrow> u8 list list \<Rightarrow> mem \<Rightarrow> (int \<times> u8 list) outcome option" where
  "receiver_run ok num_recv_files pool receiver_index answers inbox m =
     (case transferred_size num_recv_files of
        Inl f \<Rightarrow> Some (Inl f)
      | Inr ts \<Rightarrow>
          let start_addr = pool + ts * receiver_index
          in case inbox of
               [] \<Rightarrow> None
             | message # inbox1 \<Rightarrow>
                 if length message \<noteq> 8 then None
                 else if \<not> ok 0 then Some (Inr (-1, []))
                 else
                   let m1 = mem_write m start_addr message; file_size = load64 m1 start_addr
                   in if \<not> (file_size > 0 \<and> file_size < push_bit 30 32) then Some (Inl AssertFailed)
                      else map_option Inr (receiver_loop ok (unat ts) start_addr (unat file_size) 0 1 answers inbox1 m1))"

section \<open>The file arrives\<close>

text \<open>The pieces of a list, each of \<open>n\<close> elements but the last.\<close>

fun pieces :: "nat \<Rightarrow> 'a list \<Rightarrow> 'a list list" where
  "pieces n xs = (if xs = [] \<or> n = 0 then [] else take n xs # pieces n (drop n xs))"

declare pieces.simps [simp del]

lemma sender_loop_pieces:
  assumes "offset \<le> file_size" "length data = file_size - offset" "progresses (length data) answers"
  shows "sender_loop (\<lambda>_. True) True a file_size offset i answers data m = Some (0, pieces dram_buffer_size data)"
  using assms
proof (induction "file_size - offset" arbitrary: offset i answers data m rule: less_induct)
  case less
  show ?case
  proof (cases "offset < file_size")
    case False
    then show ?thesis using less.prems by (subst sender_loop.simps) (simp add: pieces.simps)
  next
    case True
    let ?n = "min dram_buffer_size (file_size - offset)"
    have n: "?n \<le> length data" "0 < dram_buffer_size" "data \<noteq> []" using less.prems True by (auto simp: dram_buffer_size_def)
    have "progresses (?n + (length data - ?n)) answers" using less.prems(3) n(1) by simp
    from readFully_progress [OF n(1) this] obtain answers' where
      r: "readFully answers ?n ?n data = Some (int ?n, take ?n data, drop ?n data, answers')" "progresses (length data - ?n) answers'" by blast
    have t: "take ?n data = take dram_buffer_size data" "drop ?n data = drop dram_buffer_size data" "?n = length (take dram_buffer_size data)"
      using less.prems(2) by (simp_all add: min_def)
    have "length (take dram_buffer_size data) \<le> 2 ^ 64" by (simp add: dram_buffer_size_def)
    then have msg: "mem_read (mem_write m a (take dram_buffer_size data)) a ?n = take dram_buffer_size data"
      using mem_read_write_same [of "take dram_buffer_size data" m a] t(3) by simp
    have "sender_loop (\<lambda>_. True) True a file_size (offset + dram_buffer_size) (Suc i) answers' (drop dram_buffer_size data)
        (mem_write m a (take dram_buffer_size data)) = Some (0, pieces dram_buffer_size (drop dram_buffer_size data))"
    proof (cases "offset + dram_buffer_size \<le> file_size")
      case le: True
      then have "?n = dram_buffer_size" by simp
      then have "progresses (length (drop dram_buffer_size data)) answers'" using r(2) by simp
      then show ?thesis using less.hyps [of "offset + dram_buffer_size" "drop dram_buffer_size data"] le less.prems(2) n(2) True by simp
    next
      case gt: False
      then show ?thesis using less.prems(2) by (subst sender_loop.simps) (simp add: pieces.simps)
    qed
    then show ?thesis
      using True r(1) msg n by (subst sender_loop.simps, subst pieces.simps) (simp add: t(1,2) Let_def)
  qed
qed

lemma receiver_loop_pieces:
  assumes "offset \<le> file_size" "length data = file_size - offset" "progresses (length data) answers" "0 < ts" "ts \<le> 2 ^ 64"
  shows "receiver_loop (\<lambda>_. True) ts a file_size offset i answers (pieces ts data) m = Some (0, data)"
  using assms(1-3)
proof (induction "file_size - offset" arbitrary: offset i answers data m rule: less_induct)
  case less
  show ?case
  proof (cases "offset < file_size")
    case False
    then show ?thesis using less.prems by (subst receiver_loop.simps) simp
  next
    case True
    let ?n = "min ts (file_size - offset)"
    have t: "?n = length (take ts data)" "data \<noteq> []" using less.prems(2) True by auto
    have "length (take ts data) + length (drop ts data) = length data" by (metis append_take_drop_id length_append)
    then have "progresses (length (take ts data) + length (drop ts data)) answers" using less.prems(3) by simp
    from writeFully_progress [OF this] obtain answers' where
      w: "writeFully answers ?n (take ts data) = Some (int ?n, take ts data, answers')" "progresses (length (drop ts data)) answers'" by blast
    have "length (take ts data) \<le> 2 ^ 64" using assms(5) by simp
    then have msg: "mem_read (mem_write m a (take ts data)) a ?n = take ts data"
      using mem_read_write_same [of "take ts data" m a] t(1) by simp
    have "receiver_loop (\<lambda>_. True) ts a file_size (offset + ts) (Suc i) answers' (pieces ts (drop ts data)) (mem_write m a (take ts data))
        = Some (0, drop ts data)"
    proof (cases "offset + ts \<le> file_size")
      case le: True
      then show ?thesis using less.hyps [of "offset + ts"] less.prems w(2) assms(4) True by simp
    next
      case gt: False
      then show ?thesis using less.prems(2) by (subst receiver_loop.simps) simp
    qed
    then show ?thesis
      using True w(1) msg t(2) assms(4) by (subst receiver_loop.simps, subst pieces.simps) (simp add: t(1) Let_def)
  qed
qed

lemma transferred_size_eq:
  assumes "num \<noteq> 0"
  shows "\<exists>ts. transferred_size num = Inr ts \<and> unat ts = dram_buffer_size"
proof -
  let ?n = "ucast num :: u64"
  have n: "unat ?n = unat num" "0 < unat num" using assms by (simp_all add: unat_gt_0)
  have p: "unat (push_bit 30 1 :: u64) = 2 ^ 30" by (simp add: push_bit_eq_mult)
  have "2 ^ 30 * unat num < (2 :: nat) ^ 64" using unat_u32_less [of num] by simp
  then have "unat (push_bit 30 1 * ?n) = 2 ^ 30 * unat num"
    using p n(1) by (simp add: unat_word_ariths)
  then have "unat ((push_bit 30 1 * ?n) div ?n) = 2 ^ 30" using n by (simp add: unat_div)
  then show ?thesis using assms by (simp add: transferred_size_def dram_buffer_size_def)
qed



end
