(* ===== verification/Benchmark.thy ===== *)
theory Benchmark
  imports ReliableEngine
begin

text \<open>
  The benchmark program \<open>src/example/benchmark.cpp\<close>: threads that receive blocks from every peer that connects, and
  threads that send blocks to randomly selected peers.

  The devices of the machine, the NUMA library, the random numbers and the clock are arguments.  A loop that may not
  end is a partial function (None).  The mutex of a receiver makes the handling of a connection and a round of
  its loop atomic; a receiver is the sequence of such steps.

  The lemmas show which receivers a sender selects, where the buffers of the outstanding tasks lie, that a receiver has
  one task per connection and depth, and what the bytes a sender counts are.
\<close>

section \<open>Devices\<close>

record bench_flags =
  bf_role :: string
  bf_protocol :: string
  bf_target_hostname :: string
  bf_first_port :: u32
  bf_threads :: u32
  bf_block_size :: u32
  bf_rdma_port :: u32
  bf_gid_index :: u32
  bf_duration :: u32
  bf_depth :: u32

text \<open>The devices of \<open>ibv_get_device_list\<close>, each with its NUMA node if its path can be resolved; None is a null pointer.\<close>

definition listDevices :: "(string \<times> int option) list option \<Rightarrow> (string \<times> int) list" where
  "listDevices devices =
     (case devices of
        None \<Rightarrow> []
      | Some ds \<Rightarrow> if ds = [] then [] else List.map_filter (\<lambda>(device_name, node). map_option (Pair device_name) node) ds)"

record numa_library =
  nl_available :: int
  nl_configured_nodes :: int
  nl_node_to_cpus :: "int \<Rightarrow> nat set"
  nl_all_cpus :: "nat set"
  nl_possible_cpus :: nat
  nl_setaffinity :: "nat list \<Rightarrow> int"
  nl_alloc_onnode :: "u64 \<Rightarrow> int \<Rightarrow> addr"

definition bindToSocket :: "numa_library \<Rightarrow> int \<Rightarrow> int" where
  "bindToSocket nl socket_id =
     (if nl_available nl < 0 then -1
      else
        let socket_id = (if socket_id < 0 \<or> socket_id \<ge> nl_configured_nodes nl then 0 else socket_id);
            cpu_set = filter (\<lambda>cpu. cpu \<in> nl_node_to_cpus nl socket_id \<and> cpu \<in> nl_all_cpus nl) [0..<nl_possible_cpus nl]
        in if cpu_set = [] then 0 else if nl_setaffinity nl cpu_set \<noteq> 0 then -1 else 0)"

definition allocateMemoryPool :: "numa_library \<Rightarrow> u64 \<Rightarrow> int \<Rightarrow> addr" where
  "allocateMemoryPool nl len socket_id = nl_alloc_onnode nl len socket_id"

text \<open>\<open>thread_id % device_list.size ()\<close> in 64 bits, stored to an \<open>int\<close>.\<close>

definition group_of :: "int \<Rightarrow> (string \<times> int) list \<Rightarrow> int outcome" where
  "group_of thread_id device_list =
     (if device_list = [] then Inl DivByZero
      else Inr (sint (ucast ((word_of_int thread_id :: u64) mod of_nat (length device_list)) :: 32 word)))"

text \<open>The product is computed in 32 bits.\<close>

definition bench_buffer_size :: "bench_flags \<Rightarrow> u64" where
  "bench_buffer_size f = ucast (bf_block_size f * bf_depth f * 2)"

text \<open>
  The first part of both kinds of threads: an engine for the device of the thread and its registered memory.  \<open>Stopped\<close> has the
  memory pools that were freed.
\<close>

datatype 'p setup_result = Stopped int "(addr \<times> u64) list" | Ready int addr "'p engine"

definition bench_setup ::
  "numa_library \<Rightarrow> (string \<Rightarrow> string option) \<Rightarrow> (protocol_kind \<Rightarrow> 'p) \<Rightarrow> (protocol_kind \<Rightarrow> 'p protocol) \<Rightarrow> 'p protocol \<Rightarrow> bench_flags
     \<Rightarrow> (string \<times> int) list \<Rightarrow> int \<Rightarrow> 'p setup_result outcome" where
  "bench_setup nl getenv new_protocol kinds ops f device_list thread_id =
     obind (group_of thread_id device_list) (\<lambda>group_id.
       let (device, node) = device_list ! nat group_id; ret = bindToSocket nl node in
       obind (Create getenv new_protocol kinds (bf_protocol f) device (ucast (bf_rdma_port f)) (sint (bf_gid_index f))) (\<lambda>engine.
         case engine of
           None \<Rightarrow> Inl AssertFailed
         | Some e \<Rightarrow>
             let len = bench_buffer_size f; a = allocateMemoryPool nl len node
             in if a = 0 then Inr (Stopped (-1) [])
                else obind (eg_registerLocalMemory ops a len e) (\<lambda>(ret, e1).
                  if ret \<noteq> 0 then Inr (Stopped (-1) [(a, len)]) else Inr (Ready group_id a e1))))"

section \<open>Receiving\<close>

text \<open>The buffer of a depth; the product of an \<open>int\<close> and a 32-bit flag is taken in 32 bits.\<close>

definition receive_slot :: "bench_flags \<Rightarrow> addr \<Rightarrow> int \<Rightarrow> buffer" where
  "receive_slot f a depth = \<lparr>buf_addr = a + ucast (word_of_int depth * bf_block_size f), buf_length = ucast (bf_block_size f)\<rparr>"

text \<open>An entry of \<open>task_id_map\<close>: the peer, the task and the depth.\<close>

type_synonym task_entry = "string \<times> int \<times> int"

fun on_new_connection ::
  "'p protocol \<Rightarrow> bench_flags \<Rightarrow> addr \<Rightarrow> string \<Rightarrow> int list \<Rightarrow> 'p engine \<Rightarrow> (task_entry list \<times> 'p engine) outcome" where
  "on_new_connection ops f a peer_name [] e = Inr ([], e)"
| "on_new_connection ops f a peer_name (depth # depths) e =
     obind (eg_receive ops peer_name [receive_slot f a depth] e) (\<lambda>(task_id, e1).
       obind (on_new_connection ops f a peer_name depths e1) (\<lambda>(entries, e2). Inr ((peer_name, task_id, depth) # entries, e2)))"

text \<open>A round of the loop over the entries, in the order of the map; a failed task ends it.\<close>

fun receive_entries ::
  "'p protocol \<Rightarrow> bench_flags \<Rightarrow> addr \<Rightarrow> task_entry list \<Rightarrow> 'p engine \<Rightarrow> (task_entry list \<times> 'p engine) outcome" where
  "receive_entries ops f a [] e = Inr ([], e)"
| "receive_entries ops f a ((peer_name, task_id, depth) # entries) e =
     obind (eg_getStatus ops task_id e) (\<lambda>((status, _), e1).
       if status = FAILED then Inr ((peer_name, task_id, depth) # entries, e1)
       else if status = SUCCESS
       then obind (eg_freeTask ops task_id e1) (\<lambda>(_, e2).
              obind (eg_receive ops peer_name [receive_slot f a depth] e2) (\<lambda>(task_id', e3).
                obind (receive_entries ops f a entries e3) (\<lambda>(entries', e4). Inr ((peer_name, task_id', depth) # entries', e4))))
       else obind (receive_entries ops f a entries e1) (\<lambda>(entries', e2). Inr ((peer_name, task_id, depth) # entries', e2)))"

definition receive_round ::
  "'p protocol \<Rightarrow> bench_flags \<Rightarrow> addr \<Rightarrow> task_entry list \<Rightarrow> 'p engine \<Rightarrow> (task_entry list \<times> 'p engine) outcome" where
  "receive_round ops f a entries e = obind (eg_runStep ops e) (\<lambda>(_, e1). receive_entries ops f a entries e1)"

definition depths :: "bench_flags \<Rightarrow> int list" where
  "depths f = map int [0..<nat (sint (bf_depth f))]"

text \<open>The listener is started before the loop; its failure releases the memory.\<close>

definition receiver_start ::
  "'p protocol \<Rightarrow> bench_flags \<Rightarrow> 'p connection_callback \<Rightarrow> int \<Rightarrow> addr \<Rightarrow> 'p engine \<Rightarrow> (int \<times> (addr \<times> u64) list \<times> 'p engine) outcome" where
  "receiver_start ops f callback thread_id a e =
     (let port = ucast (bf_first_port f + word_of_int thread_id) :: u16 in
      obind (eg_startListener ops ('':'' @ show_int (uint port)) callback e) (\<lambda>(ret, e1).
        if ret \<noteq> 0
        then obind (eg_unregisterLocalMemory ops a e1) (\<lambda>(_, e2). Inr (-1, [(a, bench_buffer_size f)], e2))
        else Inr (0, [], e1)))"

text \<open>The steps of a receiver: a connection that is accepted, and a round.\<close>

inductive receiver_step :: "'p protocol \<Rightarrow> bench_flags \<Rightarrow> addr \<Rightarrow> task_entry list \<times> 'p engine \<Rightarrow> task_entry list \<times> 'p engine \<Rightarrow> bool"
  for ops f a where
  connection: "on_new_connection ops f a peer_name (depths f) e = Inr (new, e') \<Longrightarrow> receiver_step ops f a (entries, e) (entries @ new, e')"
| round: "receive_round ops f a entries e = Inr (entries', e') \<Longrightarrow> receiver_step ops f a (entries, e) (entries', e')"

section \<open>Sending\<close>

definition extractTargetHostName :: "bench_flags \<Rightarrow> string list" where
  "extractTargetHostName f = getlines CHR '','' (bf_target_hostname f)"

definition send_slot :: "bench_flags \<Rightarrow> addr \<Rightarrow> nat \<Rightarrow> buffer" where
  "send_slot f a depth = \<lparr>buf_addr = a + of_nat depth * ucast (bf_block_size f), buf_length = ucast (bf_block_size f)\<rparr>"

text \<open>The ports of the warm-up, in 32 bits.\<close>

partial_function (option) warmup_ports :: "bench_flags \<Rightarrow> u64 \<Rightarrow> u32 \<Rightarrow> u32 list option" where
  "warmup_ports f device_count port =
     (if port < bf_first_port f + bf_threads f
      then Option.bind (warmup_ports f device_count (port + ucast device_count)) (\<lambda>ports. Some (port # ports))
      else Some [])"

text \<open>\<open>send\<close> until it returns a task.\<close>

partial_function (option) send_until ::
  "'p protocol \<Rightarrow> json \<Rightarrow> (string \<Rightarrow> bool) \<Rightarrow> (string \<Rightarrow> 'w rpc) \<Rightarrow> string \<Rightarrow> buffer \<Rightarrow> 'p engine \<Rightarrow> 'w \<Rightarrow> (int \<times> 'p engine \<times> 'w) outcome option" where
  "send_until ops js connected call target b e w =
     (case eg_send ops js (connected target) (call target) target [b] e w of
        Inl x \<Rightarrow> Some (Inl x)
      | Inr (task_id, e1, w1) \<Rightarrow> if task_id < 0 then send_until ops js connected call target b e1 w1 else Some (Inr (task_id, e1, w1)))"

text \<open>The wait of the warm-up; \<open>clock i\<close> is the time of round \<open>i\<close>.  After ten seconds the process exits.\<close>

datatype warm_result = WarmDone | WarmFailed | WarmExit

partial_function (option) warmup_wait ::
  "'p protocol \<Rightarrow> (nat \<Rightarrow> int) \<Rightarrow> int \<Rightarrow> nat \<Rightarrow> int \<Rightarrow> 'p engine \<Rightarrow> (warm_result \<times> 'p engine) outcome option" where
  "warmup_wait ops clock start i task_id e =
     (case eg_runStep ops e of
        Inl x \<Rightarrow> Some (Inl x)
      | Inr (_, e1) \<Rightarrow>
          if clock i - start > 10000000000 then Some (Inr (WarmExit, e1))
          else (case eg_getStatus ops task_id e1 of
                  Inl x \<Rightarrow> Some (Inl x)
                | Inr ((status, _), e2) \<Rightarrow>
                    if status = FAILED then Some (Inr (WarmFailed, e2))
                    else if status = SUCCESS
                    then Some (obind (eg_freeTask ops task_id e2) (\<lambda>(_, e3). Inr (WarmDone, e3)))
                    else warmup_wait ops clock start (Suc i) task_id e2))"

definition class_count :: "bench_flags \<Rightarrow> u64 \<Rightarrow> u64 outcome" where
  "class_count f device_count = (if device_count = 0 then Inl DivByZero else Inr ((ucast (bf_threads f) + device_count - 1) div device_count))"

text \<open>\<open>r\<close> is the random number.\<close>

definition selectPeerIndex :: "bench_flags \<Rightarrow> u64 \<Rightarrow> int \<Rightarrow> int \<Rightarrow> int outcome" where
  "selectPeerIndex f device_count group_id r =
     obind (class_count f device_count) (\<lambda>count.
       if count = 0 then Inl DivByZero
       else let base_index = device_count * (word_of_int r mod count)
            in Inr (min (sint (bf_threads f) - 1) (sint (ucast (word_of_int group_id + base_index :: u64) :: 32 word))))"

text \<open>The target of a block, from two random numbers.\<close>

definition select_target :: "bench_flags \<Rightarrow> u64 \<Rightarrow> int \<Rightarrow> int \<Rightarrow> int \<Rightarrow> string outcome" where
  "select_target f device_count group_id r1 r2 =
     obind (selectPeerIndex f device_count group_id r1) (\<lambda>index.
       let port = ucast (bf_first_port f + word_of_int index) :: u16; hosts = extractTargetHostName f
       in if hosts = [] then Inl DivByZero
          else Inr (hosts ! unat ((word_of_int r2 :: u64) mod of_nat (length hosts)) @ '':'' @ show_int (uint port)))"

text \<open>What a sending thread works with: the engine's interface, the flags, its devices, the random numbers and its memory.\<close>

record ('p, 'w) bench_sender =
  bs_ops :: "'p protocol"
  bs_json :: json
  bs_connected :: "string \<Rightarrow> bool"
  bs_call :: "string \<Rightarrow> 'w rpc"
  bs_flags :: bench_flags
  bs_device_count :: u64
  bs_group :: int
  bs_random :: "nat \<Rightarrow> int"
  bs_addr :: addr

text \<open>The warm-up sends a block to every receiver of the thread's class in turn; \<open>clock port i\<close> is the \<open>i\<close>-th reading for a port.\<close>

fun warmup :: "('p, 'w) bench_sender \<Rightarrow> (u32 \<Rightarrow> nat \<Rightarrow> int) \<Rightarrow> u32 list \<Rightarrow> 'p engine \<Rightarrow> 'w \<Rightarrow> (warm_result \<times> 'p engine \<times> 'w) outcome option" where
  "warmup s clock [] e w = Some (Inr (WarmDone, e, w))"
| "warmup s clock (port # ports) e w =
     (case extractTargetHostName (bs_flags s) of
        [] \<Rightarrow> Some (Inl NullDeref)
      | hostname # _ \<Rightarrow>
          (case send_until (bs_ops s) (bs_json s) (bs_connected s) (bs_call s) (hostname @ '':'' @ show_int (uint port)) (send_slot (bs_flags s) (bs_addr s) 0) e w of
             None \<Rightarrow> None
           | Some (Inl x) \<Rightarrow> Some (Inl x)
           | Some (Inr (task_id, e1, w1)) \<Rightarrow>
               (case warmup_wait (bs_ops s) (clock port) (clock port 0) 1 task_id e1 of
                  None \<Rightarrow> None
                | Some (Inl x) \<Rightarrow> Some (Inl x)
                | Some (Inr (r, e2)) \<Rightarrow> if r = WarmDone then warmup s clock ports e2 w1 else Some (Inr (r, e2, w1)))))"

text \<open>A block for a depth; \<open>k\<close> is the position in the random numbers.\<close>

definition send_block :: "('p, 'w) bench_sender \<Rightarrow> nat \<Rightarrow> nat \<Rightarrow> 'p engine \<Rightarrow> 'w \<Rightarrow> (int \<times> 'p engine \<times> 'w) outcome option" where
  "send_block s depth k e w =
     (case select_target (bs_flags s) (bs_device_count s) (bs_group s) (bs_random s k) (bs_random s (Suc k)) of
        Inl x \<Rightarrow> Some (Inl x)
      | Inr target \<Rightarrow>
          send_until (bs_ops s) (bs_json s) (bs_connected s) (bs_call s) target (send_slot (bs_flags s) (bs_addr s) depth) e w)"

fun send_initial :: "('p, 'w) bench_sender \<Rightarrow> nat list \<Rightarrow> nat \<Rightarrow> 'p engine \<Rightarrow> 'w \<Rightarrow> (int list \<times> nat \<times> 'p engine \<times> 'w) outcome option" where
  "send_initial s [] k e w = Some (Inr ([], k, e, w))"
| "send_initial s (depth # ds) k e w =
     (case send_block s depth k e w of
        None \<Rightarrow> None
      | Some (Inl x) \<Rightarrow> Some (Inl x)
      | Some (Inr (task_id, e1, w1)) \<Rightarrow>
          map_option (\<lambda>r. obind r (\<lambda>(ids, st). Inr (task_id # ids, st))) (send_initial s ds (k + 2) e1 w1))"

text \<open>A round over the tasks, from a depth on: a finished task is replaced and its block counted, a failed one ends the round.\<close>

fun send_tasks ::
  "('p, 'w) bench_sender \<Rightarrow> nat \<Rightarrow> int list \<Rightarrow> nat \<Rightarrow> u64 \<Rightarrow> 'p engine \<Rightarrow> 'w \<Rightarrow> (int list \<times> nat \<times> u64 \<times> 'p engine \<times> 'w) outcome option" where
  "send_tasks s depth [] k transferred e w = Some (Inr ([], k, transferred, e, w))"
| "send_tasks s depth (task_id # ids) k transferred e w =
     (case eg_getStatus (bs_ops s) task_id e of
        Inl x \<Rightarrow> Some (Inl x)
      | Inr ((status, _), e1) \<Rightarrow>
          if status = FAILED then Some (Inr (task_id # ids, k, transferred, e1, w))
          else if status = SUCCESS
          then (case eg_freeTask (bs_ops s) task_id e1 of
                  Inl x \<Rightarrow> Some (Inl x)
                | Inr (_, e2) \<Rightarrow>
                    (case send_block s depth k e2 w of
                       None \<Rightarrow> None
                     | Some (Inl x) \<Rightarrow> Some (Inl x)
                     | Some (Inr (task_id', e3, w1)) \<Rightarrow>
                         map_option (\<lambda>r. obind r (\<lambda>(ids', st). Inr (task_id' # ids', st)))
                           (send_tasks s (Suc depth) ids (k + 2) (transferred + ucast (bf_block_size (bs_flags s))) e3 w1)))
          else map_option (\<lambda>r. obind r (\<lambda>(ids', st). Inr (task_id # ids', st))) (send_tasks s (Suc depth) ids k transferred e1 w))"

text \<open>The loop while \<open>g_running\<close> is set, for \<open>n\<close> rounds.\<close>

fun send_rounds ::
  "('p, 'w) bench_sender \<Rightarrow> nat \<Rightarrow> int list \<Rightarrow> nat \<Rightarrow> u64 \<Rightarrow> 'p engine \<Rightarrow> 'w \<Rightarrow> (int list \<times> nat \<times> u64 \<times> 'p engine \<times> 'w) outcome option" where
  "send_rounds s 0 ids k transferred e w = Some (Inr (ids, k, transferred, e, w))"
| "send_rounds s (Suc n) ids k transferred e w =
     (case eg_runStep (bs_ops s) e of
        Inl x \<Rightarrow> Some (Inl x)
      | Inr (_, e1) \<Rightarrow>
          (case send_tasks s 0 ids k transferred e1 w of
             None \<Rightarrow> None
           | Some (Inl x) \<Rightarrow> Some (Inl x)
           | Some (Inr (ids', k', transferred', e2, w1)) \<Rightarrow> send_rounds s n ids' k' transferred' e2 w1))"

text \<open>A sending thread after its set-up: its return value and the bytes it adds to the total.\<close>

definition sendThread ::
  "('p, 'w) bench_sender \<Rightarrow> (u32 \<Rightarrow> nat \<Rightarrow> int) \<Rightarrow> nat \<Rightarrow> 'p engine \<Rightarrow> 'w \<Rightarrow> (warm_result \<times> u64) outcome option" where
  "sendThread s clock n e w =
     Option.bind (warmup_ports (bs_flags s) (bs_device_count s) (bf_first_port (bs_flags s) + word_of_int (bs_group s))) (\<lambda>ports.
       case warmup s clock ports e w of
         None \<Rightarrow> None
       | Some (Inl x) \<Rightarrow> Some (Inl x)
       | Some (Inr (r, e1, w1)) \<Rightarrow>
           if r \<noteq> WarmDone then Some (Inr (r, 0))
           else (case send_initial s [0..<unat (bf_depth (bs_flags s))] 0 e1 w1 of
                   None \<Rightarrow> None
                 | Some (Inl x) \<Rightarrow> Some (Inl x)
                 | Some (Inr (ids, k, e2, w2)) \<Rightarrow>
                     (case send_rounds s n ids k 0 e2 w2 of
                        None \<Rightarrow> None
                      | Some (Inl x) \<Rightarrow> Some (Inl x)
                      | Some (Inr (_, _, transferred, _, _)) \<Rightarrow> Some (Inr (WarmDone, transferred)))))"

datatype bench_role = Sender | Receiver | WrongRole

definition bench_main :: "bench_flags \<Rightarrow> bench_role" where
  "bench_main f = (if bf_role f = ''sender'' then Sender else if bf_role f = ''receiver'' then Receiver else WrongRole)"

section \<open>Which peers are selected\<close>

lemma sint_of_small: "0 \<le> k \<Longrightarrow> k < 2 ^ 31 \<Longrightarrow> sint (word_of_int k :: 32 word) = k"
  by (simp add: signed_of_int signed_take_bit_int_eq_self)

lemma sint_ucast_small:
  assumes "unat (x :: u64) < 2 ^ 31"
  shows "sint (ucast x :: 32 word) = int (unat x)"
proof -
  have "(ucast x :: 32 word) = word_of_int (int (unat x))" by (simp add: unsigned_ucast_eq flip: uint_nat)
  then have "sint (ucast x :: 32 word) = sint (word_of_int (int (unat x)) :: 32 word)" by (rule arg_cong)
  also have "\<dots> = int (unat x)" by (rule sint_of_small) (use assms[folded of_nat_less_iff[where 'a = int]] in simp_all)
  finally show ?thesis .
qed

lemma group_of_eq:
  assumes "device_list \<noteq> []" "0 \<le> thread_id" "thread_id < 2 ^ 31" "length device_list < 2 ^ 31"
  shows "group_of thread_id device_list = Inr (thread_id mod int (length device_list))"
proof -
  let ?n = "length device_list"
  have n: "0 < ?n" "unat (of_nat ?n :: u64) = ?n" using assms(1,4) by (simp_all add: unat_of_nat)
  have t: "unat (word_of_int thread_id :: u64) = nat thread_id" using assms(2,3) by (simp add: unsigned_of_int take_bit_int_eq_self)
  have m: "unat ((word_of_int thread_id :: u64) mod of_nat ?n) = nat thread_id mod ?n" using n t by (simp add: unat_mod)
  have "nat thread_id mod ?n < 2 ^ 31" using mod_less_divisor[OF n(1), of "nat thread_id"] assms(4) by linarith
  then have "sint (ucast ((word_of_int thread_id :: u64) mod of_nat ?n) :: 32 word) = int (nat thread_id mod ?n)"
    using sint_ucast_small[of "(word_of_int thread_id :: u64) mod of_nat ?n"] m by simp
  also have "\<dots> = thread_id mod int ?n" using assms(2) by (simp add: zmod_int)
  finally show ?thesis using assms(1) by (simp add: group_of_def)
qed

lemma class_count_eq:
  assumes "0 < n" "n + unat (bf_threads f) < 2 ^ 31"
  shows "\<exists>c. class_count f (of_nat n) = Inr c \<and> unat c = (unat (bf_threads f) + n - 1) div n"
proof -
  have n: "unat (of_nat n :: u64) = n" "(of_nat n :: u64) \<noteq> 0" using assms by (simp_all add: unat_of_nat word_neq_0_conv word_less_nat_alt)
  have "(ucast (bf_threads f) + of_nat n - 1 :: u64) = of_nat (unat (bf_threads f) + n - 1)"
    using assms(1) by (simp add: of_nat_diff)
  moreover have "unat (of_nat (unat (bf_threads f) + n - 1) :: u64) = unat (bf_threads f) + n - 1"
    by (subst unat_of_nat, rule mod_less) (use assms in simp)
  ultimately have "unat (ucast (bf_threads f) + of_nat n - 1 :: u64) = unat (bf_threads f) + n - 1" by (simp only:)
  then show ?thesis using n by (simp add: class_count_def unat_div)
qed

text \<open>The number of classes is the quotient rounded up.\<close>

lemma class_bounds:
  fixes t n :: nat
  assumes "0 < n" "0 < t"
  shows "0 < (t + n - 1) div n" "n * ((t + n - 1) div n - 1) < t" "j < t \<Longrightarrow> j div n < (t + n - 1) div n"
proof -
  have eq: "(t + n - 1) div n = Suc ((t - 1) div n)" using assms div_add_self2[of n "t - 1"] by simp
  show "0 < (t + n - 1) div n" unfolding eq by simp
  have "n * ((t - 1) div n) \<le> t - 1" by simp
  then show "n * ((t + n - 1) div n - 1) < t" unfolding eq diff_Suc_1 using assms(2) by linarith
  show "j div n < (t + n - 1) div n" if "j < t" unfolding eq using that div_le_mono[of j "t - 1" n] by linarith
qed

lemma selectPeerIndex_eq:
  assumes n: "0 < n" "n + unat (bf_threads f) < 2 ^ 31" "0 < unat (bf_threads f)" and g: "g < n" and r: "r < 2 ^ 31"
  shows "selectPeerIndex f (of_nat n) (int g) (int r)
    = Inr (min (int (unat (bf_threads f)) - 1) (int (g + n * (r mod ((unat (bf_threads f) + n - 1) div n)))))"
proof -
  let ?t = "unat (bf_threads f)" and ?c = "(unat (bf_threads f) + n - 1) div n"
  note C = class_bounds[OF n(1,3)]
  obtain c where c: "class_count f (of_nat n) = Inr c" "unat c = ?c" using class_count_eq[OF n(1,2)] by blast
  have c0: "c \<noteq> 0" using c(2) C(1) by auto
  have un: "unat (of_nat n :: u64) = n" "unat (word_of_int (int r) :: u64) = r" using n(2) r by (simp_all add: unat_of_nat)
  have b: "n * (r mod ?c) < ?t"
  proof -
    have "r mod ?c \<le> ?c - 1" using C(1) mod_less_divisor[of ?c r] by linarith
    then have "n * (r mod ?c) \<le> n * (?c - 1)" by simp
    then show ?thesis using C(2) by linarith
  qed
  let ?b = "of_nat n * (word_of_int (int r) mod c) :: u64"
  have "unat (word_of_int (int r) mod c :: u64) = r mod ?c" using un(2) c(2) by (simp add: unat_mod)
  then have ub: "unat ?b = n * (r mod ?c)" using un(1) b n(2) by (simp add: unat_word_ariths)
  have "(word_of_int (int g) :: u64) = of_nat g" by simp
  then have "unat (word_of_int (int g) + ?b :: u64) = g + n * (r mod ?c)" using ub b g n(2) by (simp add: unat_word_ariths unat_of_nat)
  moreover from this have "unat (word_of_int (int g) + ?b :: u64) < 2 ^ 31" using b g n(2) by linarith
  ultimately have s: "sint (ucast (word_of_int (int g) + ?b :: u64) :: 32 word) = int (g + n * (r mod ?c))"
    using sint_ucast_small by metis
  have t31: "?t < 2 ^ 31" using n(2) by linarith
  have t: "sint (bf_threads f) = int ?t"
  proof -
    have "sint (bf_threads f) = sint (word_of_int (int ?t) :: 32 word)" by simp
    also have "\<dots> = int ?t" by (rule sint_of_small) (use t31[folded of_nat_less_iff[where 'a = int]] in simp_all)
    finally show ?thesis .
  qed
  show ?thesis using c(1) c0 s t by (simp add: selectPeerIndex_def Let_def)
qed

text \<open>
  C32.  A sending thread selects existing receivers, and can select every receiver on its own device.  With at least one
  device and one thread, \<open>selectPeerIndex\<close> of a thread returns for every random number the index of a receiving
  thread; the index belongs to the device of the sender, or it is the last one.  Every receiver on the same device is selected
  by some random number.
\<close>

theorem peer_selection:
  assumes "device_list \<noteq> []" "0 < unat (bf_threads f)" "length device_list + unat (bf_threads f) < 2 ^ 31"
    and "0 \<le> thread_id" "thread_id < int (unat (bf_threads f))"
  shows "\<exists>g. group_of thread_id device_list = Inr g
    \<and> (\<forall>r. 0 \<le> r \<and> r < 2 ^ 31 \<longrightarrow> (\<exists>i. selectPeerIndex f (of_nat (length device_list)) g r = Inr i \<and> 0 \<le> i \<and> i < int (unat (bf_threads f))
         \<and> (group_of i device_list = Inr g \<or> i = int (unat (bf_threads f)) - 1)))
    \<and> (\<forall>i. 0 \<le> i \<and> i < int (unat (bf_threads f)) \<and> group_of i device_list = Inr g \<longrightarrow>
         (\<exists>r. 0 \<le> r \<and> r < 2 ^ 31 \<and> selectPeerIndex f (of_nat (length device_list)) g r = Inr i))"
proof -
  let ?n = "length device_list" and ?t = "unat (bf_threads f)"
  have n: "0 < ?n" "?n + ?t < 2 ^ 31" "0 < ?t" using assms(1-3) by simp_all
  define g where "g = nat thread_id mod ?n"
  have g: "g < ?n" using n(1) by (simp add: g_def)
  have group: "group_of (int j) device_list = Inr (int (j mod ?n))" if "j < ?t" for j
    using group_of_eq[OF assms(1), of "int j"] that n(2) by (simp add: zmod_int)
  have gt: "group_of thread_id device_list = Inr (int g)" using group[of "nat thread_id"] assms(4,5) unfolding g_def by (metis int_nat_eq nat_less_iff)
  have sel: "\<exists>i. selectPeerIndex f (of_nat ?n) (int g) r = Inr i \<and> 0 \<le> i \<and> i < int ?t \<and> (group_of i device_list = Inr (int g) \<or> i = int ?t - 1)"
    if r: "0 \<le> r" "r < 2 ^ 31" for r
  proof -
    define k where "k = g + ?n * (nat r mod ((?t + ?n - 1) div ?n))"
    have s: "selectPeerIndex f (of_nat ?n) (int g) r = Inr (min (int ?t - 1) (int k))"
      using selectPeerIndex_eq[OF n g, of "nat r"] r unfolding k_def by simp
    show ?thesis
    proof (cases "k < ?t")
      case True
      then have "min (int ?t - 1) (int k) = int k" by linarith
      moreover have "group_of (int k) device_list = Inr (int g)" using group[OF True] g by (simp add: k_def)
      ultimately show ?thesis using s True by (intro exI[of _ "int k"]) (metis of_nat_0_le_iff of_nat_less_iff)
    next
      case False
      then have "min (int ?t - 1) (int k) = int ?t - 1" by linarith
      moreover have "0 \<le> int ?t - 1" using n(3) by linarith
      ultimately show ?thesis using s by (intro exI[of _ "int ?t - 1"] conjI) simp_all
    qed
  qed
  have all: "\<exists>r. 0 \<le> r \<and> r < 2 ^ 31 \<and> selectPeerIndex f (of_nat ?n) (int g) r = Inr i"
    if i: "0 \<le> i" "i < int ?t" "group_of i device_list = Inr (int g)" for i
  proof -
    obtain j where j: "i = int j" "j < ?t" using i(1,2) by (metis nonneg_int_cases of_nat_less_iff)
    have mod: "j mod ?n = g" using i(3) group[OF j(2)] j(1) by simp
    have d: "j div ?n < 2 ^ 31" using div_le_dividend[of j ?n] j(2) n(2) by linarith
    have "j div ?n mod ((?t + ?n - 1) div ?n) = j div ?n" using class_bounds(3)[OF n(1,3) j(2)] by simp
    then have "selectPeerIndex f (of_nat ?n) (int g) (int (j div ?n)) = Inr (min (int ?t - 1) (int (g + ?n * (j div ?n))))"
      using selectPeerIndex_eq[OF n g d] by (simp only:)
    moreover have "g + ?n * (j div ?n) = j" using mod mod_mult_div_eq[of j ?n] by simp
    ultimately have "selectPeerIndex f (of_nat ?n) (int g) (int (j div ?n)) = Inr i" using j by (metis min.absorb2 of_nat_less_iff zle_diff1_eq)
    then show ?thesis using d by (intro exI[of _ "int (j div ?n)"]) simp
  qed
  show ?thesis using gt sel all by (intro exI[of _ "int g"]) blast
qed
text \<open>A sender of five threads on a machine with two devices.\<close>

definition test_bench_flags :: bench_flags where
  "test_bench_flags = \<lparr>bf_role = ''sender'', bf_protocol = ''rdma_unreliable'', bf_target_hostname = ''a,b'', bf_first_port = 18888,
     bf_threads = 5, bf_block_size = 4096, bf_rdma_port = 1, bf_gid_index = 3, bf_duration = 10, bf_depth = 4\<rparr>"

lemma test_bench_fields:
  "bf_threads test_bench_flags = 5" "bf_block_size test_bench_flags = 4096" "bf_depth test_bench_flags = 4"
  by (simp_all add: test_bench_flags_def)

theorem peer_selection_witness:
  "\<exists>i. selectPeerIndex test_bench_flags 2 1 7 = Inr i \<and> 0 \<le> i \<and> i < 5
     \<and> (group_of i [(''mlx5_0'', 0), (''mlx5_1'', 1)] = Inr 1 \<or> i = 4)
     \<and> (\<exists>r. 0 \<le> r \<and> r < 2 ^ 31 \<and> selectPeerIndex test_bench_flags 2 1 r = Inr 3)"
proof -
  let ?devices = "[(''mlx5_0'', 0), (''mlx5_1'', 1)] :: (string \<times> int) list"
  have groups: "group_of 1 ?devices = Inr 1" "group_of 3 ?devices = Inr 1" by code_simp+
  have all: "(\<forall>r. 0 \<le> r \<and> r < 2 ^ 31 \<longrightarrow> (\<exists>i. selectPeerIndex test_bench_flags 2 1 r = Inr i \<and> 0 \<le> i \<and> i < 5
         \<and> (group_of i ?devices = Inr 1 \<or> i = 4)))
    \<and> (\<forall>i. 0 \<le> i \<and> i < 5 \<and> group_of i ?devices = Inr 1 \<longrightarrow>
         (\<exists>r. 0 \<le> r \<and> r < 2 ^ 31 \<and> selectPeerIndex test_bench_flags 2 1 r = Inr i))"
    using peer_selection[of ?devices test_bench_flags 1] by (simp add: test_bench_fields groups(1))
  show ?thesis using all[THEN conjunct1, THEN spec[of _ 7]] all[THEN conjunct2, THEN spec[of _ 3]] groups(2) by simp
qed

text \<open>With an uneven number of threads the last receiver is also selected by threads on another device.\<close>

lemma peer_on_other_device:
  "selectPeerIndex test_bench_flags 2 1 2 = Inr 4" "group_of 4 [(''mlx5_0'', 0), (''mlx5_1'', 1)] = Inr 0"
  by code_simp+

section \<open>The buffers of the depths\<close>

lemma depths_set: "unat (bf_depth f) < 2 ^ 31 \<Longrightarrow> depths f = map int [0..<unat (bf_depth f)]"
proof -
  assume d: "unat (bf_depth f) < 2 ^ 31"
  have "sint (bf_depth f) = sint (word_of_int (int (unat (bf_depth f))) :: 32 word)" by simp
  also have "\<dots> = int (unat (bf_depth f))" by (rule sint_of_small) (use d[folded of_nat_less_iff[where 'a = int]] in simp_all)
  finally show ?thesis by (simp only: depths_def nat_int)
qed

lemma bench_buffer_size_eq:
  assumes "2 * unat (bf_block_size f) * unat (bf_depth f) < 2 ^ 32"
  shows "unat (bench_buffer_size f) = 2 * unat (bf_block_size f) * unat (bf_depth f)"
proof -
  have "bf_block_size f * bf_depth f * 2 = of_nat (2 * unat (bf_block_size f) * unat (bf_depth f))" by simp
  then have "unat (bf_block_size f * bf_depth f * 2) = 2 * unat (bf_block_size f) * unat (bf_depth f)"
    using assms by (simp only: unat_of_nat) (rule mod_less, simp)
  then show ?thesis by (simp only: bench_buffer_size_def unat_ucast_32_64)
qed

lemma slot_below:
  fixes b d i :: nat
  assumes "i < d"
  shows "i * b + b \<le> d * b"
  using mult_le_mono1[of "Suc i" d b] assms by simp

lemma unat_depth_slot:
  assumes "2 * unat (bf_block_size f) * unat (bf_depth f) < 2 ^ 32" "i < unat (bf_depth f)"
  shows "unat (word_of_int (int i) * bf_block_size f :: u32) = i * unat (bf_block_size f)"
proof -
  have "i * unat (bf_block_size f) \<le> unat (bf_depth f) * unat (bf_block_size f)" using assms(2) by simp
  moreover have "unat (bf_depth f) * unat (bf_block_size f) + unat (bf_depth f) * unat (bf_block_size f) < 2 ^ 32"
    using assms(1) by (simp add: algebra_simps)
  ultimately have "i * unat (bf_block_size f) < 2 ^ 32" by linarith
  moreover have "word_of_int (int i) * bf_block_size f = of_nat (i * unat (bf_block_size f))" by simp
  ultimately show ?thesis by (simp only: unat_of_nat) (rule mod_less, simp)
qed
text \<open>The bytes of a buffer.\<close>

definition slot_region :: "buffer \<Rightarrow> addr set" where
  "slot_region b = region (buf_addr b) (unat (buf_length b))"

lemma region_offset:
  assumes "x \<in> region (a + p) n" "unat p + n \<le> 2 ^ 64"
  shows "unat p \<le> unat (x - a)" "unat (x - a) < unat p + n"
proof -
  have x: "unat (x - (a + p)) < n" using assms(1) by (simp add: region_def)
  have eq: "x - a = (x - (a + p)) + p" by simp
  have "unat (x - (a + p)) + unat p < 2 ^ 64" using x assms(2) by linarith
  then have u: "unat (x - a) = unat (x - (a + p)) + unat p" by (subst eq, subst unat_word_ariths(1), subst mod_less) simp_all
  show "unat p \<le> unat (x - a)" "unat (x - a) < unat p + n" using x unfolding u by simp_all
qed

text \<open>
  C33.  The buffers of the depths.  When twice the product of block size and depth fits in 32 bits, a receiver and a
  sender use for a depth the same part of their memory, every part lies in the memory that was registered, and the parts of
  different depths are disjoint.
\<close>

theorem depth_buffers:
  assumes size: "2 * unat (bf_block_size f) * unat (bf_depth f) < 2 ^ 32" and i: "i < unat (bf_depth f)"
  shows "receive_slot f a (int i) = send_slot f a i
    \<and> slot_region (send_slot f a i) \<subseteq> region a (unat (bench_buffer_size f))
    \<and> (\<forall>j < i. slot_region (send_slot f a i) \<inter> slot_region (send_slot f a j) = {})"
proof -
  let ?b = "unat (bf_block_size f)" and ?d = "unat (bf_depth f)"
  have total: "?d * ?b + ?d * ?b < 2 ^ 32" using size by (simp add: algebra_simps)
  have slot: "receive_slot f a (int j) = send_slot f a j \<and> unat (of_nat j * ucast (bf_block_size f) :: u64) = j * ?b
      \<and> j * ?b + ?b \<le> ?d * ?b" if "j < ?d" for j
  proof -
    have le: "j * ?b + ?b \<le> ?d * ?b" by (rule slot_below[OF that])
    then have "j * ?b < 2 ^ 64" using total by simp
    moreover have "(of_nat j * ucast (bf_block_size f) :: u64) = of_nat (j * ?b)" by simp
    ultimately have u: "unat (of_nat j * ucast (bf_block_size f) :: u64) = j * ?b" by (simp only: unat_of_nat) (rule mod_less, simp)
    have "(ucast (word_of_int (int j) * bf_block_size f :: u32) :: u64) = of_nat j * ucast (bf_block_size f)"
      by (rule word_unat_eq_iff[THEN iffD2]) (simp only: unat_ucast_32_64 unat_depth_slot[OF size that] u)
    then show ?thesis using u le by (simp only: receive_slot_def send_slot_def simp_thms)
  qed
  have mem: "j * ?b \<le> unat (x - a) \<and> unat (x - a) < j * ?b + ?b" if "x \<in> slot_region (send_slot f a j)" "j < ?d" for x j
  proof -
    let ?p = "of_nat j * ucast (bf_block_size f) :: u64"
    have p: "unat ?p = j * ?b" and le: "j * ?b + ?b \<le> ?d * ?b" using slot[OF that(2)] by blast+
    have "x \<in> region (a + ?p) ?b" using that(1) by (simp only: slot_region_def send_slot_def buffer.select_convs unat_ucast_32_64)
    moreover have "unat ?p + ?b \<le> 2 ^ 64" unfolding p using le total by simp
    ultimately show ?thesis using region_offset[of x a ?p ?b] unfolding p by blast
  qed
  have "slot_region (send_slot f a i) \<subseteq> region a (unat (bench_buffer_size f))"
  proof
    fix x assume "x \<in> slot_region (send_slot f a i)"
    then have "unat (x - a) < ?d * ?b" using mem[OF _ i] slot[OF i] less_le_trans by blast
    then show "x \<in> region a (unat (bench_buffer_size f))"
      unfolding region_def mem_Collect_eq bench_buffer_size_eq[OF size] by (simp only: mult.assoc mult.commute[of ?b])
  qed
  moreover have "slot_region (send_slot f a i) \<inter> slot_region (send_slot f a j) = {}" if "j < i" for j
  proof (rule equals0I)
    fix x assume "x \<in> slot_region (send_slot f a i) \<inter> slot_region (send_slot f a j)"
    then have "i * ?b \<le> unat (x - a)" "unat (x - a) < j * ?b + ?b" using mem[of x i] mem[of x j] i that by simp_all
    then show False using slot_below[OF that, of ?b] by linarith
  qed
  ultimately show ?thesis using slot[OF i] by blast
qed

theorem depth_buffers_witness:
  "receive_slot test_bench_flags 4096 3 = send_slot test_bench_flags 4096 3
    \<and> slot_region (send_slot test_bench_flags 4096 3) \<subseteq> region 4096 32768
    \<and> slot_region (send_slot test_bench_flags 4096 3) \<inter> slot_region (send_slot test_bench_flags 4096 2) = {}"
proof -
  have "unat (bench_buffer_size test_bench_flags) = 32768" by (simp add: bench_buffer_size_def test_bench_fields)
  then show ?thesis using depth_buffers[of test_bench_flags 3 4096] by (simp add: test_bench_fields)
qed

text \<open>Beyond 32 bits the size of the memory wraps around: no byte is registered for 32768 blocks of 65536 bytes.\<close>

lemma bench_buffer_size_wraps:
  "bench_buffer_size (test_bench_flags\<lparr>bf_block_size := 65536, bf_depth := 32768\<rparr>) = 0"
  by (simp add: bench_buffer_size_def)

section \<open>The tasks of a receiver\<close>

lemma on_new_connection_entries:
  "on_new_connection ops f a peer_name ds e = Inr (new, e') \<Longrightarrow> map (\<lambda>(p, _, d). (p, d)) new = map (Pair peer_name) ds"
  by (induction ds arbitrary: e new e') (auto simp: obind_eq_Inr)

lemma receive_entries_kept:
  "receive_entries ops f a entries e = Inr (entries', e') \<Longrightarrow> map (\<lambda>(p, _, d). (p, d)) entries' = map (\<lambda>(p, _, d). (p, d)) entries"
proof (induction entries arbitrary: e entries' e')
  case Nil
  then show ?case by simp
next
  case (Cons entry entries)
  obtain p t d where entry: "entry = (p, t, d)" by (cases entry)
  from Cons.prems consider (failed) "entries' = entry # entries"
    | (more) e1 rest t' where "receive_entries ops f a entries e1 = Inr (rest, e')" "entries' = (p, t', d) # rest"
    unfolding entry receive_entries.simps obind_eq_Inr by (auto simp: obind_eq_Inr split: if_splits)
  then show ?case
  proof cases
    case failed
    then show ?thesis by simp
  next
    case more
    from Cons.IH[OF more(1)] show ?thesis by (simp add: more(2) entry)
  qed
qed

text \<open>
  The tasks of a receiver.  Whatever connections and rounds happen, a receiver has exactly one receive task per
  accepted connection and depth: a finished task is replaced by one for the same peer and depth.
\<close>

lemma receiver_tasks:
  assumes "(receiver_step ops f a)\<^sup>*\<^sup>* ([], e) (entries, e')"
  shows "\<exists>peers. map (\<lambda>(p, _, d). (p, d)) entries = concat (map (\<lambda>p. map (Pair p) (depths f)) peers)"
  using assms
proof (induction "(entries, e')" arbitrary: entries e' rule: rtranclp_induct)
  case base
  show ?case by (rule exI[of _ "[]"]) simp
next
  case (step s)
  obtain old e1 where s: "s = (old, e1)" by (cases s)
  then obtain peers where peers: "map (\<lambda>(p, _, d). (p, d)) old = concat (map (\<lambda>p. map (Pair p) (depths f)) peers)"
    using step(3) by blast
  from step(2) show ?case unfolding s
  proof cases
    case (connection peer_name new)
    then show ?thesis using peers on_new_connection_entries[OF connection(2)] by (intro exI[of _ "peers @ [peer_name]"]) simp
  next
    case round
    then obtain e2 where "receive_entries ops f a old e2 = Inr (entries, e')" by (auto simp: receive_round_def obind_eq_Inr)
    from receive_entries_kept[OF this] show ?thesis using peers by auto
  qed
qed

text \<open>A run with two connections.\<close>

lemma receiver_tasks_run:
  "\<exists>entries. (receiver_step test_ops test_bench_flags 4096)\<^sup>*\<^sup>* ([], \<lparr>eg_session_manager = SessionManager_new, eg_protocol = ()\<rparr>)
        (entries, \<lparr>eg_session_manager = SessionManager_new, eg_protocol = ()\<rparr>)
     \<and> length entries = 8 \<and> (\<exists>peers. map (\<lambda>(p, _, d). (p, d)) entries = concat (map (\<lambda>p. map (Pair p) (depths test_bench_flags)) peers))"
proof -
  let ?e = "\<lparr>eg_session_manager = SessionManager_new, eg_protocol = ()\<rparr>"
  let ?step = "receiver_step test_ops test_bench_flags 4096"
  let ?new = "\<lambda>p. [(p, 0, 0), (p, 0, 1), (p, 0, 2), (p, 0, 3)]"
  have d: "depths test_bench_flags = [0, 1, 2, 3]" by code_simp
  have accept: "?step (entries, ?e) (entries @ ?new p, ?e)" for p entries
    by (rule receiver_step.connection[of _ _ _ p]) (simp add: d eg_receive_def lift_protocol_def test_ops_def)
  have run: "?step\<^sup>*\<^sup>* ([], ?e) (([] @ ?new ''a'') @ ?new ''b'', ?e)"
    using accept[of "[]" "''a''"] accept[of "[] @ ?new ''a''" "''b''"] by (meson r_into_rtranclp rtranclp.rtrancl_into_rtrancl)
  show ?thesis using run receiver_tasks[OF run] by (intro exI[of _ "([] @ ?new ''a'') @ ?new ''b''"]) simp
qed

section \<open>The bytes a sender counts\<close>

text \<open>A round replaces some tasks: for each a block is counted and two random numbers are taken.\<close>

lemma send_initial_length:
  "send_initial s ds k e w = Some (Inr (ids, st)) \<Longrightarrow> length ids = length ds"
proof (induction ds arbitrary: k e w ids st)
  case Nil
  then show ?case by simp
next
  case (Cons depth ds)
  then obtain task e1 w1 where b: "send_block s depth k e w = Some (Inr (task, e1, w1))"
    by (auto split: option.splits sum.splits)
  then obtain ids1 where "send_initial s ds (k + 2) e1 w1 = Some (Inr (ids1, st))" "ids = task # ids1"
    using Cons.prems by (auto simp: obind_eq_Inr)
  then show ?case using Cons.IH by simp
qed

lemma send_tasks_cases:
  assumes "send_tasks s depth (task_id # ids) k transferred e w = Some (Inr (ids', k', transferred', e', w'))"
  obtains (failed) "ids' = task_id # ids" "k' = k" "transferred' = transferred"
  | (replaced) e1 w1 ids1 task where "send_tasks s (Suc depth) ids (k + 2) (transferred + ucast (bf_block_size (bs_flags s))) e1 w1
      = Some (Inr (ids1, k', transferred', e', w'))" "ids' = task # ids1"
  | (kept) e1 ids1 where "send_tasks s (Suc depth) ids k transferred e1 w = Some (Inr (ids1, k', transferred', e', w'))" "ids' = task_id # ids1"
proof -
  obtain status b e1 where g: "eg_getStatus (bs_ops s) task_id e = Inr ((status, b), e1)"
    using assms by (auto split: sum.splits)
  consider "status = FAILED" | "status = SUCCESS" | "status \<noteq> FAILED" "status \<noteq> SUCCESS" by blast
  then show thesis
  proof cases
    case 1
    then show thesis using assms g by (intro failed) simp_all
  next
    case 2
    then obtain x e2 where f: "eg_freeTask (bs_ops s) task_id e1 = Inr (x, e2)" using assms g by (auto split: sum.splits)
    obtain task e3 w1 where b: "send_block s depth k e2 w = Some (Inr (task, e3, w1))"
      using assms g f 2 by (auto split: option.splits sum.splits)
    show thesis using assms g f b 2 by (auto simp: obind_eq_Inr intro: replaced)
  next
    case 3
    then show thesis using assms g by (auto simp: obind_eq_Inr intro: kept)
  qed
qed

lemma send_tasks_count:
  "send_tasks s depth ids k transferred e w = Some (Inr (ids', k', transferred', e', w'))
   \<Longrightarrow> length ids' = length ids
     \<and> (\<exists>j \<le> length ids. k' = k + 2 * j \<and> transferred' = transferred + of_nat j * ucast (bf_block_size (bs_flags s)))"
proof (induction ids arbitrary: depth k transferred e w ids' k' transferred' e' w')
  case Nil
  then show ?case by auto
next
  case (Cons task_id ids)
  from Cons.prems show ?case
  proof (cases rule: send_tasks_cases)
    case failed
    then show ?thesis by (auto intro: exI[of _ 0])
  next
    case (replaced e1 w1 ids1 task)
    from Cons.IH[OF replaced(1)] obtain j where "length ids1 = length ids" "j \<le> length ids" "k' = k + 2 + 2 * j"
      "transferred' = transferred + ucast (bf_block_size (bs_flags s)) + of_nat j * ucast (bf_block_size (bs_flags s))" by blast
    then show ?thesis using replaced(2) by (intro conjI exI[of _ "Suc j"]) (simp_all add: algebra_simps)
  next
    case (kept e1 ids1)
    from Cons.IH[OF kept(1)] kept(2) show ?thesis by (auto intro: le_SucI)
  qed
qed

lemma send_rounds_count:
  "send_rounds s n ids k transferred e w = Some (Inr (ids', k', transferred', e', w'))
   \<Longrightarrow> length ids' = length ids
     \<and> (\<exists>j \<le> n * length ids. k' = k + 2 * j \<and> transferred' = transferred + of_nat j * ucast (bf_block_size (bs_flags s)))"
proof (induction n arbitrary: ids k transferred e w)
  case 0
  then show ?case by auto
next
  case (Suc n)
  from Suc.prems obtain e1 ids1 k1 t1 e2 w1 where
      one: "send_tasks s 0 ids k transferred e1 w = Some (Inr (ids1, k1, t1, e2, w1))" and
      more: "send_rounds s n ids1 k1 t1 e2 w1 = Some (Inr (ids', k', transferred', e', w'))"
    by (auto split: sum.splits prod.splits option.splits)
  from send_tasks_count[OF one] obtain j where j: "length ids1 = length ids" "j \<le> length ids" "k1 = k + 2 * j"
    "t1 = transferred + of_nat j * ucast (bf_block_size (bs_flags s))" by blast
  from Suc.IH[OF more] obtain j' where j': "length ids' = length ids1" "j' \<le> n * length ids1" "k' = k1 + 2 * j'"
    "transferred' = t1 + of_nat j' * ucast (bf_block_size (bs_flags s))" by blast
  show ?case using j j' by (intro conjI exI[of _ "j + j'"]) (simp_all add: algebra_simps)
qed

text \<open>
  The bytes a sender reports.  What a sending thread returns after its set-up is a whole number of blocks, modulo
  \<open>2 ^ 64\<close>, of at most one block per outstanding task and round; it is zero unless the warm-up ended.
\<close>

lemma sendThread_count:
  assumes "sendThread s clock n e w = Some (Inr (r, transferred))"
  shows "\<exists>j \<le> n * unat (bf_depth (bs_flags s)). transferred = of_nat j * ucast (bf_block_size (bs_flags s)) \<and> (r \<noteq> WarmDone \<longrightarrow> j = 0)"
proof -
  obtain ports where ports: "warmup_ports (bs_flags s) (bs_device_count s) (bf_first_port (bs_flags s) + word_of_int (bs_group s)) = Some ports"
    using assms by (auto simp: sendThread_def bind_eq_Some_conv)
  obtain r' e1 w1 where "warmup s clock ports e w = Some (Inr (r', e1, w1))"
    using assms ports
    by (cases "warmup s clock ports e w"; cases "the (warmup s clock ports e w)"; cases "projr (the (warmup s clock ports e w))")
      (simp_all add: sendThread_def)
  note warm = ports this
  show ?thesis
  proof (cases "r' = WarmDone")
    case False
    then show ?thesis using assms warm by (intro exI[of _ 0]) (simp add: sendThread_def)
  next
    case True
    then obtain ids k e2 w2 where initial: "send_initial s [0..<unat (bf_depth (bs_flags s))] 0 e1 w1 = Some (Inr (ids, k, e2, w2))"
      using assms warm by (auto simp: sendThread_def split: option.splits sum.splits)
    then obtain ids' k' e3 w3 where rounds: "send_rounds s n ids k 0 e2 w2 = Some (Inr (ids', k', transferred, e3, w3))" and r: "r = WarmDone"
      using assms warm True by (auto simp: sendThread_def split: option.splits sum.splits)
    have "length ids = unat (bf_depth (bs_flags s))" using send_initial_length[OF initial] by simp
    then show ?thesis using send_rounds_count[OF rounds] r by auto
  qed
qed

end
