(* ===== verification/Device.thy ===== *)
theory Device
  imports MemoryRegions "HOL-Library.Multiset" "HOL-Library.Signed_Division"
begin

text \<open>
  The device context: construction and destruction of \<open>RdmaContext\<close>
  (\<open>src/src/protocols/common/rdma_context.{h,cpp}\<close>).

  The verbs library and the system calls are parameters on a state \<open>'d\<close>.  The world keeps, beside
  this state, the resources that were handed out and not given back, and whether something
  was given back that was not held.  Handles are numbers; file descriptors are \<open>int\<close>s.
\<close>

section \<open>Resources\<close>

datatype resource =
    DeviceList nat
  | DeviceContext nat
  | ProtectionDomain nat
  | CompChannel nat
  | FileDescriptor int
  | CompletionQueue nat
  | MemoryRegion ibv_mr

record 'd world =
  wd_device :: 'd
  wd_held :: "resource multiset"
  wd_misuse :: bool

record port_attr =
  pa_active :: bool
  pa_lid :: u16
  pa_active_mtu :: nat
  pa_active_speed :: int

text \<open>
  \<open>vb_release\<close> is any of the calls that give a resource back; their return codes are only logged.
  A device list has the names of its devices; a completion channel has a descriptor.
\<close>

record 'd verbs =
  vb_get_device_list :: "'d \<Rightarrow> (nat \<times> string list) option \<times> 'd"
  vb_open_device :: "nat \<Rightarrow> nat \<Rightarrow> 'd \<Rightarrow> nat option \<times> 'd"
  vb_query_port :: "nat \<Rightarrow> u8 \<Rightarrow> 'd \<Rightarrow> port_attr option \<times> 'd"
  vb_query_device :: "nat \<Rightarrow> 'd \<Rightarrow> int \<times> 'd"
  vb_query_gid :: "nat \<Rightarrow> u8 \<Rightarrow> int \<Rightarrow> 'd \<Rightarrow> u8 list option \<times> 'd"
  vb_alloc_pd :: "nat \<Rightarrow> 'd \<Rightarrow> nat option \<times> 'd"
  vb_create_comp_channel :: "nat \<Rightarrow> 'd \<Rightarrow> (nat \<times> int) option \<times> 'd"
  vb_epoll_create :: "'d \<Rightarrow> int \<times> 'd"
  vb_fcntl_getfl :: "int \<Rightarrow> 'd \<Rightarrow> int \<times> 'd"
  vb_fcntl_nonblock :: "int \<Rightarrow> int \<Rightarrow> 'd \<Rightarrow> int \<times> 'd"
  vb_epoll_ctl :: "int \<Rightarrow> int \<Rightarrow> 'd \<Rightarrow> int \<times> 'd"
  vb_create_cq :: "nat \<Rightarrow> u64 \<Rightarrow> nat \<Rightarrow> int \<Rightarrow> 'd \<Rightarrow> nat option \<times> 'd"
  vb_release :: "resource \<Rightarrow> 'd \<Rightarrow> 'd"
  vb_async_fd :: "nat \<Rightarrow> int"
  vb_num_comp_vectors :: "nat \<Rightarrow> int"

definition vcall :: "('d \<Rightarrow> 'r \<times> 'd) \<Rightarrow> 'd world \<Rightarrow> 'r \<times> 'd world" where
  "vcall f w = (case f (wd_device w) of (r, d) \<Rightarrow> (r, w\<lparr>wd_device := d\<rparr>))"

definition take_resource :: "resource \<Rightarrow> 'd world \<Rightarrow> 'd world" where
  "take_resource r w = w\<lparr>wd_held := add_mset r (wd_held w)\<rparr>"

definition give_back :: "'d verbs \<Rightarrow> resource \<Rightarrow> 'd world \<Rightarrow> 'd world" where
  "give_back v r w =
     (let w1 = w\<lparr>wd_device := vb_release v r (wd_device w)\<rparr>
      in if r \<in># wd_held w then w1\<lparr>wd_held := wd_held w - {#r#}\<rparr> else w1\<lparr>wd_misuse := True\<rparr>)"

section \<open>The context\<close>

record device_config =
  dc_num_qp_per_endpoint :: u64
  dc_max_sge_per_wr :: u64
  dc_max_wr_per_qp :: u64
  dc_max_inline_bytes :: u64
  dc_max_cqe_count :: u64

definition default_config :: device_config where
  "default_config = \<lparr>dc_num_qp_per_endpoint = 1, dc_max_sge_per_wr = 2, dc_max_wr_per_qp = 128, dc_max_inline_bytes = 64, dc_max_cqe_count = 4096\<rparr>"

record rdma_context =
  rx_device_name :: string
  rx_context :: "nat option"
  rx_pd :: "nat option"
  rx_event_fd :: int
  rx_num_comp_channel :: nat
  rx_comp_channel :: "(nat \<times> int) option list option"
  rx_port :: u8
  rx_lid :: u16
  rx_gid_index :: int
  rx_active_speed :: int
  rx_active_mtu :: nat
  rx_gid :: "u8 list"
  rx_regions :: "ibv_mr list"
  rx_cq_list :: "nat option list"
  rx_next_comp_channel_index :: u32
  rx_next_comp_vector_index :: u32
  rx_active :: bool
  rx_config :: device_config

text \<open>The flags, the uninitialised \<open>active_mtu_\<close> and \<open>gid_\<close> are arguments.\<close>

definition RdmaContext_new :: "device_config \<Rightarrow> nat \<Rightarrow> u8 list \<Rightarrow> rdma_context" where
  "RdmaContext_new flags garbage_mtu garbage_gid =
     \<lparr>rx_device_name = [], rx_context = None, rx_pd = None, rx_event_fd = -1, rx_num_comp_channel = 0, rx_comp_channel = None,
      rx_port = 0, rx_lid = 0, rx_gid_index = -1, rx_active_speed = -1, rx_active_mtu = garbage_mtu, rx_gid = garbage_gid, rx_regions = [],
      rx_cq_list = [], rx_next_comp_channel_index = 0, rx_next_comp_vector_index = 0, rx_active = True, rx_config = flags\<rparr>"

text \<open>The queries of a device that was opened; None closes it again.\<close>

definition query_device :: "'d verbs \<Rightarrow> nat \<Rightarrow> u8 \<Rightarrow> int \<Rightarrow> 'd world \<Rightarrow> (port_attr \<times> u8 list) option \<times> 'd world" where
  "query_device v ctx prt gid_index w =
     (case vcall (vb_query_port v ctx prt) w of
        (None, w1) \<Rightarrow> (None, w1)
      | (Some attr, w1) \<Rightarrow>
          if \<not> pa_active attr then (None, w1)
          else case vcall (vb_query_device v ctx) w1 of
            (err, w2) \<Rightarrow>
              if err \<noteq> 0 then (None, w2)
              else case vcall (vb_query_gid v ctx prt gid_index) w2 of
                (None, w3) \<Rightarrow> (None, w3)
              | (Some gid, w3) \<Rightarrow> (Some (attr, gid), w3))"

text \<open>The loop over the devices from index \<open>i\<close>: the first with the name decides.\<close>

fun open_devices ::
  "'d verbs \<Rightarrow> nat \<Rightarrow> string \<Rightarrow> u8 \<Rightarrow> int \<Rightarrow> string list \<Rightarrow> nat \<Rightarrow> rdma_context \<Rightarrow> 'd world \<Rightarrow> int \<times> rdma_context \<times> 'd world" where
  "open_devices v devices device_name prt gid_index [] i c w = (-1, c, give_back v (DeviceList devices) w)"
| "open_devices v devices device_name prt gid_index (name # names) i c w =
     (if device_name \<noteq> name then open_devices v devices device_name prt gid_index names (Suc i) c w
      else case vcall (vb_open_device v devices i) w of
        (None, w1) \<Rightarrow> (-1, c, give_back v (DeviceList devices) w1)
      | (Some ctx, w1) \<Rightarrow>
          (case query_device v ctx prt gid_index (take_resource (DeviceContext ctx) w1) of
             (None, w2) \<Rightarrow> (-1, c, give_back v (DeviceList devices) (give_back v (DeviceContext ctx) w2))
           | (Some (attr, gid), w2) \<Rightarrow>
               (0, c\<lparr>rx_context := Some ctx, rx_port := prt, rx_lid := pa_lid attr, rx_active_mtu := pa_active_mtu attr,
                    rx_active_speed := pa_active_speed attr, rx_gid_index := gid_index, rx_gid := gid\<rparr>,
                give_back v (DeviceList devices) w2)))"

definition openRdmaDevice :: "'d verbs \<Rightarrow> string \<Rightarrow> u8 \<Rightarrow> int \<Rightarrow> rdma_context \<Rightarrow> 'd world \<Rightarrow> int \<times> rdma_context \<times> 'd world" where
  "openRdmaDevice v device_name prt gid_index c w =
     (case vcall (vb_get_device_list v) w of
        (None, w1) \<Rightarrow> (-1, c, w1)
      | (Some (devices, names), w1) \<Rightarrow>
          let w2 = take_resource (DeviceList devices) w1
          in if names = [] then (-1, c, w2)
             else open_devices v devices device_name prt gid_index names 0 c w2)"

definition joinNonblockingPollList :: "'d verbs \<Rightarrow> int \<Rightarrow> int \<Rightarrow> 'd world \<Rightarrow> int \<times> 'd world" where
  "joinNonblockingPollList v event_fd data_fd w =
     (case vcall (vb_fcntl_getfl v data_fd) w of
        (flags, w1) \<Rightarrow>
          if flags = -1 then (-1, w1)
          else case vcall (vb_fcntl_nonblock v data_fd flags) w1 of
            (ret, w2) \<Rightarrow>
              if ret = -1 then (-1, w2)
              else case vcall (vb_epoll_ctl v event_fd data_fd) w2 of
                (ret, w3) \<Rightarrow> if ret \<noteq> 0 then (-1, give_back v (FileDescriptor event_fd) w3) else (0, w3))"

fun join_all :: "'d verbs \<Rightarrow> int \<Rightarrow> int list \<Rightarrow> 'd world \<Rightarrow> int \<times> 'd world" where
  "join_all v event_fd [] w = (0, w)"
| "join_all v event_fd (fd # fds) w =
     (case joinNonblockingPollList v event_fd fd w of (ret, w1) \<Rightarrow> if ret \<noteq> 0 then (-1, w1) else join_all v event_fd fds w1)"

definition compChannel :: "rdma_context \<Rightarrow> (nat \<times> int) option \<times> rdma_context" where
  "compChannel c =
     (let index = unat (scast (rx_next_comp_channel_index c) :: u64) mod rx_num_comp_channel c
      in (the (rx_comp_channel c) ! index, c\<lparr>rx_next_comp_channel_index := rx_next_comp_channel_index c + 1\<rparr>))"

definition compVector :: "'d verbs \<Rightarrow> rdma_context \<Rightarrow> (int \<times> rdma_context) outcome" where
  "compVector v c =
     (let n = vb_num_comp_vectors v (the (rx_context c))
      in if n = 0 then Inl DivByZero
         else Inr (sint (rx_next_comp_vector_index c) smod n, c\<lparr>rx_next_comp_vector_index := rx_next_comp_vector_index c + 1\<rparr>))"

text \<open>The loops of \<open>construct\<close> over the channels and the completion queues, from index \<open>i\<close>.\<close>

fun create_channels :: "'d verbs \<Rightarrow> nat list \<Rightarrow> rdma_context \<Rightarrow> 'd world \<Rightarrow> int \<times> rdma_context \<times> 'd world" where
  "create_channels v [] c w = (0, c, w)"
| "create_channels v (i # is) c w =
     (case vcall (vb_create_comp_channel v (the (rx_context c))) w of
        (ch, w1) \<Rightarrow>
          let c1 = c\<lparr>rx_comp_channel := map_option (\<lambda>chs. list_update chs i ch) (rx_comp_channel c)\<rparr>
          in case ch of
               None \<Rightarrow> (-1, c1, w1)
             | Some (chan, _) \<Rightarrow> create_channels v is c1 (take_resource (CompChannel chan) w1))"

fun create_cqs :: "'d verbs \<Rightarrow> nat list \<Rightarrow> rdma_context \<Rightarrow> 'd world \<Rightarrow> (int \<times> rdma_context \<times> 'd world) outcome" where
  "create_cqs v [] c w = Inr (0, c, w)"
| "create_cqs v (i # is) c w =
     (case compChannel c of
        (ch, c1) \<Rightarrow>
          obind (compVector v c1) (\<lambda>(vec, c2).
            case vcall (vb_create_cq v (the (rx_context c2)) (dc_max_cqe_count (rx_config c2)) (fst (the ch)) vec) w of
              (cq, w1) \<Rightarrow>
                let c3 = c2\<lparr>rx_cq_list := (rx_cq_list c2)[i := cq]\<rparr>
                in case cq of
                     None \<Rightarrow> Inr (-1, c3, w1)
                   | Some q \<Rightarrow> create_cqs v is c3 (take_resource (CompletionQueue q) w1)))"

definition num_cq_list :: nat where
  "num_cq_list = 2"

text \<open>The part of \<open>construct\<close> after the protection domain; the pointers of the new array are uninitialised until they are set.\<close>

definition construct_events :: "'d verbs \<Rightarrow> rdma_context \<Rightarrow> 'd world \<Rightarrow> int \<times> rdma_context \<times> 'd world" where
  "construct_events v c w =
     (case vcall (vb_epoll_create v) w of
        (fd, w1) \<Rightarrow>
          let c1 = c\<lparr>rx_event_fd := fd\<rparr> in
          if fd < 0 then (-1, c1, w1)
          else case joinNonblockingPollList v fd (vb_async_fd v (the (rx_context c1))) (take_resource (FileDescriptor fd) w1) of
            (ret, w2) \<Rightarrow>
              if ret \<noteq> 0 then (-1, c1, w2)
              else case join_all v fd (map (snd \<circ> the) (the (rx_comp_channel c1))) w2 of (ret, w3) \<Rightarrow> (ret, c1, w3))"

definition dev_construct ::
  "'d verbs \<Rightarrow> string \<Rightarrow> u8 \<Rightarrow> int \<Rightarrow> rdma_context \<Rightarrow> 'd world \<Rightarrow> (int \<times> rdma_context \<times> 'd world) outcome" where
  "dev_construct v device_name rdma_port gid_index c w =
     (case openRdmaDevice v device_name rdma_port gid_index (c\<lparr>rx_device_name := device_name, rx_num_comp_channel := 1\<rparr>) w of
        (ret, c1, w1) \<Rightarrow>
          if ret \<noteq> 0 then Inr (-1, c1, w1)
          else case vcall (vb_alloc_pd v (the (rx_context c1))) w1 of
            (None, w2) \<Rightarrow> Inr (-1, c1\<lparr>rx_pd := None\<rparr>, w2)
          | (Some pd, w2) \<Rightarrow>
              (case create_channels v [0..<rx_num_comp_channel c1]
                      (c1\<lparr>rx_pd := Some pd, rx_comp_channel := Some (replicate (rx_num_comp_channel c1) None)\<rparr>)
                      (take_resource (ProtectionDomain pd) w2) of
                 (ret, c3, w3) \<Rightarrow>
                   if ret \<noteq> 0 then Inr (-1, c3, w3)
                   else case construct_events v c3 w3 of
                     (ret, c4, w4) \<Rightarrow>
                       if ret \<noteq> 0 then Inr (-1, c4, w4)
                       else create_cqs v [0..<num_cq_list]
                              (c4\<lparr>rx_cq_list := take num_cq_list (rx_cq_list c4) @ replicate (num_cq_list - length (rx_cq_list c4)) None\<rparr>) w4))"

fun destroy_cqs :: "'d verbs \<Rightarrow> nat option list \<Rightarrow> 'd world \<Rightarrow> 'd world outcome" where
  "destroy_cqs v [] w = Inr w"
| "destroy_cqs v (None # cqs) w = Inl NullDeref"
| "destroy_cqs v (Some cq # cqs) w = destroy_cqs v cqs (give_back v (CompletionQueue cq) w)"

definition give_back_opt :: "'d verbs \<Rightarrow> resource option \<Rightarrow> 'd world \<Rightarrow> 'd world" where
  "give_back_opt v r w = (case r of None \<Rightarrow> w | Some r \<Rightarrow> give_back v r w)"

definition dev_deconstruct :: "'d verbs \<Rightarrow> rdma_context \<Rightarrow> 'd world \<Rightarrow> (int \<times> rdma_context \<times> 'd world) outcome" where
  "dev_deconstruct v c w =
     obind (destroy_cqs v (rx_cq_list c) (fold (\<lambda>mr. give_back v (MemoryRegion mr)) (rx_regions c) w)) (\<lambda>w1.
       let w2 = give_back_opt v (if rx_event_fd c \<ge> 0 then Some (FileDescriptor (rx_event_fd c)) else None) w1;
           w3 = fold (\<lambda>ch. give_back_opt v (map_option (CompChannel \<circ> fst) ch)) (case rx_comp_channel c of Some chs \<Rightarrow> chs | None \<Rightarrow> []) w2;
           w4 = give_back_opt v (map_option ProtectionDomain (rx_pd c)) w3;
           w5 = give_back_opt v (map_option DeviceContext (rx_context c)) w4
       in Inr (0, c\<lparr>rx_regions := [], rx_cq_list := [], rx_event_fd := -1, rx_comp_channel := None, rx_pd := None, rx_context := None\<rparr>, w5))"

definition RdmaContext_delete :: "'d verbs \<Rightarrow> rdma_context \<Rightarrow> 'd world \<Rightarrow> 'd world outcome" where
  "RdmaContext_delete v c w =
     (if rx_context c \<noteq> None then obind (dev_deconstruct v c w) (\<lambda>(_, _, w1). Inr w1) else Inr w)"

text \<open>\<open>file\<close> is the first number of the file in \<open>/sys\<close>, None when it cannot be opened.\<close>

definition socketId :: "int option \<Rightarrow> int" where
  "socketId file = (case file of Some socket_id \<Rightarrow> socket_id | None \<Rightarrow> 0)"

text \<open>\<open>answer\<close> is what \<open>ibv_poll_cq\<close> returns.\<close>

definition dev_poll :: "int \<Rightarrow> int" where
  "dev_poll answer = (if answer < 0 then -1 else answer)"

section \<open>Accounting\<close>

text \<open>The resources behind the pointers of a list that are not null.\<close>

fun opt_resources :: "('a \<Rightarrow> resource) \<Rightarrow> 'a option list \<Rightarrow> resource multiset" where
  "opt_resources f [] = {#}"
| "opt_resources f (None # xs) = opt_resources f xs"
| "opt_resources f (Some x # xs) = add_mset (f x) (opt_resources f xs)"

definition channels :: "rdma_context \<Rightarrow> (nat \<times> int) option list" where
  "channels c = (case rx_comp_channel c of Some chs \<Rightarrow> chs | None \<Rightarrow> [])"

definition owned :: "rdma_context \<Rightarrow> resource multiset" where
  "owned c = mset (map MemoryRegion (rx_regions c)) + opt_resources CompletionQueue (rx_cq_list c)
     + (if rx_event_fd c \<ge> 0 then {#FileDescriptor (rx_event_fd c)#} else {#})
     + opt_resources (CompChannel \<circ> fst) (channels c)
     + (case rx_pd c of Some pd \<Rightarrow> {#ProtectionDomain pd#} | None \<Rightarrow> {#})
     + (case rx_context c of Some x \<Rightarrow> {#DeviceContext x#} | None \<Rightarrow> {#})"

lemma vcall_held: "vcall f w = (r, w') \<Longrightarrow> wd_held w' = wd_held w \<and> wd_misuse w' = wd_misuse w"
  by (auto simp: vcall_def split: prod.splits)

lemma take_resource_held [simp]: "wd_held (take_resource r w) = add_mset r (wd_held w)" "wd_misuse (take_resource r w) = wd_misuse w"
  by (simp_all add: take_resource_def)

lemma give_back_held:
  "r \<in># wd_held w \<Longrightarrow> wd_held (give_back v r w) = wd_held w - {#r#} \<and> wd_misuse (give_back v r w) = wd_misuse w"
  by (simp add: give_back_def Let_def)

text \<open>The world after some calls, with the same accounts.\<close>

definition same_accounts :: "'d world \<Rightarrow> 'd world \<Rightarrow> bool" where
  "same_accounts w w' \<longleftrightarrow> wd_held w' = wd_held w \<and> wd_misuse w' = wd_misuse w"

lemma vcall_accounts: "vcall f w = (r, w') \<Longrightarrow> same_accounts w w'"
  by (auto simp: vcall_def same_accounts_def split: prod.splits)

lemma same_accounts_trans [trans]: "same_accounts w w1 \<Longrightarrow> same_accounts w1 w2 \<Longrightarrow> same_accounts w w2"
  by (simp add: same_accounts_def)

lemma query_device_accounts: "query_device v ctx prt gi w = (r, w') \<Longrightarrow> same_accounts w w'"
  unfolding query_device_def
  by (auto split: prod.splits option.splits if_splits dest!: vcall_accounts intro: same_accounts_trans)

definition accounts :: "resource multiset \<Rightarrow> bool \<Rightarrow> rdma_context \<Rightarrow> 'd world \<Rightarrow> bool" where
  "accounts H m c w \<longleftrightarrow> wd_held w = H + owned c \<and> wd_misuse w = m"

text \<open>Everything but the device is unchanged.\<close>

definition same_resources :: "rdma_context \<Rightarrow> rdma_context \<Rightarrow> bool" where
  "same_resources c c' \<longleftrightarrow> rx_pd c' = rx_pd c \<and> rx_event_fd c' = rx_event_fd c \<and> rx_comp_channel c' = rx_comp_channel c
     \<and> rx_num_comp_channel c' = rx_num_comp_channel c \<and> rx_cq_list c' = rx_cq_list c \<and> rx_regions c' = rx_regions c"

lemma open_devices_accounts:
  assumes "open_devices v l name prt gi names i c w = (ret, c', w')" "wd_held w = add_mset (DeviceList l) H" "wd_misuse w = m"
    "owned c = {#}" "rx_context c = None"
  shows "accounts H m c' w' \<and> (ret = 0 \<longleftrightarrow> rx_context c' \<noteq> None)
    \<and> same_resources c c'"
  using assms
proof (induction names arbitrary: i)
  case Nil
  then show ?case by (auto simp: accounts_def same_resources_def give_back_held)
next
  case (Cons n names)
  show ?case
  proof (cases "name = n")
    case False
    then show ?thesis using Cons by simp
  next
    case True
    obtain o1 w1 where o: "vcall (vb_open_device v l i) w = (o1, w1)" by (cases "vcall (vb_open_device v l i) w")
    then have h1: "wd_held w1 = add_mset (DeviceList l) H" "wd_misuse w1 = m"
      using vcall_accounts [OF o] Cons.prems by (auto simp: same_accounts_def)
    show ?thesis
    proof (cases o1)
      case None
      then show ?thesis using Cons.prems o True h1 by (auto simp: accounts_def same_resources_def give_back_held)
    next
      case (Some x)
      obtain q w2 where q: "query_device v x prt gi (take_resource (DeviceContext x) w1) = (q, w2)" by fastforce
      have h2: "wd_held w2 = add_mset (DeviceContext x) (add_mset (DeviceList l) H)" "wd_misuse w2 = m"
        using query_device_accounts [OF q] h1 by (auto simp: same_accounts_def)
      show ?thesis
      proof (cases q)
        case None
        have "wd_held (give_back v (DeviceContext x) w2) = add_mset (DeviceList l) H" "wd_misuse (give_back v (DeviceContext x) w2) = m"
          using h2 give_back_held [of "DeviceContext x" w2 v] by auto
        then show ?thesis using Cons.prems o True Some q None by (auto simp: accounts_def same_resources_def give_back_held)
      next
        case s: (Some ag)
        have "owned (c\<lparr>rx_context := Some x, rx_port := pt, rx_lid := ld, rx_active_mtu := am, rx_active_speed := sp, rx_gid_index := gx, rx_gid := gd\<rparr>)
            = {#DeviceContext x#}" for pt ld am sp gx gd
          using Cons.prems(4,5) by (auto simp: owned_def channels_def split: if_splits)
        then show ?thesis
          using Cons.prems o True Some q s h2 give_back_held [of "DeviceList l" w2 v] by (cases ag) (auto simp: accounts_def same_resources_def)
      qed
    qed
  qed
qed

lemma join_accounts:
  assumes "joinNonblockingPollList v fd data w = (ret, w')" "\<And>fd data d. fst (vb_epoll_ctl v fd data d) = 0"
  shows "same_accounts w w'"
proof -
  obtain fl w1 r2 w2 r3 w3 where c: "vcall (vb_fcntl_getfl v data) w = (fl, w1)" "vcall (vb_fcntl_nonblock v data fl) w1 = (r2, w2)"
    "vcall (vb_epoll_ctl v fd data) w2 = (r3, w3)" by (metis surj_pair)
  have "r3 = 0" using c(3) assms(2) [of fd data "wd_device w2"] by (auto simp: vcall_def split: prod.splits)
  then show ?thesis
    using assms(1) c vcall_accounts [OF c(1)] vcall_accounts [OF c(2)] vcall_accounts [OF c(3)]
    by (auto simp: joinNonblockingPollList_def same_accounts_def split: if_splits)
qed

lemma join_all_accounts:
  assumes "join_all v fd fds w = (ret, w')" "\<And>fd data d. fst (vb_epoll_ctl v fd data d) = 0"
  shows "same_accounts w w'"
  using assms(1)
proof (induction fds arbitrary: w)
  case Nil
  then show ?case by (simp add: same_accounts_def)
next
  case (Cons f fds)
  obtain r w1 where j: "joinNonblockingPollList v fd f w = (r, w1)" by fastforce
  then show ?case
    using Cons join_accounts [OF j assms(2)] by (auto split: if_splits intro: same_accounts_trans)
qed

lemma destroy_cqs_accounts:
  assumes "None \<notin> set cqs" "wd_held w = H + opt_resources CompletionQueue cqs" "wd_misuse w = m"
  shows "\<exists>w'. destroy_cqs v cqs w = Inr w' \<and> wd_held w' = H \<and> wd_misuse w' = m"
  using assms
proof (induction cqs arbitrary: w)
  case (Cons q cqs)
  then obtain x where "q = Some x" by (cases q) auto
  then show ?case using Cons.prems Cons.IH [of "give_back v (CompletionQueue x) w"] give_back_held [of "CompletionQueue x" w v] by auto
qed simp

lemma fold_give_back:
  assumes "wd_held w = H + mset (map f xs)" "wd_misuse w = m"
  shows "wd_held (fold (\<lambda>x. give_back v (f x)) xs w) = H \<and> wd_misuse (fold (\<lambda>x. give_back v (f x)) xs w) = m"
  using assms
proof (induction xs arbitrary: w)
  case (Cons x xs)
  then show ?case using give_back_held [of "f x" w v] by auto
qed simp

lemma give_back_opt_held:
  "wd_held w = H + (case r of Some x \<Rightarrow> {#x#} | None \<Rightarrow> {#}) \<Longrightarrow> wd_misuse w = m \<Longrightarrow>
     wd_held (give_back_opt v r w) = H \<and> wd_misuse (give_back_opt v r w) = m"
  by (cases r) (auto simp: give_back_opt_def give_back_held)

lemma fold_give_back_opt:
  assumes "wd_held w = H + opt_resources f chs" "wd_misuse w = m"
  shows "wd_held (fold (\<lambda>ch. give_back_opt v (map_option f ch)) chs w) = H
    \<and> wd_misuse (fold (\<lambda>ch. give_back_opt v (map_option f ch)) chs w) = m"
  using assms
proof (induction f chs arbitrary: w rule: opt_resources.induct)
  case (2 f xs)
  then show ?case by (simp add: give_back_opt_def)
next
  case (3 f x xs)
  then show ?case using give_back_held [of "f x" w v] by (auto simp: give_back_opt_def)
qed simp

lemma deconstruct_accounts:
  assumes "accounts H m c w" "None \<notin> set (rx_cq_list c)"
  shows "\<exists>c' w'. dev_deconstruct v c w = Inr (0, c', w') \<and> wd_held w' = H \<and> wd_misuse w' = m"
proof -
  define Hx where "Hx = H + (case rx_context c of Some x \<Rightarrow> {#DeviceContext x#} | None \<Rightarrow> {#})"
  define Hp where "Hp = Hx + (case rx_pd c of Some pd \<Rightarrow> {#ProtectionDomain pd#} | None \<Rightarrow> {#})"
  define Hc where "Hc = Hp + opt_resources (CompChannel \<circ> fst) (channels c)"
  define He where "He = Hc + (if rx_event_fd c \<ge> 0 then {#FileDescriptor (rx_event_fd c)#} else {#})"
  define Hq where "Hq = He + opt_resources CompletionQueue (rx_cq_list c)"
  have w: "wd_held w = Hq + mset (map MemoryRegion (rx_regions c))" "wd_misuse w = m"
    using assms(1) by (simp_all add: accounts_def owned_def Hq_def He_def Hc_def Hp_def Hx_def ac_simps)
  define w0 where "w0 = fold (\<lambda>mr. give_back v (MemoryRegion mr)) (rx_regions c) w"
  have w0: "wd_held w0 = Hq" "wd_misuse w0 = m" using fold_give_back [OF w, of v] by (simp_all add: w0_def)
  obtain w1 where w1: "destroy_cqs v (rx_cq_list c) w0 = Inr w1" "wd_held w1 = He" "wd_misuse w1 = m"
    using destroy_cqs_accounts [OF assms(2) w0(1) [unfolded Hq_def] w0(2)] by blast
  define w2 where "w2 = give_back_opt v (if rx_event_fd c \<ge> 0 then Some (FileDescriptor (rx_event_fd c)) else None) w1"
  have w2: "wd_held w2 = Hc" "wd_misuse w2 = m"
    using give_back_opt_held [where H = Hc and w = w1 and m = m and v = v and r = "if rx_event_fd c \<ge> 0 then Some (FileDescriptor (rx_event_fd c)) else None"]
      w1(2,3) by (simp_all add: w2_def He_def)
  define w3 where "w3 = fold (\<lambda>ch. give_back_opt v (map_option (CompChannel \<circ> fst) ch)) (channels c) w2"
  have w3: "wd_held w3 = Hp" "wd_misuse w3 = m"
    using fold_give_back_opt [OF w2(1) [unfolded Hc_def] w2(2), of v] by (simp_all add: w3_def)
  define w4 where "w4 = give_back_opt v (map_option ProtectionDomain (rx_pd c)) w3"
  have w4: "wd_held w4 = Hx" "wd_misuse w4 = m"
    using give_back_opt_held [where H = Hx and w = w3 and m = m and v = v and r = "map_option ProtectionDomain (rx_pd c)"] w3
    by (cases "rx_pd c"; simp add: w4_def Hp_def)+
  define w5 where "w5 = give_back_opt v (map_option DeviceContext (rx_context c)) w4"
  have w5: "wd_held w5 = H" "wd_misuse w5 = m"
    using give_back_opt_held [where H = H and w = w4 and m = m and v = v and r = "map_option DeviceContext (rx_context c)"] w4
    by (cases "rx_context c"; simp add: w5_def Hx_def)+
  show ?thesis
    using w1(1) w5 by (simp add: dev_deconstruct_def channels_def [symmetric] w0_def [symmetric] w2_def [symmetric] w3_def [symmetric] w4_def [symmetric] w5_def [symmetric] Let_def)
qed

lemma opt_resources_update:
  "i < length xs \<Longrightarrow> xs ! i = None \<Longrightarrow> opt_resources f (xs[i := Some x]) = add_mset (f x) (opt_resources f xs)"
proof (induction f xs arbitrary: i rule: opt_resources.induct)
  case (2 f xs)
  then show ?case by (cases i) auto
next
  case (3 f y xs)
  then show ?case by (cases i) auto
qed simp

lemma opt_resources_replicate [simp]: "opt_resources f (replicate n None) = {#}"
  by (induction n) auto

lemma create_channels_accounts:
  assumes "create_channels v is c w = (ret, c', w')" "accounts H m c w" "rx_comp_channel c = Some chs" "distinct is"
    "\<forall>i\<in>set is. i < length chs \<and> chs ! i = None"
  shows "accounts H m c' w' \<and> (\<exists>chs'. c' = c\<lparr>rx_comp_channel := Some chs'\<rparr> \<and> length chs' = length chs)"
  using assms
proof (induction "is" arbitrary: c w chs)
  case Nil
  then show ?case by (auto intro!: exI [of _ chs])
next
  case (Cons i "is")
  obtain ch w1 where v: "vcall (vb_create_comp_channel v (the (rx_context c))) w = (ch, w1)" by fastforce
  have h: "wd_held w1 = wd_held w" "wd_misuse w1 = wd_misuse w" using vcall_accounts [OF v] by (simp_all add: same_accounts_def)
  let ?c = "c\<lparr>rx_comp_channel := Some (chs[i := ch])\<rparr>"
  show ?case
  proof (cases ch)
    case None
    have "chs[i := None] = chs" using Cons.prems(5) by (metis list.set_intros(1) list_update_id)
    then have "accounts H m ?c w1" "?c = c"
      using Cons.prems(2,3) h None by (auto simp: accounts_def owned_def channels_def)
    then show ?thesis using Cons.prems v None by (auto intro!: exI [of _ chs])
  next
    case (Some p)
    have "owned ?c = add_mset (CompChannel (fst p)) (owned c)"
      using Cons.prems(3,5) Some by (simp add: owned_def channels_def opt_resources_update)
    then have acc: "accounts H m ?c (take_resource (CompChannel (fst p)) w1)"
      using Cons.prems(2) h by (simp add: accounts_def)
    have "create_channels v is ?c (take_resource (CompChannel (fst p)) w1) = (ret, c', w')"
      using Cons.prems(1,3) v Some by (cases p) simp
    moreover have "\<forall>j\<in>set is. j < length (chs[i := ch]) \<and> chs[i := ch] ! j = None"
      using Cons.prems(4,5) by (auto simp: nth_list_update)
    ultimately have "accounts H m c' w' \<and> (\<exists>chs'. c' = ?c\<lparr>rx_comp_channel := Some chs'\<rparr> \<and> length chs' = length chs)"
      using Cons.IH [OF _ acc, of "chs[i := ch]"] Cons.prems(4) by simp
    then show ?thesis by auto
  qed
qed

lemma create_cqs_accounts:
  assumes "create_cqs v is c w = Inr (ret, c', w')" "accounts H m c w" "distinct is"
    "\<forall>i\<in>set is. i < length (rx_cq_list c) \<and> rx_cq_list c ! i = None"
  shows "accounts H m c' w' \<and> rx_context c' = rx_context c \<and> length (rx_cq_list c') = length (rx_cq_list c)
    \<and> (\<forall>i. i \<notin> set is \<longrightarrow> rx_cq_list c' ! i = rx_cq_list c ! i)
    \<and> (if ret = 0 then \<forall>i\<in>set is. rx_cq_list c' ! i \<noteq> None else None \<in> set (rx_cq_list c'))"
  using assms
proof (induction "is" arbitrary: c w)
  case (Cons i "is")
  obtain ch c1 where ch: "compChannel c = (ch, c1)" by fastforce
  obtain vec c2 where vec: "compVector v c1 = Inr (vec, c2)" using Cons.prems(1) ch by (auto simp: obind_eq_Inr)
  have c2: "owned c2 = owned c" "rx_context c2 = rx_context c" "rx_cq_list c2 = rx_cq_list c"
    using ch vec by (auto simp: compChannel_def compVector_def Let_def owned_def channels_def split: if_splits)
  obtain cq w1 where v: "vcall (vb_create_cq v (the (rx_context c2)) (dc_max_cqe_count (rx_config c2)) (fst (the ch)) vec) w = (cq, w1)" by fastforce
  have h: "wd_held w1 = wd_held w" "wd_misuse w1 = wd_misuse w" using vcall_accounts [OF v] by (simp_all add: same_accounts_def)
  let ?c = "c2\<lparr>rx_cq_list := (rx_cq_list c)[i := cq]\<rparr>"
  have i: "i < length (rx_cq_list c)" "rx_cq_list c ! i = None" using Cons.prems(4) by auto
  show ?case
  proof (cases cq)
    case None
    have upd: "(rx_cq_list c)[i := None] = rx_cq_list c" using i by (metis list_update_id)
    then have "owned ?c = owned c2" using c2(3) None by (simp add: owned_def channels_def)
    then have "accounts H m ?c w1" using Cons.prems(2) h c2(1) by (simp add: accounts_def)
    moreover have "ret = -1" "c' = ?c" "w' = w1" using Cons.prems(1) ch vec v c2(3) None by (auto simp: Let_def)
    moreover have "None \<in> set (rx_cq_list c)" using i nth_mem by metis
    ultimately show ?thesis using c2 None upd by simp
  next
    case (Some q)
    have "owned ?c = add_mset (CompletionQueue q) (owned c2)"
      using c2(3) i Some by (simp add: owned_def channels_def opt_resources_update)
    then have acc: "accounts H m ?c (take_resource (CompletionQueue q) w1)" using Cons.prems(2) h c2(1) by (simp add: accounts_def)
    have run: "create_cqs v is ?c (take_resource (CompletionQueue q) w1) = Inr (ret, c', w')"
      using Cons.prems(1) ch vec v c2(3) Some by (simp add: Let_def)
    have "\<forall>j\<in>set is. j < length (rx_cq_list ?c) \<and> rx_cq_list ?c ! j = None"
      using Cons.prems(3,4) by (auto simp: nth_list_update)
    from Cons.IH [OF run acc _ this] Cons.prems(3) c2(2) i(1) Some show ?thesis by auto
  qed
qed (auto simp: accounts_def)

lemma construct_events_accounts:
  assumes "construct_events v c w = (ret, c', w')" "accounts H m c w" "rx_event_fd c < 0" "\<And>fd data d. fst (vb_epoll_ctl v fd data d) = 0"
  shows "accounts H m c' w' \<and> (\<exists>fd. c' = c\<lparr>rx_event_fd := fd\<rparr>)"
proof -
  obtain fd w1 where f: "vcall (vb_epoll_create v) w = (fd, w1)" by fastforce
  have h: "wd_held w1 = wd_held w" "wd_misuse w1 = wd_misuse w" using vcall_accounts [OF f] by (simp_all add: same_accounts_def)
  show ?thesis
  proof (cases "fd < 0")
    case True
    then have "owned (c\<lparr>rx_event_fd := fd\<rparr>) = owned c" using assms(3) by (simp add: owned_def channels_def)
    then show ?thesis using assms(1,2) f True h by (auto simp: construct_events_def accounts_def)
  next
    case False
    let ?c = "c\<lparr>rx_event_fd := fd\<rparr>"
    have "owned ?c = add_mset (FileDescriptor fd) (owned c)" using assms(3) False by (simp add: owned_def channels_def)
    then have acc: "accounts H m ?c (take_resource (FileDescriptor fd) w1)" using assms(2) h by (simp add: accounts_def)
    obtain r2 w2 where j: "joinNonblockingPollList v fd (vb_async_fd v (the (rx_context ?c))) (take_resource (FileDescriptor fd) w1) = (r2, w2)" by fastforce
    obtain r3 w3 where a: "join_all v fd (map (snd \<circ> the) (the (rx_comp_channel ?c))) w2 = (r3, w3)" by fastforce
    have "accounts H m ?c w2" "accounts H m ?c w3"
      using acc join_accounts [OF j assms(4)] join_all_accounts [OF a assms(4)] by (simp_all add: accounts_def same_accounts_def)
    then show ?thesis using assms(1) f False j a by (auto simp: construct_events_def Let_def split: if_splits)
  qed
qed

text \<open>A list of devices that is handed out is not empty.\<close>

definition lists_devices :: "'d verbs \<Rightarrow> bool" where
  "lists_devices v \<longleftrightarrow> (\<forall>d l d'. vb_get_device_list v d \<noteq> (Some (l, []), d'))"

lemma openRdmaDevice_accounts:
  assumes "openRdmaDevice v name prt gi c w = (ret, c', w')" "owned c = {#}" "rx_context c = None" "lists_devices v"
  shows "accounts (wd_held w) (wd_misuse w) c' w' \<and> (ret = 0 \<longleftrightarrow> rx_context c' \<noteq> None) \<and> same_resources c c'"
proof -
  obtain l w1 where l: "vcall (vb_get_device_list v) w = (l, w1)" by fastforce
  have h: "wd_held w1 = wd_held w" "wd_misuse w1 = wd_misuse w" using vcall_accounts [OF l] by (simp_all add: same_accounts_def)
  show ?thesis
  proof (cases l)
    case None
    then show ?thesis using assms(1-3) l h by (auto simp: openRdmaDevice_def accounts_def same_resources_def)
  next
    case (Some p)
    obtain devices names where p: "p = (devices, names)" by fastforce
    have "names \<noteq> []" using assms(4) l Some p by (auto simp: lists_devices_def vcall_def split: prod.splits)
    then have "open_devices v devices name prt gi names 0 c (take_resource (DeviceList devices) w1) = (ret, c', w')"
      using assms(1) l Some p by (simp add: openRdmaDevice_def)
    from open_devices_accounts [OF this _ _ assms(2,3)] show ?thesis using h by simp
  qed
qed

lemma construct_accounts:
  assumes run: "dev_construct v name prt gi (RdmaContext_new flags gm gg) w = Inr (ret, c', w')"
    and epoll: "\<And>fd data d. fst (vb_epoll_ctl v fd data d) = 0" and list: "lists_devices v"
  shows "accounts (wd_held w) (wd_misuse w) c' w' \<and> (ret = 0 \<longrightarrow> rx_context c' \<noteq> None \<and> None \<notin> set (rx_cq_list c'))
    \<and> (rx_context c' = None \<longrightarrow> owned c' = {#})"
proof -
  let ?c = "(RdmaContext_new flags gm gg)\<lparr>rx_device_name := name, rx_num_comp_channel := 1\<rparr>"
  have fresh: "owned ?c = {#}" "rx_context ?c = None" by (simp_all add: RdmaContext_new_def owned_def channels_def)
  obtain r1 c1 w1 where o: "openRdmaDevice v name prt gi ?c w = (r1, c1, w1)" by (metis prod_cases3)
  note oa = openRdmaDevice_accounts [OF o fresh list]
  have c1: "rx_pd c1 = None" "rx_event_fd c1 = -1" "rx_comp_channel c1 = None" "rx_num_comp_channel c1 = 1" "rx_cq_list c1 = []" "rx_regions c1 = []"
    using oa by (auto simp: same_resources_def RdmaContext_new_def)
  show ?thesis
  proof (cases "r1 = 0")
    case False
    then show ?thesis using run o oa c1 by (auto simp: dev_construct_def owned_def channels_def)
  next
    case True
    obtain pd w2 where pd: "vcall (vb_alloc_pd v (the (rx_context c1))) w1 = (pd, w2)" by fastforce
    have h2: "wd_held w2 = wd_held w1" "wd_misuse w2 = wd_misuse w1" using vcall_accounts [OF pd] by (simp_all add: same_accounts_def)
    have ctx: "rx_context c1 \<noteq> None" using oa True by simp
    show ?thesis
    proof (cases pd)
      case None
      have "owned (c1\<lparr>rx_pd := None\<rparr>) = owned c1" using c1(1) by (simp add: owned_def channels_def)
      then show ?thesis using run o True pd None oa h2 ctx by (auto simp: dev_construct_def accounts_def)
    next
      case (Some p)
      let ?c2 = "c1\<lparr>rx_pd := Some p, rx_comp_channel := Some (replicate (rx_num_comp_channel c1) None)\<rparr>"
      have "owned ?c2 = add_mset (ProtectionDomain p) (owned c1)" using c1 by (simp add: owned_def channels_def)
      then have a2: "accounts (wd_held w) (wd_misuse w) ?c2 (take_resource (ProtectionDomain p) w2)" using oa h2 by (simp add: accounts_def)
      obtain r3 c3 w3 where ch: "create_channels v [0..<rx_num_comp_channel c1] ?c2 (take_resource (ProtectionDomain p) w2) = (r3, c3, w3)"
        by (metis prod_cases3)
      obtain chs where a3: "accounts (wd_held w) (wd_misuse w) c3 w3" "c3 = ?c2\<lparr>rx_comp_channel := Some chs\<rparr>"
        using create_channels_accounts [OF ch a2, of "replicate (rx_num_comp_channel c1) None"] by auto
      obtain r4 c4 w4 where ev: "construct_events v c3 w3 = (r4, c4, w4)" by (metis prod_cases3)
      have "rx_event_fd c3 < 0" using a3(2) c1(2) by simp
      from construct_events_accounts [OF ev a3(1) this epoll] obtain fd where
        a4: "accounts (wd_held w) (wd_misuse w) c4 w4" "c4 = c3\<lparr>rx_event_fd := fd\<rparr>" by auto
      have frame: "rx_context c3 = rx_context c1" "rx_context c4 = rx_context c1" "rx_cq_list c4 = []" using a3(2) a4(2) c1(5) by simp_all
      show ?thesis
      proof (cases "r3 = 0 \<and> r4 = 0")
        case False
        then have "ret = -1 \<and> (c' = c3 \<and> w' = w3 \<or> c' = c4 \<and> w' = w4)"
          using run o True pd Some ch ev by (auto simp: dev_construct_def split: if_splits)
        then show ?thesis using a3(1) a4(1) frame ctx by auto
      next
        case ok: True
        let ?c5 = "c4\<lparr>rx_cq_list := replicate num_cq_list None\<rparr>"
        have cq: "create_cqs v [0..<num_cq_list] ?c5 w4 = Inr (ret, c', w')"
          using run o True pd Some ch ev ok frame(3) by (simp add: dev_construct_def)
        have "owned ?c5 = owned c4" using frame(3) by (simp add: owned_def channels_def)
        then have "accounts (wd_held w) (wd_misuse w) ?c5 w4" using a4(1) by (simp add: accounts_def)
        from create_cqs_accounts [OF cq this] have
          q: "accounts (wd_held w) (wd_misuse w) c' w'" "rx_context c' = rx_context c1" "length (rx_cq_list c') = num_cq_list"
            "ret = 0 \<Longrightarrow> \<forall>i<num_cq_list. rx_cq_list c' ! i \<noteq> None"
          using frame(2) by (auto split: if_splits)
        then show ?thesis using ctx by (auto simp: in_set_conv_nth)
      qed
    qed
  qed
qed

lemma destroy_cqs_null: "None \<in> set cqs \<Longrightarrow> destroy_cqs v cqs w = Inl NullDeref"
  by (induction v cqs w rule: destroy_cqs.induct) auto

section \<open>Properties\<close>


definition test_verbs :: "nat option \<Rightarrow> unit verbs" where
  "test_verbs cq = \<lparr>vb_get_device_list = (\<lambda>d. (Some (1, [''mlx5_0'']), d)), vb_open_device = (\<lambda>_ _ d. (Some 2, d)),
     vb_query_port = (\<lambda>_ _ d. (Some \<lparr>pa_active = True, pa_lid = 7, pa_active_mtu = 5, pa_active_speed = 1\<rparr>, d)),
     vb_query_device = (\<lambda>_ d. (0, d)), vb_query_gid = (\<lambda>_ _ _ d. (Some (replicate 16 254), d)), vb_alloc_pd = (\<lambda>_ d. (Some 3, d)),
     vb_create_comp_channel = (\<lambda>_ d. (Some (4, 10), d)), vb_epoll_create = (\<lambda>d. (11, d)), vb_fcntl_getfl = (\<lambda>_ d. (0, d)),
     vb_fcntl_nonblock = (\<lambda>_ _ d. (0, d)), vb_epoll_ctl = (\<lambda>_ _ d. (0, d)), vb_create_cq = (\<lambda>_ _ _ _ d. (cq, d)),
     vb_release = (\<lambda>_ d. d), vb_async_fd = (\<lambda>_. 9), vb_num_comp_vectors = (\<lambda>_. 1)\<rparr>"

definition test_world :: "unit world" where
  "test_world = \<lparr>wd_device = (), wd_held = {#}, wd_misuse = False\<rparr>"


end
