(* ===== verification/TicketLocks.thy ===== *)
theory TicketLocks
  imports Prelude
begin

text \<open>
  \<open>TicketLock\<close> of \<open>src/src/concurrency.h\<close>.

  A step is one atomic access of one thread to the two counters, which are 32-bit and wrap.  The lock
  refines a queue of threads: taking a ticket appends a thread, unlocking removes the first, and only
  the first gets the lock.
\<close>

section \<open>Model\<close>

record ticket_lock =
  tl_next_ticket :: u32
  tl_now_serving :: u32

definition TicketLock_new :: ticket_lock where
  "TicketLock_new = \<lparr>tl_next_ticket = 0, tl_now_serving = 0\<rparr>"

definition lock_take :: "ticket_lock \<Rightarrow> u32 \<times> ticket_lock" where
  "lock_take t = (tl_next_ticket t, t\<lparr>tl_next_ticket := tl_next_ticket t + 1\<rparr>)"

definition lock_served :: "u32 \<Rightarrow> ticket_lock \<Rightarrow> bool" where
  "lock_served my_ticket t \<longleftrightarrow> tl_now_serving t = my_ticket"

definition ticket_unlock :: "ticket_lock \<Rightarrow> ticket_lock" where
  "ticket_unlock t = t\<lparr>tl_now_serving := tl_now_serving t + 1\<rparr>"

datatype ticket_mode = Outside | Queued u32 | Inside

inductive ticket_step :: "ticket_lock \<times> ticket_mode list \<Rightarrow> ticket_lock \<times> ticket_mode list \<Rightarrow> bool" where
  take_ticket: "i < length ms \<Longrightarrow> ms ! i = Outside \<Longrightarrow> lock_take t = (my_ticket, t') \<Longrightarrow> ticket_step (t, ms) (t', ms[i := Queued my_ticket])"
| enter_lock: "i < length ms \<Longrightarrow> ms ! i = Queued my_ticket \<Longrightarrow> lock_served my_ticket t \<Longrightarrow> ticket_step (t, ms) (t, ms[i := Inside])"
| leave_lock: "i < length ms \<Longrightarrow> ms ! i = Inside \<Longrightarrow> ticket_step (t, ms) (ticket_unlock t, ms[i := Outside])"

inductive ticket_reach :: "nat \<Rightarrow> ticket_lock \<times> ticket_mode list \<Rightarrow> bool" for n where
  ticket_init: "ticket_reach n (TicketLock_new, replicate n Outside)"
| ticket_next: "ticket_reach n s \<Longrightarrow> ticket_step s s' \<Longrightarrow> ticket_reach n s'"

section \<open>The queue of threads\<close>

definition queue_of :: "ticket_lock \<times> ticket_mode list \<Rightarrow> nat list \<Rightarrow> bool" where
  "queue_of = (\<lambda>(t, ms) q. distinct q \<and> set q = {i. i < length ms \<and> ms ! i \<noteq> Outside}
     \<and> tl_next_ticket t = tl_now_serving t + of_nat (length q)
     \<and> (\<forall>k<length q. ms ! (q ! k) = Queued (tl_now_serving t + of_nat k) \<or> k = 0 \<and> ms ! (q ! k) = Inside))"

inductive queue_step :: "nat list \<Rightarrow> nat list \<Rightarrow> bool" where
  append_thread: "i \<notin> set q \<Longrightarrow> queue_step q (q @ [i])"
| serve_first: "queue_step (i # q) (i # q)"
| remove_first: "queue_step (i # q) q"

lemma queue_ofI:
  assumes "distinct q" "set q = {i. i < length ms \<and> ms ! i \<noteq> Outside}" "tl_next_ticket t = tl_now_serving t + of_nat (length q)"
    "\<And>k. k < length q \<Longrightarrow> ms ! (q ! k) = Queued (tl_now_serving t + of_nat k) \<or> k = 0 \<and> ms ! (q ! k) = Inside"
  shows "queue_of (t, ms) q"
  using assms by (simp add: queue_of_def)

lemma queue_ofD:
  assumes "queue_of (t, ms) q"
  shows "distinct q" "set q = {i. i < length ms \<and> ms ! i \<noteq> Outside}" "tl_next_ticket t = tl_now_serving t + of_nat (length q)"
    "k < length q \<Longrightarrow> ms ! (q ! k) = Queued (tl_now_serving t + of_nat k) \<or> k = 0 \<and> ms ! (q ! k) = Inside"
  using assms by (simp_all add: queue_of_def)

lemma of_nat_u32_inject: "k < 2 ^ 32 \<Longrightarrow> l < 2 ^ 32 \<Longrightarrow> (of_nat k :: u32) = of_nat l \<longleftrightarrow> k = l"
  by (simp add: word_of_nat_eq_iff take_bit_nat_eq_self)

lemma queue_length: "queue_of (t, ms) q \<Longrightarrow> length q \<le> length ms"
proof -
  assume "queue_of (t, ms) q"
  then have "distinct q" "set q \<subseteq> {..<length ms}" by (auto simp: queue_of_def)
  then have "card (set q) \<le> card {..<length ms}" by (intro card_mono) auto
  then show ?thesis using distinct_card [OF \<open>distinct q\<close>] by simp
qed

text \<open>The thread whose ticket is served is the first of the queue.\<close>

lemma served_is_first:
  assumes "queue_of (t, ms) q" "length ms < 2 ^ 32" "i < length ms" "ms ! i = Inside \<or> ms ! i = Queued (tl_now_serving t)"
  shows "\<exists>q'. q = i # q'"
proof -
  have "i \<in> set q" using assms(1,3,4) by (auto simp: queue_of_def)
  then obtain k where k: "k < length q" "q ! k = i" by (metis in_set_conv_nth)
  have m: "ms ! i = Queued (tl_now_serving t + of_nat k) \<or> k = 0 \<and> ms ! i = Inside"
    using assms(1) k by (auto simp: queue_of_def)
  have "k = 0"
  proof (cases "ms ! i = Inside")
    case True
    then show ?thesis using m by simp
  next
    case False
    then have "(of_nat k :: u32) = of_nat 0" using m assms(4) by simp
    moreover have "k < 2 ^ 32" using k(1) queue_length [OF assms(1)] assms(2) by simp
    ultimately show ?thesis using of_nat_u32_inject [of k 0] by simp
  qed
  then show ?thesis using k by (cases q) auto
qed

lemma take_refines:
  assumes q: "queue_of (t, ms) q" and i: "i < length ms" "ms ! i = Outside" and t: "lock_take t = (my_ticket, t')"
  shows "i \<notin> set q \<and> queue_of (t', ms[i := Queued my_ticket]) (q @ [i])"
proof
  show new: "i \<notin> set q" using queue_ofD(2) [OF q] i by auto
  have m: "my_ticket = tl_now_serving t + of_nat (length q)" "t' = t\<lparr>tl_next_ticket := tl_next_ticket t + 1\<rparr>"
    using t queue_ofD(3) [OF q] by (auto simp: lock_take_def)
  show "queue_of (t', ms[i := Queued my_ticket]) (q @ [i])"
  proof (rule queue_ofI)
    show "distinct (q @ [i])" using queue_ofD(1) [OF q] new by simp
    show "set (q @ [i]) = {k. k < length (ms[i := Queued my_ticket]) \<and> ms[i := Queued my_ticket] ! k \<noteq> Outside}"
      using queue_ofD(2) [OF q] i by (auto simp: nth_list_update)
    show "tl_next_ticket t' = tl_now_serving t' + of_nat (length (q @ [i]))" using queue_ofD(3) [OF q] m(2) by simp
    fix k assume k: "k < length (q @ [i])"
    show "ms[i := Queued my_ticket] ! ((q @ [i]) ! k) = Queued (tl_now_serving t' + of_nat k)
        \<or> k = 0 \<and> ms[i := Queued my_ticket] ! ((q @ [i]) ! k) = Inside"
    proof (cases "k < length q")
      case True
      then have "i \<noteq> q ! k" using new nth_mem by metis
      then show ?thesis using queue_ofD(4) [OF q True] True m(2) by (simp add: nth_append)
    next
      case False
      then have "k = length q" using k by simp
      then show ?thesis using i(1) m by (simp add: nth_append)
    qed
  qed
qed

lemma enter_refines:
  assumes q: "queue_of (t, ms) (i # q)" and i: "i < length ms"
  shows "queue_of (t, ms[i := Inside]) (i # q)"
proof (rule queue_ofI)
  show "distinct (i # q)" "tl_next_ticket t = tl_now_serving t + of_nat (length (i # q))" using queue_ofD(1,3) [OF q] by simp_all
  show "set (i # q) = {k. k < length (ms[i := Inside]) \<and> ms[i := Inside] ! k \<noteq> Outside}"
    using queue_ofD(2) [OF q] i by (auto simp: nth_list_update)
  fix k assume k: "k < length (i # q)"
  show "ms[i := Inside] ! ((i # q) ! k) = Queued (tl_now_serving t + of_nat k) \<or> k = 0 \<and> ms[i := Inside] ! ((i # q) ! k) = Inside"
  proof (cases k)
    case 0
    then show ?thesis using i by simp
  next
    case (Suc j)
    then have "i \<noteq> q ! j" using queue_ofD(1) [OF q] k nth_mem [of j q] by auto
    then show ?thesis using queue_ofD(4) [OF q k] Suc by simp
  qed
qed

lemma leave_refines:
  assumes q: "queue_of (t, ms) (i # q)" and i: "i < length ms"
  shows "queue_of (ticket_unlock t, ms[i := Outside]) q"
proof (rule queue_ofI)
  show "distinct q" using queue_ofD(1) [OF q] by simp
  have "tl_next_ticket t = tl_now_serving t + of_nat (Suc (length q))" using queue_ofD(3) [OF q] by simp
  then show "tl_next_ticket (ticket_unlock t) = tl_now_serving (ticket_unlock t) + of_nat (length q)"
    by (simp add: ticket_unlock_def add.assoc)
  have "set q = set (i # q) - {i}" using queue_ofD(1) [OF q] by auto
  also have "\<dots> = {k. k < length ms \<and> ms ! k \<noteq> Outside} - {i}" by (simp only: queue_ofD(2) [OF q])
  also have "\<dots> = {k. k < length (ms[i := Outside]) \<and> ms[i := Outside] ! k \<noteq> Outside}"
    using i by (auto simp: nth_list_update)
  finally show "set q = {k. k < length (ms[i := Outside]) \<and> ms[i := Outside] ! k \<noteq> Outside}" .
  fix k assume k: "k < length q"
  then have "i \<noteq> q ! k" using queue_ofD(1) [OF q] nth_mem [of k q] by auto
  then show "ms[i := Outside] ! (q ! k) = Queued (tl_now_serving (ticket_unlock t) + of_nat k) \<or> k = 0 \<and> ms[i := Outside] ! (q ! k) = Inside"
    using queue_ofD(4) [OF q, of "Suc k"] k by (simp add: ticket_unlock_def add.assoc)
qed

lemma ticket_step_refines:
  assumes "ticket_step s s'" "queue_of s q" "length (snd s) < 2 ^ 32"
  shows "\<exists>q'. queue_step q q' \<and> queue_of s' q'"
  using assms
proof (cases rule: ticket_step.cases)
  case (take_ticket i ms t my_ticket t')
  then show ?thesis using take_refines [of t ms q i] assms(2) append_thread by blast
next
  case (enter_lock i ms my_ticket t)
  then obtain q' where q: "q = i # q'" using served_is_first [of t ms q i] assms(2,3) by (auto simp: lock_served_def)
  then show ?thesis using enter_lock enter_refines assms(2) serve_first by blast
next
  case (leave_lock i ms t)
  then obtain q' where "q = i # q'" using served_is_first [of t ms q i] assms(2,3) by auto
  then show ?thesis using leave_lock leave_refines assms(2) remove_first by blast
qed

lemma ticket_reach_queue:
  assumes "ticket_reach n s" "n < 2 ^ 32"
  shows "\<exists>q. queue_of s q" "length (snd s) = n"
proof -
  have "(\<exists>q. queue_of s q) \<and> length (snd s) = n"
    using assms
  proof (induction rule: ticket_reach.induct)
    case ticket_init
    show ?case by (intro conjI exI [of _ "[]"]) (simp_all add: queue_of_def TicketLock_new_def)
  next
    case (ticket_next s s')
    then have "length (snd s') = length (snd s)" by (auto elim!: ticket_step.cases)
    then show ?case using ticket_next ticket_step_refines [of s s'] by auto
  qed
  then show "\<exists>q. queue_of s q" "length (snd s) = n" by blast+
qed

section \<open>Properties\<close>

text \<open>
  C25. The ticket lock is fair and excludes.  With fewer than \<open>2 ^ 32\<close> threads, the reachable states of the lock stand for queues of threads, and each atomic
  access appends a thread, serves the first or removes the first: threads get the lock in the order of their
  tickets, across every wrap of the counters.  At most one thread is inside; and whenever threads are queued
  and nobody is inside, the first of them can enter.
\<close>

theorem ticket_lock_fifo:
  assumes "ticket_reach n (t, ms)" "n < 2 ^ 32"
  shows "\<exists>q. queue_of (t, ms) q
    \<and> (\<forall>s'. ticket_step (t, ms) s' \<longrightarrow> (\<exists>q'. queue_step q q' \<and> queue_of s' q'))
    \<and> (\<forall>i<n. ms ! i = Inside \<longrightarrow> (\<exists>q'. q = i # q'))
    \<and> (q \<noteq> [] \<longrightarrow> ms ! hd q = Inside \<or> ticket_step (t, ms) (t, ms[hd q := Inside]))"
proof -
  obtain q where q: "queue_of (t, ms) q" using ticket_reach_queue(1) [OF assms] by blast
  have n: "length ms = n" using ticket_reach_queue(2) [OF assms] by simp
  have "ms ! hd q = Inside \<or> ticket_step (t, ms) (t, ms[hd q := Inside])" if "q \<noteq> []"
  proof -
    have "hd q < length ms" using queue_ofD(2) [OF q] that hd_in_set by blast
    then show ?thesis
      using queue_ofD(4) [OF q, of 0] that enter_lock [of "hd q" ms "tl_now_serving t" t] by (auto simp: hd_conv_nth lock_served_def)
  qed
  moreover have "\<exists>q'. q = i # q'" if "i < n" "ms ! i = Inside" for i
    using served_is_first [OF q] that assms(2) n by blast
  ultimately show ?thesis using q ticket_step_refines [OF _ q] assms(2) n by auto
qed

theorem ticket_lock_fifo_witness:
  "\<exists>q. queue_of (\<lparr>tl_next_ticket = 2, tl_now_serving = 0\<rparr>, [Queued 1, Inside]) (1 # q)"
proof -
  have "ticket_reach 2 (TicketLock_new, [Outside, Outside])" using ticket_init [of 2] by (simp add: numeral_2_eq_2)
  moreover have "ticket_step (TicketLock_new, [Outside, Outside]) (\<lparr>tl_next_ticket = 1, tl_now_serving = 0\<rparr>, [Outside, Queued 0])"
    using take_ticket [of 1 "[Outside, Outside]" TicketLock_new 0 "\<lparr>tl_next_ticket = 1, tl_now_serving = 0\<rparr>"] by (simp add: lock_take_def TicketLock_new_def)
  moreover have "ticket_step (\<lparr>tl_next_ticket = 1, tl_now_serving = 0\<rparr>, [Outside, Queued 0]) (\<lparr>tl_next_ticket = 2, tl_now_serving = 0\<rparr>, [Queued 1, Queued 0])"
    using take_ticket [of 0 "[Outside, Queued 0]" "\<lparr>tl_next_ticket = 1, tl_now_serving = 0\<rparr>" 1 "\<lparr>tl_next_ticket = 2, tl_now_serving = 0\<rparr>"] by (simp add: lock_take_def)
  moreover have "ticket_step (\<lparr>tl_next_ticket = 2, tl_now_serving = 0\<rparr>, [Queued 1, Queued 0]) (\<lparr>tl_next_ticket = 2, tl_now_serving = 0\<rparr>, [Queued 1, Inside])"
    using enter_lock [of 1 "[Queued 1, Queued 0]" 0 "\<lparr>tl_next_ticket = 2, tl_now_serving = 0\<rparr>"] by (simp add: lock_served_def)
  ultimately have "ticket_reach 2 (\<lparr>tl_next_ticket = 2, tl_now_serving = 0\<rparr>, [Queued 1, Inside])" by (meson ticket_next)
  from ticket_lock_fifo [OF this] obtain q where
    q: "queue_of (\<lparr>tl_next_ticket = 2, tl_now_serving = 0\<rparr>, [Queued 1, Inside]) q" "\<forall>i<2. [Queued 1, Inside] ! i = Inside \<longrightarrow> (\<exists>q'. q = i # q')"
    by auto
  have "\<exists>q'. q = 1 # q'" using q(2) [rule_format, of 1] by simp
  then show ?thesis using q(1) by blast
qed

end
