(* ===== verification/Spec2Isabelle.thy ===== *)
theory Spec2Isabelle
  imports UnicastRun MulticastJoin Unreliable FileTransfer Benchmark Device TicketLocks
begin

text \<open>
  A verification library for \<open>rapid-transfer\<close>, which sends and receives buffers between processes over RDMA devices.

  \<^bold>\<open>The program.\<close>  A user creates an engine (\<open>RapidTransfer\<close>, \<open>src/src/rapid_transfer.cpp\<close>) for one of three
  protocols and calls \<open>send\<close>, \<open>receive\<close>, \<open>getStatus\<close>, \<open>freeTask\<close> and \<open>runStep\<close>.  The engine connects to a peer
  on first use: \<open>SessionManager\<close> (\<open>session_manager.cpp\<close>) exchanges attributes as JSON through a remote procedure call,
  and the protocol makes them and takes them in.  The reliable protocol (\<open>protocols/rdma_reliable\<close>) posts the buffers of a
  task to connected queue pairs.  The unreliable protocols (\<open>protocols/rdma_unreliable\<close>) implement a sliding window
  over datagrams: \<open>PacketManager\<close> owns a pool of packet buffers and for each session a send queue, a receive queue
  and a multicast send queue; \<open>Context\<close> and \<open>ContextMcast\<close> move packets between these queues and the
  endpoints, with acknowledgements, retransmission and congestion control; \<open>Controller\<close> assigns session numbers.
  \<open>protocols/common\<close> has the device, the endpoints and multicast groups, \<open>concurrency.h\<close> the locks, and \<open>example\<close> two
  programs that use the engine.

  \<^bold>\<open>Conventions\<close> (\<open>Prelude\<close>).  Machine integers and pointers are words of their width.  Memory is a function from addresses
  to bytes.  An object is a record with its members, a method a function that returns the result and the updated
  object.  A division by zero, a failed assertion, an abort, a null pointer, the use of a deleted object and an exception are
  values of \<open>fault\<close>; an operation that may end in one has a result of type \<open>outcome\<close>.  Code outside the
  repository (the verbs library, the kernel, JSON, remote calls, NUMA) is an argument of the definitions that use it, and
  what is relied on is a named predicate (\<open>rc_grants\<close>, \<open>reg_mr_ok\<close>, \<open>json_ok\<close> and others).  Time, random numbers, the
  result of a poll and the order in which a hash map is traversed are arguments as well.

  \<^bold>\<open>The theories.\<close>

  \<^item> \<open>SeqRing\<close>, \<open>Packet\<close>, \<open>BufferPool\<close>, \<open>SecondaryQueue\<close>, \<open>Window\<close>, \<open>SendQueue\<close>, \<open>McastSendQueue\<close>,
    \<open>ReceiveQueue\<close>, \<open>PacketManager\<close>: \<open>packet_manager.{h,cpp}\<close>.  The free list of the pool is a chain of pointers in byte
    memory, the queues are rings of handles.  Each queue has an abstract specification, a list of fragments, and the lemmas
    show that \<open>push\<close>, \<open>markCompleted\<close> and the filling of the window implement it; headers that are written
    are read back; a buffer is never handed out twice.
  \<^item> \<open>EndToEnd\<close>: a send queue and a receive queue over a network that loses, repeats and reorders.  What is acknowledged was
    delivered unchanged (safety), and every packet in the window can still be delivered and acknowledged (liveness).
  \<^item> \<open>Congestion\<close>, \<open>Context\<close>, \<open>ContextMcast\<close>: \<open>context.{h,cpp}\<close> and \<open>context_mcast.{h,cpp}\<close>.  The timer is exact, only
    packets that are due are sent, statuses are right below \<open>2 ^ 24\<close> packets, and how sessions get stuck.
  \<^item> \<open>Transmit\<close>, \<open>UnicastLink\<close>, \<open>UnicastDelivery\<close>, \<open>UnicastRun\<close>: two whole contexts that call these operations in any order.
    Their steps are steps of \<open>EndToEnd\<close>, so that the data in the buffers of a receiver is what was sent, and a task
    that reports success has arrived.
  \<^item> \<open>MemoryRegions\<close>, \<open>Device\<close>, \<open>Endpoint\<close>, \<open>PostRequest\<close>, \<open>UDEndpoint\<close>, \<open>RCEndpoint\<close>, \<open>MulticastJoin\<close>: \<open>protocols/common\<close>.
    Registered regions stay disjoint, the device gives its resources back once, the depth counters are
    the requests in flight, and joining a group is a race between \<open>construct\<close> and the event thread.
  \<^item> \<open>TextCodec\<close>, \<open>Controller\<close>: \<open>controller.{h,cpp}\<close> and the texts of the attributes.  Attributes are read back as they
    were written, and sessions are unambiguous.
  \<^item> \<open>Reliable\<close>: \<open>rdma_reliable/impl.{h,cpp}\<close> with its heap of requests.  For clients that free tasks after success
    only there is no fault, and a task that fits completes; what happens otherwise is shown too.
  \<^item> \<open>Session\<close>, \<open>Engine\<close>, \<open>ReliableEngine\<close>, \<open>Unreliable\<close>: the engine over the interface of a protocol, and the three protocols as
    instances of it.  Two engines that run the handshake are connected.
  \<^item> \<open>Concurrency\<close>, \<open>TicketLocks\<close>: \<open>concurrency.h\<close>, as step relations of interleaved atomic accesses.
  \<^item> \<open>FileTransfer\<close>, \<open>Benchmark\<close>: the two sample programs.  The received file is the file that was sent; senders of the
    benchmark select existing receivers, and the slots of the outstanding tasks do not overlap.

  \<^bold>\<open>Interfaces.\<close>  \<open>ring\<close> (slots of a ring), \<open>packet_store\<close> (what queues need of the pool), \<open>fill_window\<close> (the loop that fills
  a window), \<open>registry\<close> (accessors that create on first use), \<open>wr_queue\<close> (posting below a limit) and
  \<open>connection_protocol\<close> (the two halves of a handshake) are locales, each interpreted on the definitions of
  the components that provide it.

  \<^bold>\<open>Bounds and loops.\<close>  Loops over lists or towards a bound are total functions.  Loops that need not end have the result None for
  not returning: waiting for a completion, sending until it succeeds and the ports of the warm-up are partial functions; reading and writing
  fully use up a list of answers of the kernel.  For the waits and the file the theorems say when they return; of the
  warm-up and the retried sends of the benchmark it is only said what holds when they do.  \<open>send_rounds\<close> counts the rounds until \<open>g_running\<close> is
  cleared.  The capacity of a ring divides \<open>2 ^ 24\<close> and is larger than the window, as with the defaults; a packet
  does not outlive \<open>2 ^ 24 - 2 ^ 16\<close> later ones, since 24-bit numbers repeat; locks have fewer threads than their counters
  count.

  \<^bold>\<open>Not modelled.\<close>  Logging and statistics; the code of third-party libraries; preemption inside operations of the
  contexts, which hold their locks (the locks themselves and the join of a multicast group are modelled with
  interleaving).  Of \<open>rdma_multicast.cpp\<close> the lookup of interface addresses, the start of the thread and \<open>deconstruct\<close>, which are
  system calls only.  Of the sample programs the parsing of flags, the start of threads, the barrier, sleeping and the printed
  rates, and of \<open>file_transfer.cpp\<close> the memory pools.  The tests and the build files.
\<close>

end
